(* ===== verification/Prelude.thy ===== *)
theory Prelude
  imports Complex_Main "HOL-Library.List_Lexorder" "HOL-Library.Char_ord"
begin

text \<open>
  What the components share: the conventions of the translation from Python, the result type of
  fallible code, string operations of Python's \<open>str\<close>, and the list lemmas the component proofs
  use.

  Conventions.
  \<^item> A Python \<open>str\<close> is a \<open>string\<close>; a \<open>char\<close> stands for the code point of the same number, so the
    strings of the model are those over the code points 0 to 255.
  \<^item> A Python \<open>int\<close> is an \<open>int\<close>. A \<open>float\<close> is a \<open>pyfloat\<close>: a finite value is the rational it
    denotes, and the two infinities and NaN are values of their own. Rounding of float
    operations is not modelled: sums and quotients of finite values are exact.
  \<^item> A raise is \<open>Inl\<close> of an error, a return is \<open>Inr\<close>.
\<close>

section \<open>Results\<close>

type_synonym ('e, 'a) result = "'e + 'a"

fun bind_res :: "('e, 'a) result \<Rightarrow> ('a \<Rightarrow> ('e, 'b) result) \<Rightarrow> ('e, 'b) result" where
  "bind_res (Inl e) f = Inl e"
| "bind_res (Inr x) f = f x"

lemma bind_res_Inr_iff: "bind_res r f = Inr y \<longleftrightarrow> (\<exists>x. r = Inr x \<and> f x = Inr y)"
  by (cases r) auto

lemma bind_res_Inl_iff: "bind_res r f = Inl e \<longleftrightarrow> r = Inl e \<or> (\<exists>x. r = Inr x \<and> f x = Inl e)"
  by (cases r) auto

text \<open>The comprehension \<open>[x for x in xs if f(x)]\<close> whose condition may raise.\<close>

fun filter_res :: "('a \<Rightarrow> ('e, bool) result) \<Rightarrow> 'a list \<Rightarrow> ('e, 'a list) result" where
  "filter_res f [] = Inr []"
| "filter_res f (x # xs) =
     bind_res (f x) (\<lambda>b. bind_res (filter_res f xs) (\<lambda>ys. Inr (if b then x # ys else ys)))"

lemma filter_res_total:
  assumes "\<And>x. x \<in> set xs \<Longrightarrow> f x = Inr (p x)"
  shows "filter_res f xs = Inr (filter p xs)"
  using assms by (induction xs) auto

lemma filter_res_cong:
  assumes "\<And>x. x \<in> set xs \<Longrightarrow> f x = g x"
  shows "filter_res f xs = filter_res g xs"
  using assms by (induction xs) auto

text \<open>Elements on which the condition returns \<open>False\<close> may be dropped beforehand.\<close>

lemma filter_res_drop:
  assumes "\<And>x. x \<in> set xs \<Longrightarrow> \<not> keep x \<Longrightarrow> f x = Inr False"
  shows "filter_res f (filter keep xs) = filter_res f xs"
  using assms
proof (induction xs)
  case (Cons x xs)
  then have IH: "filter_res f (filter keep xs) = filter_res f xs" by simp
  show ?case
  proof (cases "keep x")
    case False
    then have "f x = Inr False" using Cons.prems by simp
    then show ?thesis using False IH by (cases "filter_res f xs") auto
  qed (simp add: IH)
qed simp

lemma filter_res_subset: "filter_res f xs = Inr ys \<Longrightarrow> set ys \<subseteq> set xs"
  by (induction xs arbitrary: ys) (auto simp: bind_res_Inr_iff split: if_splits)

lemma filter_res_Inr_mem:
  "filter_res f xs = Inr ys \<Longrightarrow> x \<in> set ys \<longleftrightarrow> x \<in> set xs \<and> f x = Inr True"
  by (induction xs arbitrary: ys) (auto simp: bind_res_Inr_iff split: if_splits)

lemma filter_res_Inr_all: "filter_res f xs = Inr ys \<Longrightarrow> x \<in> set xs \<Longrightarrow> \<exists>b. f x = Inr b"
  by (induction xs arbitrary: ys) (auto simp: bind_res_Inr_iff)

section \<open>Loops\<close>

lemma fold_keeps:
  assumes "P d" and "\<And>x d. x \<in> set xs \<Longrightarrow> P d \<Longrightarrow> P (F x d)"
  shows "P (fold F xs d)"
  using assms by (induction xs arbitrary: d) auto

section \<open>Floats\<close>

datatype pyfloat = Fin rat | PInf | NInf | NaN

fun finite_float :: "pyfloat \<Rightarrow> rat option" where
  "finite_float (Fin q) = Some q"
| "finite_float _ = None"

section \<open>Python strings\<close>

text \<open>\<open>str.strip()\<close> removes the characters for which \<open>str.isspace\<close> holds.\<close>

definition is_py_space :: "char \<Rightarrow> bool" where
  "is_py_space c =
     (let n = (of_char c :: nat) in (9 \<le> n \<and> n \<le> 13) \<or> (28 \<le> n \<and> n \<le> 32) \<or> n = 133 \<or> n = 160)"

definition rstrip_by :: "(char \<Rightarrow> bool) \<Rightarrow> string \<Rightarrow> string" where
  "rstrip_by p s = rev (dropWhile p (rev s))"

definition py_strip :: "string \<Rightarrow> string" where
  "py_strip s = rstrip_by is_py_space (dropWhile is_py_space s)"

text \<open>\<open>s.split(c)\<close>: never empty, and the separator occurs in no part.\<close>

fun split_on :: "char \<Rightarrow> string \<Rightarrow> string list" where
  "split_on c [] = [[]]"
| "split_on c (x # xs) =
     (if x = c then [] # split_on c xs
      else case split_on c xs of [] \<Rightarrow> [[x]] | p # ps \<Rightarrow> (x # p) # ps)"

lemma split_on_nonempty [simp]: "split_on c s \<noteq> []"
  by (induction s) (auto split: list.splits)

lemma split_on_no_sep: "p \<in> set (split_on c s) \<Longrightarrow> c \<notin> set p"
  by (induction s arbitrary: p) (auto split: list.splits if_splits)

fun join_with :: "char \<Rightarrow> string list \<Rightarrow> string" where
  "join_with c [] = []"
| "join_with c [p] = p"
| "join_with c (p # q # ps) = p @ c # join_with c (q # ps)"

lemma join_Cons: "ps \<noteq> [] \<Longrightarrow> join_with c (p # ps) = p @ c # join_with c ps"
  by (cases ps) auto

lemma join_split: "join_with c (split_on c s) = s"
proof (induction s)
  case (Cons x xs)
  obtain p ps where "split_on c xs = p # ps" by (cases "split_on c xs") auto
  with Cons show ?case by (cases ps) (auto simp: join_Cons)
qed simp

lemma split_on_append: "c \<notin> set p \<Longrightarrow> split_on c (p @ c # s) = p # split_on c s"
  by (induction p) auto

lemma split_on_simple: "c \<notin> set p \<Longrightarrow> split_on c p = [p]"
  by (induction p) auto

lemma split_join:
  assumes "ps \<noteq> []" and "\<forall>p\<in>set ps. c \<notin> set p"
  shows "split_on c (join_with c ps) = ps"
  using assms by (induction c ps rule: join_with.induct) (auto simp: split_on_append split_on_simple)

end
