(* ===== verification/Globs.thy ===== *)
theory Globs
  imports Prelude
begin

text \<open>
  The glob algebra of \<open>omd_server/disjoint.py\<close>: normalisation of a declared path pattern, the
  overlap test of two patterns (the disjointness oracle of the whole coordinator) and the exact
  match of a concrete path against a pattern (the write-set audit). The memo tables
  (\<open>lru_cache\<close>) have no effect on the results and are left out; the index pairs \<open>(i, j)\<close> of the
  source are the suffixes they start.
\<close>

section \<open>Normalisation\<close>

definition dot_or_slash :: "char \<Rightarrow> bool" where
  "dot_or_slash c \<longleftrightarrow> c = CHR ''.'' \<or> c = CHR ''/''"

definition is_wild :: "char \<Rightarrow> bool" where
  "is_wild c \<longleftrightarrow> c = CHR ''*'' \<or> c = CHR ''?'' \<or> c = CHR ''[''"

definition rstrip_slash :: "string \<Rightarrow> string" where
  "rstrip_slash = rstrip_by (\<lambda>c. c = CHR ''/'')"

text \<open>\<open>head.rsplit("/", 1)[0]\<close> of a string that contains a slash: what precedes the last one.\<close>

definition before_last_slash :: "string \<Rightarrow> string" where
  "before_last_slash s = rev (tl (dropWhile (\<lambda>c. c \<noteq> CHR ''/'') (rev s)))"

definition glob_prefix :: "string \<Rightarrow> string" where
  "glob_prefix g0 =
     (let g = dropWhile dot_or_slash (py_strip g0)
      in if \<not> list_ex is_wild g then rstrip_slash g
         else let head = takeWhile (\<lambda>c. \<not> is_wild c) g
              in if List.member head (CHR ''/'') then rstrip_slash (before_last_slash head)
                 else [])"

definition norm_glob :: "string \<Rightarrow> string" where
  "norm_glob g0 =
     (let g = dropWhile dot_or_slash (py_strip g0)
      in if g \<noteq> [] \<and> last g = CHR ''/'' then g @ ''**'' else g)"

definition glob_segments :: "string \<Rightarrow> string list" where
  "glob_segments g = split_on (CHR ''/'') (norm_glob g)"

section \<open>Overlap of two patterns\<close>

fun seg_go :: "string \<Rightarrow> string \<Rightarrow> bool" where
  "seg_go [] [] = True"
| "seg_go (x # a) [] = (x = CHR ''*'' \<and> seg_go a [])"
| "seg_go [] (y # b) = (y = CHR ''*'' \<and> seg_go [] b)"
| "seg_go (x # a) (y # b) =
     (if x = CHR ''*'' then seg_go a (y # b) \<or> seg_go (x # a) b
      else if y = CHR ''*'' then seg_go (x # a) b \<or> seg_go a (y # b)
      else if x = CHR ''?'' \<or> y = CHR ''?'' \<or> x = y then seg_go a b
      else False)"

definition has_class :: "string \<Rightarrow> bool" where
  "has_class s \<longleftrightarrow> List.member s (CHR ''['')"

definition seg_intersect :: "string \<Rightarrow> string \<Rightarrow> bool" where
  "seg_intersect a b = (if has_class a \<or> has_class b then True else seg_go a b)"

fun path_go :: "string list \<Rightarrow> string list \<Rightarrow> bool" where
  "path_go [] [] = True"
| "path_go (x # a) [] = (x = ''**'' \<and> path_go a [])"
| "path_go [] (y # b) = (y = ''**'' \<and> path_go [] b)"
| "path_go (x # a) (y # b) =
     (if x = ''**'' then path_go a (y # b) \<or> path_go (x # a) b
      else if y = ''**'' then path_go (x # a) b \<or> path_go a (y # b)
      else if seg_intersect x y then path_go a b
      else False)"

definition globs_overlap :: "string \<Rightarrow> string \<Rightarrow> bool" where
  "globs_overlap g1 g2 = (if g1 = g2 then True else path_go (glob_segments g1) (glob_segments g2))"

definition sets_overlap :: "string list \<Rightarrow> string list \<Rightarrow> bool" where
  "sets_overlap s1 s2 = list_ex (\<lambda>a. list_ex (\<lambda>b. globs_overlap a b) s2) s1"

section \<open>Exact match of a concrete path\<close>

text \<open>
  \<open>fnmatch.fnmatchcase\<close> of the standard library, on one segment: a pattern is a list of tokens; a
  bracket opens a character class if it is closed later (the first character of the class, after
  an optional \<open>!\<close>, may be a closing bracket), and is a literal otherwise.
\<close>

datatype class_item = Single char | Range char char

datatype token = Lit char | AnyChar | AnyRun | Class bool "class_item list"

fun class_items :: "string \<Rightarrow> class_item list" where
  "class_items (c # d # e # cs) =
     (if d = CHR ''-'' then Range c e # class_items cs else Single c # class_items (d # e # cs))"
| "class_items (c # cs) = Single c # class_items cs"
| "class_items [] = []"

text \<open>The body of a class and what follows it, from the text after the opening bracket.\<close>

definition class_split :: "string \<Rightarrow> (bool \<times> string \<times> string) option" where
  "class_split s =
     (let neg = (s \<noteq> [] \<and> hd s = CHR ''!'');
          r = (if neg then tl s else s);
          first = (if r \<noteq> [] \<and> hd r = CHR '']'' then '']'' else []);
          r2 = drop (length first) r;
          body = takeWhile (\<lambda>c. c \<noteq> CHR '']'') r2;
          rest = dropWhile (\<lambda>c. c \<noteq> CHR '']'') r2
      in if rest = [] then None else Some (neg, first @ body, tl rest))"

lemma class_split_shorter:
  assumes "class_split s = Some (n, b, r)"
  shows "length r < length s"
proof -
  define u where "u = (if s \<noteq> [] \<and> hd s = CHR ''!'' then tl s else s)"
  define k where "k = length (if u \<noteq> [] \<and> hd u = CHR '']'' then '']'' else [])"
  define w where "w = dropWhile (\<lambda>c. c \<noteq> CHR '']'') (drop k u)"
  have "w \<noteq> []" and r: "r = tl w"
    using assms by (simp_all add: class_split_def Let_def u_def [symmetric] k_def [symmetric]
        w_def [symmetric] split: if_split_asm del: dropWhile_eq_Nil_conv)
  have "length w \<le> length (drop k u)" unfolding w_def by (rule length_dropWhile_le)
  also have "\<dots> \<le> length u" by simp
  also have "\<dots> \<le> length s" by (simp add: u_def)
  finally show ?thesis using \<open>w \<noteq> []\<close> r by (cases w) auto
qed

function tokens :: "string \<Rightarrow> token list" where
  "tokens [] = []"
| "tokens (c # s) =
     (if c = CHR ''*'' then AnyRun # tokens s
      else if c = CHR ''?'' then AnyChar # tokens s
      else if c = CHR ''['' then
        (case class_split s of
           None \<Rightarrow> Lit c # tokens s
         | Some (neg, body, rest) \<Rightarrow> Class neg (class_items body) # tokens rest)
      else Lit c # tokens s)"
  by pat_completeness auto
termination
  by (relation "measure length") (auto dest!: class_split_shorter)

fun item_matches :: "char \<Rightarrow> class_item \<Rightarrow> bool" where
  "item_matches c (Single d) \<longleftrightarrow> c = d"
| "item_matches c (Range lo hi) \<longleftrightarrow> lo \<le> c \<and> c \<le> hi"

fun tokens_match :: "token list \<Rightarrow> string \<Rightarrow> bool" where
  "tokens_match [] s = (s = [])"
| "tokens_match (AnyRun # ts) [] = tokens_match ts []"
| "tokens_match (AnyRun # ts) (c # s) = (tokens_match ts (c # s) \<or> tokens_match (AnyRun # ts) s)"
| "tokens_match (_ # ts) [] = False"
| "tokens_match (Lit d # ts) (c # s) = (c = d \<and> tokens_match ts s)"
| "tokens_match (AnyChar # ts) (c # s) = tokens_match ts s"
| "tokens_match (Class neg items # ts) (c # s) =
     ((list_ex (item_matches c) items \<noteq> neg) \<and> tokens_match ts s)"

definition seg_match :: "string \<Rightarrow> string \<Rightarrow> bool" where
  "seg_match pat seg = tokens_match (tokens pat) seg"

fun match_go :: "string list \<Rightarrow> string list \<Rightarrow> bool" where
  "match_go [] p = (p = [])"
| "match_go (g # gs) [] = (if g = ''**'' then match_go gs [] else False)"
| "match_go (g # gs) (s # p) =
     (if g = ''**'' then (if match_go gs (s # p) then True else match_go (g # gs) p)
      else if seg_match g s then match_go gs p
      else False)"

definition path_segments :: "string \<Rightarrow> string list" where
  "path_segments p = split_on (CHR ''/'') (dropWhile dot_or_slash (py_strip p))"

definition path_matches_glob :: "string \<Rightarrow> string \<Rightarrow> bool" where
  "path_matches_glob g p = match_go (glob_segments g) (path_segments p)"

definition path_in_globs :: "string \<Rightarrow> string list \<Rightarrow> bool" where
  "path_in_globs p gs = list_ex (\<lambda>g. path_matches_glob g p) gs"

section \<open>The overlap algorithm, once for characters and once for segments\<close>

text \<open>
  \<open>seg_go\<close> and \<open>path_go\<close> are the same algorithm over two alphabets of pattern items: one item is
  the run (\<open>*\<close>, \<open>**\<close>), the others match one element. The contract fixes the algorithm and the
  matcher by their equations and asks that two items that match a common element are compatible.
\<close>

locale wildcard_overlap =
  fixes star :: "'p"
    and item :: "'p \<Rightarrow> 'a \<Rightarrow> bool"
    and compat :: "'p \<Rightarrow> 'p \<Rightarrow> bool"
    and go :: "'p list \<Rightarrow> 'p list \<Rightarrow> bool"
    and mt :: "'p list \<Rightarrow> 'a list \<Rightarrow> bool"
  assumes go_NN: "go [] []"
    and go_CN: "go (x # a) [] \<longleftrightarrow> x = star \<and> go a []"
    and go_NC: "go [] (y # b) \<longleftrightarrow> y = star \<and> go [] b"
    and go_CC: "go (x # a) (y # b) \<longleftrightarrow>
      (if x = star then go a (y # b) \<or> go (x # a) b
       else if y = star then go (x # a) b \<or> go a (y # b)
       else compat x y \<and> go a b)"
    and mt_N: "mt [] s \<longleftrightarrow> s = []"
    and mt_CN: "mt (x # a) [] \<longleftrightarrow> x = star \<and> mt a []"
    and mt_CC: "mt (x # a) (c # s) \<longleftrightarrow>
      (if x = star then mt a (c # s) \<or> mt (x # a) s else item x c \<and> mt a s)"
    and compatI: "item x c \<Longrightarrow> item y c \<Longrightarrow> compat x y"
begin

lemma mt_star: "mt (star # a) s \<longleftrightarrow> mt a s \<or> (\<exists>c t. s = c # t \<and> mt (star # a) t)"
  by (cases s) (auto simp: mt_CN mt_CC)

lemma go_sound: "mt a s \<Longrightarrow> mt b s \<Longrightarrow> go a b"
proof (induction "length a + length b + length s" arbitrary: a b s rule: less_induct)
  case less
  note IH = less.hyps
  show ?case
  proof (cases a)
    case Nil
    with less.prems have "s = []" by (simp add: mt_N)
    then show ?thesis
      using less.prems IH [of "[]" "tl b" "[]"] Nil by (cases b) (auto simp: go_NN go_NC mt_CN mt_N)
  next
    case a: (Cons x a')
    show ?thesis
    proof (cases b)
      case Nil
      with less.prems have "s = []" by (simp add: mt_N)
      then show ?thesis
        using less.prems IH [of a' "[]" "[]"] a Nil by (auto simp: go_CN mt_CN)
    next
      case b: (Cons y b')
      have sa: "mt a' s \<or> (\<exists>c t. s = c # t \<and> mt a t)" if "x = star"
        using less.prems(1) mt_star [of a' s] a that by auto
      have sb: "mt b' s \<or> (\<exists>c t. s = c # t \<and> mt b t)" if "y = star"
        using less.prems(2) mt_star [of b' s] b that by auto
      have ga: "go a' b" if "mt a' s" using IH [of a' b s] less.prems(2) a that by simp
      have gb: "go a b'" if "mt b' s" using IH [of a b' s] less.prems(1) b that by simp
      consider (xy) "x = star" "y = star" | (x) "x = star" "y \<noteq> star"
        | (y) "x \<noteq> star" "y = star" | (n) "x \<noteq> star" "y \<noteq> star" by blast
      then show ?thesis
      proof cases
        case xy
        have "go a b" if "s = c # t" "mt a t" "mt b t" for c t using IH [of a b t] that by simp
        then show ?thesis using sa [OF xy(1)] sb [OF xy(2)] ga gb xy a b by (auto simp: go_CC)
      next
        case x
        have "go a b'" if "s = c # t" "mt a t" for c t
          using IH [of a b' t] less.prems(2) that b x by (simp add: mt_CC)
        then show ?thesis using sa [OF x(1)] ga x a b by (auto simp: go_CC)
      next
        case y
        have "go a' b" if "s = c # t" "mt b t" for c t
          using IH [of a' b t] less.prems(1) that a y by (simp add: mt_CC)
        then show ?thesis using sb [OF y(2)] gb y a b by (auto simp: go_CC)
      next
        case n
        then obtain c t where s: "s = c # t" using less.prems(1) a by (cases s) (auto simp: mt_CN)
        then have "item x c" "item y c" "mt a' t" "mt b' t"
          using less.prems a b n by (auto simp: mt_CC)
        then show ?thesis using compatI IH [of a' b' t] n a b s by (simp add: go_CC)
      qed
    qed
  qed
qed

end

text \<open>
  The converse needs more of the alphabet: every good item other than the run matches something,
  and two compatible good items match a common element.
\<close>

locale exact_overlap = wildcard_overlap +
  fixes good :: "'p \<Rightarrow> bool"
  assumes inhabited: "good x \<Longrightarrow> x \<noteq> star \<Longrightarrow> \<exists>c. item x c"
    and compatD: "good x \<Longrightarrow> good y \<Longrightarrow> x \<noteq> star \<Longrightarrow> y \<noteq> star \<Longrightarrow> compat x y \<Longrightarrow>
      \<exists>c. item x c \<and> item y c"
begin

lemma extend_star:
  assumes "mt (star # a) s" and "mt b s" and "good y"
  shows "\<exists>t. mt (star # a) t \<and> mt (y # b) t"
proof (cases "y = star")
  case True
  then show ?thesis using assms mt_star [of b s] by blast
next
  case False
  then obtain c where "item y c" using inhabited assms(3) by blast
  then have "mt (star # a) (c # s) \<and> mt (y # b) (c # s)" using assms False by (simp add: mt_CC)
  then show ?thesis ..
qed

lemma go_complete:
  "go a b \<Longrightarrow> list_all good a \<Longrightarrow> list_all good b \<Longrightarrow> \<exists>s. mt a s \<and> mt b s"
proof (induction "length a + length b" arbitrary: a b rule: less_induct)
  case less
  note IH = less.hyps
  show ?case
  proof (cases a)
    case Nil
    show ?thesis
    proof (cases b)
      case Nil
      then show ?thesis using \<open>a = []\<close> by (auto simp: mt_N)
    next
      case (Cons y b')
      then show ?thesis
        using less.prems IH [of "[]" b'] Nil by (auto simp: go_NC mt_N mt_CN)
    qed
  next
    case a: (Cons x a')
    show ?thesis
    proof (cases b)
      case Nil
      then show ?thesis using less.prems IH [of a' "[]"] a by (auto simp: go_CN mt_N mt_CN)
    next
      case b: (Cons y b')
      have good: "good x" "good y" "list_all good a'" "list_all good b'"
        using less.prems a b by auto
      have ga: "\<exists>s. mt a' s \<and> mt b s" if "go a' b" using IH [of a' b] less.prems a that by simp
      have gb: "\<exists>s. mt a s \<and> mt b' s" if "go a b'" using IH [of a b'] less.prems b that by simp
      consider (x) "x = star" | (y) "x \<noteq> star" "y = star" | (n) "x \<noteq> star" "y \<noteq> star" by blast
      then show ?thesis
      proof cases
        case x
        then consider "go a' b" | "go a b'" using less.prems(1) a b by (auto simp: go_CC)
        then show ?thesis
        proof cases
          case 1
          then show ?thesis using ga a x mt_star [of a'] by blast
        next
          case 2
          then obtain s where "mt (star # a') s" "mt b' s" using gb a x by auto
          from extend_star [OF this good(2)] show ?thesis using a b x by blast
        qed
      next
        case y
        then consider "go a' b" | "go a b'" using less.prems(1) a b by (auto simp: go_CC)
        then show ?thesis
        proof cases
          case 1
          then obtain s where "mt (star # b') s" "mt a' s" using ga b y by auto
          from extend_star [OF this good(1)] show ?thesis using a b y by blast
        next
          case 2
          then show ?thesis using gb b y mt_star [of b'] by blast
        qed
      next
        case n
        then have "compat x y" "go a' b'" using less.prems(1) a b by (auto simp: go_CC)
        then obtain c s where "item x c" "item y c" "mt a' s" "mt b' s"
          using compatD [OF good(1,2) n] IH [of a' b'] good a b by auto
        then have "mt a (c # s) \<and> mt b (c # s)" using n a b by (simp add: mt_CC)
        then show ?thesis ..
      qed
    qed
  qed
qed

lemma go_iff: "list_all good a \<Longrightarrow> list_all good b \<Longrightarrow> go a b \<longleftrightarrow> (\<exists>s. mt a s \<and> mt b s)"
  using go_complete go_sound by blast

end

section \<open>Segments\<close>

fun char_token :: "char \<Rightarrow> token" where
  "char_token c = (if c = CHR ''*'' then AnyRun else if c = CHR ''?'' then AnyChar else Lit c)"

lemma tokens_class_free: "\<not> has_class a \<Longrightarrow> tokens a = map char_token a"
  by (induction a) (auto simp: has_class_def)

lemma char_tokens_inhabited: "\<exists>s. tokens_match (map char_token a) s"
proof (induction a)
  case (Cons x a)
  then obtain s where s: "tokens_match (map char_token a) s" ..
  have "tokens_match (map char_token (x # a)) (if x = CHR ''*'' then s else x # s)"
    using s by (cases s) auto
  then show ?case ..
qed (auto intro: exI [of _ "[]"])

interpretation segs: exact_overlap "CHR ''*''" "\<lambda>p c. p = CHR ''?'' \<or> p = c"
    "\<lambda>x y. x = CHR ''?'' \<or> y = CHR ''?'' \<or> x = y" seg_go
    "\<lambda>a s. tokens_match (map char_token a) s" "\<lambda>_. True"
  by unfold_locales auto

lemma seg_match_intersect: "seg_match a s \<Longrightarrow> seg_match b s \<Longrightarrow> seg_intersect a b"
  by (auto simp: seg_match_def seg_intersect_def tokens_class_free intro: segs.go_sound)

lemma seg_intersect_exact:
  assumes "\<not> has_class a" and "\<not> has_class b"
  shows "seg_intersect a b \<longleftrightarrow> (\<exists>s. seg_match a s \<and> seg_match b s)"
  using assms segs.go_iff [of a b]
  by (simp add: seg_match_def seg_intersect_def tokens_class_free list_all_iff)

lemma seg_match_inhabited: "\<not> has_class a \<Longrightarrow> \<exists>s. seg_match a s"
  using char_tokens_inhabited by (simp add: seg_match_def tokens_class_free)

text \<open>A segment without wildcard matches itself only.\<close>

definition literal :: "string \<Rightarrow> bool" where
  "literal a \<longleftrightarrow> \<not> list_ex is_wild a"

lemma literal_Cons: "literal (c # a) \<longleftrightarrow> \<not> is_wild c \<and> literal a"
  by (simp add: literal_def)

lemma literal_not_class: "literal a \<Longrightarrow> \<not> has_class a"
  by (induction a) (auto simp: literal_Cons has_class_def is_wild_def)

lemma literal_not_run: "literal a \<Longrightarrow> a \<noteq> ''**''"
  by (auto simp: literal_def is_wild_def)

lemma literal_tokens_match: "literal a \<Longrightarrow> tokens_match (map char_token a) s \<longleftrightarrow> s = a"
proof (induction a arbitrary: s)
  case (Cons c a)
  then have "c \<noteq> CHR ''*''" "c \<noteq> CHR ''?''" "literal a" by (auto simp: literal_Cons is_wild_def)
  then show ?case using Cons.IH by (cases s) auto
qed simp

lemma seg_match_literal: "literal a \<Longrightarrow> seg_match a s \<longleftrightarrow> s = a"
  by (simp add: seg_match_def tokens_class_free literal_not_class literal_tokens_match)

lemma seg_intersect_literal: "literal a \<Longrightarrow> literal b \<Longrightarrow> seg_intersect a b \<longleftrightarrow> a = b"
  by (auto simp: seg_intersect_exact literal_not_class seg_match_literal)

lemma seg_go_commute: "seg_go a b = seg_go b a"
  by (induction a b rule: seg_go.induct) auto

lemma seg_intersect_commute: "seg_intersect a b = seg_intersect b a"
  by (auto simp: seg_intersect_def seg_go_commute)

section \<open>Paths\<close>

interpretation paths: exact_overlap "''**''" seg_match seg_intersect path_go match_go
    "\<lambda>x. \<not> has_class x"
  by unfold_locales (auto simp: seg_match_intersect seg_intersect_exact seg_match_inhabited)

lemma path_go_commute: "path_go a b = path_go b a"
  by (induction a b rule: path_go.induct) (auto simp: seg_intersect_commute)

lemma globs_overlap_commute: "globs_overlap g1 g2 = globs_overlap g2 g1"
  by (auto simp: globs_overlap_def path_go_commute)

lemma sets_overlap_iff: "sets_overlap s1 s2 \<longleftrightarrow> (\<exists>a\<in>set s1. \<exists>b\<in>set s2. globs_overlap a b)"
  by (auto simp: sets_overlap_def list_ex_iff)

lemma sets_overlap_commute: "sets_overlap s1 s2 = sets_overlap s2 s1"
  using globs_overlap_commute by (auto simp: sets_overlap_iff)

lemma common_path_overlap:
  "path_matches_glob g1 p \<Longrightarrow> path_matches_glob g2 p \<Longrightarrow> globs_overlap g1 g2"
  by (auto simp: path_matches_glob_def globs_overlap_def intro: paths.go_sound)

lemma split_on_chars: "p \<in> set (split_on c s) \<Longrightarrow> set p \<subseteq> set s"
proof (induction s arbitrary: p)
  case (Cons x s)
  then show ?case by (cases "split_on c s") (fastforce split: if_splits)+
qed simp

lemma strip_chars: "set (dropWhile dot_or_slash (py_strip g)) \<subseteq> set g"
  by (auto simp: py_strip_def rstrip_by_def dest!: set_dropWhileD)

lemma class_free_segments:
  assumes "\<not> has_class g"
  shows "list_all (\<lambda>x. \<not> has_class x) (glob_segments g)"
proof -
  have "set (norm_glob g) \<subseteq> set g \<union> {CHR ''*''}"
    using strip_chars [of g] by (auto simp: norm_glob_def Let_def)
  then have "CHR ''['' \<notin> set (norm_glob g)" using assms by (auto simp: has_class_def)
  then show ?thesis
    using split_on_chars [of _ "CHR ''/''" "norm_glob g"]
    by (force simp: glob_segments_def list_all_iff has_class_def)
qed

lemma match_inhabited: "list_all (\<lambda>x. \<not> has_class x) a \<Longrightarrow> \<exists>s. match_go a s"
proof (induction a)
  case (Cons x a)
  then have "\<exists>s. match_go a s" and "\<exists>t. seg_match x t" by (auto intro: seg_match_inhabited)
  then obtain s t where "match_go a s" "seg_match x t" by blast
  then have "match_go (x # a) (if x = ''**'' then s else t # s)" by (cases s) auto
  then show ?case ..
qed (auto intro: exI [of _ "[]"])

text \<open>A list of literal segments followed by \<open>**\<close> is the subtree below them.\<close>

lemma match_run: "match_go [''**''] ps"
  by (induction ps) auto

lemma match_subtree:
  assumes "list_all literal ds"
  shows "match_go (ds @ [''**'']) ps \<longleftrightarrow> (\<exists>qs. ps = ds @ qs)"
  using assms
proof (induction ds arbitrary: ps)
  case (Cons d ds)
  then have "d \<noteq> ''**''" by (auto dest: literal_not_run)
  with Cons show ?case by (cases ps) (auto simp: seg_match_literal)
qed (simp add: match_run)

section \<open>Properties of the glob algebra\<close>

lemma overlap_of_shared_path: "path_in_globs p s1 \<Longrightarrow> path_in_globs p s2 \<Longrightarrow> sets_overlap s1 s2"
  by (auto simp: path_in_globs_def sets_overlap_iff list_ex_iff intro: common_path_overlap)

text \<open>C20. No false negative: if a concrete path is covered by two write sets (the exact match the
  write-set audit uses), the overlap test of the two sets is true. Two task write sets that the
  coordinator takes for disjoint therefore share no path, whatever wildcards and character
  classes they use.\<close>

theorem sets_overlap_sound:
  assumes "path_in_globs p s1" and "path_in_globs p s2"
  shows "sets_overlap s1 s2"
  using assms by (rule overlap_of_shared_path)

lemma sets_overlap_sound_witness:
  "sets_overlap [''docs/*.md'', ''src/**''] [''src/au?h/[a-m]*.py'']"
proof -
  have "path_in_globs ''src/auth/login.py'' [''docs/*.md'', ''src/**'']" by code_simp
  moreover have "path_in_globs ''src/auth/login.py'' [''src/au?h/[a-m]*.py'']" by code_simp
  ultimately show ?thesis by (rule sets_overlap_sound)
qed

text \<open>C31. Exactness: for patterns without character classes the overlap test is true exactly if
  some sequence of path segments matches both, so nothing is reported beyond the documented
  over-approximation for classes.\<close>

theorem globs_overlap_exact:
  assumes "\<not> has_class g1" and "\<not> has_class g2"
  shows "globs_overlap g1 g2 \<longleftrightarrow>
    (\<exists>ps. match_go (glob_segments g1) ps \<and> match_go (glob_segments g2) ps)"
proof (cases "g1 = g2")
  case True
  then show ?thesis
    using match_inhabited class_free_segments assms by (auto simp: globs_overlap_def)
next
  case False
  then show ?thesis
    using paths.go_iff class_free_segments assms by (simp add: globs_overlap_def)
qed

lemma globs_overlap_exact_witness:
  "\<exists>ps. match_go (glob_segments ''src/*/a?.py'') ps \<and> match_go (glob_segments ''**/ab*'') ps"
proof -
  have c: "\<not> has_class ''src/*/a?.py''" "\<not> has_class ''**/ab*''" by code_simp+
  have "globs_overlap ''src/*/a?.py'' ''**/ab*''" by code_simp
  then show ?thesis using globs_overlap_exact [OF c] by blast
qed

text \<open>A directory declaration is its subtree: for a declared directory \<open>d/\<close> whose name has no
  wildcard and is already normalised, the covered segment sequences are exactly those that start
  with the segments of \<open>d\<close>.\<close>

theorem directory_is_subtree:
  assumes "literal d" and "dropWhile dot_or_slash (py_strip (d @ ''/'')) = d @ ''/''"
  shows "match_go (glob_segments (d @ ''/'')) ps \<longleftrightarrow>
    (\<exists>qs. ps = split_on (CHR ''/'') d @ qs)"
proof -
  have split: "split_on (CHR ''/'') (e @ ''/**'') = split_on (CHR ''/'') e @ [''**'']" for e
  proof (induction e)
    case (Cons c e)
    then show ?case by (cases "split_on (CHR ''/'') e") auto
  qed simp
  have "list_all literal (split_on (CHR ''/'') d)"
    using assms(1) split_on_chars [of _ "CHR ''/''" d]
    by (fastforce simp: list_all_iff literal_def list_ex_iff)
  then show ?thesis
    using assms(2) by (simp add: glob_segments_def norm_glob_def split match_subtree)
qed

lemma directory_is_subtree_witness:
  "match_go (glob_segments ''src/ui/'') [''src'', ''ui'', ''app'', ''x.ts'']"
proof -
  have h: "literal ''src/ui''"
    "dropWhile dot_or_slash (py_strip (''src/ui'' @ ''/'')) = ''src/ui'' @ ''/''" by code_simp+
  have "match_go (glob_segments (''src/ui'' @ ''/'')) [''src'', ''ui'', ''app'', ''x.ts'']"
    unfolding directory_is_subtree [OF h] by simp
  then show ?thesis by simp
qed

lemma rstrip_by_append:
  "list_ex (\<lambda>c. \<not> p c) s \<Longrightarrow> rstrip_by p (ds @ s) = ds @ rstrip_by p s"
proof -
  assume "list_ex (\<lambda>c. \<not> p c) s"
  then obtain c where "c \<in> set (rev s)" "\<not> p c" by (auto simp: list_ex_iff)
  then show ?thesis by (simp add: rstrip_by_def dropWhile_append1)
qed

lemma leading_dots_stripped:
  assumes "list_all dot_or_slash ds" and "p = [] \<or> \<not> is_py_space (hd p)"
  shows "dropWhile dot_or_slash (py_strip (ds @ p)) = dropWhile dot_or_slash (py_strip p)"
proof -
  have nosp: "\<not> is_py_space c" if "dot_or_slash c" for c
    using that by (auto simp: dot_or_slash_def is_py_space_def)
  have ds: "\<not> is_py_space (hd ds)" if "ds \<noteq> []" using that assms(1) nosp by (cases ds) auto
  have l: "dropWhile is_py_space (ds @ p) = ds @ p"
    using ds assms(2) by (cases ds; cases p) auto
  have r: "rstrip_by is_py_space (ds @ p) = ds @ rstrip_by is_py_space p"
  proof (cases p)
    case Nil
    then show ?thesis
    proof (cases ds rule: rev_cases)
      case (snoc es e)
      then show ?thesis using Nil assms(1) nosp by (simp add: rstrip_by_def)
    qed (simp add: rstrip_by_def)
  next
    case (Cons c q)
    then show ?thesis using assms(2) by (intro rstrip_by_append) auto
  qed
  have "dropWhile is_py_space p = p" using assms(2) by (cases p) auto
  moreover have "dropWhile dot_or_slash (ds @ s) = dropWhile dot_or_slash s" for s
    using assms(1) by (induction ds) auto
  ultimately show ?thesis by (simp add: py_strip_def l r)
qed

text \<open>Leading dots and slashes of a path are ignored by the exact match, because
  \<open>lstrip("./")\<close> strips characters and not a prefix: the audit takes \<open>.env\<close> for \<open>env\<close> and
  \<open>../src/x\<close> for \<open>src/x\<close>.\<close>

theorem audit_ignores_leading_dots:
  assumes "list_all dot_or_slash ds" and "p = [] \<or> \<not> is_py_space (hd p)"
  shows "path_in_globs (ds @ p) gs = path_in_globs p gs"
  using leading_dots_stripped [OF assms]
  by (simp add: path_in_globs_def path_matches_glob_def path_segments_def)

lemma audit_ignores_leading_dots_witness:
  "path_in_globs ''.github/ci.yml'' [''github/**''] \<and> path_in_globs ''../src/x'' [''src/**'']"
proof -
  have a: "list_all dot_or_slash ''.''" "''github/ci.yml'' = '''' \<or> \<not> is_py_space (hd ''github/ci.yml'')"
    and b: "list_all dot_or_slash ''../''" "''src/x'' = '''' \<or> \<not> is_py_space (hd ''src/x'')"
    by code_simp+
  have "path_in_globs ''github/ci.yml'' [''github/**'']" "path_in_globs ''src/x'' [''src/**'']"
    by code_simp+
  then have "path_in_globs (''.'' @ ''github/ci.yml'') [''github/**'']"
    and "path_in_globs (''../'' @ ''src/x'') [''src/**'']"
    unfolding audit_ignores_leading_dots [OF a] audit_ignores_leading_dots [OF b] by blast+
  then show ?thesis by simp
qed

end
