(* ===== verification/CandidateIndex.thy ===== *)
theory CandidateIndex
  imports Globs "HOL-Library.AList"
begin

text \<open>
  The candidate prefilter of \<open>omd_server/candidate_index.py\<close>: a trie over the literal segment
  prefixes of the active rows, rebuilt for every decision, and the fallbacks to a full scan.

  The row a \<open>Mapping\<close> of the store gives is the record \<open>adm_row\<close> with the columns admission
  reads. A \<open>pathspec\<close> column is JSON text or an already decoded value; \<open>Text\<close> carries what
  \<open>json.loads\<close> returns on the text, \<open>None\<close> where it raises.
\<close>

section \<open>Rows\<close>

datatype json =
    JNull
  | JBool bool
  | JInt int
  | JFloat pyfloat
  | JStr string
  | JList "json list"
  | JDict "(string \<times> json) list"

datatype pathcol = Text "json option" | Decoded json

record adm_row =
  orbit_id :: string
  agent_id :: string
  mode :: string
  pathspec :: pathcol
  priority :: "int option"
  queue_seq :: "int option"
  policy_version :: "string option"
  enqueued_at :: "pyfloat option"
  fence :: "int option"

definition admission_modes :: "string list" where
  "admission_modes = [''read'', ''write'', ''shared'']"

section \<open>Scan report\<close>

record candidate_scan =
  active_held :: nat
  active_pending :: nat
  candidate_held :: nat
  candidate_pending :: nat
  full_scan_fallback :: bool
  fallback_reason :: "string option"

record 'r candidate_selection =
  sel_held :: "'r list"
  sel_pending :: "'r list"
  sel_scan :: candidate_scan

text \<open>\<open>CandidateIndexInputError\<close>; the index is never trusted beyond it.\<close>

datatype index_error = CandidateIndexInputError

section \<open>Literal prefixes\<close>

fun json_str :: "json \<Rightarrow> string option" where
  "json_str (JStr s) = Some s"
| "json_str _ = None"

fun all_some :: "'a option list \<Rightarrow> 'a list option" where
  "all_some [] = Some []"
| "all_some (None # xs) = None"
| "all_some (Some x # xs) = map_option (Cons x) (all_some xs)"

text \<open>\<open>_pathspec\<close> on a decoded value: a non-empty sequence of non-empty strings.\<close>

fun index_paths :: "json \<Rightarrow> (index_error, string list) result" where
  "index_paths (JList vs) =
     (case all_some (map json_str vs) of
        None \<Rightarrow> Inl CandidateIndexInputError
      | Some ps \<Rightarrow>
          if ps = [] \<or> \<not> list_all (\<lambda>p. p \<noteq> []) ps then Inl CandidateIndexInputError else Inr ps)"
| "index_paths _ = Inl CandidateIndexInputError"

fun index_pathspec :: "pathcol \<Rightarrow> (index_error, string list) result" where
  "index_pathspec (Text None) = Inl CandidateIndexInputError"
| "index_pathspec (Text (Some v)) = index_paths v"
| "index_pathspec (Decoded v) = index_paths v"

definition literal_glob_prefix :: "string \<Rightarrow> (index_error, string list option) result" where
  "literal_glob_prefix g =
     (let segments = glob_segments g
      in if segments = [] \<or> list_ex (\<lambda>s. s = []) segments then Inl CandidateIndexInputError
         else let prefix = takeWhile (\<lambda>s. \<not> (s = ''**'' \<or> list_ex is_wild s)) segments
              in Inr (if prefix = [] then None else Some prefix))"

fun map_res :: "('a \<Rightarrow> ('e, 'b) result) \<Rightarrow> 'a list \<Rightarrow> ('e, 'b list) result" where
  "map_res f [] = Inr []"
| "map_res f (x # xs) = bind_res (f x) (\<lambda>y. bind_res (map_res f xs) (\<lambda>ys. Inr (y # ys)))"

section \<open>The trie\<close>

text \<open>A key is the state of the row (\<open>True\<close> for HELD) and its index in the snapshot.\<close>

type_synonym key = "bool \<times> nat"

datatype trie = Node (trie_rows: "key list") (trie_children: "(string \<times> trie) list")

abbreviation empty_trie :: trie where
  "empty_trie \<equiv> Node [] []"

text \<open>The walk with \<open>setdefault\<close> and the \<open>rows.add\<close> at its end.\<close>

fun trie_add :: "string list \<Rightarrow> key \<Rightarrow> trie \<Rightarrow> trie" where
  "trie_add [] k (Node rs cs) = Node (List.insert k rs) cs"
| "trie_add (s # p) k (Node rs cs) =
     Node rs (AList.update s
       (trie_add p k (case map_of cs s of None \<Rightarrow> empty_trie | Some t \<Rightarrow> t)) cs)"

fun descendants :: "trie \<Rightarrow> key list" where
  "descendants (Node rs cs) = rs @ concat (map (\<lambda>(s, t). descendants t) cs)"

fun comparable_rows :: "trie \<Rightarrow> string list \<Rightarrow> key list" where
  "comparable_rows t [] = descendants t"
| "comparable_rows (Node rs cs) (s # p) =
     rs @ (case map_of cs s of None \<Rightarrow> [] | Some t \<Rightarrow> comparable_rows t p)"

record conflict_index =
  ix_root :: trie
  ix_global :: "key list"
  ix_covered :: "key list"

definition row_prefixes :: "adm_row \<Rightarrow> (index_error, string list option list) result" where
  "row_prefixes row =
     (if \<not> List.member admission_modes (mode row) then Inl CandidateIndexInputError
      else bind_res (index_pathspec (pathspec row)) (map_res literal_glob_prefix))"

definition index_row ::
  "key \<Rightarrow> adm_row \<Rightarrow> conflict_index \<Rightarrow> (index_error, conflict_index) result" where
  "index_row k row ix =
     bind_res (row_prefixes row) (\<lambda>prefixes.
       Inr (let ix' = (if List.member prefixes None
                       then ix\<lparr>ix_global := List.insert k (ix_global ix)\<rparr>
                       else ix\<lparr>ix_root := fold (\<lambda>p. trie_add p k)
                                  (remdups (List.map_filter id prefixes)) (ix_root ix)\<rparr>)
            in ix'\<lparr>ix_covered := List.insert k (ix_covered ix')\<rparr>))"

fun index_rows ::
  "bool \<Rightarrow> nat \<Rightarrow> adm_row list \<Rightarrow> conflict_index \<Rightarrow> (index_error, conflict_index) result" where
  "index_rows st i [] ix = Inr ix"
| "index_rows st i (r # rs) ix =
     bind_res (index_row (st, i) r ix) (\<lambda>ix'. index_rows st (Suc i) rs ix')"

definition build_index ::
  "adm_row list \<Rightarrow> adm_row list \<Rightarrow> (index_error, conflict_index) result" where
  "build_index held pending =
     bind_res (index_rows True 0 held \<lparr>ix_root = empty_trie, ix_global = [], ix_covered = []\<rparr>)
       (\<lambda>ix. bind_res (index_rows False 0 pending ix)
         (\<lambda>ix'. if length (ix_covered ix') \<noteq> length held + length pending
                then Inl CandidateIndexInputError else Inr ix'))"

section \<open>Selection\<close>

definition full_selection ::
  "'r list \<Rightarrow> 'r list \<Rightarrow> string \<Rightarrow> 'r candidate_selection" where
  "full_selection held pending reason =
     \<lparr>sel_held = held, sel_pending = pending,
      sel_scan = \<lparr>active_held = length held, active_pending = length pending,
        candidate_held = length held, candidate_pending = length pending,
        full_scan_fallback = True, fallback_reason = Some reason\<rparr>\<rparr>"

definition pick_rows :: "bool \<Rightarrow> key list \<Rightarrow> 'r list \<Rightarrow> 'r list" where
  "pick_rows st sel rows =
     map snd (filter (\<lambda>(i, r). List.member sel (st, i)) (zip [0..<length rows] rows))"

definition selected_keys :: "conflict_index \<Rightarrow> string list list \<Rightarrow> key list" where
  "selected_keys ix prefixes =
     ix_global ix @ concat (map (comparable_rows (ix_root ix)) (remdups prefixes))"

definition request_paths :: "string list \<Rightarrow> (index_error, string list) result" where
  "request_paths ps =
     (if ps = [] \<or> \<not> list_all (\<lambda>p. p \<noteq> []) ps then Inl CandidateIndexInputError else Inr ps)"

definition select_rows ::
  "conflict_index \<Rightarrow> adm_row list \<Rightarrow> adm_row list \<Rightarrow> string list \<Rightarrow>
   (index_error, adm_row candidate_selection) result" where
  "select_rows ix held pending request =
     bind_res (request_paths request) (\<lambda>paths.
       bind_res (map_res literal_glob_prefix paths) (\<lambda>prefixes.
         Inr (if List.member prefixes None
              then full_selection held pending ''request_unknown_prefix''
              else let sel = selected_keys ix (List.map_filter id prefixes);
                       h = pick_rows True sel held; p = pick_rows False sel pending
                   in \<lparr>sel_held = h, sel_pending = p,
                       sel_scan = \<lparr>active_held = length held, active_pending = length pending,
                         candidate_held = length h, candidate_pending = length p,
                         full_scan_fallback = False, fallback_reason = None\<rparr>\<rparr>)))"

definition select_conflict_candidates ::
  "string list \<Rightarrow> adm_row list \<Rightarrow> adm_row list \<Rightarrow> bool \<Rightarrow> adm_row candidate_selection" where
  "select_conflict_candidates request held pending enabled =
     (if \<not> enabled then full_selection held pending ''index_disabled''
      else case bind_res (build_index held pending)
                  (\<lambda>ix. select_rows ix held pending request) of
             Inr sel \<Rightarrow> sel
           | Inl CandidateIndexInputError \<Rightarrow> full_selection held pending ''unindexable_snapshot'')"

section \<open>The trie as a set of (prefix, key) pairs\<close>

text \<open>Two literal prefixes are comparable if one is an initial segment of the other.\<close>

definition comparable :: "string list \<Rightarrow> string list \<Rightarrow> bool" where
  "comparable p q \<longleftrightarrow> (\<exists>r. p @ r = q \<or> q @ r = p)"

fun trie_pairs :: "trie \<Rightarrow> (string list \<times> key) set" where
  "trie_pairs (Node rs cs) =
     Pair [] ` set rs \<union> (\<Union>(s, t)\<in>set cs. (\<lambda>(p, k). (s # p, k)) ` trie_pairs t)"

fun trie_wf :: "trie \<Rightarrow> bool" where
  "trie_wf (Node rs cs) \<longleftrightarrow> distinct (map fst cs) \<and> (\<forall>(s, t)\<in>set cs. trie_wf t)"

lemma trie_wf_child: "trie_wf (Node rs cs) \<Longrightarrow> map_of cs s = Some t \<Longrightarrow> trie_wf t"
  by (auto dest!: map_of_SomeD)

lemma trie_pairs_child:
  assumes "trie_wf (Node rs cs)"
  shows "(s # p, k) \<in> trie_pairs (Node rs cs) \<longleftrightarrow>
    (\<exists>t. map_of cs s = Some t \<and> (p, k) \<in> trie_pairs t)"
proof
  assume "(s # p, k) \<in> trie_pairs (Node rs cs)"
  then obtain t where "(s, t) \<in> set cs" "(p, k) \<in> trie_pairs t" by auto
  then show "\<exists>t. map_of cs s = Some t \<and> (p, k) \<in> trie_pairs t" using assms by auto
next
  assume "\<exists>t. map_of cs s = Some t \<and> (p, k) \<in> trie_pairs t"
  then show "(s # p, k) \<in> trie_pairs (Node rs cs)" by (force dest!: map_of_SomeD)
qed

lemma set_update_subset: "set (AList.update k v al) \<subseteq> insert (k, v) (set al)"
  by (induction al) auto

lemma trie_wf_add: "trie_wf t \<Longrightarrow> trie_wf (trie_add p k t)"
proof (induction p k t rule: trie_add.induct)
  case (2 s p k rs cs)
  have "trie_wf (case map_of cs s of None \<Rightarrow> empty_trie | Some t \<Rightarrow> t)"
    using trie_wf_child [OF "2.prems"] by (auto split: option.split)
  from "2.IH" [OF this] "2.prems" show ?case
    by (auto simp: distinct_update dest: set_update_subset [THEN subsetD])
qed auto

lemma trie_pairs_add:
  "trie_wf t \<Longrightarrow> (q, k') \<in> trie_pairs (trie_add p k t) \<longleftrightarrow>
    (q = p \<and> k' = k) \<or> (q, k') \<in> trie_pairs t"
proof (induction p k t arbitrary: q rule: trie_add.induct)
  case (2 s p k rs cs)
  let ?t = "case map_of cs s of None \<Rightarrow> empty_trie | Some t \<Rightarrow> t"
  have wf: "trie_wf ?t" using trie_wf_child [OF "2.prems"] by (auto split: option.split)
  have wf': "trie_wf (Node rs (AList.update s (trie_add p k ?t) cs))"
    using trie_wf_add [OF "2.prems", of "s # p" k] by simp
  show ?case
  proof (cases q)
    case (Cons s' q')
    show ?thesis
    proof (cases "s' = s")
      case True
      have "(q', k') \<in> trie_pairs ?t \<longleftrightarrow> (\<exists>t. map_of cs s = Some t \<and> (q', k') \<in> trie_pairs t)"
        by (auto split: option.split)
      then show ?thesis
        using "2.IH" [OF wf, of q'] Cons True trie_pairs_child [OF wf'] trie_pairs_child [OF "2.prems"]
        by (simp add: update_conv' del: trie_pairs.simps)
    next
      case False
      then show ?thesis
        using Cons trie_pairs_child [OF wf'] trie_pairs_child [OF "2.prems"]
        by (simp add: update_conv' del: trie_pairs.simps)
    qed
  qed auto
qed auto

lemma descendants_iff: "k \<in> set (descendants t) \<longleftrightarrow> (\<exists>p. (p, k) \<in> trie_pairs t)"
  by (induction t rule: descendants.induct) force

lemma comparable_Nil [simp]: "comparable p []" "comparable [] p"
  by (auto simp: comparable_def)

lemma comparable_Cons [simp]: "comparable (s # p) (t # q) \<longleftrightarrow> s = t \<and> comparable p q"
  by (auto simp: comparable_def)

lemma comparable_rows_iff:
  "trie_wf t \<Longrightarrow> k \<in> set (comparable_rows t p) \<longleftrightarrow>
    (\<exists>q. (q, k) \<in> trie_pairs t \<and> comparable p q)"
proof (induction t p rule: comparable_rows.induct)
  case (2 rs cs s p)
  have "(\<exists>q. (q, k) \<in> trie_pairs (Node rs cs) \<and> comparable (s # p) q) \<longleftrightarrow>
      k \<in> set rs \<or> (\<exists>q. (s # q, k) \<in> trie_pairs (Node rs cs) \<and> comparable p q)"
    (is "?l \<longleftrightarrow> ?r")
  proof
    assume ?l
    then obtain q where q: "(q, k) \<in> trie_pairs (Node rs cs)" "comparable (s # p) q" by blast
    then show ?r by (cases q) (auto simp del: trie_pairs.simps, auto)
  next
    assume ?r
    then show ?l
    proof
      assume "k \<in> set rs"
      then have "([], k) \<in> trie_pairs (Node rs cs)" by simp
      then show ?thesis by (intro exI [of _ "[]"]) simp
    next
      assume "\<exists>q. (s # q, k) \<in> trie_pairs (Node rs cs) \<and> comparable p q"
      then obtain q where "(s # q, k) \<in> trie_pairs (Node rs cs)" "comparable p q" by blast
      then show ?thesis by (intro exI [of _ "s # q"]) simp
    qed
  qed
  also have "\<dots> \<longleftrightarrow> k \<in> set (comparable_rows (Node rs cs) (s # p))"
    using "2.IH" trie_wf_child [OF "2.prems"]
    by (cases "map_of cs s")
      (simp_all add: trie_pairs_child [OF "2.prems"] del: trie_pairs.simps trie_wf.simps)
  finally show ?case by blast
qed (simp add: descendants_iff)

section \<open>Incomparable literal prefixes do not overlap\<close>

lemma path_go_common_prefix:
  assumes "path_go (p @ a) (q @ b)" and "list_all literal p" and "list_all literal q"
  shows "comparable p q"
  using assms
proof (induction p arbitrary: q)
  case (Cons x p)
  then show ?case
    by (cases q) (auto simp: literal_not_run seg_intersect_literal split: if_splits)
qed simp

lemma takeWhile_literal:
  "list_all literal (takeWhile (\<lambda>s. \<not> (s = ''**'' \<or> list_ex is_wild s)) ss)"
  by (auto simp: list_all_iff literal_def dest: set_takeWhileD)

lemma globs_overlap_comparable:
  assumes "literal_glob_prefix g1 = Inr (Some p)" and "literal_glob_prefix g2 = Inr (Some q)"
    and "globs_overlap g1 g2"
  shows "comparable p q"
proof (cases "g1 = g2")
  case True
  with assms show ?thesis by (auto simp: comparable_def)
next
  case False
  let ?P = "\<lambda>s. \<not> (s = ''**'' \<or> list_ex is_wild s)"
  have p: "p = takeWhile ?P (glob_segments g1)" and q: "q = takeWhile ?P (glob_segments g2)"
    using assms(1,2) by (auto simp: literal_glob_prefix_def Let_def split: if_splits)
  have "path_go (p @ dropWhile ?P (glob_segments g1)) (q @ dropWhile ?P (glob_segments g2))"
    using assms(3) False by (simp add: p q globs_overlap_def)
  then show ?thesis
    by (rule path_go_common_prefix)
      (use takeWhile_literal in \<open>simp_all add: p q del: de_Morgan_disj\<close>)
qed

section \<open>The index holds every row of the snapshot\<close>

lemma fold_trie_add:
  "trie_wf t \<Longrightarrow> trie_wf (fold (\<lambda>p. trie_add p k) ps t) \<and>
    trie_pairs (fold (\<lambda>p. trie_add p k) ps t) = trie_pairs t \<union> set ps \<times> {k}"
proof (induction ps arbitrary: t)
  case (Cons p ps)
  have "trie_pairs (trie_add p k t) = insert (p, k) (trie_pairs t)"
    using trie_pairs_add [OF Cons.prems, of _ _ p k] by (auto simp: set_eq_iff split_paired_all)
  then show ?case using Cons.IH [OF trie_wf_add [OF Cons.prems]] by auto
qed simp

definition index_le :: "conflict_index \<Rightarrow> conflict_index \<Rightarrow> bool" where
  "index_le ix ix' \<longleftrightarrow> set (ix_global ix) \<subseteq> set (ix_global ix') \<and>
     trie_pairs (ix_root ix) \<subseteq> trie_pairs (ix_root ix') \<and> trie_wf (ix_root ix')"

definition indexed :: "conflict_index \<Rightarrow> key \<Rightarrow> adm_row \<Rightarrow> bool" where
  "indexed ix k row \<longleftrightarrow> (\<exists>ps. row_prefixes row = Inr ps \<and>
     (if None \<in> set ps then k \<in> set (ix_global ix)
      else \<forall>p. Some p \<in> set ps \<longrightarrow> (p, k) \<in> trie_pairs (ix_root ix)))"

lemma indexed_mono: "indexed ix k row \<Longrightarrow> index_le ix ix' \<Longrightarrow> indexed ix' k row"
  unfolding indexed_def index_le_def by (auto split: if_splits)

lemma index_le_trans: "index_le a b \<Longrightarrow> index_le b c \<Longrightarrow> index_le a c"
  unfolding index_le_def by blast

lemma set_map_filter_id: "p \<in> set (List.map_filter id xs) \<longleftrightarrow> Some p \<in> set xs"
  by (induction xs) (auto simp: List.map_filter_def split: option.splits)

lemma index_row_Inr:
  assumes "index_row k row ix = Inr ix'" and "trie_wf (ix_root ix)"
  shows "index_le ix ix' \<and> indexed ix' k row"
proof -
  from assms(1) obtain ps where ps: "row_prefixes row = Inr ps"
    and ix': "ix' = (let jx = (if List.member ps None then ix\<lparr>ix_global := List.insert k (ix_global ix)\<rparr>
        else ix\<lparr>ix_root := fold (\<lambda>p. trie_add p k) (remdups (List.map_filter id ps)) (ix_root ix)\<rparr>)
        in jx\<lparr>ix_covered := List.insert k (ix_covered jx)\<rparr>)"
    by (auto simp: index_row_def bind_res_Inr_iff)
  show ?thesis
    using fold_trie_add [OF assms(2), of k "remdups (List.map_filter id ps)"] ps assms(2)
    by (auto simp: ix' Let_def index_le_def indexed_def set_map_filter_id)
qed

lemma index_rows_Inr:
  "index_rows st i rs ix = Inr ix' \<Longrightarrow> trie_wf (ix_root ix) \<Longrightarrow>
    index_le ix ix' \<and> (\<forall>j<length rs. indexed ix' (st, i + j) (rs ! j))"
proof (induction rs arbitrary: i ix)
  case (Cons r rs)
  then obtain jx where jx: "index_row (st, i) r ix = Inr jx" "index_rows st (Suc i) rs jx = Inr ix'"
    by (auto simp: bind_res_Inr_iff)
  have a: "index_le ix jx" "indexed jx (st, i) r"
    using index_row_Inr [OF jx(1) Cons.prems(2)] by auto
  then have b: "index_le jx ix'" "\<forall>j<length rs. indexed ix' (st, Suc i + j) (rs ! j)"
    using Cons.IH [OF jx(2)] by (auto simp: index_le_def)
  have "indexed ix' (st, i + j) ((r # rs) ! j)" if "j < length (r # rs)" for j
    using that b a indexed_mono by (cases j) auto
  then show ?case using a b index_le_trans by blast
qed (simp add: index_le_def)

lemma build_index_Inr:
  assumes "build_index held pending = Inr ix"
  shows "trie_wf (ix_root ix)"
    and "i < length held \<Longrightarrow> indexed ix (True, i) (held ! i)"
    and "i < length pending \<Longrightarrow> indexed ix (False, i) (pending ! i)"
proof -
  obtain jx where jx: "index_rows True 0 held \<lparr>ix_root = empty_trie, ix_global = [], ix_covered = []\<rparr> = Inr jx"
    "index_rows False 0 pending jx = Inr ix"
    using assms by (auto simp: build_index_def bind_res_Inr_iff split: if_splits)
  have h: "index_le \<lparr>ix_root = empty_trie, ix_global = [], ix_covered = []\<rparr> jx \<and>
      (\<forall>j<length held. indexed jx (True, 0 + j) (held ! j))"
    by (rule index_rows_Inr [OF jx(1)]) simp
  then have p: "index_le jx ix \<and> (\<forall>j<length pending. indexed ix (False, 0 + j) (pending ! j))"
    by (intro index_rows_Inr [OF jx(2)]) (simp add: index_le_def)
  from p show "trie_wf (ix_root ix)" by (simp add: index_le_def)
  from h p show "i < length held \<Longrightarrow> indexed ix (True, i) (held ! i)"
    using indexed_mono by fastforce
  from p show "i < length pending \<Longrightarrow> indexed ix (False, i) (pending ! i)" by simp
qed

lemma map_res_mem: "map_res f xs = Inr ys \<Longrightarrow> x \<in> set xs \<Longrightarrow> \<exists>y\<in>set ys. f x = Inr y"
  by (induction xs arbitrary: ys) (auto simp: bind_res_Inr_iff)

section \<open>Selection drops irrelevant rows only\<close>

text \<open>A row is irrelevant for a request if it is well formed and its write set is disjoint from the
  request's. The contract of a prefilter: it drops rows by position, irrelevant ones only.\<close>

definition irrelevant :: "string list \<Rightarrow> adm_row \<Rightarrow> bool" where
  "irrelevant request row \<longleftrightarrow> List.member admission_modes (mode row) \<and>
     (\<exists>paths. index_pathspec (pathspec row) = Inr paths \<and> \<not> sets_overlap request paths)"

lemma irrelevantI:
  assumes ix: "indexed ix k row" "trie_wf (ix_root ix)"
    and req: "map_res literal_glob_prefix request = Inr prefixes" "None \<notin> set prefixes"
    and drop: "k \<notin> set (selected_keys ix (List.map_filter id prefixes))"
  shows "irrelevant request row"
proof -
  obtain ps where ps: "row_prefixes row = Inr ps"
    and kk: "if None \<in> set ps then k \<in> set (ix_global ix)
      else \<forall>p. Some p \<in> set ps \<longrightarrow> (p, k) \<in> trie_pairs (ix_root ix)"
    using ix(1) by (auto simp: indexed_def)
  obtain paths where paths: "List.member admission_modes (mode row)"
    "index_pathspec (pathspec row) = Inr paths" "map_res literal_glob_prefix paths = Inr ps"
    using ps by (auto simp: row_prefixes_def bind_res_Inr_iff split: if_splits)
  have none: "None \<notin> set ps" using kk drop by (auto simp: selected_keys_def split: if_splits)
  have "\<not> globs_overlap a b" if a: "a \<in> set request" and b: "b \<in> set paths" for a b
  proof
    assume ov: "globs_overlap a b"
    obtain p where p: "literal_glob_prefix a = Inr (Some p)" "Some p \<in> set prefixes"
      using map_res_mem [OF req(1) a] req(2) by (metis option.exhaust)
    obtain q where q: "literal_glob_prefix b = Inr (Some q)" "Some q \<in> set ps"
      using map_res_mem [OF paths(3) b] none by (metis option.exhaust)
    have "(q, k) \<in> trie_pairs (ix_root ix)" using kk none q(2) by simp
    moreover have "comparable p q" by (rule globs_overlap_comparable [OF p(1) q(1) ov])
    ultimately have "k \<in> set (comparable_rows (ix_root ix) p)"
      using comparable_rows_iff [OF ix(2)] by blast
    then show False using drop p(2) by (auto simp: selected_keys_def set_map_filter_id)
  qed
  then show ?thesis using paths by (auto simp: irrelevant_def sets_overlap_iff)
qed

locale candidate_prefilter =
  fixes pick :: "'q \<Rightarrow> 'r list \<Rightarrow> 'c \<Rightarrow> 'r list"
    and droppable :: "'q \<Rightarrow> 'r \<Rightarrow> bool"
  assumes pick_drops: "\<exists>keep. pick q rows ctx = map snd (filter keep (zip [0..<length rows] rows)) \<and>
      (\<forall>i<length rows. \<not> keep (i, rows ! i) \<longrightarrow> droppable q (rows ! i))"
begin

lemma pick_subset: "set (pick q rows ctx) \<subseteq> set rows"
proof -
  obtain keep where "pick q rows ctx = map snd (filter keep (zip [0..<length rows] rows))"
    using pick_drops by blast
  then show ?thesis by (auto dest: set_zip_rightD)
qed

lemma pick_keeps:
  assumes "r \<in> set rows" and "\<not> droppable q r"
  shows "r \<in> set (pick q rows ctx)"
proof -
  obtain keep where c: "pick q rows ctx = map snd (filter keep (zip [0..<length rows] rows))"
    and d: "\<forall>i<length rows. \<not> keep (i, rows ! i) \<longrightarrow> droppable q (rows ! i)"
    using pick_drops by blast
  obtain i where i: "i < length rows" "rows ! i = r" using assms(1) by (auto simp: in_set_conv_nth)
  then have "(i, r) \<in> set (zip [0..<length rows] rows)" by (force simp: in_set_zip)
  moreover have "keep (i, r)" using d i assms(2) by auto
  ultimately show ?thesis by (force simp: c)
qed

lemma filter_res_map: "filter_res f (map g xs) = bind_res (filter_res (f \<circ> g) xs) (\<lambda>ys. Inr (map g ys))"
proof (induction xs)
  case (Cons x xs)
  then show ?case
    by (cases "f (g x)"; cases "filter_res (\<lambda>a. f (g a)) xs") (auto simp: comp_def)
qed simp

text \<open>A filter whose condition is false on droppable rows does not see the prefilter.\<close>

lemma filter_pick:
  assumes "\<And>r. r \<in> set rows \<Longrightarrow> droppable q r \<Longrightarrow> f r = Inr False"
  shows "filter_res f (pick q rows ctx) = filter_res f rows"
proof -
  obtain keep where c: "pick q rows ctx = map snd (filter keep (zip [0..<length rows] rows))"
    and d: "\<forall>i<length rows. \<not> keep (i, rows ! i) \<longrightarrow> droppable q (rows ! i)"
    using pick_drops by blast
  let ?z = "zip [0..<length rows] rows"
  have "filter_res (f \<circ> snd) (filter keep ?z) = filter_res (f \<circ> snd) ?z"
  proof (rule filter_res_drop)
    fix x assume "x \<in> set ?z" and "\<not> keep x"
    then obtain i where "i < length rows" "x = (i, rows ! i)" by (auto simp: in_set_zip)
    then show "(f \<circ> snd) x = Inr False" using \<open>\<not> keep x\<close> d assms by auto
  qed
  then have "filter_res f (pick q rows ctx) = filter_res f (map snd ?z)"
    by (simp add: c filter_res_map del: map_snd_zip)
  also have "map snd ?z = rows" by simp
  finally show ?thesis .
qed

end

lemma drop_none: "\<exists>keep. rows = map snd (filter keep (zip [0..<length rows] rows)) \<and>
    (\<forall>i<length rows. \<not> keep (i, rows ! i) \<longrightarrow> P i)"
  by (rule exI [of _ "\<lambda>_. True"]) simp

lemma select_rows_cases:
  assumes "build_index held pending = Inr ix" and "select_rows ix held pending request = Inr sel"
  obtains (all) "sel_held sel = held" "sel_pending sel = pending"
  | (some) prefixes where "map_res literal_glob_prefix request = Inr prefixes" "None \<notin> set prefixes"
      "sel_held sel = pick_rows True (selected_keys ix (List.map_filter id prefixes)) held"
      "sel_pending sel = pick_rows False (selected_keys ix (List.map_filter id prefixes)) pending"
proof -
  obtain prefixes where "map_res literal_glob_prefix request = Inr prefixes"
    and "sel = (if List.member prefixes None then full_selection held pending ''request_unknown_prefix''
       else let sel = selected_keys ix (List.map_filter id prefixes);
           h = pick_rows True sel held; p = pick_rows False sel pending
         in \<lparr>sel_held = h, sel_pending = p,
             sel_scan = \<lparr>active_held = length held, active_pending = length pending,
               candidate_held = length h, candidate_pending = length p,
               full_scan_fallback = False, fallback_reason = None\<rparr>\<rparr>)"
    using assms(2) by (auto simp: select_rows_def bind_res_Inr_iff request_paths_def split: if_splits)
  then show ?thesis
    using that by (cases "None \<in> set prefixes") (auto simp: full_selection_def Let_def)
qed

lemma select_held_drops: "\<exists>keep. sel_held (select_conflict_candidates q held pending en) =
    map snd (filter keep (zip [0..<length held] held)) \<and>
    (\<forall>i<length held. \<not> keep (i, held ! i) \<longrightarrow> irrelevant q (held ! i))"
proof (cases "en \<and> (\<exists>ix sel. build_index held pending = Inr ix \<and> select_rows ix held pending q = Inr sel)")
  case True
  then obtain ix sel where b: "build_index held pending = Inr ix"
    and s: "select_rows ix held pending q = Inr sel" and en by blast
  then have e: "select_conflict_candidates q held pending en = sel"
    by (simp add: select_conflict_candidates_def)
  from b s show ?thesis
  proof (cases rule: select_rows_cases)
    case all
    then show ?thesis using drop_none [of held] e by simp
  next
    case (some prefixes)
    then show ?thesis
      using irrelevantI [OF build_index_Inr(2) [OF b] build_index_Inr(1) [OF b] some(1,2)] e
      by (auto simp: pick_rows_def intro!: exI [of _ "\<lambda>(i, r). List.member
          (selected_keys ix (List.map_filter id prefixes)) (True, i)"])
  qed
next
  case False
  then have "sel_held (select_conflict_candidates q held pending en) = held"
    by (auto simp: select_conflict_candidates_def full_selection_def bind_res_Inr_iff
        split: sum.split index_error.split)
  then show ?thesis using drop_none [of held] by simp
qed

lemma select_pending_drops: "\<exists>keep. sel_pending (select_conflict_candidates q held pending en) =
    map snd (filter keep (zip [0..<length pending] pending)) \<and>
    (\<forall>i<length pending. \<not> keep (i, pending ! i) \<longrightarrow> irrelevant q (pending ! i))"
proof (cases "en \<and> (\<exists>ix sel. build_index held pending = Inr ix \<and> select_rows ix held pending q = Inr sel)")
  case True
  then obtain ix sel where b: "build_index held pending = Inr ix"
    and s: "select_rows ix held pending q = Inr sel" and en by blast
  then have e: "select_conflict_candidates q held pending en = sel"
    by (simp add: select_conflict_candidates_def)
  from b s show ?thesis
  proof (cases rule: select_rows_cases)
    case all
    then show ?thesis using drop_none [of pending] e by simp
  next
    case (some prefixes)
    then show ?thesis
      using irrelevantI [OF build_index_Inr(3) [OF b] build_index_Inr(1) [OF b] some(1,2)] e
      by (auto simp: pick_rows_def intro!: exI [of _ "\<lambda>(i, r). List.member
          (selected_keys ix (List.map_filter id prefixes)) (False, i)"])
  qed
next
  case False
  then have "sel_pending (select_conflict_candidates q held pending en) = pending"
    by (auto simp: select_conflict_candidates_def full_selection_def bind_res_Inr_iff
        split: sum.split index_error.split)
  then show ?thesis using drop_none [of pending] by simp
qed

interpretation held_filter: candidate_prefilter
    "\<lambda>q held (pending, en). sel_held (select_conflict_candidates q held pending en)" irrelevant
  by unfold_locales (auto simp: select_held_drops split: prod.split)

interpretation pending_filter: candidate_prefilter
    "\<lambda>q pending (held, en). sel_pending (select_conflict_candidates q held pending en)" irrelevant
  by unfold_locales (auto simp: select_pending_drops split: prod.split)

section \<open>Properties of the candidate index\<close>

text \<open>The prefilter loses no conflict: a HELD or PENDING row whose write set overlaps the
  request's is among the selected candidates, on every path of the selection (index, request
  without literal prefix, unindexable snapshot, index disabled).\<close>

theorem candidates_keep_overlaps:
  assumes "index_pathspec (pathspec row) = Inr paths" and "sets_overlap request paths"
  shows "(row \<in> set held \<longrightarrow> row \<in> set (sel_held (select_conflict_candidates request held pending en))) \<and>
    (row \<in> set pending \<longrightarrow> row \<in> set (sel_pending (select_conflict_candidates request held pending en)))"
proof -
  have "\<not> irrelevant request row" using assms by (auto simp: irrelevant_def)
  then show ?thesis
    using held_filter.pick_keeps [of row held request "(pending, en)"]
      pending_filter.pick_keeps [of row pending request "(held, en)"] by auto
qed

abbreviation sample_row :: "string \<Rightarrow> string list \<Rightarrow> adm_row" where
  "sample_row i ps \<equiv> \<lparr>orbit_id = i, agent_id = ''agA'', mode = ''write'',
     pathspec = Text (Some (JList (map JStr ps))), priority = Some 0, queue_seq = Some 1,
     policy_version = Some ''v'', enqueued_at = None, fence = None\<rparr>"

lemma candidates_keep_overlaps_witness:
  "sample_row ''o1'' [''src/a/**''] \<in> set (sel_held (select_conflict_candidates [''src/a/x.py'']
     [sample_row ''o2'' [''docs/x''], sample_row ''o1'' [''src/a/**'']] [] True))"
proof -
  have "index_pathspec (pathspec (sample_row ''o1'' [''src/a/**''])) = Inr [''src/a/**'']" by code_simp
  moreover have "sets_overlap [''src/a/x.py''] [''src/a/**'']" by code_simp
  ultimately show ?thesis
    using candidates_keep_overlaps [of "sample_row ''o1'' [''src/a/**'']" "[''src/a/**'']"
        "[''src/a/x.py'']" "[sample_row ''o2'' [''docs/x''], sample_row ''o1'' [''src/a/**'']]" "[]" True]
    by simp
qed

end
