(* ===== verification/PyNumber.thy ===== *)
theory PyNumber
  imports Prelude
begin

text \<open>
  \<open>int(s)\<close> and \<open>float(s)\<close> of the Python standard library on strings, as the operator
  configuration uses them. A float is the exact rational of its decimal text where the nearest
  double is finite and not zero; texts beyond the largest double are infinite and texts that
  round to zero are zero. (The limit of 4300 digits that newer interpreters put on \<open>int(s)\<close>
  is not modelled.)
\<close>

definition digit_value :: "char \<Rightarrow> nat option" where
  "digit_value c =
     (let n = (of_char c :: nat) in if 48 \<le> n \<and> n \<le> 57 then Some (n - 48) else None)"

text \<open>Digits with single underscores between them; the flag says that the last character was a digit.\<close>

fun read_digits :: "nat \<Rightarrow> bool \<Rightarrow> string \<Rightarrow> nat option" where
  "read_digits acc ok [] = (if ok then Some acc else None)"
| "read_digits acc ok (c # cs) =
     (if c = CHR ''_'' then (if ok then read_digits acc False cs else None)
      else case digit_value c of
             None \<Rightarrow> None
           | Some d \<Rightarrow> read_digits (10 * acc + d) True cs)"

fun split_sign :: "string \<Rightarrow> bool \<times> string" where
  "split_sign [] = (False, [])"
| "split_sign (c # cs) =
     (if c = CHR ''-'' then (True, cs) else if c = CHR ''+'' then (False, cs) else (False, c # cs))"

definition py_int :: "string \<Rightarrow> int option" where
  "py_int s =
     (let (neg, t) = split_sign (py_strip s)
      in map_option (\<lambda>n. if neg then - int n else int n) (read_digits 0 False t))"

definition lower_ascii :: "char \<Rightarrow> char" where
  "lower_ascii c =
     (let n = (of_char c :: nat) in if 65 \<le> n \<and> n \<le> 90 then char_of (n + 32) else c)"

definition count_digits :: "string \<Rightarrow> nat" where
  "count_digits s = length (filter (\<lambda>c. c \<noteq> CHR ''_'') s)"

text \<open>The mantissa: digits with an optional point, digits on one side at least.\<close>

definition read_mantissa :: "string \<Rightarrow> rat option" where
  "read_mantissa s =
     (case split_on (CHR ''.'') s of
        [a] \<Rightarrow> map_option of_nat (read_digits 0 False a)
      | [a, b] \<Rightarrow>
          (if a = [] \<and> b = [] then None
           else case (if a = [] then Some 0 else read_digits 0 False a,
                      if b = [] then Some 0 else read_digits 0 False b) of
                  (Some m, Some f) \<Rightarrow> Some (of_nat m + of_nat f / 10 ^ count_digits b)
                | _ \<Rightarrow> None)
      | _ \<Rightarrow> None)"

definition read_exponent :: "string \<Rightarrow> int option" where
  "read_exponent s =
     (let (neg, t) = split_sign s
      in map_option (\<lambda>n. if neg then - int n else int n) (read_digits 0 False t))"

definition scale10 :: "rat \<Rightarrow> int \<Rightarrow> rat" where
  "scale10 q e = (if 0 \<le> e then q * 10 ^ nat e else q / 10 ^ nat (- e))"

definition to_double :: "rat \<Rightarrow> pyfloat" where
  "to_double q =
     (if 2 ^ 1024 - 2 ^ 970 \<le> q then PInf
      else if q \<le> 1 / 2 ^ 1075 then Fin 0 else Fin q)"

fun negate_float :: "pyfloat \<Rightarrow> pyfloat" where
  "negate_float (Fin q) = Fin (- q)"
| "negate_float PInf = NInf"
| "negate_float NInf = PInf"
| "negate_float NaN = NaN"

definition py_float :: "string \<Rightarrow> pyfloat option" where
  "py_float s =
     (let (neg, t0) = split_sign (py_strip s); t = map lower_ascii t0;
          mag = (if t = ''inf'' \<or> t = ''infinity'' then Some PInf
                 else if t = ''nan'' then Some NaN
                 else case split_on (CHR ''e'') t of
                        [m] \<Rightarrow> map_option to_double (read_mantissa m)
                      | [m, e] \<Rightarrow>
                          (case (read_mantissa m, read_exponent e) of
                             (Some q, Some k) \<Rightarrow> Some (to_double (scale10 q k))
                           | _ \<Rightarrow> None)
                      | _ \<Rightarrow> None)
      in map_option (\<lambda>f. if neg then negate_float f else f) mag)"

text \<open>The decimal text of a natural number, least digit last, and reading it back.\<close>

fun nat_text :: "nat \<Rightarrow> string" where
  "nat_text n = (if n < 10 then [char_of (48 + n)] else nat_text (n div 10) @ [char_of (48 + n mod 10)])"

declare nat_text.simps [simp del]

definition int_text :: "int \<Rightarrow> string" where
  "int_text i = (if i < 0 then ''-'' @ nat_text (nat (- i)) else nat_text (nat i))"

lemma digit_value_char: "d < 10 \<Longrightarrow> digit_value (char_of (48 + d)) = Some d"
  by (simp add: digit_value_def of_char_of)

lemma digit_not_underscore: "d < 10 \<Longrightarrow> char_of (48 + d :: nat) \<noteq> CHR ''_''"
proof
  assume "d < 10" and "char_of (48 + d :: nat) = CHR ''_''"
  then have "(of_char (char_of (48 + d :: nat)) :: nat) = of_char (CHR ''_'')" by simp
  then show False using \<open>d < 10\<close> by (simp add: of_char_of)
qed

lemma read_digits_append:
  "read_digits acc ok s = Some n \<Longrightarrow> read_digits acc ok (s @ t) = read_digits n True t"
  by (induction acc ok s rule: read_digits.induct) (auto split: if_splits option.splits)

lemma read_nat_text: "read_digits 0 False (nat_text n) = Some n"
proof (induction n rule: nat_text.induct)
  case (1 n)
  show ?case
  proof (cases "n < 10")
    case True
    then show ?thesis by (subst nat_text.simps) (simp add: digit_value_char digit_not_underscore)
  next
    case False
    then have "read_digits 0 False (nat_text (n div 10)) = Some (n div 10)" using 1 by simp
    then have "read_digits 0 False (nat_text (n div 10) @ [char_of (48 + n mod 10)]) = Some n"
      using digit_value_char [of "n mod 10"] digit_not_underscore [of "n mod 10"]
      by (simp add: read_digits_append)
    then show ?thesis using False by (subst nat_text.simps) simp
  qed
qed

lemma nat_text_digits: "c \<in> set (nat_text n) \<Longrightarrow> \<exists>d<10. c = char_of (48 + d :: nat)"
proof (induction n rule: nat_text.induct)
  case (1 n)
  then show ?case by (subst (asm) (2) nat_text.simps) (force split: if_splits)
qed

lemma below_ten: "d < (10::nat) \<Longrightarrow>
    d = 0 \<or> d = 1 \<or> d = 2 \<or> d = 3 \<or> d = 4 \<or> d = 5 \<or> d = 6 \<or> d = 7 \<or> d = 8 \<or> d = 9"
  by arith

lemma digit_char_plain:
  "d < 10 \<Longrightarrow> \<not> is_py_space (char_of (48 + d :: nat)) \<and>
    char_of (48 + d :: nat) \<noteq> CHR ''-'' \<and> char_of (48 + d :: nat) \<noteq> CHR ''+''"
  by (drule below_ten) (elim disjE; simp add: is_py_space_def char_of_def)

lemma strip_plain:
  assumes "\<And>c. c \<in> set s \<Longrightarrow> \<not> is_py_space c"
  shows "py_strip s = s"
proof -
  have "dropWhile is_py_space s = s" and "dropWhile is_py_space (rev s) = rev s"
    using assms by (auto simp: dropWhile_eq_self_iff hd_rev)
  then show ?thesis by (simp add: py_strip_def rstrip_by_def)
qed

lemma py_int_nat_text: "py_int (nat_text n) = Some (int n)"
proof -
  have plain: "\<not> is_py_space c \<and> c \<noteq> CHR ''-'' \<and> c \<noteq> CHR ''+''" if mem: "c \<in> set (nat_text n)" for c
  proof -
    obtain d where "d < 10" "c = char_of (48 + d :: nat)" using nat_text_digits [OF mem] by blast
    then show ?thesis using digit_char_plain [of d] by simp
  qed
  then have "py_strip (nat_text n) = nat_text n" by (simp add: strip_plain)
  moreover have "split_sign (nat_text n) = (False, nat_text n)"
    using plain by (cases "nat_text n") auto
  ultimately show ?thesis by (simp add: py_int_def read_nat_text)
qed

end
