(* ===== verification/Admission.thy ===== *)
theory Admission
  imports CandidateIndex PyNumber
begin

text \<open>
  The pure admission kernel of \<open>omd_server/admission.py\<close> and the operator parsing of
  \<open>omd_server/admission_config.py\<close>: the saturating aging policy, the rank of a queued request,
  mode compatibility, exact conflicts, the grant decision shared by the first claim and by every
  later promotion, and the digest of the authority facts a decision read.

  \<open>sha\<close> stands for \<open>sha256_json\<close>: the canonical JSON text of a value (\<open>json.dumps\<close>) hashed by
  \<open>hashlib\<close>. It is an argument of every definition that computes a digest.
\<close>

section \<open>Policy\<close>

datatype adm_error =
    ValueError string
  | TypeError string
  | JsonDecodeError
  | OverflowError

definition static_policy_version :: string where
  "static_policy_version = ''omd-admission/fair-reservation-v1''"

definition legacy_policy_version :: string where
  "legacy_policy_version = ''omd-admission/legacy-backfill-v1''"

definition aging_policy_schema :: string where
  "aging_policy_schema = ''omd-admission/saturating-aging-policy-v2''"

definition min_admission_priority :: int where
  "min_admission_priority = - (2 ^ 63)"

definition max_admission_priority :: int where
  "max_admission_priority = 2 ^ 63 - 1"

record queue_policy =
  aging_quantum :: rat
  max_age_boost :: int

definition default_policy :: queue_policy where
  "default_policy = \<lparr>aging_quantum = 60, max_age_boost = 10\<rparr>"

text \<open>\<open>float(x)\<close> of a JSON value.\<close>

fun float_of :: "json \<Rightarrow> (adm_error, pyfloat) result" where
  "float_of (JInt n) =
     (if \<bar>n\<bar> < 2 ^ 1024 - 2 ^ 970 then Inr (Fin (of_int n)) else Inl OverflowError)"
| "float_of (JFloat f) = Inr f"
| "float_of (JBool b) = Inr (Fin (if b then 1 else 0))"
| "float_of (JStr s) = (case py_float s of None \<Rightarrow> Inl (ValueError ''float'') | Some f \<Rightarrow> Inr f)"
| "float_of _ = Inl (TypeError ''float'')"

definition quantum_error :: adm_error where
  "quantum_error = ValueError ''aging_quantum must be finite and positive''"

definition boost_error :: adm_error where
  "boost_error = ValueError ''max_age_boost must be a non-negative signed-64-bit integer''"

definition check_quantum :: "json \<Rightarrow> (adm_error, rat) result" where
  "check_quantum v =
     (case v of JBool _ \<Rightarrow> Inl quantum_error
      | _ \<Rightarrow> (case float_of v of
                Inl OverflowError \<Rightarrow> Inl OverflowError
              | Inl _ \<Rightarrow> Inl quantum_error
              | Inr f \<Rightarrow> (case finite_float f of
                    None \<Rightarrow> Inl quantum_error
                  | Some q \<Rightarrow> if q \<le> 0 then Inl quantum_error else Inr q)))"

definition check_boost :: "json \<Rightarrow> (adm_error, int) result" where
  "check_boost v =
     (case v of JInt n \<Rightarrow>
          if n < 0 \<or> max_admission_priority < n then Inl boost_error else Inr n
      | _ \<Rightarrow> Inl boost_error)"

definition QueuePolicy :: "json \<Rightarrow> json \<Rightarrow> (adm_error, queue_policy) result" where
  "QueuePolicy quantum boost =
     bind_res (check_quantum quantum) (\<lambda>q.
       bind_res (check_boost boost) (\<lambda>b. Inr \<lparr>aging_quantum = q, max_age_boost = b\<rparr>))"

definition policy_envelope :: "queue_policy \<Rightarrow> json" where
  "policy_envelope pol = JDict
     [(''schema'', JStr aging_policy_schema),
      (''rank'', JStr ''base_priority_plus_saturating_age_boost''),
      (''priority_domain'', JStr ''signed-64-with-ceiling-headroom/v1''),
      (''aging_quantum'', JFloat (Fin (aging_quantum pol))),
      (''max_age_boost'', JInt (max_age_boost pol))]"

definition current_version :: "(json \<Rightarrow> string) \<Rightarrow> queue_policy \<Rightarrow> string" where
  "current_version sha pol = aging_policy_schema @ ''/sha256:'' @ sha (policy_envelope pol)"

definition accepts_base_priority ::
  "(json \<Rightarrow> string) \<Rightarrow> queue_policy \<Rightarrow> int \<Rightarrow> string option \<Rightarrow> bool" where
  "accepts_base_priority sha pol base version_arg =
     (if \<not> (min_admission_priority \<le> base \<and> base \<le> max_admission_priority) then False
      else let version = (case version_arg of None \<Rightarrow> current_version sha pol | Some v \<Rightarrow> v)
           in if version = static_policy_version \<or> version = legacy_policy_version then True
              else version = current_version sha pol
                \<and> base \<le> max_admission_priority - max_age_boost pol)"

definition effective_priority ::
  "(json \<Rightarrow> string) \<Rightarrow> queue_policy \<Rightarrow> int \<Rightarrow> string option \<Rightarrow> pyfloat option \<Rightarrow> pyfloat option \<Rightarrow>
   bool \<Rightarrow> int option" where
  "effective_priority sha pol base version enq obs allow_unenqueued =
     (if version = Some static_policy_version \<or> version = Some legacy_policy_version
      then (if accepts_base_priority sha pol base version then Some base else None)
      else if \<not> accepts_base_priority sha pol base version then None
      else case Option.bind obs finite_float of
        None \<Rightarrow> None
      | Some now \<Rightarrow>
          (case Option.bind (if enq = None \<and> allow_unenqueued then obs else enq) finite_float of
             None \<Rightarrow> None
           | Some since \<Rightarrow>
               let age = max 0 (now - since);
                   boost = (if max_age_boost pol = 0 then 0
                            else let steps = age / aging_quantum pol
                                 in if of_int (max_age_boost pol) \<le> steps then max_age_boost pol
                                    else \<lfloor>steps\<rfloor>)
               in Some (base + boost)))"

definition policy_rank_key ::
  "(json \<Rightarrow> string) \<Rightarrow> queue_policy \<Rightarrow> int \<Rightarrow> int option \<Rightarrow> string option \<Rightarrow> pyfloat option \<Rightarrow>
   pyfloat option \<Rightarrow> bool \<Rightarrow> (int \<times> int) option" where
  "policy_rank_key sha pol base seq version enq obs allow_unenqueued =
     (case seq of
        None \<Rightarrow> None
      | Some n \<Rightarrow>
          if n < 0 then None
          else case effective_priority sha pol base version enq obs allow_unenqueued of
                 None \<Rightarrow> None
               | Some e \<Rightarrow> Some (- e, n))"

text \<open>Tuple comparison: the smaller key has the higher rank.\<close>

fun rank_less :: "int \<times> int \<Rightarrow> int \<times> int \<Rightarrow> bool" where
  "rank_less (a, b) (c, d) \<longleftrightarrow> a < c \<or> (a = c \<and> b < d)"

section \<open>Conflicts\<close>

definition normalize_pathspec :: "string list \<Rightarrow> (adm_error, string list) result" where
  "normalize_pathspec ps =
     (let paths = sort (remdups ps)
      in if paths = [] \<or> \<not> list_all (\<lambda>p. p \<noteq> []) paths
         then Inl (ValueError ''pathspec must contain at least one non-empty string'')
         else Inr paths)"

definition pathspec_digest :: "(json \<Rightarrow> string) \<Rightarrow> string list \<Rightarrow> (adm_error, string) result" where
  "pathspec_digest sha ps =
     bind_res (normalize_pathspec ps) (\<lambda>paths. Inr (sha (JList (map JStr paths))))"

definition modes_compatible :: "string \<Rightarrow> string \<Rightarrow> (adm_error, bool) result" where
  "modes_compatible left right =
     (if \<not> List.member admission_modes left \<or> \<not> List.member admission_modes right
      then Inl (ValueError ''unsupported orbit mode pair'')
      else Inr ((left = right \<and> right = ''read'') \<or> (left = right \<and> right = ''shared'')))"

definition admission_rank_key :: "int \<Rightarrow> int \<Rightarrow> int \<times> int" where
  "admission_rank_key prio seq = (- prio, seq)"

text \<open>\<open>_paths\<close>, then the iteration of \<open>sets_overlap\<close> over what it returns: a string iterates over
  its characters and an object over its keys; a number, a boolean or null is not iterable, and an
  element that is not a string is a \<open>TypeError\<close> when the overlap test reaches it.\<close>

fun iterate_json :: "json \<Rightarrow> (adm_error, json list) result" where
  "iterate_json (JList vs) = Inr vs"
| "iterate_json (JStr s) = Inr (map (\<lambda>c. JStr [c]) s)"
| "iterate_json (JDict kvs) = Inr (map (\<lambda>(k, _). JStr k) kvs)"
| "iterate_json _ = Inl (TypeError ''not iterable'')"

fun row_paths :: "pathcol \<Rightarrow> (adm_error, json) result" where
  "row_paths (Text None) = Inl JsonDecodeError"
| "row_paths (Text (Some v)) = Inr v"
| "row_paths (Decoded (JStr _)) = Inl JsonDecodeError"
| "row_paths (Decoded v) = Inr v"

fun any_res :: "('a \<Rightarrow> ('e, bool) result) \<Rightarrow> 'a list \<Rightarrow> ('e, bool) result" where
  "any_res f [] = Inr False"
| "any_res f (x # xs) = bind_res (f x) (\<lambda>b. if b then Inr True else any_res f xs)"

fun overlap_json :: "string \<Rightarrow> json \<Rightarrow> (adm_error, bool) result" where
  "overlap_json a (JStr b) = Inr (globs_overlap a b)"
| "overlap_json a _ = Inl (TypeError ''glob must be a string'')"

definition sets_overlap_json :: "string list \<Rightarrow> json \<Rightarrow> (adm_error, bool) result" where
  "sets_overlap_json s1 v =
     any_res (\<lambda>a. bind_res (iterate_json v) (any_res (overlap_json a))) s1"

definition exact_conflict :: "string list \<Rightarrow> string \<Rightarrow> adm_row \<Rightarrow> (adm_error, bool) result" where
  "exact_conflict ps m row =
     bind_res (modes_compatible m (mode row)) (\<lambda>compatible.
       if compatible then Inr False
       else bind_res (row_paths (pathspec row)) (sets_overlap_json ps))"

section \<open>Requests and decisions\<close>

record admission_request =
  req_pathspec :: "string list"
  req_mode :: string
  req_priority :: int
  req_queue_seq :: int
  req_orbit_id :: "string option"
  req_policy_version :: string
  req_enqueued_at :: "pyfloat option"

definition build_request ::
  "string list \<Rightarrow> string \<Rightarrow> int \<Rightarrow> int \<Rightarrow> string option \<Rightarrow> string \<Rightarrow> pyfloat option \<Rightarrow>
   (adm_error, admission_request) result" where
  "build_request ps m prio seq oid version enq =
     (if \<not> List.member admission_modes m then Inl (ValueError ''unsupported orbit mode'')
      else if \<not> (min_admission_priority \<le> prio \<and> prio \<le> max_admission_priority)
        then Inl (ValueError ''priority must be a signed-64-bit integer'')
      else if seq < 0 then Inl (ValueError ''queue_seq must be a non-negative integer'')
      else if version = [] then Inl (ValueError ''policy_version must be a non-empty string'')
      else if enq \<noteq> None \<and> Option.bind enq finite_float = None
        then Inl (ValueError ''enqueued_at must be a finite timestamp'')
      else bind_res (normalize_pathspec ps) (\<lambda>paths.
        Inr \<lparr>req_pathspec = paths, req_mode = m, req_priority = prio, req_queue_seq = seq,
             req_orbit_id = oid, req_policy_version = version, req_enqueued_at = enq\<rparr>))"

record admission_decision =
  dec_outcome :: string
  dec_held_blockers :: "string list"
  dec_pending_predecessors :: "string list"
  dec_base_priority :: int
  dec_effective_priority :: int
  dec_observed_at :: rat
  dec_candidate_scan :: candidate_scan

definition blocker_ids :: "admission_decision \<Rightarrow> string list" where
  "blocker_ids d = dec_held_blockers d @ dec_pending_predecessors d"

definition grantable :: "admission_decision \<Rightarrow> bool" where
  "grantable d \<longleftrightarrow> dec_outcome d = ''GRANT''"

definition request_rank ::
  "(json \<Rightarrow> string) \<Rightarrow> queue_policy \<Rightarrow> pyfloat \<Rightarrow> admission_request \<Rightarrow> (int \<times> int) option" where
  "request_rank sha pol obs req =
     policy_rank_key sha pol (req_priority req) (Some (req_queue_seq req))
       (Some (req_policy_version req)) (req_enqueued_at req) (Some obs) True"

definition row_rank ::
  "(json \<Rightarrow> string) \<Rightarrow> queue_policy \<Rightarrow> pyfloat \<Rightarrow> adm_row \<Rightarrow> (int \<times> int) option" where
  "row_rank sha pol obs row =
     policy_rank_key sha pol (case priority row of None \<Rightarrow> 0 | Some p \<Rightarrow> p) (queue_seq row)
       (policy_version row) (enqueued_at row) (Some obs) False"

definition pending_outranks ::
  "(json \<Rightarrow> string) \<Rightarrow> queue_policy \<Rightarrow> pyfloat \<Rightarrow> int \<times> int \<Rightarrow> adm_row \<Rightarrow> bool" where
  "pending_outranks sha pol obs rank row =
     (if queue_seq row = None \<or> policy_version row = None \<or> policy_version row = Some [] then True
      else case row_rank sha pol obs row of None \<Rightarrow> True | Some r \<Rightarrow> rank_less r rank)"

definition held_condition :: "admission_request \<Rightarrow> adm_row \<Rightarrow> (adm_error, bool) result" where
  "held_condition req row =
     (if Some (orbit_id row) = req_orbit_id req then Inr False
      else exact_conflict (req_pathspec req) (req_mode req) row)"

definition pending_condition ::
  "(json \<Rightarrow> string) \<Rightarrow> queue_policy \<Rightarrow> pyfloat \<Rightarrow> int \<times> int \<Rightarrow> admission_request \<Rightarrow> adm_row \<Rightarrow>
   (adm_error, bool) result" where
  "pending_condition sha pol obs rank req row =
     (if Some (orbit_id row) = req_orbit_id req then Inr False
      else bind_res (exact_conflict (req_pathspec req) (req_mode req) row)
        (\<lambda>c. Inr (c \<and> pending_outranks sha pol obs rank row)))"

definition decide_admission ::
  "(json \<Rightarrow> string) \<Rightarrow> queue_policy \<Rightarrow> pyfloat \<Rightarrow> bool \<Rightarrow> admission_request \<Rightarrow> adm_row list \<Rightarrow>
   adm_row list \<Rightarrow> (adm_error, admission_decision) result" where
  "decide_admission sha pol obs index_enabled req held pending =
     (case finite_float obs of
        None \<Rightarrow> Inl (ValueError ''observed_at must be a finite timestamp'')
      | Some now \<Rightarrow>
          let cands = select_conflict_candidates (req_pathspec req) held pending index_enabled
          in bind_res (filter_res (held_condition req) (sel_held cands)) (\<lambda>held_rows.
             case request_rank sha pol obs req of
               None \<Rightarrow> Inl (ValueError ''request queue policy authority is unavailable'')
             | Some rank \<Rightarrow>
                 bind_res (filter_res (pending_condition sha pol obs rank req) (sel_pending cands))
                   (\<lambda>pending_rows.
                     let held_ids = sort (map orbit_id held_rows);
                         pending_ids = sort (map orbit_id pending_rows)
                     in Inr \<lparr>dec_outcome =
                            (if held_ids \<noteq> [] \<or> pending_ids \<noteq> [] then ''QUEUE'' else ''GRANT''),
                          dec_held_blockers = held_ids,
                          dec_pending_predecessors = pending_ids,
                          dec_base_priority = req_priority req,
                          dec_effective_priority = - fst rank,
                          dec_observed_at = now,
                          dec_candidate_scan = sel_scan cands\<rparr>)))"

section \<open>Digest of the authority facts\<close>

fun opt_json :: "('a \<Rightarrow> json) \<Rightarrow> 'a option \<Rightarrow> json" where
  "opt_json f None = JNull"
| "opt_json f (Some x) = f x"

definition snapshot_item ::
  "(json \<Rightarrow> string) \<Rightarrow> queue_policy option \<Rightarrow> pyfloat option \<Rightarrow> string \<Rightarrow> adm_row \<Rightarrow>
   (adm_error, json) result" where
  "snapshot_item sha pol obs st row =
     bind_res (bind_res (row_paths (pathspec row)) iterate_json) (\<lambda>paths.
       let prio = (case priority row of None \<Rightarrow> 0 | Some p \<Rightarrow> p);
           base = [(''state'', JStr st), (''orbit_id'', JStr (orbit_id row)),
                   (''agent_id'', JStr (agent_id row)), (''mode'', JStr (mode row)),
                   (''pathspec'', JList paths), (''priority'', JInt prio),
                   (''queue_seq'', opt_json JInt (queue_seq row)),
                   (''policy_version'', opt_json JStr (policy_version row)),
                   (''enqueued_at'', opt_json JFloat (enqueued_at row)),
                   (''fence'', opt_json JInt (fence row))];
           version = (case policy_version row of
                        None \<Rightarrow> static_policy_version
                      | Some v \<Rightarrow> if v = [] then static_policy_version else v)
       in Inr (JDict (case pol of
            Some p \<Rightarrow> if st = ''PENDING''
              then base @ [(''effective_priority'', opt_json JInt
                (effective_priority sha p prio (Some version) (enqueued_at row) obs False))]
              else base
          | None \<Rightarrow> base)))"

definition snapshot_items ::
  "(json \<Rightarrow> string) \<Rightarrow> queue_policy option \<Rightarrow> pyfloat option \<Rightarrow> adm_row list \<Rightarrow> adm_row list \<Rightarrow>
   (adm_error, json list) result" where
  "snapshot_items sha pol obs held pending =
     bind_res (map_res (\<lambda>r. bind_res (snapshot_item sha pol obs ''HELD'' r)
                          (\<lambda>j. Inr (orbit_id r, j))) held) (\<lambda>hs.
     bind_res (map_res (\<lambda>r. bind_res (snapshot_item sha pol obs ''PENDING'' r)
                          (\<lambda>j. Inr (orbit_id r, j))) pending) (\<lambda>ps.
       Inr (map snd (sort_key fst hs) @ map snd (sort_key fst ps))))"

definition authority_snapshot_hash ::
  "(json \<Rightarrow> string) \<Rightarrow> int option \<Rightarrow> queue_policy option \<Rightarrow> pyfloat option \<Rightarrow> adm_row list \<Rightarrow>
   adm_row list \<Rightarrow> (adm_error, string) result" where
  "authority_snapshot_hash sha epoch pol obs held pending =
     bind_res (snapshot_items sha pol obs held pending) (\<lambda>rows.
       let snap = [(''coordinator_epoch'', opt_json JInt epoch), (''orbits'', JList rows)]
       in case pol of
            None \<Rightarrow> Inr (sha (JDict snap))
          | Some p \<Rightarrow>
              (case Option.bind obs finite_float of
                 None \<Rightarrow> Inl (ValueError ''observed_at must be finite when policy is supplied'')
               | Some now \<Rightarrow> Inr (sha (JDict (snap @
                   [(''observed_at'', JFloat (Fin now)),
                    (''queue_policy_version'', JStr (current_version sha p))])))))"

section \<open>Operator configuration\<close>

definition blank :: "string \<Rightarrow> bool" where
  "blank s \<longleftrightarrow> py_strip s = []"

definition parse_admission_queue_capacity :: "string option \<Rightarrow> (adm_error, int) result" where
  "parse_admission_queue_capacity raw =
     (case raw of
        None \<Rightarrow> Inr 1024
      | Some s \<Rightarrow>
          if blank s then Inr 1024
          else case py_int s of
                 None \<Rightarrow> Inl (ValueError ''OMD_ADMISSION_QUEUE_CAPACITY must be a non-negative integer'')
               | Some n \<Rightarrow>
                   if n < 0
                   then Inl (ValueError ''OMD_ADMISSION_QUEUE_CAPACITY must be a non-negative integer'')
                   else Inr n)"

definition parse_admission_aging_quantum :: "string option \<Rightarrow> (adm_error, rat) result" where
  "parse_admission_aging_quantum raw =
     (let err = Inl (ValueError ''OMD_ADMISSION_AGING_QUANTUM_SECONDS must be a positive finite number'')
      in case raw of
           None \<Rightarrow> Inr (aging_quantum default_policy)
         | Some s \<Rightarrow>
             if blank s then Inr (aging_quantum default_policy)
             else case py_float s of
                    None \<Rightarrow> err
                  | Some f \<Rightarrow> (case finite_float f of
                        None \<Rightarrow> err
                      | Some q \<Rightarrow> if q \<le> 0 then err else Inr q))"

definition parse_admission_max_age_boost :: "string option \<Rightarrow> (adm_error, int) result" where
  "parse_admission_max_age_boost raw =
     (let err = Inl (ValueError ''OMD_ADMISSION_MAX_AGE_BOOST must be a non-negative signed-64-bit integer'')
      in case raw of
           None \<Rightarrow> Inr (max_age_boost default_policy)
         | Some s \<Rightarrow>
             if blank s then Inr (max_age_boost default_policy)
             else case py_int s of
                    None \<Rightarrow> err
                  | Some n \<Rightarrow> if n < 0 \<or> max_admission_priority < n then err else Inr n)"

section \<open>Conflicts of well-formed rows\<close>

text \<open>A row is sound if its mode is known and its path column decodes to strings.\<close>

definition sound_row :: "adm_row \<Rightarrow> bool" where
  "sound_row row \<longleftrightarrow> List.member admission_modes (mode row) \<and> (\<exists>ps. index_pathspec (pathspec row) = Inr ps)"

definition paths_of :: "adm_row \<Rightarrow> string list" where
  "paths_of row = (case index_pathspec (pathspec row) of Inr ps \<Rightarrow> ps | Inl _ \<Rightarrow> [])"

text \<open>The specification of a conflict: incompatible modes and overlapping write sets.\<close>

definition compatible_modes :: "string \<Rightarrow> string \<Rightarrow> bool" where
  "compatible_modes l r \<longleftrightarrow> l = r \<and> (r = ''read'' \<or> r = ''shared'')"

definition conflicts :: "string list \<Rightarrow> string \<Rightarrow> adm_row \<Rightarrow> bool" where
  "conflicts ps m row \<longleftrightarrow> \<not> compatible_modes m (mode row) \<and> sets_overlap ps (paths_of row)"

lemma all_some_map: "all_some (map json_str vs) = Some ps \<Longrightarrow> vs = map JStr ps"
proof (induction vs arbitrary: ps)
  case (Cons v vs)
  then show ?case by (cases v) auto
qed simp

lemma index_paths_Inr: "index_paths v = Inr ps \<Longrightarrow> v = JList (map JStr ps)"
  by (cases v) (auto split: option.splits if_splits dest: all_some_map)

lemma row_paths_sound: "index_pathspec c = Inr ps \<Longrightarrow> row_paths c = Inr (JList (map JStr ps))"
  by (cases c rule: index_pathspec.cases) (auto dest: index_paths_Inr)

lemma any_res_list: "(\<And>x. x \<in> set xs \<Longrightarrow> f x = Inr (p x)) \<Longrightarrow> any_res f xs = Inr (list_ex p xs)"
  by (induction xs) auto

lemma sets_overlap_json_list: "sets_overlap_json s1 (JList (map JStr s2)) = Inr (sets_overlap s1 s2)"
proof -
  have "any_res (overlap_json a) (map JStr s2) = Inr (list_ex (globs_overlap a) s2)" for a
    by (induction s2) auto
  then show ?thesis
    by (simp add: sets_overlap_json_def sets_overlap_def any_res_list)
qed

lemma exact_conflict_sound:
  assumes "sound_row row" and "List.member admission_modes m"
  shows "exact_conflict ps m row = Inr (conflicts ps m row)"
proof -
  obtain qs where q: "index_pathspec (pathspec row) = Inr qs"
    using assms(1) by (auto simp: sound_row_def)
  have m: "modes_compatible m (mode row) = Inr (compatible_modes m (mode row))"
    using assms by (auto simp: modes_compatible_def sound_row_def compatible_modes_def)
  show ?thesis
    by (simp add: exact_conflict_def m row_paths_sound [OF q] sets_overlap_json_list conflicts_def
        paths_of_def q)
qed

lemma irrelevant_no_conflict:
  assumes "irrelevant ps row" and "List.member admission_modes m"
  shows "exact_conflict ps m row = Inr False"
  using assms exact_conflict_sound [of row m ps]
  by (auto simp: irrelevant_def sound_row_def conflicts_def paths_of_def)

section \<open>The index is transparent\<close>

text \<open>Everything a decision says except the scan report.\<close>

definition decision_facts :: "admission_decision \<Rightarrow> string \<times> string list \<times> string list \<times> int \<times> int \<times> rat" where
  "decision_facts d = (dec_outcome d, dec_held_blockers d, dec_pending_predecessors d,
     dec_base_priority d, dec_effective_priority d, dec_observed_at d)"

lemma held_filter_transparent:
  assumes "List.member admission_modes (req_mode req)"
  shows "filter_res (held_condition req)
      (sel_held (select_conflict_candidates (req_pathspec req) held pending en)) =
    filter_res (held_condition req) held"
proof -
  have "held_condition req r = Inr False" if "irrelevant (req_pathspec req) r" for r
    using irrelevant_no_conflict [OF that assms] by (simp add: held_condition_def)
  then show ?thesis
    using held_filter.filter_pick [of held "req_pathspec req" "held_condition req" "(pending, en)"] by simp
qed

lemma pending_filter_transparent:
  assumes "List.member admission_modes (req_mode req)"
  shows "filter_res (pending_condition sha pol obs rank req)
      (sel_pending (select_conflict_candidates (req_pathspec req) held pending en)) =
    filter_res (pending_condition sha pol obs rank req) pending"
proof -
  have "pending_condition sha pol obs rank req r = Inr False" if "irrelevant (req_pathspec req) r" for r
    using irrelevant_no_conflict [OF that assms] by (simp add: pending_condition_def)
  then show ?thesis
    using pending_filter.filter_pick [of pending "req_pathspec req"
        "pending_condition sha pol obs rank req" "(held, en)"] by simp
qed

text \<open>The decision written without the index: the reference the optimised routine is compared with.\<close>

definition reference_decision ::
  "(json \<Rightarrow> string) \<Rightarrow> queue_policy \<Rightarrow> pyfloat \<Rightarrow> admission_request \<Rightarrow> adm_row list \<Rightarrow> adm_row list \<Rightarrow>
   (adm_error, string \<times> string list \<times> string list \<times> int \<times> int \<times> rat) result" where
  "reference_decision sha pol obs req held pending =
     (case finite_float obs of
        None \<Rightarrow> Inl (ValueError ''observed_at must be a finite timestamp'')
      | Some now \<Rightarrow> bind_res (filter_res (held_condition req) held) (\<lambda>hs.
          case request_rank sha pol obs req of
            None \<Rightarrow> Inl (ValueError ''request queue policy authority is unavailable'')
          | Some rank \<Rightarrow> bind_res (filter_res (pending_condition sha pol obs rank req) pending) (\<lambda>ps.
              Inr (if hs \<noteq> [] \<or> ps \<noteq> [] then ''QUEUE'' else ''GRANT'', sort (map orbit_id hs),
                   sort (map orbit_id ps), req_priority req, - fst rank, now))))"

lemma sort_Nil_iff [simp]: "sort xs = [] \<longleftrightarrow> xs = []"
  by (metis length_0_conv length_sort)

lemma decide_reference:
  assumes "List.member admission_modes (req_mode req)"
  shows "bind_res (decide_admission sha pol obs en req held pending) (\<lambda>d. Inr (decision_facts d)) =
    reference_decision sha pol obs req held pending"
proof (cases "finite_float obs")
  case (Some now)
  show ?thesis
  proof (cases "filter_res (held_condition req) held")
    case (Inr hs)
    show ?thesis
    proof (cases "request_rank sha pol obs req")
      case (Some rank)
      then show ?thesis
        using \<open>finite_float obs = Some now\<close> Inr
        by (cases "filter_res (pending_condition sha pol obs rank req) pending")
          (simp_all add: decide_admission_def reference_decision_def Let_def decision_facts_def
            held_filter_transparent [OF assms] pending_filter_transparent [OF assms])
    qed (simp add: decide_admission_def reference_decision_def Let_def Some
        held_filter_transparent [OF assms] Inr)
  qed (simp add: decide_admission_def reference_decision_def Let_def Some
      held_filter_transparent [OF assms])
qed (simp add: decide_admission_def reference_decision_def)

text \<open>What a returned decision means for the rows.\<close>

lemma decide_Inr:
  assumes "decide_admission sha pol obs en req held pending = Inr d"
    and "List.member admission_modes (req_mode req)"
  obtains hs ps rank now where "finite_float obs = Some now"
    "filter_res (held_condition req) held = Inr hs" "request_rank sha pol obs req = Some rank"
    "filter_res (pending_condition sha pol obs rank req) pending = Inr ps"
    "grantable d \<longleftrightarrow> hs = [] \<and> ps = []"
    "dec_held_blockers d = sort (map orbit_id hs)"
    "dec_pending_predecessors d = sort (map orbit_id ps)"
    "dec_base_priority d = req_priority req" "dec_effective_priority d = - fst rank"
    "dec_observed_at d = now"
proof -
  have ref: "reference_decision sha pol obs req held pending = Inr (decision_facts d)"
    using decide_reference [OF assms(2), of sha pol obs en held pending] assms(1) by simp
  then obtain now where now: "finite_float obs = Some now"
    by (auto simp: reference_decision_def split: option.splits)
  from ref now obtain hs where hs: "filter_res (held_condition req) held = Inr hs"
    by (auto simp: reference_decision_def bind_res_Inr_iff)
  from ref now hs obtain rank where rank: "request_rank sha pol obs req = Some rank"
    by (auto simp: reference_decision_def split: option.splits)
  from ref now hs rank obtain ps
    where ps: "filter_res (pending_condition sha pol obs rank req) pending = Inr ps"
    by (auto simp: reference_decision_def bind_res_Inr_iff)
  have "decision_facts d = (if hs \<noteq> [] \<or> ps \<noteq> [] then ''QUEUE'' else ''GRANT'',
      sort (map orbit_id hs), sort (map orbit_id ps), req_priority req, - fst rank, now)"
    using ref now hs rank ps by (simp add: reference_decision_def del: if_split)
  then show ?thesis
    using that [OF now hs rank ps] by (auto simp: decision_facts_def grantable_def split: if_splits)
qed

section \<open>Ranks\<close>

lemma rank_less_irrefl [simp]: "\<not> rank_less r r"
  by (cases r) simp

lemma rank_less_trans: "rank_less a b \<Longrightarrow> rank_less b c \<Longrightarrow> rank_less a c"
  by (cases a; cases b; cases c) auto

lemma rank_less_linear: "rank_less a b \<or> a = b \<or> rank_less b a"
  by (cases a; cases b) auto

lemma policy_rank_key_seq: "policy_rank_key sha pol b seq v e t al = Some r \<Longrightarrow> seq = Some (snd r)"
  by (auto simp: policy_rank_key_def split: option.splits if_splits)

lemma version_not_static:
  "current_version sha pol \<noteq> static_policy_version" "current_version sha pol \<noteq> legacy_policy_version"
  by (simp_all add: current_version_def static_policy_version_def legacy_policy_version_def
      aging_policy_schema_def)

text \<open>A policy that passed the checks of its constructor.\<close>

definition valid_policy :: "queue_policy \<Rightarrow> bool" where
  "valid_policy pol \<longleftrightarrow> 0 < aging_quantum pol \<and> 0 \<le> max_age_boost pol
     \<and> max_age_boost pol \<le> max_admission_priority"

lemma QueuePolicy_valid: "QueuePolicy q b = Inr pol \<Longrightarrow> valid_policy pol"
  by (auto simp: QueuePolicy_def bind_res_Inr_iff check_quantum_def check_boost_def valid_policy_def
      split: json.splits sum.splits option.splits if_splits adm_error.splits)

text \<open>The boost of a request that has waited \<open>age\<close> seconds.\<close>

definition age_boost :: "queue_policy \<Rightarrow> rat \<Rightarrow> int" where
  "age_boost pol age = min (max_age_boost pol) \<lfloor>max 0 age / aging_quantum pol\<rfloor>"

lemma age_boost_bounds: "valid_policy pol \<Longrightarrow> 0 \<le> age_boost pol a \<and> age_boost pol a \<le> max_age_boost pol"
  by (auto simp: age_boost_def valid_policy_def)

lemma age_boost_mono: "valid_policy pol \<Longrightarrow> a \<le> b \<Longrightarrow> age_boost pol a \<le> age_boost pol b"
  unfolding age_boost_def
  by (intro min.mono order_refl floor_mono divide_right_mono) (auto simp: valid_policy_def)

lemma age_boost_saturated:
  assumes "valid_policy pol" and "of_int (max_age_boost pol) * aging_quantum pol \<le> a"
  shows "age_boost pol a = max_age_boost pol"
proof -
  have "of_int (max_age_boost pol) \<le> max 0 a / aging_quantum pol"
    using assms by (simp add: valid_policy_def pos_le_divide_eq)
  then show ?thesis by (simp add: age_boost_def le_floor_iff min_def)
qed

lemma age_boost_code:
  assumes "valid_policy pol"
  shows "(if max_age_boost pol = 0 then 0
      else let steps = max 0 a / aging_quantum pol
           in if of_int (max_age_boost pol) \<le> steps then max_age_boost pol else \<lfloor>steps\<rfloor>) =
    age_boost pol a"
proof -
  have "0 \<le> max 0 a / aging_quantum pol" using assms by (simp add: valid_policy_def)
  then show ?thesis
    by (auto simp: age_boost_def Let_def le_floor_iff min_def floor_less_iff not_le)
qed

lemma current_version_nonempty [simp]: "current_version sha pol \<noteq> []"
  by (simp add: current_version_def aging_policy_schema_def)

lemma effective_current:
  assumes "valid_policy pol" and "min_admission_priority \<le> base"
    and "base \<le> max_admission_priority - max_age_boost pol"
  shows "effective_priority sha pol base (Some (current_version sha pol)) (Some (Fin since))
      (Some (Fin now)) al = Some (base + age_boost pol (now - since))"
proof -
  have "base \<le> max_admission_priority" using assms by (simp add: valid_policy_def)
  then have acc: "accepts_base_priority sha pol base (Some (current_version sha pol))"
    using assms by (simp add: accepts_base_priority_def)
  show ?thesis
    using version_not_static [of sha pol] age_boost_code [OF assms(1), of "now - since"]
    by (simp add: effective_priority_def acc Let_def)
qed

section \<open>Queued rows as requests\<close>

text \<open>
  The request built from a PENDING row under a policy version: the row's own in \<open>_wait_for\<close> of
  \<open>core.py\<close>, the row's or else the current one in a promotion. A path column that is not a list of
  strings is an error of \<open>normalize_pathspec\<close> whose class depends on the elements; the model gives
  \<open>TypeError\<close>.
\<close>

definition request_with :: "string \<Rightarrow> adm_row \<Rightarrow> (adm_error, admission_request) result" where
  "request_with version row =
     bind_res (row_paths (pathspec row)) (\<lambda>v.
       case (priority row, queue_seq row) of
         (Some p, Some n) \<Rightarrow>
           (case v of
              JList vs \<Rightarrow> (case all_some (map json_str vs) of
                  None \<Rightarrow> Inl (TypeError ''pathspec'')
                | Some ps \<Rightarrow> build_request ps (mode row) p n (Some (orbit_id row)) version (enqueued_at row))
            | _ \<Rightarrow> Inl (TypeError ''pathspec''))
       | (None, _) \<Rightarrow> Inl (ValueError ''priority must be an integer'')
       | (Some p, None) \<Rightarrow> Inl (ValueError ''queue_seq must be a non-negative integer''))"

definition row_request ::
  "(json \<Rightarrow> string) \<Rightarrow> queue_policy \<Rightarrow> adm_row \<Rightarrow> (adm_error, admission_request) result" where
  "row_request sha pol row =
     request_with (case policy_version row of
         None \<Rightarrow> current_version sha pol
       | Some v \<Rightarrow> if v = [] then current_version sha pol else v) row"

lemma all_some_strings [simp]: "all_some (map (json_str \<circ> JStr) ps) = Some ps"
  by (induction ps) auto

text \<open>A queued row with rank authority: what the coordinator writes when it queues a claim.\<close>

definition ranked_row :: "(json \<Rightarrow> string) \<Rightarrow> queue_policy \<Rightarrow> adm_row \<Rightarrow> bool" where
  "ranked_row sha pol row \<longleftrightarrow> sound_row row \<and> policy_version row = Some (current_version sha pol)
     \<and> (\<exists>p n e. priority row = Some p \<and> queue_seq row = Some n \<and> enqueued_at row = Some (Fin e) \<and>
          0 \<le> n \<and> min_admission_priority \<le> p \<and> p \<le> max_admission_priority - max_age_boost pol)"

lemma sets_overlap_set_cong: "set a = set b \<Longrightarrow> sets_overlap a c = sets_overlap b c"
  by (auto simp: sets_overlap_iff)

lemma index_paths_nonempty: "index_pathspec c = Inr ps \<Longrightarrow> ps \<noteq> [] \<and> list_all (\<lambda>p. p \<noteq> []) ps"
proof -
  have "index_paths v = Inr ps \<Longrightarrow> ps \<noteq> [] \<and> list_all (\<lambda>p. p \<noteq> []) ps" for v
    by (cases v) (auto split: option.splits if_splits)
  then show "index_pathspec c = Inr ps \<Longrightarrow> ps \<noteq> [] \<and> list_all (\<lambda>p. p \<noteq> []) ps"
    by (cases c rule: index_pathspec.cases) auto
qed

lemma row_request_ranked:
  assumes "valid_policy pol" and "ranked_row sha pol row"
  obtains req where "row_request sha pol row = Inr req" "req_orbit_id req = Some (orbit_id row)"
    "req_mode req = mode row" "List.member admission_modes (req_mode req)"
    "set (req_pathspec req) = set (paths_of row)"
    "\<And>obs. request_rank sha pol obs req = row_rank sha pol obs row"
proof -
  obtain p n e where row: "sound_row row" "policy_version row = Some (current_version sha pol)"
    "priority row = Some p" "queue_seq row = Some n" "enqueued_at row = Some (Fin e)"
    "0 \<le> n" "min_admission_priority \<le> p" "p \<le> max_admission_priority - max_age_boost pol"
    using assms(2) by (auto simp: ranked_row_def)
  obtain ps where ps: "index_pathspec (pathspec row) = Inr ps"
    using row(1) by (auto simp: sound_row_def)
  then have ne: "ps \<noteq> []" "list_all (\<lambda>p. p \<noteq> []) ps" using index_paths_nonempty by auto
  have norm: "normalize_pathspec ps = Inr (sort (remdups ps))"
    using ne by (auto simp: normalize_pathspec_def Let_def list_all_iff)
  have modes: "List.member admission_modes (mode row)" using row(1) by (simp add: sound_row_def)

  have pmax: "p \<le> max_admission_priority" using row(8) assms(1) by (simp add: valid_policy_def)
  let ?req = "\<lparr>req_pathspec = sort (remdups ps), req_mode = mode row, req_priority = p,
     req_queue_seq = n, req_orbit_id = Some (orbit_id row),
     req_policy_version = current_version sha pol, req_enqueued_at = Some (Fin e)\<rparr>"
  have req: "row_request sha pol row = Inr ?req"
    using row modes pmax by (simp add: row_request_def request_with_def row_paths_sound [OF ps] build_request_def norm)
  show ?thesis
  proof (rule that [OF req])
    show "request_rank sha pol obs ?req = row_rank sha pol obs row" for obs
      using row by (simp add: request_rank_def row_rank_def policy_rank_key_def effective_priority_def)
  qed (use modes ps in \<open>simp_all add: paths_of_def\<close>)
qed

lemma row_rank_ranked:
  assumes "valid_policy pol" and "ranked_row sha pol row"
  shows "\<exists>r. row_rank sha pol (Fin now) row = Some r"
  using assms effective_current [OF assms(1)]
  by (fastforce simp: ranked_row_def row_rank_def policy_rank_key_def)

lemma rank_minimal_exists:
  assumes "finite A" and "A \<noteq> {}"
  shows "\<exists>r\<in>A. \<forall>s\<in>A. \<not> rank_less s r"
  using assms
proof (induction rule: finite_ne_induct)
  case (insert x F)
  then obtain r where r: "r \<in> F" "\<forall>s\<in>F. \<not> rank_less s r" by blast
  show ?case
  proof (cases "rank_less x r")
    case True
    then show ?thesis using r by (metis insert_iff rank_less_irrefl rank_less_trans)
  next
    case False
    then show ?thesis using r by (intro bexI [of _ r]) auto
  qed
qed auto

section \<open>Properties of admission\<close>

text \<open>C26. The candidate index never changes a decision: with the index on or off the outcome, the
  blockers, the priorities and every raised error are the same. (The claim and promotion paths
  build their requests with a checked mode.)\<close>

theorem index_never_changes_decision:
  assumes "List.member admission_modes (req_mode req)"
  shows "bind_res (decide_admission sha pol obs True req held pending) (\<lambda>d. Inr (decision_facts d)) =
    bind_res (decide_admission sha pol obs False req held pending) (\<lambda>d. Inr (decision_facts d))"
  by (simp only: decide_reference [OF assms])

definition sample_request :: "string list \<Rightarrow> admission_request" where
  "sample_request ps = \<lparr>req_pathspec = ps, req_mode = ''write'', req_priority = 0, req_queue_seq = 5,
     req_orbit_id = None, req_policy_version = static_policy_version, req_enqueued_at = None\<rparr>"

lemma index_never_changes_decision_witness:
  "bind_res (decide_admission (\<lambda>_. ''h'') default_policy (Fin 3) True (sample_request [''src/a/x.py''])
      [sample_row ''o1'' [''src/a/**''], sample_row ''o2'' [''docs/**'']] [])
      (\<lambda>d. Inr (decision_facts d)) =
    Inr (''QUEUE'', [''o1''], [], 0, 0, 3)"
proof -
  have m: "List.member admission_modes (req_mode (sample_request [''src/a/x.py'']))" by code_simp
  show ?thesis unfolding index_never_changes_decision [OF m] by code_simp
qed

lemma decision_exact:
  assumes "decide_admission sha pol obs en req held pending = Inr d"
    and "List.member admission_modes (req_mode req)"
    and "\<forall>r\<in>set held \<union> set pending. sound_row r"
  shows "grantable d \<longleftrightarrow>
    (\<forall>r\<in>set held. Some (orbit_id r) \<noteq> req_orbit_id req \<longrightarrow>
       \<not> conflicts (req_pathspec req) (req_mode req) r) \<and>
    (\<forall>r\<in>set pending. Some (orbit_id r) \<noteq> req_orbit_id req \<longrightarrow>
       conflicts (req_pathspec req) (req_mode req) r \<longrightarrow>
       (\<exists>rank. request_rank sha pol obs req = Some rank \<and> \<not> pending_outranks sha pol obs rank r))"
proof (rule decide_Inr [OF assms(1,2)])
  fix hs ps rank now
  assume hs: "filter_res (held_condition req) held = Inr hs"
    and rank: "request_rank sha pol obs req = Some rank"
    and ps: "filter_res (pending_condition sha pol obs rank req) pending = Inr ps"
    and g: "grantable d \<longleftrightarrow> hs = [] \<and> ps = []"
  have h: "r \<in> set hs \<longleftrightarrow> r \<in> set held \<and> Some (orbit_id r) \<noteq> req_orbit_id req \<and>
      conflicts (req_pathspec req) (req_mode req) r" for r
    using filter_res_Inr_mem [OF hs, of r] exact_conflict_sound assms(2,3)
    by (auto simp: held_condition_def split: if_splits)
  have p: "r \<in> set ps \<longleftrightarrow> r \<in> set pending \<and> Some (orbit_id r) \<noteq> req_orbit_id req \<and>
      conflicts (req_pathspec req) (req_mode req) r \<and> pending_outranks sha pol obs rank r" for r
    using filter_res_Inr_mem [OF ps, of r] exact_conflict_sound assms(2,3)
    by (auto simp: pending_condition_def split: if_splits)
  have "hs = [] \<longleftrightarrow> (\<forall>r. r \<notin> set hs)" and "ps = [] \<longleftrightarrow> (\<forall>r. r \<notin> set ps)"
    by (simp_all add: set_empty [symmetric] del: set_empty)
  then show ?thesis using g h p rank by auto
qed

text \<open>C21. A decision grants exactly the unblocked requests: no other HELD row conflicts with the
  request, and every other PENDING row that conflicts with it has a lower rank. Unrelated queued
  work never blocks (there is no global queue head).\<close>

theorem grant_iff_unblocked:
  assumes "decide_admission sha pol obs en req held pending = Inr d"
    and "List.member admission_modes (req_mode req)"
    and "\<forall>r\<in>set held \<union> set pending. sound_row r"
  shows "grantable d \<longleftrightarrow>
    (\<forall>r\<in>set held. Some (orbit_id r) \<noteq> req_orbit_id req \<longrightarrow>
       \<not> conflicts (req_pathspec req) (req_mode req) r) \<and>
    (\<forall>r\<in>set pending. Some (orbit_id r) \<noteq> req_orbit_id req \<longrightarrow>
       conflicts (req_pathspec req) (req_mode req) r \<longrightarrow>
       (\<exists>rank. request_rank sha pol obs req = Some rank \<and> \<not> pending_outranks sha pol obs rank r))"
  by (rule decision_exact [OF assms])

lemma grant_iff_unblocked_witness:
  "grantable \<lparr>dec_outcome = ''GRANT'', dec_held_blockers = [], dec_pending_predecessors = [],
     dec_base_priority = 0, dec_effective_priority = 0, dec_observed_at = 3,
     dec_candidate_scan = \<lparr>active_held = 1, active_pending = 0, candidate_held = 0,
       candidate_pending = 0, full_scan_fallback = False, fallback_reason = None\<rparr>\<rparr> \<and>
   \<not> conflicts [''src/a/x.py''] ''write'' (sample_row ''o2'' [''docs/**''])"
proof -
  let ?d = "\<lparr>dec_outcome = ''GRANT'', dec_held_blockers = [], dec_pending_predecessors = [],
     dec_base_priority = 0, dec_effective_priority = 0, dec_observed_at = 3,
     dec_candidate_scan = \<lparr>active_held = 1, active_pending = 0, candidate_held = 0,
       candidate_pending = 0, full_scan_fallback = False, fallback_reason = None\<rparr>\<rparr>"
  have d: "decide_admission (\<lambda>_. ''h'') default_policy (Fin 3) True (sample_request [''src/a/x.py''])
      [sample_row ''o2'' [''docs/**'']] [] = Inr ?d" by code_simp
  have m: "List.member admission_modes (req_mode (sample_request [''src/a/x.py'']))" by code_simp
  have s: "\<forall>r\<in>set [sample_row ''o2'' [''docs/**'']] \<union> set []. sound_row r"
    by (simp add: sound_row_def admission_modes_def)
  have g: "grantable ?d" by (simp add: grantable_def)
  then show ?thesis
    using grant_iff_unblocked [OF d m s] by (simp add: sample_request_def)
qed

text \<open>Pairwise exclusion of the HELD rows.\<close>

definition held_exclusive :: "adm_row list \<Rightarrow> bool" where
  "held_exclusive held \<longleftrightarrow> (\<forall>a\<in>set held. \<forall>b\<in>set held. orbit_id a \<noteq> orbit_id b \<longrightarrow>
     \<not> conflicts (paths_of a) (mode a) b)"

lemma conflicts_commute: "conflicts (paths_of a) (mode a) b = conflicts (paths_of b) (mode b) a"
  using sets_overlap_commute by (auto simp: conflicts_def compatible_modes_def)

text \<open>A grant keeps the HELD rows pairwise exclusive: if no two HELD rows conflict and the
  decision for a queued row is GRANT, then no two rows conflict after the row has joined them.
  This is the invariant the coordinator exists for.\<close>

theorem grant_keeps_held_exclusive:
  assumes "held_exclusive held" and "\<forall>r\<in>set held \<union> set pending. sound_row r"
    and "row_request sha pol row = Inr req" and "valid_policy pol" and "ranked_row sha pol row"
    and "decide_admission sha pol obs en req held pending = Inr d" and "grantable d"
  shows "held_exclusive (row # held)"
proof -
  obtain req' where r: "row_request sha pol row = Inr req'" "req_orbit_id req' = Some (orbit_id row)"
    "req_mode req' = mode row" "List.member admission_modes (req_mode req')"
    "set (req_pathspec req') = set (paths_of row)"
    by (rule row_request_ranked [OF assms(4,5)])
  have "req' = req" using r(1) assms(3) by simp
  note r = r [unfolded this]
  have "\<not> conflicts (req_pathspec req) (req_mode req) a" if "a \<in> set held" "orbit_id a \<noteq> orbit_id row" for a
    using decision_exact [OF assms(6) r(4) assms(2)] assms(7) that r(2) by auto
  then have new: "\<not> conflicts (paths_of row) (mode row) a"
    if "a \<in> set held" "orbit_id a \<noteq> orbit_id row" for a
    using that r(3) sets_overlap_set_cong [OF r(5)] by (auto simp: conflicts_def)
  then have "\<not> conflicts (paths_of a) (mode a) row" if "a \<in> set held" "orbit_id a \<noteq> orbit_id row" for a
    using that conflicts_commute by blast
  with new assms(1) show ?thesis by (auto simp: held_exclusive_def)
qed

definition sample_pending :: "string \<Rightarrow> string list \<Rightarrow> adm_row" where
  "sample_pending i ps = (sample_row i ps)\<lparr>policy_version := Some (current_version (\<lambda>_. ''h'') default_policy),
     enqueued_at := Some (Fin 1)\<rparr>"

lemma sample_pending_ranked:
  "ps = [[c]] \<Longrightarrow> ranked_row (\<lambda>_. ''h'') default_policy (sample_pending i ps)"
  by (simp add: ranked_row_def sample_pending_def sound_row_def admission_modes_def default_policy_def
      min_admission_priority_def max_admission_priority_def)

lemma default_policy_valid: "valid_policy default_policy"
  by (simp add: valid_policy_def default_policy_def max_admission_priority_def)

lemma grant_keeps_held_exclusive_witness:
  "held_exclusive [sample_pending ''o1'' [''a''], sample_row ''o2'' [''b'']]"
proof -
  let ?row = "sample_pending ''o1'' [''a'']"
  let ?held = "[sample_row ''o2'' [''b'']]"
  let ?sha = "\<lambda>_ :: json. ''h''"
  have h: "held_exclusive ?held" by (simp add: held_exclusive_def)
  have s: "\<forall>r\<in>set ?held \<union> set []. sound_row r" by (simp add: sound_row_def admission_modes_def)
  obtain req where req: "row_request ?sha default_policy ?row = Inr req"
    and req_eq: "req = \<lparr>req_pathspec = [''a''], req_mode = ''write'', req_priority = 0,
      req_queue_seq = 1, req_orbit_id = Some ''o1'',
      req_policy_version = current_version ?sha default_policy, req_enqueued_at = Some (Fin 1)\<rparr>"
    by (rule that [OF _ refl]) code_simp
  obtain d where d: "decide_admission ?sha default_policy (Fin 5) True req ?held [] = Inr d" "grantable d"
    by (rule that [of "\<lparr>dec_outcome = ''GRANT'', dec_held_blockers = [], dec_pending_predecessors = [],
       dec_base_priority = 0, dec_effective_priority = 0, dec_observed_at = 5,
       dec_candidate_scan = \<lparr>active_held = 1, active_pending = 0, candidate_held = 0,
         candidate_pending = 0, full_scan_fallback = False, fallback_reason = None\<rparr>\<rparr>"];
       unfold req_eq; code_simp)
  show ?thesis
    using grant_keeps_held_exclusive [OF h s req default_policy_valid sample_pending_ranked [OF refl] d] .
qed



text \<open>No overtaking among equals: a request that was queued no later, with a smaller ticket and
  a base priority at least as high, outranks the other one at every observation time.\<close>

theorem earlier_request_never_overtaken:
  assumes "valid_policy pol" and "ranked_row sha pol a" and "ranked_row sha pol b"
    and "the (priority b) \<le> the (priority a)" and "the (queue_seq a) < the (queue_seq b)"
    and "enqueued_at a = Some (Fin ea)" and "enqueued_at b = Some (Fin eb)" and "ea \<le> eb"
  shows "\<exists>ra rb. row_rank sha pol (Fin now) a = Some ra \<and> row_rank sha pol (Fin now) b = Some rb
    \<and> rank_less ra rb"
proof -
  have "age_boost pol (now - eb) \<le> age_boost pol (now - ea)"
    by (rule age_boost_mono [OF assms(1)]) (use assms(8) in auto)
  then show ?thesis
    using assms(2-8) effective_current [OF assms(1)]
    by (auto simp: ranked_row_def row_rank_def policy_rank_key_def)
qed

lemma earlier_request_never_overtaken_witness:
  "\<exists>ra rb. row_rank (\<lambda>_. ''h'') default_policy (Fin 900) (sample_pending ''o1'' [''a'']) = Some ra \<and>
    row_rank (\<lambda>_. ''h'') default_policy (Fin 900)
      ((sample_pending ''o2'' [''a''])\<lparr>queue_seq := Some 2, enqueued_at := Some (Fin 9)\<rparr>) = Some rb \<and>
    rank_less ra rb"
proof (rule earlier_request_never_overtaken [OF default_policy_valid sample_pending_ranked [OF refl],
      where ea = 1 and eb = 9])
  show "ranked_row (\<lambda>_. ''h'') default_policy
      ((sample_pending ''o2'' [''a''])\<lparr>queue_seq := Some 2, enqueued_at := Some (Fin 9)\<rparr>)"
    by (simp add: ranked_row_def sample_pending_def sound_row_def admission_modes_def default_policy_def
      min_admission_priority_def max_admission_priority_def)
qed (simp_all add: sample_pending_def)

text \<open>Bounded overtaking: a request that has waited for the whole boost (\<open>max_age_boost\<close> quanta)
  outranks every newcomer whose base priority exceeds its own by at most the boost, at the time
  the newcomer arrives.\<close>

theorem saturated_request_beats_newcomer:
  assumes "valid_policy pol" and "ranked_row sha pol a" and "ranked_row sha pol b"
    and "the (priority b) \<le> the (priority a) + max_age_boost pol"
    and "the (queue_seq a) < the (queue_seq b)"
    and "enqueued_at a = Some (Fin ea)" and "enqueued_at b = Some (Fin now)"
    and "ea + of_int (max_age_boost pol) * aging_quantum pol \<le> now"
  shows "\<exists>ra rb. row_rank sha pol (Fin now) a = Some ra \<and> row_rank sha pol (Fin now) b = Some rb
    \<and> rank_less ra rb"
proof -
  have "age_boost pol (now - ea) = max_age_boost pol"
    by (rule age_boost_saturated [OF assms(1)]) (use assms(8) in simp)
  moreover have "age_boost pol 0 = 0" using assms(1) by (simp add: age_boost_def valid_policy_def)
  ultimately show ?thesis
    using assms(2-7) effective_current [OF assms(1)]
    by (auto simp: ranked_row_def row_rank_def policy_rank_key_def)
qed

lemma saturated_request_beats_newcomer_witness:
  "\<exists>ra rb. row_rank (\<lambda>_. ''h'') default_policy (Fin 601) (sample_pending ''o1'' [''a'']) = Some ra \<and>
    row_rank (\<lambda>_. ''h'') default_policy (Fin 601)
      ((sample_pending ''o2'' [''a''])\<lparr>priority := Some 10, queue_seq := Some 2,
        enqueued_at := Some (Fin 601)\<rparr>) = Some rb \<and> rank_less ra rb"
proof (rule saturated_request_beats_newcomer [OF default_policy_valid sample_pending_ranked [OF refl],
      where ea = 1])
  show "ranked_row (\<lambda>_. ''h'') default_policy ((sample_pending ''o2'' [''a''])\<lparr>priority := Some 10,
      queue_seq := Some 2, enqueued_at := Some (Fin 601)\<rparr>)"
    by (simp add: ranked_row_def sample_pending_def sound_row_def admission_modes_def default_policy_def
      min_admission_priority_def max_admission_priority_def)
qed (simp_all add: sample_pending_def default_policy_def)

text \<open>C29. The queue cannot block itself: if queued rows have rank authority and no HELD row
  conflicts with any of them, then at every time the decision of one of them is GRANT.\<close>

theorem some_pending_grantable:
  assumes "valid_policy pol" and "pending \<noteq> []" and "\<forall>r\<in>set pending. ranked_row sha pol r"
    and "\<forall>h\<in>set held. sound_row h"
    and "\<forall>r\<in>set pending. \<forall>h\<in>set held. \<not> conflicts (paths_of r) (mode r) h"
  shows "\<exists>row\<in>set pending. \<exists>req d. row_request sha pol row = Inr req \<and>
    decide_admission sha pol (Fin now) en req held pending = Inr d \<and> grantable d"
proof -
  let ?rank = "\<lambda>r. the (row_rank sha pol (Fin now) r)"
  have rank: "row_rank sha pol (Fin now) r = Some (?rank r)" if "r \<in> set pending" for r
    using row_rank_ranked [OF assms(1)] assms(3) that by fastforce
  obtain row where row: "row \<in> set pending" "\<forall>s\<in>set pending. \<not> rank_less (?rank s) (?rank row)"
    using rank_minimal_exists [of "?rank ` set pending"] assms(2) by auto
  obtain req where req: "row_request sha pol row = Inr req" "req_orbit_id req = Some (orbit_id row)"
    "req_mode req = mode row" "List.member admission_modes (req_mode req)"
    "set (req_pathspec req) = set (paths_of row)"
    "request_rank sha pol (Fin now) req = row_rank sha pol (Fin now) row"
    by (rule row_request_ranked [OF assms(1)]) (use assms(3) row(1) in blast)+
  have sound: "sound_row r" if "r \<in> set held \<union> set pending" for r
    using that assms(3,4) by (auto simp: ranked_row_def)
  have c: "conflicts (req_pathspec req) (req_mode req) r = conflicts (paths_of row) (mode row) r" for r
    using sets_overlap_set_cong [OF req(5)] req(3) by (simp add: conflicts_def)
  have "filter_res (held_condition req) held = Inr (filter (\<lambda>_. False) held)"
    using exact_conflict_sound [OF _ req(4)] sound assms(5) row(1)
    by (intro filter_res_total) (auto simp: held_condition_def c)
  moreover have "filter_res (pending_condition sha pol (Fin now) (?rank row) req) pending =
      Inr (filter (\<lambda>_. False) pending)"
  proof (rule filter_res_total)
    fix r assume r: "r \<in> set pending"
    obtain rr where rr: "row_rank sha pol (Fin now) r = Some rr"
      using rank [OF r] by blast
    have "\<not> rank_less (?rank r) (?rank row)"
      using row(2) r by blast
    then have "\<not> pending_outranks sha pol (Fin now) (?rank row) r"
      using r assms(3) by (auto simp: pending_outranks_def ranked_row_def current_version_def rr)
    then show "pending_condition sha pol (Fin now) (?rank row) req r = Inr False"
      using exact_conflict_sound [OF sound req(4)] r by (auto simp: pending_condition_def)
  qed
  ultimately have "reference_decision sha pol (Fin now) req held pending =
      Inr (''GRANT'', [], [], req_priority req, - fst (?rank row), now)"
    using rank [OF row(1)] req(6)
    by (cases "row_rank sha pol (Fin now) row") (simp_all add: reference_decision_def)
  then have "bind_res (decide_admission sha pol (Fin now) en req held pending)
      (\<lambda>d. Inr (decision_facts d)) = Inr (''GRANT'', [], [], req_priority req, - fst (?rank row), now)"
    by (simp only: decide_reference [OF req(4)])
  then obtain d where "decide_admission sha pol (Fin now) en req held pending = Inr d" "grantable d"
    by (auto simp: bind_res_Inr_iff decision_facts_def grantable_def)
  with row(1) req(1) show ?thesis by blast
qed

lemma some_pending_grantable_witness:
  "\<exists>row\<in>set [sample_pending ''o1'' [''a''], sample_pending ''o2'' [''a'']].
     \<exists>req d. row_request (\<lambda>_. ''h'') default_policy row = Inr req \<and>
       decide_admission (\<lambda>_. ''h'') default_policy (Fin 5) True req []
         [sample_pending ''o1'' [''a''], sample_pending ''o2'' [''a'']] = Inr d \<and> grantable d"
  by (rule some_pending_grantable [OF default_policy_valid])
    (use sample_pending_ranked in auto)


end
