(* ===== verification/Store.thy ===== *)
theory Store
  imports Admission "HOL-Library.Option_ord" "HOL-Library.Product_Lexorder"
begin

text \<open>
  The persistent state, \<open>omd_server/store.py\<close>. Every table of the schema is a list of records in
  insertion order (SQLite's rowid order), a column is a field, a nullable column an option. The
  statements are list operations: \<open>update_where\<close>, \<open>filter\<close>, \<open>sort_key\<close>; a comparison with NULL is
  never true, and NULL sorts first. A column that holds JSON text is modelled by the value the
  text decodes to, a 0/1 column by a \<open>bool\<close>, the text counters of \<open>meta\<close> by integer fields of the
  database. The operations run inside the critical section of the coordinator (\<open>BEGIN IMMEDIATE\<close>),
  so they are functions on the database; \<open>now\<close> is what \<open>time.time()\<close> returns in them, and the
  \<open>n\<close>-th \<open>uuid.uuid4()\<close> of a database is the decimal text of \<open>n\<close>, so that ids never repeat.
\<close>

section \<open>SQL on lists\<close>

definition update_where :: "('a \<Rightarrow> bool) \<Rightarrow> ('a \<Rightarrow> 'a) \<Rightarrow> 'a list \<Rightarrow> 'a list" where
  "update_where p f xs = map (\<lambda>x. if p x then f x else x) xs"

fun fetchone :: "'a list \<Rightarrow> 'a option" where
  "fetchone [] = None"
| "fetchone (x # xs) = Some x"

text \<open>\<open>INSERT ... ON CONFLICT DO UPDATE\<close>: update the rows with the key, or append the new row.\<close>

definition upsert :: "('a \<Rightarrow> bool) \<Rightarrow> ('a \<Rightarrow> 'a) \<Rightarrow> 'a \<Rightarrow> 'a list \<Rightarrow> 'a list" where
  "upsert p f new xs = (if \<exists>x\<in>set xs. p x then update_where p f xs else xs @ [new])"

lemma distinct_upsert:
  assumes "distinct (map k xs)" and "\<And>x. p x \<longleftrightarrow> k x = k new" and "\<And>x. p x \<Longrightarrow> k (f x) = k x"
  shows "distinct (map k (upsert p f new xs))"
proof (cases "\<exists>x\<in>set xs. p x")
  case True
  then have "map k (upsert p f new xs) = map k xs"
    using assms(3) by (simp add: upsert_def update_where_def)
  then show ?thesis using assms(1) by simp
next
  case False
  then show ?thesis using assms(1,2) by (auto simp: upsert_def)
qed

text \<open>\<open>col = ?\<close> of a nullable column with a parameter that may be \<open>None\<close> (NULL matches nothing), and
  \<open>col IS ?\<close>, which is plain equality.\<close>

definition sql_eq :: "'a option \<Rightarrow> 'a option \<Rightarrow> bool" where
  "sql_eq a b \<longleftrightarrow> a \<noteq> None \<and> a = b"

text \<open>\<open>col IS NOT NULL AND col <= ?\<close>.\<close>

definition due :: "rat option \<Rightarrow> rat \<Rightarrow> bool" where
  "due col now \<longleftrightarrow> (case col of None \<Rightarrow> False | Some t \<Rightarrow> t \<le> now)"

text \<open>The keyword default \<open>...\<close> of the update statements: \<open>None\<close> leaves the column alone.\<close>

definition assign :: "'a option \<Rightarrow> 'a \<Rightarrow> 'a" where
  "assign u old = (case u of None \<Rightarrow> old | Some v \<Rightarrow> v)"

lemma assign_simps [simp]: "assign None x = x" "assign (Some v) x = v"
  by (simp_all add: assign_def)

lemma set_update_where: "set (update_where p f xs) = f ` {x\<in>set xs. p x} \<union> {x\<in>set xs. \<not> p x}"
  by (auto simp: update_where_def)

lemma update_where_Nil [simp]: "update_where p f [] = []"
  and update_where_Cons [simp]:
    "update_where p f (x # xs) = (if p x then f x else x) # update_where p f xs"
  and length_update_where [simp]: "length (update_where p f xs) = length xs"
  by (simp_all add: update_where_def)

lemma map_update_where:
  assumes "\<And>x. p x \<Longrightarrow> k (f x) = k x"
  shows "map k (update_where p f xs) = map k xs"
  using assms by (simp add: update_where_def)

lemma filter_update_where:
  assumes "\<And>x. p x \<Longrightarrow> q (f x) = q x"
  shows "filter q (update_where p f xs) = update_where p f (filter q xs)"
  using assms by (induction xs) auto

lemma update_where_none: "(\<And>x. x \<in> set xs \<Longrightarrow> \<not> p x) \<Longrightarrow> update_where p f xs = xs"
  by (induction xs) auto

lemma fetchone_Some: "fetchone xs = Some x \<Longrightarrow> x \<in> set xs"
  by (cases xs) auto

lemma fetchone_None [simp]: "fetchone xs = None \<longleftrightarrow> xs = []"
  by (cases xs) auto

lemma fetchone_filter_None: "fetchone (filter p xs) = None \<longleftrightarrow> (\<forall>x\<in>set xs. \<not> p x)"
  by (simp add: filter_empty_conv)

lemma fetchone_filter_Some: "fetchone (filter p xs) = Some x \<Longrightarrow> x \<in> set xs \<and> p x"
  by (auto dest!: fetchone_Some)

lemma fetchone_update_other:
  assumes "\<And>x. q x \<Longrightarrow> \<not> p x" and "\<And>x. p x \<Longrightarrow> \<not> q (f x)"
  shows "fetchone (filter q (update_where p f xs)) = fetchone (filter q xs)"
proof -
  have "filter q (update_where p f xs) = filter q xs"
    using assms by (induction xs) auto
  then show ?thesis by simp
qed

lemma fetchone_update_same:
  assumes "\<And>x. p x \<Longrightarrow> p (f x)"
  shows "fetchone (filter p (update_where p f xs)) = map_option f (fetchone (filter p xs))"
  using assms by (induction xs) auto

lemma fetchone_upsert_same:
  assumes "p new" and "\<And>x. p x \<Longrightarrow> p (f x)"
  shows "fetchone (filter p (upsert p f new xs)) =
    (case fetchone (filter p xs) of None \<Rightarrow> Some new | Some x \<Rightarrow> Some (f x))"
proof (cases "\<exists>x\<in>set xs. p x")
  case True
  then have "fetchone (filter p xs) \<noteq> None" by (simp add: filter_empty_conv)
  then show ?thesis
    using True fetchone_update_same [of p f xs, OF assms(2)]
    by (auto simp: upsert_def split: option.splits)
next
  case False
  then have "filter p xs = []" by (simp add: filter_empty_conv)
  then show ?thesis using False assms(1) by (simp add: upsert_def)
qed

lemma fetchone_upsert_other:
  assumes "\<not> q new" and "\<And>x. q x \<Longrightarrow> \<not> p x" and "\<And>x. p x \<Longrightarrow> \<not> q (f x)"
  shows "fetchone (filter q (upsert p f new xs)) = fetchone (filter q xs)"
  using fetchone_update_other [of q p f xs] assms by (auto simp: upsert_def)

lemma fetchone_map [simp]: "fetchone (map g xs) = map_option g (fetchone xs)"
  by (cases xs) auto

lemma fetchone_sort_key: "fetchone (sort_key k xs) = Some x \<Longrightarrow> x \<in> set xs \<and> (\<forall>y\<in>set xs. k x \<le> k y)"
proof (cases "sort_key k xs")
  case (Cons y ys)
  assume "fetchone (sort_key k xs) = Some x"
  with Cons have x: "sort_key k xs = x # ys" by simp
  have "sorted (map k (x # ys))" using sorted_sort_key [of k xs] x by simp
  moreover have "set xs = set (x # ys)" using x by (metis set_sort)
  ultimately show ?thesis by auto
qed simp

lemma sort_key_Nil [simp]: "sort_key k xs = [] \<longleftrightarrow> xs = []"
  by (metis length_0_conv length_sort)

section \<open>Rows\<close>

text \<open>A row of \<open>orbits\<close> extends the columns admission reads.\<close>

record orbit = adm_row +
  o_task_id :: "string option"
  o_state :: string
  o_expires_at :: "rat option"
  o_created_at :: rat
  o_released_at :: "rat option"
  o_reason :: string
  o_kind :: string
  o_resource_key :: "string option"
  o_merging :: bool
  o_merge_deadline :: "rat option"
  o_merge_started_mono :: "rat option"
  o_operation_id :: "string option"
  o_owner_instance :: "string option"
  o_owner_generation :: "int option"
  o_intent_key :: "string option"
  o_requested_ttl :: "rat option"
  o_pathspec_digest :: "string option"
  o_request_id :: "string option"
  o_request_generation :: int
  o_bail_epoch :: int
  o_authority_snapshot_hash :: "string option"
  o_decision_id :: "string option"
  o_decision_type :: "string option"
  o_decision_schema :: "string option"
  o_decision_observed_at :: "rat option"
  o_decision_effective_priority :: "int option"
  o_blocker_ids :: "string list"
  o_wait_deadline :: "rat option"
  o_terminal_reason :: "string option"
  o_read_gen :: "int option"
  o_stale :: bool
  o_terminal_at :: "rat option"

record task =
  t_task_id :: string
  t_name :: string
  t_writes :: "string list"
  t_reads :: "string list"
  t_deps :: "string list"
  t_shared :: "string list"
  t_state :: string
  t_agent_id :: "string option"
  t_priority :: int
  t_created_at :: rat
  t_worktree :: "string option"
  t_branch :: "string option"
  t_connect_fence :: "int option"
  t_connect_intent_at :: "rat option"
  t_branch_tip_sha :: "string option"
  t_integration_base_sha :: "string option"
  t_connect_attempt_id :: "string option"
  t_connect_owner_instance :: "string option"
  t_connect_owner_generation :: int
  t_connect_token_id :: "string option"
  t_connect_request_id :: "string option"
  t_connect_arg_hash :: "string option"
  t_connect_repo_bound :: bool
  t_merge_sha :: "string option"
  t_merged_at :: "rat option"
  t_read_synced_gen :: "int option"
  t_reclaims :: int
  t_terminal_at :: "rat option"
  t_resolve_for :: "string option"
  t_resolve_conflict_files :: "string list option"

record merge_entry =
  m_gen :: int
  m_task_id :: string
  m_globs :: "string list"
  m_merged_at :: rat

record agent =
  a_agent_id :: string
  a_name :: "string option"
  a_state :: string
  a_last_heartbeat :: rat
  a_bail_epoch :: int
  a_liveness_ttl :: "rat option"

record flag =
  f_key :: string
  f_value :: "string option"
  f_set_by :: "string option"
  f_set_at :: rat
  f_type :: string
  f_epoch :: int
  f_rank :: int
  f_status :: string
  f_owner_agent :: "string option"
  f_lease_id :: "string option"

record flag_waiter =
  fw_waiter_id :: string
  fw_agent_id :: "string option"
  fw_key :: string
  fw_want_value :: "string option"
  fw_observed_epoch :: int
  fw_deadline :: rat
  fw_state :: string
  fw_wake_reason :: "string option"
  fw_created_at :: rat

record semaphore =
  s_sem_id :: string
  s_max_permits :: int
  s_created_at :: rat

record sem_waiter =
  sw_waiter_id :: string
  sw_sem_id :: string
  sw_agent_id :: string
  sw_ttl :: "rat option"
  sw_priority :: int
  sw_enqueued_seq :: int
  sw_deadline :: rat
  sw_state :: string
  sw_permit_id :: "string option"
  sw_created_at :: rat

record idem_row =
  i_request_id :: string
  i_agent_id :: "string option"
  i_verb :: string
  i_arg_hash :: string
  i_args :: "json option"
  i_status :: string
  i_response :: "json option"
  i_created_at :: rat
  i_completed_at :: "rat option"
  i_operation_id :: "string option"
  i_owner_instance :: "string option"
  i_owner_generation :: "int option"

record outbox_row =
  x_seq :: nat
  x_event_id :: string
  x_effect_key :: string
  x_schema_version :: string
  x_repository_id :: string
  x_request_id :: string
  x_request_generation :: int
  x_orbit_id :: string
  x_transition_kind :: string
  x_correlation_id :: string
  x_payload :: json
  x_payload_sha256 :: string
  x_state :: string
  x_attempts :: nat
  x_available_at :: rat
  x_claimed_by :: "string option"
  x_claim_token :: "string option"
  x_claim_deadline :: "rat option"
  x_created_at :: rat
  x_delivered_at :: "rat option"
  x_last_error :: "string option"

record barrier =
  b_barrier_id :: string
  b_name :: string
  b_kind :: string
  b_parties :: int
  b_generation :: int
  b_state :: string
  b_break_reason :: "string option"
  b_policy :: string
  b_deadline_at :: "rat option"
  b_created_at :: rat

record party =
  p_barrier_id :: string
  p_generation :: int
  p_task_id :: string
  p_agent_id :: "string option"
  p_arrived :: bool
  p_arrive_fence :: "int option"

record lease =
  l_coordinator_id :: string
  l_epoch :: int
  l_started_at :: rat
  l_last_heartbeat :: rat
  l_ttl :: "rat option"

record db =
  schema_version :: "string option"
  fence_counter :: int
  seq_counter :: "int option"
  gen_counter :: "int option"
  leader_lease :: "lease option"
  orbits :: "orbit list"
  orbits_archive :: "(orbit \<times> rat) list"
  tasks :: "task list"
  tasks_archive :: "(task \<times> rat) list"
  merge_log :: "merge_entry list"
  agents :: "agent list"
  flags :: "flag list"
  flag_waiters :: "flag_waiter list"
  semaphores :: "semaphore list"
  sem_waiters :: "sem_waiter list"
  idempotency :: "idem_row list"
  outbox :: "outbox_row list"
  outbox_deps :: "(string \<times> string) list"
  outbox_autoinc :: nat
  barriers :: "barrier list"
  barrier_parties :: "party list"
  uuids :: nat

definition empty_db :: db where
  "empty_db = \<lparr>schema_version = Some ''omd/2026-07-20-terminal-gc'', fence_counter = 0,
     seq_counter = None, gen_counter = None, leader_lease = None, orbits = [], orbits_archive = [],
     tasks = [], tasks_archive = [], merge_log = [], agents = [], flags = [], flag_waiters = [],
     semaphores = [], sem_waiters = [], idempotency = [], outbox = [], outbox_deps = [],
     outbox_autoinc = 0, barriers = [], barrier_parties = [], uuids = 0\<rparr>"

definition fresh_uuid :: "db \<Rightarrow> string \<times> db" where
  "fresh_uuid db = (nat_text (uuids db), db\<lparr>uuids := Suc (uuids db)\<rparr>)"

section \<open>Counters and meta\<close>

definition next_fence :: "db \<Rightarrow> int \<times> db" where
  "next_fence db = (fence_counter db + 1, db\<lparr>fence_counter := fence_counter db + 1\<rparr>)"

definition current_fence :: "db \<Rightarrow> int" where
  "current_fence db = fence_counter db"

text \<open>The first ticket is 0: the statement inserts the row and increments only an existing one.\<close>

definition next_seq :: "db \<Rightarrow> int \<times> db" where
  "next_seq db =
     (let n = (case seq_counter db of None \<Rightarrow> 0 | Some n \<Rightarrow> n + 1) in (n, db\<lparr>seq_counter := Some n\<rparr>))"

definition current_seq :: "db \<Rightarrow> int" where
  "current_seq db = (case seq_counter db of None \<Rightarrow> - 1 | Some n \<Rightarrow> n)"

definition integration_gen :: "db \<Rightarrow> int" where
  "integration_gen db = (case gen_counter db of None \<Rightarrow> 0 | Some n \<Rightarrow> n)"

definition bump_integration_gen :: "db \<Rightarrow> int \<times> db" where
  "bump_integration_gen db =
     (let n = (case gen_counter db of None \<Rightarrow> 1 | Some n \<Rightarrow> n + 1) in (n, db\<lparr>gen_counter := Some n\<rparr>))"

definition append_merge_log :: "rat \<Rightarrow> int \<Rightarrow> string \<Rightarrow> string list \<Rightarrow> db \<Rightarrow> db" where
  "append_merge_log now gen tid globs db = db\<lparr>merge_log :=
     upsert (\<lambda>m. m_gen m = gen) (\<lambda>m. m\<lparr>m_task_id := tid, m_globs := globs\<rparr>)
       \<lparr>m_gen = gen, m_task_id = tid, m_globs = globs, m_merged_at = now\<rparr> (merge_log db)\<rparr>"

definition merges_since :: "int \<Rightarrow> db \<Rightarrow> merge_entry list" where
  "merges_since gen db = sort_key m_gen (filter (\<lambda>m. m_gen m > gen) (merge_log db))"

definition get_leader :: "db \<Rightarrow> lease option" where
  "get_leader db = leader_lease db"

definition cas_leader :: "int option \<Rightarrow> lease \<Rightarrow> db \<Rightarrow> bool \<times> db" where
  "cas_leader expect_epoch new_lease db =
     (if map_option l_epoch (get_leader db) \<noteq> expect_epoch then (False, db)
      else (True, db\<lparr>leader_lease := Some new_lease\<rparr>))"

definition write_leader :: "lease \<Rightarrow> db \<Rightarrow> db" where
  "write_leader lease db = db\<lparr>leader_lease := Some lease\<rparr>"

section \<open>Orbits\<close>

definition live_read_orbits :: "db \<Rightarrow> orbit list" where
  "live_read_orbits db = filter (\<lambda>o'. o_state o' = ''HELD'' \<and> o_kind o' = ''orbit'' \<and> mode o' = ''read'')
     (orbits db)"

definition stale_read_orbits_for_task :: "string \<Rightarrow> db \<Rightarrow> orbit list" where
  "stale_read_orbits_for_task tid db =
     filter (\<lambda>o'. o_task_id o' = Some tid \<and> o_kind o' = ''orbit'' \<and> mode o' = ''read'' \<and>
       o_state o' = ''HELD'' \<and> o_stale o') (orbits db)"

text \<open>The keyword defaults of \<open>add_orbit\<close>; the required arguments are those of the constructor.\<close>

definition orbit_args ::
  "string option \<Rightarrow> string \<Rightarrow> string list \<Rightarrow> string \<Rightarrow> string \<Rightarrow> orbit" where
  "orbit_args tid aid paths md st =
     \<lparr>orbit_id = '''', agent_id = aid, mode = md, pathspec = Text (Some (JList (map JStr paths))),
      priority = Some 0, queue_seq = None, policy_version = None, enqueued_at = None, fence = None,
      o_task_id = tid, o_state = st, o_expires_at = None, o_created_at = 0, o_released_at = None,
      o_reason = '''', o_kind = ''orbit'', o_resource_key = None, o_merging = False,
      o_merge_deadline = None, o_merge_started_mono = None, o_operation_id = None,
      o_owner_instance = None, o_owner_generation = None, o_intent_key = None,
      o_requested_ttl = None, o_pathspec_digest = None, o_request_id = None,
      o_request_generation = 0, o_bail_epoch = 0, o_authority_snapshot_hash = None,
      o_decision_id = None, o_decision_type = None, o_decision_schema = None,
      o_decision_observed_at = None, o_decision_effective_priority = None, o_blocker_ids = [],
      o_wait_deadline = None, o_terminal_reason = None, o_read_gen = None, o_stale = False,
      o_terminal_at = None\<rparr>"

text \<open>The columns the INSERT does not name take the schema's defaults.\<close>

definition add_orbit :: "rat \<Rightarrow> string option \<Rightarrow> orbit \<Rightarrow> db \<Rightarrow> string \<times> db" where
  "add_orbit now given row db =
     (let (oid, db) = (case given of
            Some i \<Rightarrow> if i = '''' then (let (u, db) = fresh_uuid db in (''orb-'' @ u, db)) else (i, db)
          | None \<Rightarrow> (let (u, db) = fresh_uuid db in (''orb-'' @ u, db)))
      in (oid, db\<lparr>orbits := orbits db @ [row\<lparr>orbit_id := oid, o_created_at := now,
            o_released_at := None, o_merging := False, o_merge_deadline := None,
            o_merge_started_mono := None, o_operation_id := None, o_owner_instance := None,
            o_owner_generation := None, o_stale := False, o_terminal_at := None\<rparr>]\<rparr>))"

definition live_state :: "orbit \<Rightarrow> bool" where
  "live_state o' \<longleftrightarrow> o_state o' = ''HELD'' \<or> o_state o' = ''PENDING''"

definition orbit_by_intent :: "string option \<Rightarrow> db \<Rightarrow> orbit option" where
  "orbit_by_intent ikey db =
     fetchone (sort_key o_created_at
       (filter (\<lambda>o'. sql_eq (o_intent_key o') ikey \<and> live_state o') (orbits db)))"

definition orbit_by_request :: "string option \<Rightarrow> int option \<Rightarrow> db \<Rightarrow> orbit option" where
  "orbit_by_request rid gen db =
     (if rid = None then None
      else case gen of
        None \<Rightarrow> fetchone (sort_key (\<lambda>o'. (- o_request_generation o', o_created_at o'))
          (filter (\<lambda>o'. o_request_id o' = rid \<and> o_kind o' = ''orbit'') (orbits db)))
      | Some g \<Rightarrow> fetchone (sort_key o_created_at
          (filter (\<lambda>o'. o_request_id o' = rid \<and> o_request_generation o' = g \<and> o_kind o' = ''orbit'')
            (orbits db))))"

definition latest_orbit_by_request :: "string option \<Rightarrow> db \<Rightarrow> orbit option" where
  "latest_orbit_by_request rid db =
     (if rid = None then None
      else fetchone (sort_key (\<lambda>o'. (- o_request_generation o', - o_created_at o'))
        (filter (\<lambda>o'. o_request_id o' = rid \<and> o_kind o' = ''orbit'') (orbits db))))"

definition next_request_generation :: "string option \<Rightarrow> db \<Rightarrow> int" where
  "next_request_generation rid db =
     (let gens = map o_request_generation
        (filter (\<lambda>o'. o_kind o' = ''orbit'' \<and> sql_eq (o_request_id o') rid) (orbits db))
      in if gens = [] then 0 else foldr max gens (hd gens) + 1)"

definition get_orbit :: "string \<Rightarrow> db \<Rightarrow> orbit option" where
  "get_orbit oid db = fetchone (filter (\<lambda>o'. orbit_id o' = oid) (orbits db))"

record orbit_set =
  u_state :: "string option"
  u_expires_at :: "rat option option"
  u_released_at :: "rat option option"
  u_fence :: "int option option"
  u_merging :: "bool option"
  u_merge_deadline :: "rat option option"
  u_merge_started_mono :: "rat option option"
  u_operation_id :: "string option option"
  u_owner_instance :: "string option option"
  u_owner_generation :: "int option option"
  u_read_gen :: "int option option"
  u_stale :: "bool option"
  u_authority_snapshot_hash :: "string option option"
  u_decision_id :: "string option option"
  u_decision_type :: "string option option"
  u_decision_schema :: "string option option"
  u_decision_observed_at :: "rat option option"
  u_decision_effective_priority :: "int option option"
  u_blocker_ids :: "string list option"
  u_enqueued_at :: "rat option option"
  u_wait_deadline :: "rat option option"
  u_terminal_reason :: "string option option"

definition no_set :: orbit_set where
  "no_set = \<lparr>u_state = None, u_expires_at = None, u_released_at = None, u_fence = None,
     u_merging = None, u_merge_deadline = None, u_merge_started_mono = None,
     u_operation_id = None, u_owner_instance = None, u_owner_generation = None,
     u_read_gen = None, u_stale = None, u_authority_snapshot_hash = None, u_decision_id = None,
     u_decision_type = None, u_decision_schema = None, u_decision_observed_at = None,
     u_decision_effective_priority = None, u_blocker_ids = None, u_enqueued_at = None,
     u_wait_deadline = None, u_terminal_reason = None\<rparr>"

text \<open>An explicit \<open>decision_id=None\<close> also clears the rank evidence of the old decision.\<close>

definition clear_evidence :: "orbit_set \<Rightarrow> orbit_set" where
  "clear_evidence u =
     (if u_decision_id u = Some None then
        u\<lparr>u_decision_schema := (if u_decision_schema u = None then Some None else u_decision_schema u),
          u_decision_observed_at :=
            (if u_decision_observed_at u = None then Some None else u_decision_observed_at u),
          u_decision_effective_priority :=
            (if u_decision_effective_priority u = None then Some None
             else u_decision_effective_priority u)\<rparr>
      else u)"

definition apply_set :: "orbit_set \<Rightarrow> orbit \<Rightarrow> orbit" where
  "apply_set u o' = o'\<lparr>
     o_state := assign (u_state u) (o_state o'),
     o_expires_at := assign (u_expires_at u) (o_expires_at o'),
     o_released_at := assign (u_released_at u) (o_released_at o'),
     fence := assign (u_fence u) (fence o'),
     o_merging := assign (u_merging u) (o_merging o'),
     o_merge_deadline := assign (u_merge_deadline u) (o_merge_deadline o'),
     o_merge_started_mono := assign (u_merge_started_mono u) (o_merge_started_mono o'),
     o_operation_id := assign (u_operation_id u) (o_operation_id o'),
     o_owner_instance := assign (u_owner_instance u) (o_owner_instance o'),
     o_owner_generation := assign (u_owner_generation u) (o_owner_generation o'),
     o_read_gen := assign (u_read_gen u) (o_read_gen o'),
     o_stale := assign (u_stale u) (o_stale o'),
     o_authority_snapshot_hash := assign (u_authority_snapshot_hash u) (o_authority_snapshot_hash o'),
     o_decision_id := assign (u_decision_id u) (o_decision_id o'),
     o_decision_type := assign (u_decision_type u) (o_decision_type o'),
     o_decision_schema := assign (u_decision_schema u) (o_decision_schema o'),
     o_decision_observed_at := assign (u_decision_observed_at u) (o_decision_observed_at o'),
     o_decision_effective_priority :=
       assign (u_decision_effective_priority u) (o_decision_effective_priority o'),
     o_blocker_ids := assign (u_blocker_ids u) (o_blocker_ids o'),
     enqueued_at := assign (map_option (map_option Fin) (u_enqueued_at u)) (enqueued_at o'),
     o_wait_deadline := assign (u_wait_deadline u) (o_wait_deadline o'),
     o_terminal_reason := assign (u_terminal_reason u) (o_terminal_reason o')\<rparr>"

lemma clear_evidence_simps [simp]:
  "u_state (clear_evidence u) = u_state u"
  "u_expires_at (clear_evidence u) = u_expires_at u"
  "u_released_at (clear_evidence u) = u_released_at u"
  "u_fence (clear_evidence u) = u_fence u"
  "u_merging (clear_evidence u) = u_merging u"
  "u_merge_deadline (clear_evidence u) = u_merge_deadline u"
  "u_operation_id (clear_evidence u) = u_operation_id u"
  "u_owner_instance (clear_evidence u) = u_owner_instance u"
  "u_owner_generation (clear_evidence u) = u_owner_generation u"
  "u_read_gen (clear_evidence u) = u_read_gen u"
  "u_stale (clear_evidence u) = u_stale u"
  "u_decision_id (clear_evidence u) = u_decision_id u"
  "u_decision_type (clear_evidence u) = u_decision_type u"
  "u_blocker_ids (clear_evidence u) = u_blocker_ids u"
  "u_enqueued_at (clear_evidence u) = u_enqueued_at u"
  "u_wait_deadline (clear_evidence u) = u_wait_deadline u"
  "u_terminal_reason (clear_evidence u) = u_terminal_reason u"
  by (simp_all add: clear_evidence_def)

lemma apply_set_kept [simp]:
  "orbit_id (apply_set u o') = orbit_id o'"
  "agent_id (apply_set u o') = agent_id o'"
  "mode (apply_set u o') = mode o'"
  "pathspec (apply_set u o') = pathspec o'"
  "priority (apply_set u o') = priority o'"
  "queue_seq (apply_set u o') = queue_seq o'"
  "policy_version (apply_set u o') = policy_version o'"
  "o_task_id (apply_set u o') = o_task_id o'"
  "o_kind (apply_set u o') = o_kind o'"
  "o_resource_key (apply_set u o') = o_resource_key o'"
  "o_created_at (apply_set u o') = o_created_at o'"
  "o_intent_key (apply_set u o') = o_intent_key o'"
  "o_requested_ttl (apply_set u o') = o_requested_ttl o'"
  "o_request_id (apply_set u o') = o_request_id o'"
  "o_request_generation (apply_set u o') = o_request_generation o'"
  "o_bail_epoch (apply_set u o') = o_bail_epoch o'"
  "o_terminal_at (apply_set u o') = o_terminal_at o'"
  by (simp_all add: apply_set_def)

lemma apply_set_columns [simp]:
  "o_state (apply_set u o') = assign (u_state u) (o_state o')"
  "o_expires_at (apply_set u o') = assign (u_expires_at u) (o_expires_at o')"
  "o_released_at (apply_set u o') = assign (u_released_at u) (o_released_at o')"
  "fence (apply_set u o') = assign (u_fence u) (fence o')"
  "o_merging (apply_set u o') = assign (u_merging u) (o_merging o')"
  "o_read_gen (apply_set u o') = assign (u_read_gen u) (o_read_gen o')"
  "o_stale (apply_set u o') = assign (u_stale u) (o_stale o')"
  "enqueued_at (apply_set u o') = assign (map_option (map_option Fin) (u_enqueued_at u)) (enqueued_at o')"
  "o_wait_deadline (apply_set u o') = assign (u_wait_deadline u) (o_wait_deadline o')"
  by (simp_all add: apply_set_def)

lemma no_set_simps [simp]:
  "u_state no_set = None" "u_expires_at no_set = None" "u_released_at no_set = None"
  "u_fence no_set = None" "u_merging no_set = None" "u_merge_deadline no_set = None"
  "u_read_gen no_set = None" "u_stale no_set = None" "u_decision_id no_set = None"
  "u_enqueued_at no_set = None" "u_wait_deadline no_set = None"
  by (simp_all add: no_set_def)

definition set_orbit :: "string \<Rightarrow> orbit_set \<Rightarrow> db \<Rightarrow> db" where
  "set_orbit oid u db =
     db\<lparr>orbits := update_where (\<lambda>o'. orbit_id o' = oid) (apply_set (clear_evidence u)) (orbits db)\<rparr>"

definition held_orbits :: "db \<Rightarrow> orbit list" where
  "held_orbits db = filter (\<lambda>o'. o_state o' = ''HELD'' \<and> o_kind o' = ''orbit'') (orbits db)"

definition pending_orbits :: "db \<Rightarrow> orbit list" where
  "pending_orbits db =
     sort_key queue_seq (filter (\<lambda>o'. o_state o' = ''PENDING'' \<and> o_kind o' = ''orbit'') (orbits db))"

definition sql_min :: "rat option list \<Rightarrow> rat option" where
  "sql_min xs = (case List.map_filter (\<lambda>x. x) xs of [] \<Rightarrow> None | y # ys \<Rightarrow> Some (foldr min ys y))"

lemma sql_min_le: "(\<exists>t. sql_min xs = Some t \<and> t \<le> now) \<longleftrightarrow> (\<exists>x\<in>set xs. \<exists>t. x = Some t \<and> t \<le> now)"
proof -
  have fold: "foldr min ys y \<le> now \<longleftrightarrow> (\<exists>t\<in>set (y # ys). t \<le> now)" for ys and y :: rat
    by (induction ys) (auto simp: min_le_iff_disj)
  have "(\<exists>x\<in>set xs. \<exists>t. x = Some t \<and> t \<le> now) \<longleftrightarrow> (\<exists>t\<in>set (List.map_filter (\<lambda>x. x) xs). t \<le> now)"
    by (force simp: map_filter_def)
  then show ?thesis
    by (cases "List.map_filter (\<lambda>x. x) xs") (simp_all add: sql_min_def fold)
qed

definition pending_queue_stats :: "db \<Rightarrow> nat \<times> rat option" where
  "pending_queue_stats db =
     (let rows = filter (\<lambda>o'. o_state o' = ''PENDING'' \<and> o_kind o' = ''orbit'') (orbits db)
      in (length rows, sql_min (map o_wait_deadline rows)))"

definition orbits_for_task :: "string \<Rightarrow> db \<Rightarrow> orbit list" where
  "orbits_for_task tid db = filter (\<lambda>o'. o_task_id o' = Some tid \<and> o_kind o' = ''orbit'') (orbits db)"

definition due_orbits :: "rat \<Rightarrow> db \<Rightarrow> orbit list" where
  "due_orbits now db =
     filter (\<lambda>o'. o_state o' = ''HELD'' \<and> o_kind o' = ''orbit'' \<and> \<not> o_merging o' \<and>
       due (o_expires_at o') now) (orbits db)"

definition due_pending_orbits :: "rat \<Rightarrow> db \<Rightarrow> orbit list" where
  "due_pending_orbits now db =
     sort_key (\<lambda>o'. (o_wait_deadline o', queue_seq o'))
       (filter (\<lambda>o'. o_state o' = ''PENDING'' \<and> o_kind o' = ''orbit'' \<and> due (o_wait_deadline o') now)
         (orbits db))"

definition orbits_held_by_agent :: "string \<Rightarrow> db \<Rightarrow> orbit list" where
  "orbits_held_by_agent aid db =
     filter (\<lambda>o'. agent_id o' = aid \<and> o_state o' = ''HELD'' \<and> o_kind o' = ''orbit'') (orbits db)"

definition orbits_owned_by_agent :: "string \<Rightarrow> db \<Rightarrow> orbit list" where
  "orbits_owned_by_agent aid db =
     filter (\<lambda>o'. agent_id o' = aid \<and> o_kind o' = ''orbit'' \<and> live_state o') (orbits db)"

definition pinned_orbits_for_task :: "string \<Rightarrow> db \<Rightarrow> orbit list" where
  "pinned_orbits_for_task tid db =
     filter (\<lambda>o'. o_task_id o' = Some tid \<and> o_kind o' = ''orbit'' \<and> o_merging o') (orbits db)"

section \<open>Tasks\<close>

definition new_task ::
  "rat \<Rightarrow> string \<Rightarrow> string \<Rightarrow> string list \<Rightarrow> string list \<Rightarrow> string list \<Rightarrow> string \<Rightarrow> int \<Rightarrow>
   string list \<Rightarrow> string option \<Rightarrow> string list option \<Rightarrow> task" where
  "new_task now tid nm writes reads deps st prio shared res_for res_files =
     \<lparr>t_task_id = tid, t_name = nm, t_writes = writes, t_reads = reads, t_deps = deps,
      t_shared = shared, t_state = st, t_agent_id = None, t_priority = prio, t_created_at = now,
      t_worktree = None, t_branch = None, t_connect_fence = None, t_connect_intent_at = None,
      t_branch_tip_sha = None, t_integration_base_sha = None, t_connect_attempt_id = None,
      t_connect_owner_instance = None, t_connect_owner_generation = 0, t_connect_token_id = None,
      t_connect_request_id = None, t_connect_arg_hash = None, t_connect_repo_bound = False,
      t_merge_sha = None, t_merged_at = None, t_read_synced_gen = None, t_reclaims = 0,
      t_terminal_at = None, t_resolve_for = res_for, t_resolve_conflict_files = res_files\<rparr>"

text \<open>Declaring an existing task again replaces its declaration, not its state or creation time.\<close>

definition add_task ::
  "rat \<Rightarrow> string \<Rightarrow> string \<Rightarrow> string list \<Rightarrow> string list \<Rightarrow> string list \<Rightarrow> string \<Rightarrow> int \<Rightarrow>
   string list \<Rightarrow> string option \<Rightarrow> string list option \<Rightarrow> db \<Rightarrow> db" where
  "add_task now tid nm writes reads deps st prio shared res_for res_files db = db\<lparr>tasks :=
     upsert (\<lambda>t. t_task_id t = tid)
       (\<lambda>t. t\<lparr>t_name := nm, t_writes := writes, t_reads := reads, t_deps := deps, t_priority := prio,
              t_shared := shared, t_resolve_for := res_for, t_resolve_conflict_files := res_files\<rparr>)
       (new_task now tid nm writes reads deps st prio shared res_for res_files) (tasks db)\<rparr>"

definition get_task :: "string \<Rightarrow> db \<Rightarrow> task option" where
  "get_task tid db = fetchone (filter (\<lambda>t. t_task_id t = tid) (tasks db))"

text \<open>\<open>set_task\<close> with the given keyword arguments is an update of the row.\<close>

definition set_task :: "string \<Rightarrow> (task \<Rightarrow> task) \<Rightarrow> db \<Rightarrow> db" where
  "set_task tid upd db = db\<lparr>tasks := update_where (\<lambda>t. t_task_id t = tid) upd (tasks db)\<rparr>"

definition all_tasks :: "db \<Rightarrow> task list" where
  "all_tasks db = tasks db"

definition set_task_deps :: "string \<Rightarrow> string list \<Rightarrow> db \<Rightarrow> db" where
  "set_task_deps tid deps db =
     db\<lparr>tasks := update_where (\<lambda>t. t_task_id t = tid) (\<lambda>t. t\<lparr>t_deps := deps\<rparr>) (tasks db)\<rparr>"

definition tasks_by_state :: "string list \<Rightarrow> db \<Rightarrow> task list" where
  "tasks_by_state states db =
     sort_key (\<lambda>t. (- t_priority t, t_created_at t)) (filter (\<lambda>t. t_state t \<in> set states) (tasks db))"

definition tasks_for_agent :: "string \<Rightarrow> db \<Rightarrow> task list" where
  "tasks_for_agent aid db = filter (\<lambda>t. t_agent_id t = Some aid) (tasks db)"

section \<open>Agents\<close>

definition upsert_agent :: "string \<Rightarrow> string option \<Rightarrow> string \<Rightarrow> rat \<Rightarrow> db \<Rightarrow> db" where
  "upsert_agent aid nm st now db = db\<lparr>agents :=
     upsert (\<lambda>a. a_agent_id a = aid)
       (\<lambda>a. a\<lparr>a_state := st, a_last_heartbeat := now,
              a_name := (case nm of None \<Rightarrow> a_name a | Some n \<Rightarrow> Some n)\<rparr>)
       \<lparr>a_agent_id = aid, a_name = nm, a_state = st, a_last_heartbeat = now, a_bail_epoch = 0,
        a_liveness_ttl = None\<rparr> (agents db)\<rparr>"

definition get_agent :: "string \<Rightarrow> db \<Rightarrow> agent option" where
  "get_agent aid db = fetchone (filter (\<lambda>a. a_agent_id a = aid) (agents db))"

definition set_agent_state :: "string \<Rightarrow> string \<Rightarrow> db \<Rightarrow> db" where
  "set_agent_state aid st db =
     db\<lparr>agents := update_where (\<lambda>a. a_agent_id a = aid) (\<lambda>a. a\<lparr>a_state := st\<rparr>) (agents db)\<rparr>"

definition bump_bail_epoch :: "string \<Rightarrow> db \<Rightarrow> db" where
  "bump_bail_epoch aid db = db\<lparr>agents :=
     update_where (\<lambda>a. a_agent_id a = aid) (\<lambda>a. a\<lparr>a_bail_epoch := a_bail_epoch a + 1\<rparr>) (agents db)\<rparr>"

definition set_agent_liveness_ttl :: "string \<Rightarrow> rat option \<Rightarrow> db \<Rightarrow> db" where
  "set_agent_liveness_ttl aid ttl db =
     db\<lparr>agents := update_where (\<lambda>a. a_agent_id a = aid) (\<lambda>a. a\<lparr>a_liveness_ttl := ttl\<rparr>) (agents db)\<rparr>"

definition stale_agents :: "rat \<Rightarrow> rat option \<Rightarrow> db \<Rightarrow> agent list" where
  "stale_agents now default_ttl db =
     filter (\<lambda>a. a_state a \<noteq> ''RETIRED'' \<and>
       (case (case a_liveness_ttl a of None \<Rightarrow> default_ttl | Some t \<Rightarrow> Some t) of
          None \<Rightarrow> False | Some t \<Rightarrow> a_last_heartbeat a < now - t)) (agents db)"

section \<open>Leases of other kinds\<close>

definition held_merge_token :: "string \<Rightarrow> db \<Rightarrow> orbit option" where
  "held_merge_token key db =
     fetchone (filter (\<lambda>o'. o_kind o' = ''merge_token'' \<and> o_state o' = ''HELD'' \<and>
       o_resource_key o' = Some key) (orbits db))"

definition all_held_merge_tokens :: "db \<Rightarrow> orbit list" where
  "all_held_merge_tokens db =
     filter (\<lambda>o'. o_kind o' = ''merge_token'' \<and> o_state o' = ''HELD'') (orbits db)"

definition merge_tokens_owned_by :: "string \<Rightarrow> db \<Rightarrow> orbit list" where
  "merge_tokens_owned_by aid db =
     filter (\<lambda>o'. agent_id o' = aid \<and> o_kind o' = ''merge_token'' \<and> o_state o' = ''HELD'') (orbits db)"

definition flag_leases_owned_by :: "string \<Rightarrow> db \<Rightarrow> orbit list" where
  "flag_leases_owned_by aid db =
     filter (\<lambda>o'. agent_id o' = aid \<and> o_kind o' = ''flag_ephemeral'' \<and> o_state o' = ''HELD'') (orbits db)"

definition due_flag_leases :: "rat \<Rightarrow> db \<Rightarrow> orbit list" where
  "due_flag_leases now db =
     filter (\<lambda>o'. o_state o' = ''HELD'' \<and> o_kind o' = ''flag_ephemeral'' \<and> due (o_expires_at o') now)
       (orbits db)"

definition is_permit :: "string \<Rightarrow> orbit \<Rightarrow> bool" where
  "is_permit sem o' \<longleftrightarrow> o_kind o' = ''sem_permit'' \<and> o_state o' = ''HELD'' \<and> o_resource_key o' = Some sem"

definition count_active_permits :: "string \<Rightarrow> db \<Rightarrow> nat" where
  "count_active_permits sem db = length (filter (is_permit sem) (orbits db))"

definition active_permit_for :: "string \<Rightarrow> string \<Rightarrow> db \<Rightarrow> orbit option" where
  "active_permit_for sem aid db =
     fetchone (filter (\<lambda>o'. is_permit sem o' \<and> agent_id o' = aid) (orbits db))"

definition active_permits :: "string \<Rightarrow> db \<Rightarrow> orbit list" where
  "active_permits sem db = filter (is_permit sem) (orbits db)"

definition sem_permits_owned_by :: "string \<Rightarrow> db \<Rightarrow> orbit list" where
  "sem_permits_owned_by aid db =
     filter (\<lambda>o'. agent_id o' = aid \<and> o_kind o' = ''sem_permit'' \<and> o_state o' = ''HELD'') (orbits db)"

definition due_sem_permits :: "rat \<Rightarrow> db \<Rightarrow> orbit list" where
  "due_sem_permits now db =
     filter (\<lambda>o'. o_state o' = ''HELD'' \<and> o_kind o' = ''sem_permit'' \<and> due (o_expires_at o') now)
       (orbits db)"

section \<open>Semaphores and their waiters\<close>

definition add_semaphore :: "rat \<Rightarrow> string \<Rightarrow> int \<Rightarrow> db \<Rightarrow> db" where
  "add_semaphore now sem n db = db\<lparr>semaphores :=
     upsert (\<lambda>s. s_sem_id s = sem) (\<lambda>s. s\<lparr>s_max_permits := n\<rparr>)
       \<lparr>s_sem_id = sem, s_max_permits = n, s_created_at = now\<rparr> (semaphores db)\<rparr>"

definition get_semaphore :: "string \<Rightarrow> db \<Rightarrow> semaphore option" where
  "get_semaphore sem db = fetchone (filter (\<lambda>s. s_sem_id s = sem) (semaphores db))"

definition add_sem_waiter ::
  "rat \<Rightarrow> string \<Rightarrow> string \<Rightarrow> rat option \<Rightarrow> int \<Rightarrow> int \<Rightarrow> rat \<Rightarrow> db \<Rightarrow> string \<times> db" where
  "add_sem_waiter now sem aid ttl prio tick deadline db =
     (let (u, db) = fresh_uuid db; wid = ''sw-'' @ u
      in (wid, db\<lparr>sem_waiters := sem_waiters db @
           [\<lparr>sw_waiter_id = wid, sw_sem_id = sem, sw_agent_id = aid, sw_ttl = ttl, sw_priority = prio,
             sw_enqueued_seq = tick, sw_deadline = deadline, sw_state = ''WAITING'',
             sw_permit_id = None, sw_created_at = now\<rparr>]\<rparr>))"

definition get_sem_waiter :: "string \<Rightarrow> db \<Rightarrow> sem_waiter option" where
  "get_sem_waiter wid db = fetchone (filter (\<lambda>w. sw_waiter_id w = wid) (sem_waiters db))"

definition set_sem_waiter :: "string \<Rightarrow> string \<Rightarrow> string option option \<Rightarrow> db \<Rightarrow> db" where
  "set_sem_waiter wid st permit db = db\<lparr>sem_waiters :=
     update_where (\<lambda>w. sw_waiter_id w = wid)
       (\<lambda>w. w\<lparr>sw_state := st, sw_permit_id := assign permit (sw_permit_id w)\<rparr>) (sem_waiters db)\<rparr>"

definition waiting_sem_waiters :: "string \<Rightarrow> db \<Rightarrow> sem_waiter list" where
  "waiting_sem_waiters sem db =
     sort_key (\<lambda>w. (- sw_priority w, sw_enqueued_seq w))
       (filter (\<lambda>w. sw_sem_id w = sem \<and> sw_state w = ''WAITING'') (sem_waiters db))"

definition sem_waiters_for_agent :: "string \<Rightarrow> string \<Rightarrow> db \<Rightarrow> sem_waiter list" where
  "sem_waiters_for_agent aid sem db =
     filter (\<lambda>w. sw_agent_id w = aid \<and> sw_sem_id w = sem \<and> sw_state w = ''WAITING'') (sem_waiters db)"

section \<open>Flags and their waiters\<close>

definition set_flag :: "rat \<Rightarrow> string \<Rightarrow> string option \<Rightarrow> string option \<Rightarrow> db \<Rightarrow> db" where
  "set_flag now key val by db = db\<lparr>flags :=
     upsert (\<lambda>f. f_key f = key) (\<lambda>f. f\<lparr>f_value := val, f_set_by := by, f_set_at := now\<rparr>)
       \<lparr>f_key = key, f_value = val, f_set_by = by, f_set_at = now, f_type = ''LATCH'', f_epoch = 0,
        f_rank = 0, f_status = ''LIVE'', f_owner_agent = None, f_lease_id = None\<rparr> (flags db)\<rparr>"

definition get_flag_row :: "string \<Rightarrow> db \<Rightarrow> flag option" where
  "get_flag_row key db = fetchone (filter (\<lambda>f. f_key f = key) (flags db))"

definition get_flag :: "string \<Rightarrow> db \<Rightarrow> string option" where
  "get_flag key db = Option.bind (get_flag_row key db) f_value"

text \<open>The arguments of \<open>upsert_flag\<close> are a whole row; the key is its own.\<close>

definition upsert_flag :: "rat \<Rightarrow> flag \<Rightarrow> db \<Rightarrow> db" where
  "upsert_flag now row db = (let row = row\<lparr>f_set_at := now\<rparr> in
     db\<lparr>flags := upsert (\<lambda>f. f_key f = f_key row) (\<lambda>_. row) row (flags db)\<rparr>)"

definition set_flag_status ::
  "string \<Rightarrow> string \<Rightarrow> int \<Rightarrow> string option option \<Rightarrow> string option option \<Rightarrow> string option option \<Rightarrow>
   db \<Rightarrow> db" where
  "set_flag_status key st ep val owner lease db = db\<lparr>flags :=
     update_where (\<lambda>f. f_key f = key)
       (\<lambda>f. f\<lparr>f_status := st, f_epoch := ep, f_value := assign val (f_value f),
              f_owner_agent := assign owner (f_owner_agent f),
              f_lease_id := assign lease (f_lease_id f)\<rparr>) (flags db)\<rparr>"

definition ephemeral_flags_for_lease :: "string \<Rightarrow> db \<Rightarrow> flag list" where
  "ephemeral_flags_for_lease lease db =
     filter (\<lambda>f. f_type f = ''EPHEMERAL'' \<and> f_lease_id f = Some lease \<and> f_status f = ''LIVE'') (flags db)"

definition add_flag_waiter ::
  "rat \<Rightarrow> string option \<Rightarrow> string \<Rightarrow> string option \<Rightarrow> int \<Rightarrow> rat \<Rightarrow> db \<Rightarrow> string \<times> db" where
  "add_flag_waiter now aid key want ep deadline db =
     (let (u, db) = fresh_uuid db; wid = ''fw-'' @ u
      in (wid, db\<lparr>flag_waiters := flag_waiters db @
           [\<lparr>fw_waiter_id = wid, fw_agent_id = aid, fw_key = key, fw_want_value = want,
             fw_observed_epoch = ep, fw_deadline = deadline, fw_state = ''WAITING'',
             fw_wake_reason = None, fw_created_at = now\<rparr>]\<rparr>))"

definition get_flag_waiter :: "string \<Rightarrow> db \<Rightarrow> flag_waiter option" where
  "get_flag_waiter wid db = fetchone (filter (\<lambda>w. fw_waiter_id w = wid) (flag_waiters db))"

definition set_flag_waiter :: "string \<Rightarrow> string \<Rightarrow> string option option \<Rightarrow> db \<Rightarrow> db" where
  "set_flag_waiter wid st wake db = db\<lparr>flag_waiters :=
     update_where (\<lambda>w. fw_waiter_id w = wid)
       (\<lambda>w. w\<lparr>fw_state := st, fw_wake_reason := assign wake (fw_wake_reason w)\<rparr>) (flag_waiters db)\<rparr>"

definition waiters_for_key :: "string \<Rightarrow> string \<Rightarrow> db \<Rightarrow> flag_waiter list" where
  "waiters_for_key key st db = filter (\<lambda>w. fw_key w = key \<and> fw_state w = st) (flag_waiters db)"

end
