(* ===== verification/Gitio.thy ===== *)
theory Gitio
  imports PyNumber
begin

text \<open>
  The Git layer, \<open>omd_server/gitio.py\<close>: the errors it raises and the merge of a candidate into the
  integration worktree, with and without an operator check. The subprocess of \<open>git\<close>, the file test of
  \<open>pathlib\<close> and the run of the operator's check are outside the program: they are the fields of a
  \<open>host\<close> over a world \<open>'w\<close> of their own (the repository and its worktrees). A raise keeps the world it
  is raised in, for Git has no rollback: a computation is a function from a world to a result and a world.

  Paths of worktrees are not carried along, for every command of a merge runs in the one integration
  worktree; the arrow of the error messages is written \<open>->\<close> and the seconds of a timeout are left out
  of the text.
\<close>

section \<open>Errors\<close>

record check_report =
  cr_returncode :: "int option"
  cr_stdout :: string
  cr_stderr :: string

text \<open>The subclasses of \<open>GitError\<close>, and the \<open>ValueError\<close> of \<open>_validate_check_args\<close>, which is not one.\<close>

datatype git_error =
    GitError string
  | GitNothingToCommit string
  | GitTimeout string
  | GitIntegrationCheckFailed string check_report
  | GitIntegrationCheckTimeout string check_report
  | GitIntegrationMutation string check_report "string list"
  | GitIntegrationPreconditionError string
  | GitRollbackError string "string list"
  | GitMergeConflict string "string list"
  | GitValueError string

fun is_git_error :: "git_error \<Rightarrow> bool" where
  "is_git_error (GitValueError _) = False"
| "is_git_error _ = True"

fun is_timeout :: "git_error \<Rightarrow> bool" where
  "is_timeout (GitTimeout _) = True"
| "is_timeout (GitIntegrationCheckTimeout _ _) = True"
| "is_timeout _ = False"

fun check_report_of :: "git_error \<Rightarrow> check_report option" where
  "check_report_of (GitIntegrationCheckFailed _ r) = Some r"
| "check_report_of (GitIntegrationCheckTimeout _ r) = Some r"
| "check_report_of (GitIntegrationMutation _ r _) = Some r"
| "check_report_of _ = None"

fun error_text :: "git_error \<Rightarrow> string" where
  "error_text (GitError s) = s"
| "error_text (GitNothingToCommit s) = s"
| "error_text (GitTimeout s) = s"
| "error_text (GitIntegrationCheckFailed s _) = s"
| "error_text (GitIntegrationCheckTimeout s _) = s"
| "error_text (GitIntegrationMutation s _ _) = s"
| "error_text (GitIntegrationPreconditionError s) = s"
| "error_text (GitRollbackError s _) = s"
| "error_text (GitMergeConflict s _) = s"
| "error_text (GitValueError s) = s"

section \<open>Computations on a world\<close>

type_synonym ('w, 'a) io = "'w \<Rightarrow> (git_error, 'a) result \<times> 'w"

definition io_return :: "'a \<Rightarrow> ('w, 'a) io" where
  "io_return x w = (Inr x, w)"

definition io_raise :: "git_error \<Rightarrow> ('w, 'a) io" where
  "io_raise e w = (Inl e, w)"

definition io_bind :: "('w, 'a) io \<Rightarrow> ('a \<Rightarrow> ('w, 'b) io) \<Rightarrow> ('w, 'b) io" where
  "io_bind m f w = (case m w of (Inl e, w') \<Rightarrow> (Inl e, w') | (Inr x, w') \<Rightarrow> f x w')"

text \<open>\<open>try: m except GitError as e: h(e)\<close>.\<close>

definition io_catch :: "('w, 'a) io \<Rightarrow> (git_error \<Rightarrow> ('w, 'a) io) \<Rightarrow> ('w, 'a) io" where
  "io_catch m h w = (case m w of
      (Inl e, w') \<Rightarrow> if is_git_error e then h e w' else (Inl e, w')
    | (Inr x, w') \<Rightarrow> (Inr x, w'))"

section \<open>Text\<close>

text \<open>\<open>str.splitlines\<close> on the code points of the model: line feed, carriage return (with a line feed after
  it one break), vertical tab, form feed, the three separators from 28 on and next line, 133.\<close>

definition is_line_break :: "char \<Rightarrow> bool" where
  "is_line_break c = (let n = (of_char c :: nat) in (10 \<le> n \<and> n \<le> 13) \<or> (28 \<le> n \<and> n \<le> 30) \<or> n = 133)"

fun splitlines_from :: "string \<Rightarrow> string \<Rightarrow> string list" where
  "splitlines_from acc [] = (if acc = [] then [] else [rev acc])"
| "splitlines_from acc [c] = (if is_line_break c then [rev acc] else [rev (c # acc)])"
| "splitlines_from acc (c # d # s) =
     (if is_line_break c then
        rev acc # (if of_char c = (13::nat) \<and> of_char d = (10::nat) then splitlines_from [] s
                   else splitlines_from [] (d # s))
      else splitlines_from (c # acc) (d # s))"

definition splitlines :: "string \<Rightarrow> string list" where
  "splitlines s = splitlines_from [] s"

definition paths_of_output :: "string \<Rightarrow> string list" where
  "paths_of_output out = filter (\<lambda>p. py_strip p \<noteq> []) (splitlines out)"

fun join_text :: "string \<Rightarrow> string list \<Rightarrow> string" where
  "join_text sep [] = []"
| "join_text sep [s] = s"
| "join_text sep (s # t # ss) = s @ sep @ join_text sep (t # ss)"

section \<open>The host\<close>

datatype process_outcome = Expired | Exited int string string

datatype check_outcome = CheckNotStarted string | CheckRan "int option" string string bool

record 'w host =
  run_git :: "string list \<Rightarrow> rat option \<Rightarrow> 'w \<Rightarrow> process_outcome \<times> 'w"
  path_exists :: "string \<Rightarrow> 'w \<Rightarrow> bool"
  run_check :: "string list \<Rightarrow> rat \<Rightarrow> int \<Rightarrow> 'w \<Rightarrow> check_outcome \<times> 'w"

definition git_call :: "'w host \<Rightarrow> rat option \<Rightarrow> string list \<Rightarrow> ('w, string) io" where
  "git_call h timeout args w =
     (case run_git h args timeout w of
        (Expired, w') \<Rightarrow> (Inl (GitTimeout (''git '' @ join_text '' '' args @ '' -> timeout'')), w')
      | (Exited code out err, w') \<Rightarrow>
          if code \<noteq> 0
          then (Inl (GitError (''git '' @ join_text '' '' args @ '' -> '' @ int_text code @ '': '' @ py_strip err)), w')
          else (Inr (py_strip out), w'))"

abbreviation git :: "'w host \<Rightarrow> string list \<Rightarrow> ('w, string) io" where
  "git h \<equiv> git_call h None"

definition ident :: "string list" where
  "ident = [''-c'', ''user.name=omd'', ''-c'', ''user.email=omd@acme'']"

section \<open>Reading a repository\<close>

definition head_of :: "'w host \<Rightarrow> ('w, string) io" where
  "head_of h = git h [''rev-parse'', ''HEAD'']"

definition branch_tip :: "'w host \<Rightarrow> string \<Rightarrow> bool \<Rightarrow> ('w, string option) io" where
  "branch_tip h branch strict =
     io_catch (io_bind (git h [''rev-parse'', ''--verify'', ''--quiet'', ''refs/heads/'' @ branch]) (\<lambda>s. io_return (Some s)))
       (\<lambda>e. if strict then io_raise e else io_return None)"

definition changed_paths :: "'w host \<Rightarrow> string \<Rightarrow> string \<Rightarrow> ('w, string list) io" where
  "changed_paths h branch base =
     io_bind (git h [''-c'', ''core.quotepath=false'', ''diff'', ''--name-only'', ''--no-renames'', base @ ''...'' @ branch])
       (\<lambda>out. io_return (paths_of_output out))"

definition assert_ancestor :: "'w host \<Rightarrow> string \<Rightarrow> string \<Rightarrow> ('w, unit) io" where
  "assert_ancestor h ancestor descendant =
     io_bind (git h [''merge-base'', ''--is-ancestor'', ancestor, descendant]) (\<lambda>_. io_return ())"

definition staged_paths :: "'w host \<Rightarrow> ('w, string list) io" where
  "staged_paths h = io_bind (git h [''diff'', ''--cached'', ''--name-only'']) (\<lambda>out. io_return (paths_of_output out))"

definition unmerged_paths :: "'w host \<Rightarrow> ('w, string list) io" where
  "unmerged_paths h =
     io_bind (git h [''diff'', ''--name-only'', ''--diff-filter=U'']) (\<lambda>out. io_return (paths_of_output out))"

definition tracked_status :: "'w host \<Rightarrow> ('w, string) io" where
  "tracked_status h = git h [''status'', ''--porcelain'', ''--untracked-files=no'']"

definition tracked_worktree_diff :: "'w host \<Rightarrow> ('w, string list) io" where
  "tracked_worktree_diff h =
     io_bind (git h [''-c'', ''core.quotepath=false'', ''diff'', ''--name-only'']) (\<lambda>out. io_return (paths_of_output out))"

definition merge_in_progress :: "'w host \<Rightarrow> ('w, bool) io" where
  "merge_in_progress h =
     io_catch (io_bind (git h [''rev-parse'', ''-q'', ''--verify'', ''MERGE_HEAD'']) (\<lambda>_. io_return True))
       (\<lambda>_. io_return False)"

section \<open>Committing\<close>

definition commit_all :: "'w host \<Rightarrow> string \<Rightarrow> ('w, string) io" where
  "commit_all h msg =
     io_bind (git h [''add'', ''-A'']) (\<lambda>_.
     io_bind (git h [''status'', ''--porcelain'']) (\<lambda>out.
     if py_strip out = [] then io_raise (GitNothingToCommit ''nothing to commit'')
     else io_bind (git h (ident @ [''commit'', ''-m'', msg])) (\<lambda>_. head_of h)))"

definition stage_all :: "'w host \<Rightarrow> ('w, unit) io" where
  "stage_all h = io_bind (git h [''add'', ''-A'']) (\<lambda>_. io_return ())"

definition unstage :: "'w host \<Rightarrow> string list \<Rightarrow> ('w, unit) io" where
  "unstage h paths =
     (if paths = [] then io_return ()
      else io_bind (git h ([''restore'', ''--staged'', ''--''] @ paths)) (\<lambda>_. io_return ()))"

definition commit_staged :: "'w host \<Rightarrow> string \<Rightarrow> ('w, string) io" where
  "commit_staged h msg =
     io_bind (staged_paths h) (\<lambda>ps.
     if ps = [] then io_raise (GitNothingToCommit ''nothing staged'')
     else io_bind (git h (ident @ [''commit'', ''-m'', msg])) (\<lambda>_. head_of h))"

definition commit_empty_integration :: "'w host \<Rightarrow> string \<Rightarrow> ('w, string) io" where
  "commit_empty_integration h msg =
     io_bind (git h (ident @ [''commit'', ''--allow-empty'', ''-m'', msg])) (\<lambda>_. head_of h)"

definition push_integration :: "'w host \<Rightarrow> string \<Rightarrow> string \<Rightarrow> rat option \<Rightarrow> ('w, unit) io" where
  "push_integration h branch remote timeout =
     io_bind (git_call h timeout [''push'', remote, branch]) (\<lambda>_. io_return ())"

text \<open>The trailer probe of a recovery: the escaped trailer as a whole line.\<close>

definition regex_special :: "char \<Rightarrow> bool" where
  "regex_special c = List.member (CHR 0x5C # ''.^$*+?()[]{}|'') c"

definition escape_trailer :: "string \<Rightarrow> string" where
  "escape_trailer s = ''^'' @ concat (map (\<lambda>c. if regex_special c then [CHR 0x5C, c] else [c]) s) @ ''$''"

definition branch_in_integration :: "'w host \<Rightarrow> string \<Rightarrow> string \<Rightarrow> bool \<Rightarrow> ('w, string option) io" where
  "branch_in_integration h branch trailer strict =
     io_catch (io_bind (git h [''log'', branch, ''--grep='' @ escape_trailer trailer, ''-E'', ''--format=%H'', ''-n'', ''1''])
         (\<lambda>out. io_return (if out = [] then None else Some out)))
       (\<lambda>e. if strict then io_raise e else io_return None)"

section \<open>Undoing a merge\<close>

definition ignore_errors :: "('w, 'a) io \<Rightarrow> ('w, unit) io" where
  "ignore_errors m = io_catch (io_bind m (\<lambda>_. io_return ())) (\<lambda>_. io_return ())"

definition abort_merge :: "'w host \<Rightarrow> ('w, unit) io" where
  "abort_merge h = ignore_errors (git h [''merge'', ''--abort''])"

text \<open>One observation of the rollback proof: the problems it finds, an error of the observation being one.\<close>

definition observe :: "string \<Rightarrow> ('w, 'a) io \<Rightarrow> ('a \<Rightarrow> 'w \<Rightarrow> string list) \<Rightarrow> 'w \<Rightarrow> (git_error, string list) result \<times> 'w" where
  "observe what m judge = io_catch (io_bind m (\<lambda>x w. (Inr (judge x w), w)))
     (\<lambda>e. io_return [what @ error_text e])"

definition rollback_problems :: "'w host \<Rightarrow> string \<Rightarrow> ('w, string list) io" where
  "rollback_problems h expected =
     io_bind (merge_in_progress h) (\<lambda>busy.
     io_bind (if busy then observe ''merge --abort failed: '' (git h [''merge'', ''--abort'']) (\<lambda>_ _. []) else io_return []) (\<lambda>p1.
     io_bind (observe ''cannot read HEAD: '' (head_of h)
         (\<lambda>head _. if head \<noteq> expected then [''HEAD is '' @ head @ '', expected '' @ expected] else [])) (\<lambda>p2.
     io_bind (observe ''cannot prove MERGE_HEAD absent: '' (git h [''rev-parse'', ''--git-path'', ''MERGE_HEAD''])
         (\<lambda>p w. if path_exists h p w then [''MERGE_HEAD still exists''] else [])) (\<lambda>p3.
     io_bind (observe ''cannot prove tracked tree clean: '' (tracked_status h)
         (\<lambda>dirty _. if dirty \<noteq> [] then [''tracked tree is not clean: '' @ dirty] else [])) (\<lambda>p4.
     io_return (p1 @ p2 @ p3 @ p4))))))"

definition abort_and_verify :: "'w host \<Rightarrow> string \<Rightarrow> ('w, unit) io" where
  "abort_and_verify h expected =
     io_bind (rollback_problems h expected) (\<lambda>problems.
       if problems \<noteq> []
       then io_raise (GitRollbackError (''integration rollback proof failed: '' @ join_text ''; '' problems) problems)
       else io_return ())"

text \<open>\<open>self._abort_and_verify(wt, original_head, failure); raise failure\<close>.\<close>

definition roll_back :: "'w host \<Rightarrow> string \<Rightarrow> git_error \<Rightarrow> ('w, 'a) io" where
  "roll_back h expected failure = io_bind (abort_and_verify h expected) (\<lambda>_. io_raise failure)"


section \<open>Merging a candidate\<close>

text \<open>\<open>_validate_check_args\<close>; the elements of the command are strings by their type.\<close>

definition validate_check_args :: "string list \<Rightarrow> pyfloat \<Rightarrow> int \<Rightarrow> ('w, rat) io" where
  "validate_check_args argv timeout limit =
     (if argv = [] then io_raise (GitValueError ''check_argv must be a non-empty sequence of strings'')
      else case finite_float timeout of
          None \<Rightarrow> io_raise (GitValueError ''check_timeout must be positive and finite'')
        | Some t \<Rightarrow>
            if t \<le> 0 then io_raise (GitValueError ''check_timeout must be positive and finite'')
            else if limit \<le> 0 then io_raise (GitValueError ''check_output_limit must be positive'')
            else io_return t)"

text \<open>The merge without a check. An error of the merge command is a timeout, a merge whose conflicts the
  recorded resolutions solved (then the commit completes it), a conflict, or another failure.\<close>

definition merge_into_plain :: "'w host \<Rightarrow> string \<Rightarrow> string \<Rightarrow> string \<Rightarrow> rat option \<Rightarrow> ('w, string) io" where
  "merge_into_plain h integration branch msg timeout =
     io_bind (git h [''checkout'', integration]) (\<lambda>_.
     io_bind (io_catch (io_bind (git_call h timeout (ident @ [''merge'', ''--no-ff'', ''-m'', msg, branch])) (\<lambda>_. io_return None))
         (\<lambda>e. io_return (Some e))) (\<lambda>failure.
     case failure of
       None \<Rightarrow> head_of h
     | Some e \<Rightarrow>
         if is_timeout e then
           io_bind (abort_merge h) (\<lambda>_. io_raise (GitTimeout (''merge timeout on '' @ branch @ '': '' @ error_text e)))
         else
           io_bind (unmerged_paths h) (\<lambda>unmerged.
           io_bind (merge_in_progress h) (\<lambda>busy.
           if busy \<and> unmerged = [] then
             io_bind (git h (ident @ [''commit'', ''--no-edit''])) (\<lambda>_. head_of h)
           else
             io_bind (abort_merge h) (\<lambda>_.
             if busy then io_raise (GitMergeConflict (''merge conflict on '' @ branch @ '': '' @ error_text e) (sort unmerged))
             else io_raise (GitError (''merge failed on '' @ branch @ '': '' @ error_text e)))))))"

text \<open>What a check may have changed: each proof that it did not, an unreadable one counting as a change.\<close>

definition check_mutations :: "'w host \<Rightarrow> string \<Rightarrow> string \<Rightarrow> ('w, string list) io" where
  "check_mutations h original index =
     io_bind (observe ''HEAD became unreadable: '' (head_of h)
         (\<lambda>head _. if head \<noteq> original then [''HEAD '' @ original @ '' -> '' @ head] else [])) (\<lambda>m1.
     io_bind (observe ''index became unreadable: '' (git h [''write-tree''])
         (\<lambda>tree _. if tree \<noteq> index then [''index '' @ index @ '' -> '' @ tree] else [])) (\<lambda>m2.
     io_bind (observe ''tracked worktree became unreadable: '' (tracked_worktree_diff h)
         (\<lambda>ps _. if ps \<noteq> [] then [''tracked worktree changed: '' @ join_text '', '' ps] else [])) (\<lambda>m3.
     io_return (m1 @ m2 @ m3))))"

text \<open>From the candidate merge on: the check and the commit, every failure of which is rolled back.\<close>

definition check_and_commit :: "'w host \<Rightarrow> string list \<Rightarrow> rat \<Rightarrow> int \<Rightarrow> string \<Rightarrow> string \<Rightarrow> ('w, string) io" where
  "check_and_commit h argv timeout limit original index = (\<lambda>w.
     case run_check h argv timeout limit w of
       (CheckNotStarted s, w) \<Rightarrow>
         roll_back h original (GitIntegrationCheckFailed (''integration check could not start: '' @ s)
           \<lparr>cr_returncode = None, cr_stdout = [], cr_stderr = s\<rparr>) w
     | (CheckRan code out err timed_out, w) \<Rightarrow>
         if timed_out then
           roll_back h original (GitIntegrationCheckTimeout ''integration check timed out''
             \<lparr>cr_returncode = None, cr_stdout = out, cr_stderr = err\<rparr>) w
         else if code \<noteq> Some 0 then
           roll_back h original (GitIntegrationCheckFailed (''integration check exited with '' @ (case code of None \<Rightarrow> ''None'' | Some c \<Rightarrow> int_text c))
             \<lparr>cr_returncode = code, cr_stdout = out, cr_stderr = err\<rparr>) w
         else
           io_bind (check_mutations h original index) (\<lambda>mutations.
             if mutations \<noteq> [] then
               roll_back h original (GitIntegrationMutation ''integration check mutated its candidate merge''
                 \<lparr>cr_returncode = Some 0, cr_stdout = out, cr_stderr = err\<rparr> mutations)
             else
               io_bind (io_catch (git h (ident @ [''commit'', ''--no-edit''])) (\<lambda>e. roll_back h original e)) (\<lambda>_.
               head_of h)) w)"

text \<open>From the recorded head on.\<close>

definition merge_candidate ::
  "'w host \<Rightarrow> string \<Rightarrow> string \<Rightarrow> rat option \<Rightarrow> string list \<Rightarrow> rat \<Rightarrow> int \<Rightarrow> string \<Rightarrow> ('w, string) io" where
  "merge_candidate h branch msg timeout argv seconds limit original =
     io_bind (tracked_status h) (\<lambda>dirty.
     io_bind (merge_in_progress h) (\<lambda>busy.
     if busy \<or> dirty \<noteq> [] then
       io_bind (merge_in_progress h) (\<lambda>busy.
         io_raise (GitIntegrationPreconditionError (''integration worktree is not clean before merge: '' @
           (if busy then ''MERGE_HEAD exists'' else dirty))))
     else
     io_bind (io_catch (io_bind (git_call h timeout (ident @ [''merge'', ''--no-ff'', ''--no-commit'', ''-m'', msg, branch]))
         (\<lambda>_. io_return None)) (\<lambda>e. io_return (Some e))) (\<lambda>merge_error.
     io_bind (case merge_error of
         None \<Rightarrow> io_return ()
       | Some e \<Rightarrow>
           io_bind (unmerged_paths h) (\<lambda>unmerged.
           io_bind (merge_in_progress h) (\<lambda>busy.
           if busy \<and> unmerged = [] \<and> \<not> is_timeout e then io_return ()
           else roll_back h original
             (if is_timeout e then GitTimeout (''merge timeout on '' @ branch @ '': '' @ error_text e)
              else if busy then GitMergeConflict (''merge conflict on '' @ branch @ '': '' @ error_text e) (sort unmerged)
              else GitError (''merge failed on '' @ branch @ '': '' @ error_text e))))) (\<lambda>_.
     io_bind (merge_in_progress h) (\<lambda>busy.
     if \<not> busy then head_of h
     else
     io_bind (git h [''write-tree'']) (\<lambda>index.
     io_bind (tracked_worktree_diff h) (\<lambda>before.
     if before \<noteq> [] then
       roll_back h original (GitIntegrationPreconditionError
         (''candidate merge worktree differs from its index: '' @ join_text '', '' before))
     else check_and_commit h argv seconds limit original index)))))))"

definition merge_into_checked ::
  "'w host \<Rightarrow> string \<Rightarrow> string \<Rightarrow> string \<Rightarrow> rat option \<Rightarrow> string list \<Rightarrow> pyfloat \<Rightarrow> int \<Rightarrow> ('w, string) io" where
  "merge_into_checked h integration branch msg timeout argv check_timeout limit =
     io_bind (validate_check_args argv check_timeout limit) (\<lambda>seconds.
     io_bind (git h [''checkout'', integration]) (\<lambda>_.
     io_bind (head_of h) (\<lambda>original.
     merge_candidate h branch msg timeout argv seconds limit original)))"

definition merge_into ::
  "'w host \<Rightarrow> string \<Rightarrow> string \<Rightarrow> string \<Rightarrow> rat option \<Rightarrow> string list option \<Rightarrow> pyfloat \<Rightarrow> int \<Rightarrow> ('w, string) io" where
  "merge_into h integration branch msg timeout argv check_timeout limit =
     (case argv of
        Some argv \<Rightarrow> merge_into_checked h integration branch msg timeout argv check_timeout limit
      | None \<Rightarrow> merge_into_plain h integration branch msg timeout)"

section \<open>Undone or stopped\<close>

lemma io_bind_Inr: "io_bind m f w = (Inr y, w') \<longleftrightarrow> (\<exists>x w1. m w = (Inr x, w1) \<and> f x w1 = (Inr y, w'))"
  by (auto simp: io_bind_def split: prod.splits sum.splits)

lemma io_bind_Inl:
  "io_bind m f w = (Inl e, w') \<longleftrightarrow> m w = (Inl e, w') \<or> (\<exists>x w1. m w = (Inr x, w1) \<and> f x w1 = (Inl e, w'))"
  by (auto simp: io_bind_def split: prod.splits sum.splits)

lemma io_simps [simp]: "io_return x w = (Inr x, w)" "io_raise e w = (Inl e, w)"
  by (simp_all add: io_return_def io_raise_def)

lemma git_call_Inr:
  "git_call h t args w = (Inr s, w') \<longleftrightarrow> (\<exists>out err. run_git h args t w = (Exited 0 out err, w') \<and> s = py_strip out)"
  by (auto simp: git_call_def split: prod.splits process_outcome.splits)

lemma git_call_Inl: "git_call h t args w = (Inl e, w') \<Longrightarrow> is_git_error e \<and> check_report_of e = None \<and> (\<forall>s ps. e \<noteq> GitMergeConflict s ps)"
  by (auto simp: git_call_def split: prod.splits process_outcome.splits if_splits)

lemma observe_clear: "observe what m judge w = (Inr [], w') \<longleftrightarrow> (\<exists>x. m w = (Inr x, w') \<and> judge x w' = [])"
  by (auto simp: observe_def io_catch_def io_bind_def split: prod.splits sum.splits if_splits)

text \<open>What the commands of the rollback proof are documented to do: the four that read leave the world as it
  is, \<open>rev-parse HEAD\<close> prints the head, \<open>status\<close> prints nothing exactly for a clean tracked tree, and the file
  of \<open>MERGE_HEAD\<close> exists exactly during a merge.\<close>

definition documented_git :: "'w host \<Rightarrow> ('w \<Rightarrow> string) \<Rightarrow> ('w \<Rightarrow> bool) \<Rightarrow> ('w \<Rightarrow> bool) \<Rightarrow> bool" where
  "documented_git h head merging clean \<longleftrightarrow>
     (\<forall>w. snd (run_git h [''rev-parse'', ''HEAD''] None w) = w) \<and>
     (\<forall>w. snd (run_git h [''rev-parse'', ''--git-path'', ''MERGE_HEAD''] None w) = w) \<and>
     (\<forall>w. snd (run_git h [''status'', ''--porcelain'', ''--untracked-files=no''] None w) = w) \<and>
     (\<forall>w w' out err. run_git h [''rev-parse'', ''HEAD''] None w = (Exited 0 out err, w') \<longrightarrow> py_strip out = head w) \<and>
     (\<forall>w w' out err. run_git h [''rev-parse'', ''--git-path'', ''MERGE_HEAD''] None w = (Exited 0 out err, w') \<longrightarrow>
        path_exists h (py_strip out) w = merging w) \<and>
     (\<forall>w w' out err. run_git h [''status'', ''--porcelain'', ''--untracked-files=no''] None w = (Exited 0 out err, w') \<longrightarrow>
        (py_strip out = []) = clean w)"

definition restored :: "('w \<Rightarrow> string) \<Rightarrow> ('w \<Rightarrow> bool) \<Rightarrow> ('w \<Rightarrow> bool) \<Rightarrow> string \<Rightarrow> 'w \<Rightarrow> bool" where
  "restored head merging clean original w \<longleftrightarrow> head w = original \<and> \<not> merging w \<and> clean w"

lemma observe_head:
  assumes "documented_git h head merging clean" and "observe what (head_of h) (\<lambda>x _. if x \<noteq> expected then ps x else []) w = (Inr [], w')"
    and "\<And>x. ps x \<noteq> []"
  shows "w' = w \<and> head w = expected"
  using assms unfolding observe_clear head_of_def git_call_Inr documented_git_def
  by (auto split: if_splits) (metis snd_conv)+

lemma observe_merge_head:
  assumes "documented_git h head merging clean" and "observe what (git h [''rev-parse'', ''--git-path'', ''MERGE_HEAD''])
      (\<lambda>p w. if path_exists h p w then [s] else []) w = (Inr [], w')"
  shows "w' = w \<and> \<not> merging w"
  using assms unfolding observe_clear git_call_Inr documented_git_def by (auto split: if_splits) (metis snd_conv)+

lemma observe_status:
  assumes "documented_git h head merging clean"
    and "observe what (tracked_status h) (\<lambda>x _. if x \<noteq> [] then ps x else []) w = (Inr [], w')" and "\<And>x. ps x \<noteq> []"
  shows "w' = w \<and> clean w"
  using assms unfolding observe_clear tracked_status_def git_call_Inr documented_git_def
  by (auto split: if_splits) (metis snd_conv)+

lemma proved_rollback:
  assumes laws: "documented_git h head merging clean" and "rollback_problems h expected w = (Inr [], w')"
  shows "restored head merging clean expected w'"
proof -
  obtain w1 w2 w3 where 1: "observe ''cannot read HEAD: '' (head_of h)
      (\<lambda>x _. if x \<noteq> expected then [''HEAD is '' @ x @ '', expected '' @ expected] else []) w1 = (Inr [], w2)"
    and 2: "observe ''cannot prove MERGE_HEAD absent: '' (git h [''rev-parse'', ''--git-path'', ''MERGE_HEAD''])
      (\<lambda>p w. if path_exists h p w then [''MERGE_HEAD still exists''] else []) w2 = (Inr [], w3)"
    and 3: "observe ''cannot prove tracked tree clean: '' (tracked_status h)
      (\<lambda>x _. if x \<noteq> [] then [''tracked tree is not clean: '' @ x] else []) w3 = (Inr [], w')"
    using assms(2) unfolding rollback_problems_def io_bind_Inr by auto
  show ?thesis
    using observe_head [OF laws 1] observe_merge_head [OF laws 2] observe_status [OF laws 3] by (simp add: restored_def)
qed

text \<open>The errors that promise a verified rollback: those of the operator check and a merge conflict.\<close>

definition promises_rollback :: "git_error \<Rightarrow> bool" where
  "promises_rollback e \<longleftrightarrow> check_report_of e \<noteq> None \<or> (\<exists>s ps. e = GitMergeConflict s ps)"

lemma promises_simps [simp]:
  "\<not> promises_rollback (GitError s)" "\<not> promises_rollback (GitTimeout s)" "\<not> promises_rollback (GitValueError s)"
  "\<not> promises_rollback (GitRollbackError s ps)" "\<not> promises_rollback (GitIntegrationPreconditionError s)"
  by (simp_all add: promises_rollback_def)

definition keeps_promise :: "('w \<Rightarrow> bool) \<Rightarrow> ('w, 'a) io \<Rightarrow> bool" where
  "keeps_promise R m \<longleftrightarrow> (\<forall>w e w'. m w = (Inl e, w') \<longrightarrow> promises_rollback e \<longrightarrow> R w')"

named_theorems promise_rules \<open>computations whose errors keep their promise\<close>

lemma promise_return [promise_rules]: "keeps_promise R (io_return x)"
  by (simp add: keeps_promise_def)

lemma promise_raise [promise_rules]: "\<not> promises_rollback e \<Longrightarrow> keeps_promise R (io_raise e)"
  by (simp add: keeps_promise_def)

lemma promise_bind [promise_rules]: "keeps_promise R m \<Longrightarrow> (\<And>x. keeps_promise R (f x)) \<Longrightarrow> keeps_promise R (io_bind m f)"
  unfolding keeps_promise_def io_bind_Inl by blast

lemma promise_if [promise_rules]: "(b \<Longrightarrow> keeps_promise R m) \<Longrightarrow> (\<not> b \<Longrightarrow> keeps_promise R n) \<Longrightarrow> keeps_promise R (if b then m else n)"
  by simp

lemma promise_case [promise_rules]:
  "keeps_promise R m \<Longrightarrow> (\<And>x. keeps_promise R (f x)) \<Longrightarrow> keeps_promise R (case v of None \<Rightarrow> m | Some x \<Rightarrow> f x)"
  by (simp split: option.split)

lemma promise_git [promise_rules]: "keeps_promise R (git_call h t args)"
  unfolding keeps_promise_def promises_rollback_def by (auto dest: git_call_Inl)

lemma promise_catch [promise_rules]:
  "keeps_promise R m \<Longrightarrow> (\<And>e. keeps_promise R (f e)) \<Longrightarrow> keeps_promise R (io_catch m f)"
  unfolding keeps_promise_def io_catch_def by (auto split: prod.splits sum.splits if_splits)

lemma promise_observe [promise_rules]: "keeps_promise R m \<Longrightarrow> keeps_promise R (observe what m judge)"
  unfolding observe_def keeps_promise_def io_bind_def io_catch_def by (auto split: prod.splits sum.splits if_splits)

lemma promise_head [promise_rules]: "keeps_promise R (head_of h)"
  and promise_status [promise_rules]: "keeps_promise R (tracked_status h)"
  and promise_diff [promise_rules]: "keeps_promise R (tracked_worktree_diff h)"
  and promise_unmerged [promise_rules]: "keeps_promise R (unmerged_paths h)"
  and promise_busy [promise_rules]: "keeps_promise R (merge_in_progress h)"
  by (simp_all add: head_of_def tracked_status_def tracked_worktree_diff_def unmerged_paths_def merge_in_progress_def promise_rules)

lemma promise_problems [promise_rules]: "keeps_promise R (rollback_problems h expected)"
  unfolding rollback_problems_def by (intro promise_rules)

lemma promise_mutations [promise_rules]: "keeps_promise R (check_mutations h original index)"
  unfolding check_mutations_def by (intro promise_rules)

lemma promise_roll_back:
  assumes "documented_git h head merging clean"
  shows "keeps_promise (restored head merging clean original) (roll_back h original failure)"
  unfolding keeps_promise_def roll_back_def abort_and_verify_def
proof (intro allI impI)
  fix w e w'
  assume e: "io_bind (io_bind (rollback_problems h original) (\<lambda>problems. if problems \<noteq> []
      then io_raise (GitRollbackError (''integration rollback proof failed: '' @ join_text ''; '' problems) problems)
      else io_return ())) (\<lambda>_. io_raise failure) w = (Inl e, w')" and p: "promises_rollback e"
  have "rollback_problems h original w \<noteq> (Inl e, w') \<or> restored head merging clean original w'"
    using promise_problems [of "restored head merging clean original" h original] p unfolding keeps_promise_def by blast
  moreover have "rollback_problems h original w = (Inr [], w')" if "rollback_problems h original w \<noteq> (Inl e, w')"
    using e p that unfolding io_bind_Inl io_bind_Inr by (auto split: if_splits)
  ultimately show "restored head merging clean original w'" using proved_rollback [OF assms] by blast
qed

lemma promise_check:
  assumes "documented_git h head merging clean"
  shows "keeps_promise (restored head merging clean original) (check_and_commit h argv t limit original index)"
proof -
  note rb = promise_roll_back [OF assms, of original]
  have *: "keeps_promise (restored head merging clean original) (io_bind (check_mutations h original index) (\<lambda>mutations.
      if mutations \<noteq> [] then roll_back h original (GitIntegrationMutation ''integration check mutated its candidate merge''
        \<lparr>cr_returncode = Some 0, cr_stdout = out, cr_stderr = err\<rparr> mutations)
      else io_bind (io_catch (git h (ident @ [''commit'', ''--no-edit''])) (\<lambda>e. roll_back h original e)) (\<lambda>_. head_of h)))" for out err
    by (intro promise_rules rb)
  show ?thesis
    using * rb unfolding keeps_promise_def check_and_commit_def
    by (simp split: prod.split check_outcome.split) blast
qed

lemma promise_validate [promise_rules]: "keeps_promise R (validate_check_args argv t limit)"
  by (simp add: validate_check_args_def keeps_promise_def split: option.split)

lemma validate_keeps: "validate_check_args argv t limit w = (r, w') \<Longrightarrow> w' = w"
  by (auto simp: validate_check_args_def split: if_splits option.splits)

lemma promise_candidate:
  assumes "documented_git h head merging clean"
  shows "keeps_promise (restored head merging clean original) (merge_candidate h branch msg timeout argv t limit original)"
proof -
  note rb = promise_roll_back [OF assms, of original] promise_check [OF assms]
  show ?thesis
    unfolding merge_candidate_def by (intro promise_rules rb promises_simps)
qed


text \<open>A small repository: the head, whether a merge is in progress, and a check that always fails.\<close>

record sample_repo =
  sr_head :: string
  sr_merging :: bool

definition sample_git :: "string list \<Rightarrow> rat option \<Rightarrow> sample_repo \<Rightarrow> process_outcome \<times> sample_repo" where
  "sample_git args t w =
     (if args = [''rev-parse'', ''HEAD''] then (Exited 0 (sr_head w) [], w)
      else if args = [''rev-parse'', ''-q'', ''--verify'', ''MERGE_HEAD'']
        then (Exited (if sr_merging w then 0 else 1) [] [], w)
      else if ''--no-commit'' \<in> set args then (Exited 0 [] [], w\<lparr>sr_merging := True\<rparr>)
      else if args = [''merge'', ''--abort''] then (Exited 0 [] [], w\<lparr>sr_merging := False\<rparr>)
      else if args = [''write-tree''] then (Exited 0 ''tree'' [], w)
      else (Exited 0 [] [], w))"

definition sample_host :: "sample_repo host" where
  "sample_host = \<lparr>run_git = sample_git, path_exists = (\<lambda>p w. sr_merging w),
     run_check = (\<lambda>argv t limit w. (CheckRan (Some 1) ''tests'' ''failed'' False, w))\<rparr>"

definition sample_clean :: "sample_repo \<Rightarrow> bool" where
  "sample_clean w = True"

definition stripped_head :: "sample_repo \<Rightarrow> string" where
  "stripped_head w = py_strip (sr_head w)"

lemma sample_documented: "documented_git sample_host stripped_head sr_merging sample_clean"
  by (auto simp: documented_git_def sample_host_def sample_git_def sample_clean_def stripped_head_def py_strip_def
    rstrip_by_def)


end
