(* ===== verification/Idem.thy ===== *)
theory Idem
  imports Store Gitio
begin

text \<open>
  Request idempotency: the \<open>idempotency\<close> operations of \<open>omd_server/store.py\<close> and, from
  \<open>omd_server/core.py\<close>, the wrapper \<open>_idem\<close> of the mutating verbs with its split-phase companions
  and the caller guards \<open>_check_owner\<close>, \<open>_check_task_write_fence\<close> and \<open>_check_alive\<close>.

  A response is the \<open>json\<close> value it is. The body of a \<open>with self._idem(...)\<close> block is a function
  on the database that gives the slot it leaves and the new database, or raises; a raise rolls the
  critical section back, so it carries no database. \<open>sha\<close> stands for the digest of the request text.
\<close>

section \<open>Python dicts as responses\<close>

fun dict_get :: "string \<Rightarrow> json \<Rightarrow> json option" where
  "dict_get k (JDict kvs) = map_of kvs k"
| "dict_get k _ = None"

fun dict_put :: "string \<Rightarrow> json \<Rightarrow> (string \<times> json) list \<Rightarrow> (string \<times> json) list" where
  "dict_put k v [] = [(k, v)]"
| "dict_put k v ((k', v') # kvs) = (if k = k' then (k, v) # kvs else (k', v') # dict_put k v kvs)"

fun dict_with :: "string \<Rightarrow> json \<Rightarrow> json \<Rightarrow> json" where
  "dict_with k v (JDict kvs) = JDict (dict_put k v kvs)"
| "dict_with k v j = j"

fun truthy :: "json option \<Rightarrow> bool" where
  "truthy None = False"
| "truthy (Some JNull) = False"
| "truthy (Some (JBool b)) = b"
| "truthy (Some (JInt i)) = (i \<noteq> 0)"
| "truthy (Some (JFloat x)) = (x \<noteq> Fin 0)"
| "truthy (Some (JStr s)) = (s \<noteq> [])"
| "truthy (Some (JList xs)) = (xs \<noteq> [])"
| "truthy (Some (JDict kvs)) = (kvs \<noteq> [])"

lemma map_of_dict_put [simp]: "map_of (dict_put k v kvs) = (map_of kvs)(k \<mapsto> v)"
  by (induction kvs) (auto simp: fun_eq_iff)

lemma dict_get_with: "dict_get k (dict_with k' v (JDict kvs)) =
    (if k = k' then Some v else dict_get k (JDict kvs))"
  by simp

definition ok_false :: "string \<Rightarrow> (string \<times> json) list \<Rightarrow> json" where
  "ok_false why rest = JDict ([(''ok'', JBool False), (''reason'', JStr why)] @ rest)"

definition opt_str :: "string option \<Rightarrow> json" where
  "opt_str x = (case x of None \<Rightarrow> JNull | Some s \<Rightarrow> JStr s)"

definition opt_int :: "int option \<Rightarrow> json" where
  "opt_int x = (case x of None \<Rightarrow> JNull | Some i \<Rightarrow> JInt i)"

section \<open>The idempotency table\<close>

definition get_idem :: "string \<Rightarrow> db \<Rightarrow> idem_row option" where
  "get_idem rid db = fetchone (filter (\<lambda>i. i_request_id i = rid) (idempotency db))"

definition begin_idem ::
  "rat \<Rightarrow> string \<Rightarrow> string option \<Rightarrow> string \<Rightarrow> string \<Rightarrow> json option \<Rightarrow> db \<Rightarrow> db" where
  "begin_idem now rid aid verb h args db =
     (if \<exists>i\<in>set (idempotency db). i_request_id i = rid then db
      else db\<lparr>idempotency := idempotency db @
        [\<lparr>i_request_id = rid, i_agent_id = aid, i_verb = verb, i_arg_hash = h, i_args = args,
          i_status = ''INFLIGHT'', i_response = None, i_created_at = now, i_completed_at = None,
          i_operation_id = None, i_owner_instance = None, i_owner_generation = None\<rparr>]\<rparr>)"

definition same_envelope :: "string \<Rightarrow> string option \<Rightarrow> string \<Rightarrow> string \<Rightarrow> idem_row \<Rightarrow> bool" where
  "same_envelope rid aid verb h i \<longleftrightarrow>
     i_request_id i = rid \<and> i_agent_id i = aid \<and> i_verb i = verb \<and> i_arg_hash i = h"

text \<open>An \<open>UPDATE\<close> whose \<open>rowcount == 1\<close> is the answer.\<close>

definition update_exact :: "(idem_row \<Rightarrow> bool) \<Rightarrow> (idem_row \<Rightarrow> idem_row) \<Rightarrow> db \<Rightarrow> bool \<times> db" where
  "update_exact p f db =
     (length (filter p (idempotency db)) = 1, db\<lparr>idempotency := update_where p f (idempotency db)\<rparr>)"

definition finish_idem :: "rat \<Rightarrow> string \<Rightarrow> json \<Rightarrow> db \<Rightarrow> db" where
  "finish_idem now rid resp db = db\<lparr>idempotency :=
     update_where (\<lambda>i. i_request_id i = rid)
       (\<lambda>i. i\<lparr>i_status := ''DONE'', i_response := Some resp, i_completed_at := Some now\<rparr>)
       (idempotency db)\<rparr>"

definition finish_idem_exact ::
  "rat \<Rightarrow> string \<Rightarrow> string option \<Rightarrow> string \<Rightarrow> string \<Rightarrow> json \<Rightarrow> db \<Rightarrow> bool \<times> db" where
  "finish_idem_exact now rid aid verb h resp =
     update_exact (\<lambda>i. same_envelope rid aid verb h i \<and> i_status i = ''INFLIGHT'')
       (\<lambda>i. i\<lparr>i_status := ''DONE'', i_response := Some resp, i_completed_at := Some now\<rparr>)"

definition bind_idem_operation_exact ::
  "string \<Rightarrow> string option \<Rightarrow> string \<Rightarrow> string \<Rightarrow> string \<Rightarrow> string option \<Rightarrow> int option \<Rightarrow> db \<Rightarrow> bool \<times> db" where
  "bind_idem_operation_exact rid aid verb h op owner gen =
     update_exact (\<lambda>i. same_envelope rid aid verb h i \<and> i_status i = ''INFLIGHT'' \<and> i_operation_id i = None)
       (\<lambda>i. i\<lparr>i_operation_id := Some op, i_owner_instance := owner, i_owner_generation := gen\<rparr>)"

definition takeover_idem_operation_exact ::
  "string \<Rightarrow> string option \<Rightarrow> string \<Rightarrow> string \<Rightarrow> string \<Rightarrow> string option \<Rightarrow> int option \<Rightarrow> string option \<Rightarrow>
   int option \<Rightarrow> db \<Rightarrow> bool \<times> db" where
  "takeover_idem_operation_exact rid aid verb h op prev_owner prev_gen owner gen =
     update_exact (\<lambda>i. same_envelope rid aid verb h i \<and> i_status i = ''INFLIGHT'' \<and>
         i_operation_id i = Some op \<and> i_owner_instance i = prev_owner \<and> i_owner_generation i = prev_gen)
       (\<lambda>i. i\<lparr>i_owner_instance := owner, i_owner_generation := gen\<rparr>)"

definition mark_idem_retryable_exact ::
  "string \<Rightarrow> string option \<Rightarrow> string \<Rightarrow> string \<Rightarrow> db \<Rightarrow> bool \<times> db" where
  "mark_idem_retryable_exact rid aid verb h =
     update_exact (\<lambda>i. same_envelope rid aid verb h i \<and> i_status i = ''INFLIGHT'')
       (\<lambda>i. i\<lparr>i_status := ''RETRYABLE'', i_response := None, i_completed_at := None\<rparr>)"

definition reopen_idem_exact ::
  "rat \<Rightarrow> string \<Rightarrow> string option \<Rightarrow> string \<Rightarrow> string \<Rightarrow> db \<Rightarrow> bool \<times> db" where
  "reopen_idem_exact now rid aid verb h =
     update_exact (\<lambda>i. same_envelope rid aid verb h i \<and> i_status i = ''RETRYABLE'')
       (\<lambda>i. i\<lparr>i_status := ''INFLIGHT'', i_created_at := now, i_response := None,
              i_completed_at := None, i_operation_id := None, i_owner_instance := None,
              i_owner_generation := None\<rparr>)"

definition clear_idem :: "string \<Rightarrow> db \<Rightarrow> db" where
  "clear_idem rid db = db\<lparr>idempotency := filter (\<lambda>i. i_request_id i \<noteq> rid) (idempotency db)\<rparr>"

definition clear_idem_exact ::
  "string \<Rightarrow> string option \<Rightarrow> string \<Rightarrow> string \<Rightarrow> db \<Rightarrow> bool \<times> db" where
  "clear_idem_exact rid aid verb h db =
     (let p = (\<lambda>i. same_envelope rid aid verb h i \<and> i_status i = ''INFLIGHT'')
      in (length (filter p (idempotency db)) = 1,
          db\<lparr>idempotency := filter (\<lambda>i. \<not> p i) (idempotency db)\<rparr>))"

definition inflight_idem :: "db \<Rightarrow> idem_row list" where
  "inflight_idem db = sort_key (\<lambda>i. (i_created_at i, i_request_id i))
     (filter (\<lambda>i. i_status i = ''INFLIGHT'') (idempotency db))"

definition gc_idem :: "rat \<Rightarrow> db \<Rightarrow> nat \<times> db" where
  "gc_idem cutoff db =
     (let old = (\<lambda>i. i_status i = ''DONE'' \<and>
            (case i_completed_at i of None \<Rightarrow> False | Some t \<Rightarrow> t < cutoff))
      in (length (filter old (idempotency db)),
          db\<lparr>idempotency := filter (\<lambda>i. \<not> old i) (idempotency db)\<rparr>))"

section \<open>Guards\<close>

definition write_modes :: "string list" where
  "write_modes = [''write'', ''shared'']"

definition check_owner :: "orbit \<Rightarrow> string \<Rightarrow> int option \<Rightarrow> json option" where
  "check_owner o' aid fn =
     (if agent_id o' \<noteq> aid then
        Some (ok_false ''not owner'' [(''owner'', JStr (agent_id o'))])
      else if fence o' \<noteq> fn then
        Some (ok_false ''stale fence'' [(''fenced_out'', JBool True),
          (''current'', opt_int (fence o')), (''yours'', opt_int fn)])
      else None)"

definition max_fence :: "orbit list \<Rightarrow> int option" where
  "max_fence os = (case List.map_filter fence os of [] \<Rightarrow> None | f # fs \<Rightarrow> Some (foldr max fs f))"

definition stale_writes :: "orbit list \<Rightarrow> string option \<Rightarrow> int option \<Rightarrow> string list" where
  "stale_writes writes aid fn =
     (let dead = map orbit_id (filter (\<lambda>o'. o_state o' \<noteq> ''HELD'') writes)
      in if dead \<noteq> [] then dead
         else let foreign = map orbit_id (filter (\<lambda>o'. aid \<noteq> None \<and> Some (agent_id o') \<noteq> aid) writes)
           in if fn \<noteq> None \<and> fn \<noteq> max_fence writes
              then foreign @ map orbit_id (filter (\<lambda>o'. orbit_id o' \<notin> set foreign) writes)
              else foreign)"

definition check_task_write_fence ::
  "string \<Rightarrow> string option \<Rightarrow> int option \<Rightarrow> db \<Rightarrow> json option" where
  "check_task_write_fence tid aid fn db =
     (if aid = None \<and> fn = None then None
      else case get_task tid db of
        None \<Rightarrow> Some (ok_false ''no such task'' [])
      | Some t \<Rightarrow>
          if aid \<noteq> None \<and> t_agent_id t \<noteq> aid \<and> t_agent_id t \<noteq> None then
            Some (ok_false ''not owner'' [(''owner'', opt_str (t_agent_id t)), (''fenced_out'', JBool True)])
          else
            let stale = stale_writes (filter (\<lambda>o'. mode o' \<in> set write_modes) (orbits_for_task tid db)) aid fn
            in if stale \<noteq> [] then
                 Some (JDict [(''ok'', JBool False), (''fenced_out'', JBool True),
                   (''reason'', JStr ''stale fence: write lease expired/released during work''),
                   (''stale'', JList (map JStr stale))])
               else None)"

definition check_alive :: "string option \<Rightarrow> int option \<Rightarrow> db \<Rightarrow> json option" where
  "check_alive aid epoch db =
     (case aid of None \<Rightarrow> None
      | Some a \<Rightarrow> (case get_agent a db of None \<Rightarrow> None
          | Some ag \<Rightarrow>
              if a_state ag \<in> {''RETIRED'', ''ZOMBIE'', ''BAILING''} then
                Some (ok_false ''agent reclaimed'' [(''fenced_out'', JBool True),
                  (''agent_state'', JStr (a_state ag))])
              else if epoch \<noteq> None \<and> Some (a_bail_epoch ag) \<noteq> epoch then
                Some (ok_false ''stale bail_epoch'' [(''fenced_out'', JBool True),
                  (''current'', JInt (a_bail_epoch ag)), (''yours'', opt_int epoch)])
              else None))"

section \<open>The wrapper\<close>

text \<open>\<open>return cache.set(r)\<close> leaves the value in the slot; a plain \<open>return r\<close> leaves it empty.\<close>

record slot =
  sl_value :: "json option"
  sl_deferred :: bool
  sl_terminal :: bool
  sl_reply :: "json option"

definition slot_set :: "json \<Rightarrow> slot" where
  "slot_set v = \<lparr>sl_value = Some v, sl_deferred = False, sl_terminal = False, sl_reply = None\<rparr>"

definition slot_return :: "json \<Rightarrow> slot" where
  "slot_return v = \<lparr>sl_value = None, sl_deferred = False, sl_terminal = False, sl_reply = Some v\<rparr>"

definition slot_response :: "slot \<Rightarrow> json option" where
  "slot_response sl = (case sl_reply sl of None \<Rightarrow> sl_value sl | Some r \<Rightarrow> Some r)"

datatype core_error =
    RuntimeError string
  | CoordinatorConflict string
  | CoreValueError string
  | CoreKeyError string
  | CoreTypeError string
  | FsmError string
  | CoreAdmissionError adm_error
  | RaisedGit git_error

definition arg_hash :: "(json \<Rightarrow> string) \<Rightarrow> string \<Rightarrow> json \<Rightarrow> string" where
  "arg_hash sha verb args = sha (JList [JStr verb, args])"

fun is_success :: "json \<Rightarrow> bool" where
  "is_success (JDict kvs) =
     (let r = JDict kvs in
      if dict_get ''ok'' r = Some (JBool False) then False
      else if truthy (dict_get ''fenced_out'' r) \<or> truthy (dict_get ''deadlock'' r)
        \<or> truthy (dict_get ''retry'' r) then False
      else if dict_get ''state'' r \<in> {Some (JStr ''DENIED''), Some (JStr ''PENDING'')} then False
      else True)"
| "is_success JNull = False"
| "is_success _ = True"

definition replayed :: "json \<Rightarrow> json" where
  "replayed r = dict_with ''replayed'' (JBool True) r"

definition orbit_conflict_response :: "string \<Rightarrow> string option \<Rightarrow> string \<Rightarrow> orbit \<Rightarrow> json" where
  "orbit_conflict_response rid aid verb live =
     ok_false ''idempotency_conflict'' [(''request_id'', JStr rid),
       (''original'', JDict [(''agent_id'', JStr (agent_id live)), (''verb'', JStr ''claim''),
          (''orbit_id'', JStr (orbit_id live))]),
       (''received'', JDict [(''agent_id'', opt_str aid), (''verb'', JStr verb)])]"

definition envelope_conflict_response ::
  "string \<Rightarrow> string option \<Rightarrow> string \<Rightarrow> string \<Rightarrow> idem_row \<Rightarrow> json" where
  "envelope_conflict_response rid aid verb h prior =
     ok_false ''idempotency_conflict'' [(''request_id'', JStr rid),
       (''original'', JDict [(''agent_id'', opt_str (i_agent_id prior)), (''verb'', JStr (i_verb prior)),
          (''arg_hash'', JStr (i_arg_hash prior))]),
       (''received'', JDict [(''agent_id'', opt_str aid), (''verb'', JStr verb), (''arg_hash'', JStr h)])]"

definition inflight_response :: "string \<Rightarrow> json" where
  "inflight_response rid =
     ok_false ''request_inflight'' [(''request_id'', JStr rid), (''retry'', JBool True)]"

text \<open>What the wrapper does before the body: answer from the table, or register the request.\<close>

datatype idem_entry = Hit json | Run db | Raise core_error

definition idem_prior ::
  "(json \<Rightarrow> string) \<Rightarrow> rat \<Rightarrow> string \<Rightarrow> string option \<Rightarrow> string \<Rightarrow> json \<Rightarrow> db \<Rightarrow> idem_entry" where
  "idem_prior sha now rid aid verb args db =
     (let h = arg_hash sha verb args in
      case get_idem rid db of
        None \<Rightarrow> Run (begin_idem now rid aid verb h (Some args) db)
      | Some i \<Rightarrow>
          if \<not> same_envelope rid aid verb h i then Hit (envelope_conflict_response rid aid verb h i)
          else if i_status i = ''DONE'' then
            Hit (replayed (case i_response i of None \<Rightarrow> JNull | Some r \<Rightarrow> r))
          else if i_status i = ''RETRYABLE'' then
            (case reopen_idem_exact now rid aid verb h db of (reopened, db') \<Rightarrow>
               if reopened then Run db'
               else Raise (RuntimeError ''idempotency ownership lost while reopening''))
          else Hit (inflight_response rid))"

definition idem_enter ::
  "(json \<Rightarrow> string) \<Rightarrow> rat \<Rightarrow> string \<Rightarrow> string option \<Rightarrow> string \<Rightarrow> json \<Rightarrow> db \<Rightarrow> idem_entry" where
  "idem_enter sha now rid aid verb args db =
     (case orbit_by_request (Some rid) None db of
        Some live \<Rightarrow>
          if verb \<noteq> ''claim'' \<or> Some (agent_id live) \<noteq> aid
          then Hit (orbit_conflict_response rid aid verb live)
          else idem_prior sha now rid aid verb args db
      | None \<Rightarrow> idem_prior sha now rid aid verb args db)"

text \<open>What it does with the slot the body leaves: a deferred request stays INFLIGHT, a success (or a
  terminal receipt) is cached, anything else is forgotten.\<close>

definition idem_leave ::
  "(json \<Rightarrow> string) \<Rightarrow> rat \<Rightarrow> string \<Rightarrow> string option \<Rightarrow> string \<Rightarrow> json \<Rightarrow> slot \<Rightarrow> db \<Rightarrow>
   (core_error, db) result" where
  "idem_leave sha now rid aid verb args sl db =
     (let h = arg_hash sha verb args in
      if sl_deferred sl then Inr db
      else case sl_value sl of
        Some v \<Rightarrow>
          if sl_terminal sl \<or> is_success v then
            (case finish_idem_exact now rid aid verb h v db of (finished, db') \<Rightarrow>
               if finished then Inr db'
               else Inl (RuntimeError ''idempotency ownership lost while finishing''))
          else Inr (snd (clear_idem_exact rid aid verb h db))
      | None \<Rightarrow> Inr (snd (clear_idem_exact rid aid verb h db)))"

definition with_idem ::
  "(json \<Rightarrow> string) \<Rightarrow> rat \<Rightarrow> string option \<Rightarrow> string option \<Rightarrow> string \<Rightarrow> json \<Rightarrow>
   (db \<Rightarrow> (core_error, slot \<times> db) result) \<Rightarrow> db \<Rightarrow> (core_error, json option \<times> db) result" where
  "with_idem sha now request aid verb args body db =
     (case request of
        None \<Rightarrow> bind_res (body db) (\<lambda>(sl, db'). Inr (slot_response sl, db'))
      | Some rid \<Rightarrow>
          (case idem_enter sha now rid aid verb args db of
             Hit r \<Rightarrow> Inr (Some r, db)
           | Raise e \<Rightarrow> Inl e
           | Run db1 \<Rightarrow> bind_res (body db1) (\<lambda>(sl, db2).
               bind_res (idem_leave sha now rid aid verb args sl db2)
                 (\<lambda>db3. Inr (slot_response sl, db3)))))"

text \<open>The split-phase verbs finish the envelope in a later critical section; with the operation of an
  attempt only the attempt that still owns the row may do so.\<close>

record operation =
  op_attempt_id :: "string option"
  op_owner_instance :: "string option"
  op_owner_generation :: "int option"

definition owns_operation :: "operation \<Rightarrow> idem_row option \<Rightarrow> bool" where
  "owns_operation op row =
     (case row of None \<Rightarrow> False
      | Some i \<Rightarrow> i_status i = ''INFLIGHT'' \<and> i_operation_id i = op_attempt_id op \<and>
          i_owner_instance i = op_owner_instance op \<and> i_owner_generation i = op_owner_generation op)"

definition complete_split_idem ::
  "(json \<Rightarrow> string) \<Rightarrow> rat \<Rightarrow> string option \<Rightarrow> string option \<Rightarrow> string \<Rightarrow> json \<Rightarrow> operation option \<Rightarrow>
   json \<Rightarrow> db \<Rightarrow> (core_error, json \<times> db) result" where
  "complete_split_idem sha now request aid verb args operation response db =
     (case request of
        None \<Rightarrow> Inr (response, db)
      | Some rid \<Rightarrow>
          let h = arg_hash sha verb args in
          if (case operation of None \<Rightarrow> False | Some op \<Rightarrow> \<not> owns_operation op (get_idem rid db)) then
            Inr (JDict [(''ok'', JBool False), (''fenced_out'', JBool True),
              (''reason'', JStr ''split idempotency ownership lost''), (''request_id'', JStr rid)], db)
          else if is_success response then
            (case finish_idem_exact now rid aid verb h response db of (finished, db') \<Rightarrow>
               if finished then Inr (response, db')
               else Inl (RuntimeError ''idempotency ownership lost while finishing''))
          else Inr (response, snd (clear_idem_exact rid aid verb h db)))"

definition finish_split_idem_terminal ::
  "(json \<Rightarrow> string) \<Rightarrow> rat \<Rightarrow> string option \<Rightarrow> string option \<Rightarrow> string \<Rightarrow> json \<Rightarrow> json \<Rightarrow> db \<Rightarrow>
   (core_error, json \<times> db) result" where
  "finish_split_idem_terminal sha now request aid verb args response db =
     (case request of
        None \<Rightarrow> Inr (response, db)
      | Some rid \<Rightarrow>
          (case finish_idem_exact now rid aid verb (arg_hash sha verb args) response db of (finished, db') \<Rightarrow>
             if finished then Inr (response, db')
             else Inl (RuntimeError ''idempotency ownership lost while terminalizing'')))"

definition clear_split_idem ::
  "(json \<Rightarrow> string) \<Rightarrow> string option \<Rightarrow> string option \<Rightarrow> string \<Rightarrow> json \<Rightarrow> db \<Rightarrow> db" where
  "clear_split_idem sha request aid verb args db =
     (case request of None \<Rightarrow> db
      | Some rid \<Rightarrow> snd (clear_idem_exact rid aid verb (arg_hash sha verb args) db))"

definition split_effect_busy ::
  "(json \<Rightarrow> string) \<Rightarrow> string option \<Rightarrow> string option \<Rightarrow> string \<Rightarrow> json \<Rightarrow> db \<Rightarrow> json" where
  "split_effect_busy sha request aid verb args db =
     (let busy = ok_false ''connect_effect_in_progress'' [(''retry'', JBool True)] in
      case request of
        None \<Rightarrow> busy
      | Some rid \<Rightarrow>
          let h = arg_hash sha verb args in
          (case get_idem rid db of
             None \<Rightarrow> busy
           | Some i \<Rightarrow>
               if \<not> same_envelope rid aid verb h i then envelope_conflict_response rid aid verb h i
               else if i_status i = ''DONE'' then
                 replayed (case i_response i of None \<Rightarrow> JNull | Some r \<Rightarrow> r)
               else inflight_response rid))"

section \<open>Table lemmas\<close>

text \<open>\<open>request_id\<close> is the primary key.\<close>

definition idem_keys :: "db \<Rightarrow> bool" where
  "idem_keys db \<longleftrightarrow> distinct (map i_request_id (idempotency db))"

lemma get_idem_iff:
  assumes "idem_keys db"
  shows "get_idem rid db = Some i \<longleftrightarrow> i \<in> set (idempotency db) \<and> i_request_id i = rid"
proof
  assume "get_idem rid db = Some i"
  then show "i \<in> set (idempotency db) \<and> i_request_id i = rid"
    by (auto simp: get_idem_def dest: fetchone_filter_Some)
next
  assume i: "i \<in> set (idempotency db) \<and> i_request_id i = rid"
  then obtain j where j: "get_idem rid db = Some j"
    by (cases "get_idem rid db") (auto simp: get_idem_def filter_empty_conv)
  then have "j \<in> set (idempotency db)" "i_request_id j = rid"
    by (auto simp: get_idem_def dest: fetchone_filter_Some)
  then have "j = i" using assms i by (auto simp: idem_keys_def distinct_map inj_on_def)
  with j show "get_idem rid db = Some i" by simp
qed

lemma get_idem_None: "get_idem rid db = None \<longleftrightarrow> (\<forall>i\<in>set (idempotency db). i_request_id i \<noteq> rid)"
  by (simp add: get_idem_def filter_empty_conv)

lemma update_exact_keys:
  assumes "\<And>i. p i \<Longrightarrow> i_request_id (f i) = i_request_id i"
  shows "idem_keys (snd (update_exact p f db)) = idem_keys db"
  using assms by (simp add: update_exact_def idem_keys_def map_update_where)

lemma distinct_key_filter:
  assumes "distinct (map k xs)" and "x \<in> set xs" and "p x" and "\<And>y. p y \<Longrightarrow> k y = k x"
  shows "filter p xs = [x]"
  using assms
proof (induction xs)
  case (Cons y xs)
  show ?case
  proof (cases "x = y")
    case True
    have "\<not> p z" if "z \<in> set xs" for z
      using that True Cons.prems(1) Cons.prems(4) [of z] by (auto simp: image_iff)
    then have "filter p xs = []" by (simp add: filter_empty_conv)
    with True Cons.prems(3) show ?thesis by simp
  next
    case False
    then have x: "x \<in> set xs" using Cons.prems(2) by simp
    then have "k y \<noteq> k x" using Cons.prems(1) by (auto simp: image_iff)
    then have "\<not> p y" using Cons.prems(4) [of y] by blast
    moreover have "filter p xs = [x]"
      by (rule Cons.IH) (rule distinct_tl [OF Cons.prems(1), simplified], rule x,
        rule Cons.prems(3), rule Cons.prems(4))
    ultimately show ?thesis by simp
  qed
qed simp

lemma update_exact_hit:
  assumes "idem_keys db" and "get_idem rid db = Some i" and "p i"
    and "\<And>j. p j \<Longrightarrow> i_request_id j = rid"
    and "\<And>j. i_request_id (f j) = i_request_id j"
  shows "fst (update_exact p f db)" "get_idem rid (snd (update_exact p f db)) = Some (f i)"
proof -
  have i: "i \<in> set (idempotency db)" "i_request_id i = rid"
    using assms(1,2) by (auto simp: get_idem_iff)
  have "filter p (idempotency db) = [i]"
    using assms i by (intro distinct_key_filter [of i_request_id]) (auto simp: idem_keys_def)
  then show "fst (update_exact p f db)" by (simp add: update_exact_def)
  have "f i \<in> set (idempotency (snd (update_exact p f db)))"
    using i assms(3) by (auto simp: update_exact_def set_update_where)
  then show "get_idem rid (snd (update_exact p f db)) = Some (f i)"
    using assms(1,5) i by (subst get_idem_iff) (simp_all add: update_exact_keys)
qed

text \<open>Whatever the bodies keep and the table does not matter for, the wrapped verbs keep.\<close>

lemma idem_enter_db:
  assumes "idem_enter sha now rid aid verb args db = Run d"
  shows "d = db\<lparr>idempotency := idempotency d\<rparr>"
proof -
  have "idem_prior sha now rid aid verb args db = Run d"
    using assms by (auto simp: idem_enter_def split: option.splits if_splits)
  then have "d = begin_idem now rid aid verb (arg_hash sha verb args) (Some args) db \<or>
      d = snd (reopen_idem_exact now rid aid verb (arg_hash sha verb args) db)"
    by (auto simp: idem_prior_def Let_def split: option.splits if_splits prod.splits)
  then show ?thesis
    by (elim disjE) (simp_all add: begin_idem_def reopen_idem_exact_def update_exact_def)
qed

lemma idem_leave_db:
  assumes "idem_leave sha now rid aid verb args sl db = Inr d"
  shows "d = db\<lparr>idempotency := idempotency d\<rparr>"
  using assms
  by (auto simp: idem_leave_def Let_def finish_idem_exact_def update_exact_def clear_idem_exact_def
      split: option.splits if_splits)

lemma with_idem_preserves:
  assumes "with_idem sha now request aid verb args body db = Inr (r, db')" and "P db"
    and "\<And>d sl d'. body d = Inr (sl, d') \<Longrightarrow> P d \<Longrightarrow> P d'"
    and "\<And>d xs. P d \<Longrightarrow> P (d\<lparr>idempotency := xs\<rparr>)"
  shows "P db'"
proof (cases request)
  case None
  then show ?thesis using assms by (auto simp: with_idem_def bind_res_Inr_iff)
next
  case (Some rid)
  show ?thesis
  proof (cases "idem_enter sha now rid aid verb args db")
    case (Hit v)
    then show ?thesis using assms Some by (simp add: with_idem_def)
  next
    case (Run d1)
    then obtain sl d2 where b: "body d1 = Inr (sl, d2)"
      and l: "idem_leave sha now rid aid verb args sl d2 = Inr db'"
      using assms(1) Some by (auto simp: with_idem_def bind_res_Inr_iff)
    have "P d1" using idem_enter_db [OF Run] assms(2,4) by metis
    then have "P d2" using assms(3) [OF b] by blast
    then show ?thesis using idem_leave_db [OF l] assms(4) by metis
  next
    case (Raise e)
    then show ?thesis using assms(1) Some by (simp add: with_idem_def)
  qed
qed

section \<open>Idempotency properties\<close>

text \<open>The bodies of the single-phase verbs leave the table alone and do not defer their slot.\<close>

definition plain_body :: "(db \<Rightarrow> (core_error, slot \<times> db) result) \<Rightarrow> bool" where
  "plain_body body \<longleftrightarrow> (\<forall>d sl d'. body d = Inr (sl, d') \<longrightarrow>
     idempotency d' = idempotency d \<and> \<not> sl_deferred sl \<and> \<not> sl_terminal sl \<and>
     (\<forall>r. sl_reply sl = Some r \<longrightarrow> sl_value sl = None \<and> \<not> is_success r))"

definition namespace_free :: "string \<Rightarrow> string option \<Rightarrow> string \<Rightarrow> db \<Rightarrow> bool" where
  "namespace_free rid aid verb db \<longleftrightarrow>
     (case orbit_by_request (Some rid) None db of None \<Rightarrow> True
      | Some live \<Rightarrow> verb = ''claim'' \<and> Some (agent_id live) = aid)"

lemma replayed_idem [simp]: "replayed (replayed r) = replayed r"
proof -
  have "dict_put k v (dict_put k v kvs) = dict_put k v kvs" for k v kvs
    by (induction kvs) auto
  then show ?thesis by (cases r) (auto simp: replayed_def)
qed

lemma conflict_not_success [simp]:
  "\<not> is_success (orbit_conflict_response rid aid verb live)"
  "\<not> is_success (envelope_conflict_response rid aid verb h i)"
  "\<not> is_success (inflight_response rid)"
  by (simp_all add: orbit_conflict_response_def envelope_conflict_response_def
      inflight_response_def ok_false_def)

lemma begin_idem_row:
  assumes "get_idem rid db = None" and "idem_keys db"
  shows "idem_keys (begin_idem now rid aid verb h args db)"
    "\<exists>i. get_idem rid (begin_idem now rid aid verb h args db) = Some i \<and>
       same_envelope rid aid verb h i \<and> i_status i = ''INFLIGHT''"
proof -
  have none: "\<forall>i\<in>set (idempotency db). i_request_id i \<noteq> rid"
    using assms(1) by (simp add: get_idem_None)
  then show "idem_keys (begin_idem now rid aid verb h args db)"
    using assms(2) by (auto simp: begin_idem_def idem_keys_def)
  have "filter (\<lambda>i. i_request_id i = rid) (idempotency db) = []"
    using none by (simp add: filter_empty_conv)
  then show "\<exists>i. get_idem rid (begin_idem now rid aid verb h args db) = Some i \<and>
       same_envelope rid aid verb h i \<and> i_status i = ''INFLIGHT''"
    using none by (auto simp: begin_idem_def get_idem_def same_envelope_def)
qed

lemma same_envelope_request: "same_envelope rid aid verb h i \<Longrightarrow> i_request_id i = rid"
  by (simp add: same_envelope_def)

lemma idem_prior_run:
  assumes "idem_prior sha now rid aid verb args db = Run db1" and "idem_keys db"
  shows "idem_keys db1 \<and> (\<exists>i. get_idem rid db1 = Some i \<and>
    same_envelope rid aid verb (arg_hash sha verb args) i \<and> i_status i = ''INFLIGHT'')"
proof (cases "get_idem rid db")
  case None
  then show ?thesis
    using assms begin_idem_row [OF None assms(2)] by (auto simp: idem_prior_def Let_def)
next
  case (Some i)
  let ?h = "arg_hash sha verb args"
  let ?p = "\<lambda>i. same_envelope rid aid verb ?h i \<and> i_status i = ''RETRYABLE''"
  let ?f = "\<lambda>i. i\<lparr>i_status := ''INFLIGHT'', i_created_at := now, i_response := None,
    i_completed_at := None, i_operation_id := None, i_owner_instance := None,
    i_owner_generation := None\<rparr>"
  from Some assms(1) have p: "?p i" and db1: "db1 = snd (update_exact ?p ?f db)"
    by (auto simp: idem_prior_def Let_def reopen_idem_exact_def split: if_splits prod.splits)
  have "get_idem rid db1 = Some (?f i)"
    unfolding db1
    by (rule update_exact_hit(2) [where p = ?p and f = ?f, OF assms(2) Some])
      (use p in \<open>auto dest: same_envelope_request\<close>)
  moreover have "idem_keys db1"
    using assms(2) by (simp add: db1 update_exact_keys)
  ultimately show ?thesis using p by (auto simp: same_envelope_def)
qed

lemma idem_enter_run:
  assumes "idem_enter sha now rid aid verb args db = Run db1" and "idem_keys db"
  shows "idem_keys db1 \<and> (\<exists>i. get_idem rid db1 = Some i \<and>
    same_envelope rid aid verb (arg_hash sha verb args) i \<and> i_status i = ''INFLIGHT'')"
  using assms by (auto simp: idem_enter_def idem_prior_run split: option.splits if_splits)

lemma get_idem_cong: "idempotency a = idempotency b \<Longrightarrow> get_idem rid a = get_idem rid b"
  "idempotency a = idempotency b \<Longrightarrow> idem_keys a = idem_keys b"
  by (simp_all add: get_idem_def idem_keys_def)

text \<open>The three ways through the wrapper.\<close>

lemma with_idem_cases:
  assumes "with_idem sha now (Some rid) aid verb args body db = Inr (resp, db')"
    and "idem_keys db" and "plain_body body"
  obtains (hit) r where "idem_enter sha now rid aid verb args db = Hit r" "resp = Some r" "db' = db"
  | (cached) r db1 sl db2 i where "idem_enter sha now rid aid verb args db = Run db1"
      "body db1 = Inr (sl, db2)" "resp = Some r" "is_success r"
      "get_idem rid db' = Some i" "same_envelope rid aid verb (arg_hash sha verb args) i"
      "i_status i = ''DONE''" "i_response i = Some r"
  | (forgotten) db1 sl db2 where "idem_enter sha now rid aid verb args db = Run db1"
      "body db1 = Inr (sl, db2)" "resp = slot_response sl" "\<forall>r. resp = Some r \<longrightarrow> \<not> is_success r"
      "get_idem rid db' = None"
proof (cases "idem_enter sha now rid aid verb args db")
  case (Run db1)
  then obtain sl db2 where b: "body db1 = Inr (sl, db2)"
    and leave: "idem_leave sha now rid aid verb args sl db2 = Inr db'" and resp: "resp = slot_response sl"
    using assms(1) by (auto simp: with_idem_def bind_res_Inr_iff)
  let ?h = "arg_hash sha verb args"
  obtain i where keys: "idem_keys db1" and i: "get_idem rid db1 = Some i"
    "same_envelope rid aid verb ?h i" "i_status i = ''INFLIGHT''"
    using idem_enter_run [OF Run assms(2)] by blast
  have same: "idempotency db2 = idempotency db1" and plain: "\<not> sl_deferred sl" "\<not> sl_terminal sl"
    and reply: "\<And>r. sl_reply sl = Some r \<Longrightarrow> sl_value sl = None \<and> \<not> is_success r"
    using assms(3) b unfolding plain_body_def by blast+
  note keys2 = keys [unfolded get_idem_cong(2) [OF same, symmetric]]
  note i2 = i(1) [unfolded get_idem_cong(1) [OF same, symmetric]]
  let ?p = "\<lambda>i. same_envelope rid aid verb ?h i \<and> i_status i = ''INFLIGHT''"
  show ?thesis
  proof (cases "\<exists>r. sl_value sl = Some r \<and> is_success r")
    case True
    then obtain r where r: "sl_value sl = Some r" "is_success r" by blast
    let ?f = "\<lambda>i. i\<lparr>i_status := ''DONE'', i_response := Some r, i_completed_at := Some now\<rparr>"
    have "db' = snd (update_exact ?p ?f db2)"
      using leave plain r by (auto simp: idem_leave_def Let_def finish_idem_exact_def
          split: if_splits prod.splits)
    moreover have "get_idem rid (snd (update_exact ?p ?f db2)) = Some (?f i)"
      by (rule update_exact_hit(2) [where p = ?p and f = ?f, OF keys2 i2])
        (use i in \<open>auto dest: same_envelope_request\<close>)
    ultimately have "get_idem rid db' = Some (?f i)" by simp
    then show ?thesis
      using cached [OF Run b] r resp i reply
      by (cases "sl_reply sl") (auto simp: same_envelope_def slot_response_def)
  next
    case False
    then have "db' = snd (clear_idem_exact rid aid verb ?h db2)"
      using leave plain by (auto simp: idem_leave_def Let_def split: option.splits if_splits)
    moreover have "\<forall>j\<in>set (idempotency db2). i_request_id j = rid \<longrightarrow> j = i"
      using keys2 i2 by (metis get_idem_iff option.inject)
    ultimately have "get_idem rid db' = None"
      using i by (auto simp: get_idem_None clear_idem_exact_def Let_def)
    moreover have "\<forall>r. resp = Some r \<longrightarrow> \<not> is_success r"
      using False resp reply by (cases "sl_reply sl") (auto simp: slot_response_def)
    ultimately show ?thesis using forgotten [OF Run b] resp by blast
  qed
next
  case (Hit r)
  have "(Some r, db) = (resp, db')"
    using assms(1) unfolding with_idem_def by (simp add: Hit)
  then show ?thesis using hit [OF Hit] by simp
next
  case (Raise e)
  have False
    using assms(1) unfolding with_idem_def by (simp add: Raise)
  then show ?thesis ..
qed

lemma hit_success:
  assumes "idem_enter sha now rid aid verb args db = Hit r" and "is_success r"
  shows "\<exists>i r0. get_idem rid db = Some i \<and> same_envelope rid aid verb (arg_hash sha verb args) i \<and>
    i_status i = ''DONE'' \<and> i_response i = Some r0 \<and> r = replayed r0"
proof -
  have "idem_prior sha now rid aid verb args db = Hit r"
    using assms by (auto simp: idem_enter_def split: option.splits if_splits)
  with assms(2) show ?thesis
    by (auto simp: idem_prior_def Let_def replayed_def split: option.splits if_splits prod.splits)
qed

lemma replay_entry:
  assumes "get_idem rid db = Some i" and "same_envelope rid aid verb (arg_hash sha verb args) i"
    and "i_status i = ''DONE''" and "i_response i = Some r" and "namespace_free rid aid verb db"
  shows "idem_enter sha now rid aid verb args db = Hit (replayed r)"
  using assms by (auto simp: idem_enter_def idem_prior_def Let_def namespace_free_def split: option.splits)


text \<open>One envelope per request id: a request that reuses the id of a row with another agent, verb
  or arguments, or the id of an orbit that is not its own claim, is answered with
  \<open>idempotency_conflict\<close>; its body does not run and nothing changes.\<close>

theorem envelope_conflict_is_inert:
  assumes "\<not> namespace_free rid aid verb db \<or>
    (\<exists>i. get_idem rid db = Some i \<and> \<not> same_envelope rid aid verb (arg_hash sha verb args) i)"
  shows "\<exists>r. with_idem sha now (Some rid) aid verb args body db = Inr (Some r, db) \<and>
    dict_get ''reason'' r = Some (JStr ''idempotency_conflict'') \<and>
    dict_get ''ok'' r = Some (JBool False)"
proof -
  have "\<exists>r. idem_enter sha now rid aid verb args db = Hit r \<and>
      dict_get ''reason'' r = Some (JStr ''idempotency_conflict'') \<and>
      dict_get ''ok'' r = Some (JBool False)"
    using assms
    by (auto simp: idem_enter_def idem_prior_def Let_def namespace_free_def ok_false_def
        orbit_conflict_response_def envelope_conflict_response_def split: option.splits)
  then show ?thesis by (auto simp: with_idem_def)
qed

text \<open>A refusal is not cached: when a body runs and its answer is no success, the id is free
  again, so that the next request with it runs its body.\<close>

theorem refusal_frees_request:
  assumes "idem_keys db" and "plain_body body"
    and "idem_enter sha now rid aid verb args db = Run db1"
    and "with_idem sha now (Some rid) aid verb args body db = Inr (Some r, db')" and "\<not> is_success r"
  shows "get_idem rid db' = None \<and>
    (namespace_free rid aid' verb' db' \<longrightarrow> (\<exists>db2. idem_enter sha now' rid aid' verb' args' db' = Run db2))"
  using assms(4,1,2)
proof (cases rule: with_idem_cases)
  case (hit r')
  with assms(3) show ?thesis by simp
next
  case (cached r' db1' sl db2 i)
  with assms(5) show ?thesis by simp
next
  case (forgotten db1' sl db2)
  then show ?thesis
    by (auto simp: idem_enter_def idem_prior_def Let_def namespace_free_def split: option.splits)
qed

text \<open>A split-phase attempt that lost its operation cannot finish the request: the row stays as
  its present owner left it.\<close>

theorem stale_attempt_is_fenced:
  assumes "\<not> owns_operation op (get_idem rid db)"
  shows "\<exists>r. complete_split_idem sha now (Some rid) aid verb args (Some op) response db = Inr (r, db) \<and>
    dict_get ''fenced_out'' r = Some (JBool True)"
  using assms by (simp add: complete_split_idem_def)

section \<open>Witnesses\<close>

definition sample_body :: "json \<Rightarrow> db \<Rightarrow> (core_error, slot \<times> db) result" where
  "sample_body r db = Inr (slot_set r, snd (next_fence db))"

lemma sample_body_plain: "plain_body (sample_body r)"
  by (auto simp: plain_body_def sample_body_def slot_set_def next_fence_def)

definition sample_ok :: json where
  "sample_ok = JDict [(''ok'', JBool True)]"

definition sample_idem :: "string \<Rightarrow> db" where
  "sample_idem st = empty_db\<lparr>idempotency := [\<lparr>i_request_id = ''r1'', i_agent_id = Some ''a'', i_verb = ''renew'',
      i_arg_hash = ''h'', i_args = Some JNull, i_status = st, i_response = Some sample_ok,
      i_created_at = 1, i_completed_at = Some 1, i_operation_id = None, i_owner_instance = None,
      i_owner_generation = None\<rparr>]\<rparr>"


lemma envelope_conflict_is_inert_witness:
  "\<exists>r. with_idem (\<lambda>_. ''h'') 9 (Some ''r1'') (Some ''b'') ''renew'' JNull (sample_body JNull)
      (sample_idem ''DONE'') = Inr (Some r, sample_idem ''DONE'') \<and>
    dict_get ''reason'' r = Some (JStr ''idempotency_conflict'') \<and>
    dict_get ''ok'' r = Some (JBool False)"
  by (rule envelope_conflict_is_inert, rule disjI2,
      rule exI [of _ "hd (idempotency (sample_idem ''DONE''))"]) code_simp

lemma refusal_frees_request_witness:
  "get_idem ''r1'' (snd (next_fence empty_db)) = None \<and>
   (\<exists>db2. idem_enter (\<lambda>_. ''h'') 9 ''r1'' (Some ''b'') ''commit'' JNull (snd (next_fence empty_db)) = Run db2)"
proof -
  have free: "namespace_free ''r1'' (Some ''b'') ''commit'' (snd (next_fence empty_db))"
    by code_simp
  have "get_idem ''r1'' (snd (next_fence empty_db)) = None \<and>
   (namespace_free ''r1'' (Some ''b'') ''commit'' (snd (next_fence empty_db)) \<longrightarrow>
     (\<exists>db2. idem_enter (\<lambda>_. ''h'') 9 ''r1'' (Some ''b'') ''commit'' JNull (snd (next_fence empty_db)) = Run db2))"
    by (rule refusal_frees_request [where db = empty_db and r = "ok_false ''no'' []" and now = 1
          and aid = "Some ''a''" and verb = "''renew''" and args = JNull
          and body = "sample_body (ok_false ''no'' [])" and sha = "\<lambda>_. ''h''"
          and ?db1.0 = "begin_idem 1 ''r1'' (Some ''a'') ''renew'' ''h'' (Some JNull) empty_db",
          OF _ sample_body_plain])
      (code_simp+)
  then show ?thesis using free by blast
qed

lemma stale_attempt_is_fenced_witness:
  "\<exists>r. complete_split_idem (\<lambda>_. ''h'') 9 (Some ''r1'') (Some ''a'') ''renew'' JNull
      (Some \<lparr>op_attempt_id = Some ''x'', op_owner_instance = None, op_owner_generation = None\<rparr>)
      sample_ok (sample_idem ''INFLIGHT'') = Inr (r, sample_idem ''INFLIGHT'') \<and>
    dict_get ''fenced_out'' r = Some (JBool True)"
  by (rule stale_attempt_is_fenced) code_simp

end
