(* ===== verification/Leader.thy ===== *)
theory Leader
  imports Idem
begin

text \<open>
  The leader lease of \<open>omd_server/core.py\<close>: which coordinator process may write a database. A process
  is a record of the attributes of \<open>Coordinator\<close> the lease reads; several processes share one
  database, each acting inside its own critical section (\<open>_cs\<close>, \<open>BEGIN IMMEDIATE\<close>), so a run is a
  sequence of whole operations of the processes, in any order and at any times.
\<close>

section \<open>Operations\<close>

definition leader_ttl_s :: rat where
  "leader_ttl_s = 30"

record coordinator =
  c_coordinator_id :: string
  c_leader_ttl :: rat
  c_enforce_single :: bool
  c_leader_epoch :: "int option"

definition leader_alive :: "lease option \<Rightarrow> rat \<Rightarrow> bool" where
  "leader_alive cur now =
     (case cur of None \<Rightarrow> False
      | Some l \<Rightarrow> now - l_last_heartbeat l \<le> (case l_ttl l of None \<Rightarrow> leader_ttl_s | Some t \<Rightarrow> t))"

definition acquire_leadership ::
  "rat \<Rightarrow> coordinator \<Rightarrow> db \<Rightarrow> (core_error, coordinator \<times> db) result" where
  "acquire_leadership now c db =
     (let cur = get_leader db in
      if cur \<noteq> None \<and> leader_alive cur now then
        Inl (CoordinatorConflict ''another live coordinator holds the leader lease'')
      else
        let prev_epoch = map_option l_epoch cur;
            new_epoch = (case cur of None \<Rightarrow> 1 | Some l \<Rightarrow> l_epoch l + 1);
            lease = \<lparr>l_coordinator_id = c_coordinator_id c, l_epoch = new_epoch, l_started_at = now,
                     l_last_heartbeat = now, l_ttl = Some (c_leader_ttl c)\<rparr>
        in (case cas_leader prev_epoch lease db of (swapped, db') \<Rightarrow>
              if swapped then Inr (c\<lparr>c_leader_epoch := Some new_epoch\<rparr>, db')
              else Inl (CoordinatorConflict ''leader lease was taken concurrently during startup'')))"

definition is_leader :: "coordinator \<Rightarrow> db \<Rightarrow> bool" where
  "is_leader c db =
     (case get_leader db of None \<Rightarrow> False
      | Some l \<Rightarrow> l_coordinator_id l = c_coordinator_id c \<and> Some (l_epoch l) = c_leader_epoch c)"

definition assert_leader :: "coordinator \<Rightarrow> db \<Rightarrow> core_error option" where
  "assert_leader c db =
     (if is_leader c db then None else Some (CoordinatorConflict ''no longer leader''))"

text \<open>\<open>_cs\<close>: a raise, of the guard or of the body, rolls the transaction back.\<close>

definition critical_section ::
  "coordinator \<Rightarrow> (db \<Rightarrow> (core_error, 'a \<times> db) result) \<Rightarrow> db \<Rightarrow> (core_error, 'a \<times> db) result" where
  "critical_section c body db =
     (if c_enforce_single c then
        (case assert_leader c db of Some e \<Rightarrow> Inl e | None \<Rightarrow> body db)
      else body db)"

definition coordinator_heartbeat :: "rat \<Rightarrow> coordinator \<Rightarrow> db \<Rightarrow> (core_error, json \<times> db) result" where
  "coordinator_heartbeat now c = critical_section c (\<lambda>db.
     case assert_leader c db of Some e \<Rightarrow> Inl e
     | None \<Rightarrow> (case get_leader db of
           None \<Rightarrow> Inl (CoordinatorConflict ''no longer leader'')
         | Some l \<Rightarrow> Inr (JDict [(''ok'', JBool True), (''coordinator_id'', JStr (c_coordinator_id c)),
               (''epoch'', opt_int (c_leader_epoch c))],
             write_leader (l\<lparr>l_last_heartbeat := now\<rparr>) db)))"

definition resign :: "coordinator \<Rightarrow> db \<Rightarrow> json \<times> coordinator \<times> db" where
  "resign c db =
     (case get_leader db of
        Some l \<Rightarrow>
          if l_coordinator_id l \<noteq> c_coordinator_id c \<or> Some (l_epoch l) \<noteq> c_leader_epoch c then
            (JDict [(''ok'', JBool True), (''noop'', JBool True)], c, db)
          else (JDict [(''ok'', JBool True), (''coordinator_id'', JStr (c_coordinator_id c))],
                c\<lparr>c_leader_epoch := None\<rparr>, write_leader (l\<lparr>l_last_heartbeat := 0\<rparr>) db)
      | None \<Rightarrow> (JDict [(''ok'', JBool True), (''noop'', JBool True)], c, db))"

section \<open>Runs of several processes\<close>

text \<open>Process \<open>i\<close> acquires when it starts (it holds no epoch then), keeps the lease alive, resigns,
  or runs the body of some verb inside its critical section; no verb body writes the lease.\<close>

inductive leader_step :: "db \<times> coordinator list \<Rightarrow> db \<times> coordinator list \<Rightarrow> bool" where
  acquire: "i < length cs \<Longrightarrow> c_leader_epoch (cs ! i) = None \<Longrightarrow>
     acquire_leadership now (cs ! i) db = Inr (c', db') \<Longrightarrow> leader_step (db, cs) (db', cs[i := c'])"
| heartbeat: "i < length cs \<Longrightarrow> coordinator_heartbeat now (cs ! i) db = Inr (r, db') \<Longrightarrow>
     leader_step (db, cs) (db', cs)"
| resign: "i < length cs \<Longrightarrow> resign (cs ! i) db = (r, c', db') \<Longrightarrow>
     leader_step (db, cs) (db', cs[i := c'])"
| verb: "i < length cs \<Longrightarrow>
     critical_section (cs ! i) (body :: db \<Rightarrow> (core_error, json \<times> db) result) db = Inr (r, db') \<Longrightarrow>
     leader_lease db' = leader_lease db \<Longrightarrow> leader_step (db, cs) (db', cs)"

inductive_cases leader_stepE: "leader_step (db, cs) w"

text \<open>No process holds an epoch beyond the lease's, and no two hold the same one.\<close>

definition leader_inv :: "db \<times> coordinator list \<Rightarrow> bool" where
  "leader_inv w \<longleftrightarrow> (case w of (db, cs) \<Rightarrow>
     (\<forall>i<length cs. \<forall>e. c_leader_epoch (cs ! i) = Some e \<longrightarrow>
        (\<exists>l. leader_lease db = Some l \<and> e \<le> l_epoch l)) \<and>
     (\<forall>i<length cs. \<forall>j<length cs. i \<noteq> j \<longrightarrow> c_leader_epoch (cs ! i) \<noteq> None \<longrightarrow>
        c_leader_epoch (cs ! i) \<noteq> c_leader_epoch (cs ! j)))"

definition lease_epoch :: "db \<Rightarrow> int" where
  "lease_epoch db = (case leader_lease db of None \<Rightarrow> 0 | Some l \<Rightarrow> l_epoch l)"

lemma acquire_Inr:
  "acquire_leadership now c db = Inr (c', db') \<longleftrightarrow>
     \<not> leader_alive (leader_lease db) now \<and>
     c' = c\<lparr>c_leader_epoch := Some (lease_epoch db + 1)\<rparr> \<and>
     db' = db\<lparr>leader_lease := Some \<lparr>l_coordinator_id = c_coordinator_id c, l_epoch = lease_epoch db + 1,
        l_started_at = now, l_last_heartbeat = now, l_ttl = Some (c_leader_ttl c)\<rparr>\<rparr>"
  by (auto simp: acquire_leadership_def Let_def cas_leader_def get_leader_def lease_epoch_def
      leader_alive_def split: option.splits)

lemma heartbeat_Inr:
  "coordinator_heartbeat now c db = Inr (r, db') \<Longrightarrow>
     \<exists>l. leader_lease db = Some l \<and> db' = db\<lparr>leader_lease := Some (l\<lparr>l_last_heartbeat := now\<rparr>)\<rparr>"
  by (auto simp: coordinator_heartbeat_def critical_section_def assert_leader_def is_leader_def
      get_leader_def write_leader_def split: option.splits if_splits)

lemma resign_eq:
  "resign c db = (r, c', db') \<Longrightarrow> (c' = c \<and> db' = db) \<or>
     (\<exists>l. leader_lease db = Some l \<and> c' = c\<lparr>c_leader_epoch := None\<rparr> \<and>
        db' = db\<lparr>leader_lease := Some (l\<lparr>l_last_heartbeat := 0\<rparr>)\<rparr>)"
  by (auto simp: resign_def get_leader_def write_leader_def split: option.splits if_splits)

lemma leader_inv_bound:
  "leader_inv (db, cs) \<Longrightarrow> i < length cs \<Longrightarrow> c_leader_epoch (cs ! i) = Some e \<Longrightarrow>
     \<exists>l. leader_lease db = Some l \<and> e \<le> l_epoch l"
  unfolding leader_inv_def by blast

lemma leader_inv_apart:
  "leader_inv (db, cs) \<Longrightarrow> i < length cs \<Longrightarrow> j < length cs \<Longrightarrow> i \<noteq> j \<Longrightarrow>
     c_leader_epoch (cs ! i) \<noteq> None \<Longrightarrow> c_leader_epoch (cs ! i) \<noteq> c_leader_epoch (cs ! j)"
  unfolding leader_inv_def by blast

lemma leader_inv_acquire:
  assumes "leader_inv (db, cs)" and "i < length cs" and "acquire_leadership now (cs ! i) db = Inr (c', db')"
  shows "leader_inv (db', cs[i := c'])"
proof -
  have old: "e < lease_epoch db + 1" if "j < length cs" "c_leader_epoch (cs ! j) = Some e" for j e
  proof -
    from leader_inv_bound [OF assms(1) that]
    obtain l where "leader_lease db = Some l" "e \<le> l_epoch l" by blast
    then show ?thesis by (simp add: lease_epoch_def)
  qed
  have c': "c_leader_epoch c' = Some (lease_epoch db + 1)"
    and db': "\<exists>l. leader_lease db' = Some l \<and> l_epoch l = lease_epoch db + 1"
    using assms(3) by (auto simp: acquire_Inr)
  have bound: "\<exists>l. leader_lease db' = Some l \<and> e \<le> l_epoch l"
    if "j < length cs" "c_leader_epoch (cs[i := c'] ! j) = Some e" for j e
    using db' old [of j e] that c' by (cases "j = i") (auto simp: nth_list_update)
  have apart: "c_leader_epoch (cs[i := c'] ! j) \<noteq> c_leader_epoch (cs[i := c'] ! k)"
    if "j < length cs" "k < length cs" "j \<noteq> k" "c_leader_epoch (cs[i := c'] ! j) \<noteq> None" for j k
  proof -
    consider "j = i" | "k = i" | "j \<noteq> i" "k \<noteq> i" by blast
    then show ?thesis
    proof cases
      case 3
      then show ?thesis using leader_inv_apart [OF assms(1)] that by simp
    qed (use that old [of j "lease_epoch db + 1"] old [of k "lease_epoch db + 1"] c' assms(2) in auto)
  qed
  show ?thesis using bound apart by (simp add: leader_inv_def)
qed

lemma leader_inv_step:
  assumes "leader_step w w'" and "leader_inv w"
  shows "leader_inv w'"
  using assms
proof (cases rule: leader_step.cases)
  case (acquire i cs now db c' db')
  then show ?thesis using leader_inv_acquire assms(2) by blast
next
  case (heartbeat i cs now db r db')
  from heartbeat_Inr [OF heartbeat(4)] show ?thesis
    using heartbeat(1,2) assms(2) by (auto simp: leader_inv_def)
next
  case (resign i cs db r c' db')
  from resign_eq [OF resign(4)] show ?thesis
    using resign(1-3) assms(2) by (fastforce simp: leader_inv_def nth_list_update)
next
  case (verb i cs body db r db')
  then show ?thesis using assms(2) by (simp add: leader_inv_def)
qed

lemma leader_inv_reachable:
  "leader_step\<^sup>*\<^sup>* w w' \<Longrightarrow> leader_inv w \<Longrightarrow> leader_inv w'"
  by (induction rule: rtranclp_induct) (auto intro: leader_inv_step)

lemma lease_epoch_step: "leader_step w w' \<Longrightarrow> lease_epoch (fst w) \<le> lease_epoch (fst w')"
  by (cases rule: leader_step.cases)
    (auto simp: lease_epoch_def acquire_Inr dest!: heartbeat_Inr resign_eq split: option.splits)

lemma epoch_kept_step:
  "leader_step w w' \<Longrightarrow> c_leader_epoch (snd w ! i) = Some e \<Longrightarrow>
     c_leader_epoch (snd w' ! i) \<in> {Some e, None}"
  by (cases rule: leader_step.cases) (auto simp: nth_list_update dest!: resign_eq split: if_splits)

section \<open>Properties\<close>

definition fresh_start :: "db \<times> coordinator list \<Rightarrow> bool" where
  "fresh_start w \<longleftrightarrow> (\<forall>c\<in>set (snd w). c_leader_epoch c = None)"

lemma fresh_inv: "fresh_start w \<Longrightarrow> leader_inv w"
  by (auto simp: fresh_start_def leader_inv_def split: prod.splits)

text \<open>C23. Single writer: however many processes start, crash, pause, resign and take over on one
  database, at no reachable moment do two of them pass the leader check, even when they use the
  same coordinator id.\<close>

theorem at_most_one_leader:
  assumes "fresh_start w" and "leader_step\<^sup>*\<^sup>* w (db, cs)"
    and "i < length cs" and "j < length cs" and "is_leader (cs ! i) db" and "is_leader (cs ! j) db"
  shows "i = j"
proof (rule ccontr)
  assume "i \<noteq> j"
  moreover have "leader_inv (db, cs)"
    using assms(1,2) by (auto intro: leader_inv_reachable fresh_inv)
  ultimately have "c_leader_epoch (cs ! i) \<noteq> None \<longrightarrow> c_leader_epoch (cs ! i) \<noteq> c_leader_epoch (cs ! j)"
    using assms(3,4) leader_inv_apart by blast
  then show False
    using assms(5,6) by (auto simp: is_leader_def split: option.splits)
qed

lemma overtaken_step:
  assumes "leader_step w w'" and "i < length (snd w)"
    and "\<forall>e. c_leader_epoch (snd w ! i) = Some e \<longrightarrow> e < lease_epoch (fst w)"
    and "c_leader_epoch (snd w ! i) \<noteq> None"
  shows "c_leader_epoch (snd w' ! i) = c_leader_epoch (snd w ! i)"
  using assms
  by (cases rule: leader_step.cases)
    (auto simp: nth_list_update resign_def get_leader_def lease_epoch_def
      split: option.splits if_splits)

text \<open>C24. Takeover fences for good: when another process takes the lease from one that still believes
  to lead, the old one's critical sections raise \<open>CoordinatorConflict\<close> from then on, at whatever
  later time it wakes up, so none of its bodies runs.\<close>

theorem old_leader_is_fenced:
  assumes "fresh_start w" and "leader_step\<^sup>*\<^sup>* w (db, cs)"
    and "i < length cs" and "c_leader_epoch (cs ! i) \<noteq> None" and "c_enforce_single (cs ! i)"
    and "j < length cs" and "j \<noteq> i" and "acquire_leadership now (cs ! j) db = Inr (c', db')"
    and "leader_step\<^sup>*\<^sup>* (db', cs[j := c']) (db2, cs2)"
  shows "\<exists>e. critical_section (cs2 ! i) body db2 = Inl e"
proof -
  have inv: "leader_inv (db, cs)"
    using assms(1,2) by (auto intro: leader_inv_reachable fresh_inv)
  obtain e where e: "c_leader_epoch (cs ! i) = Some e" using assms(4) by blast
  have "e < lease_epoch db'"
    using leader_inv_bound [OF inv assms(3) e] assms(8) by (auto simp: acquire_Inr lease_epoch_def)
  then have start: "c_leader_epoch (cs[j := c'] ! i) = Some e \<and> e < lease_epoch db' \<and>
      c_enforce_single (cs[j := c'] ! i) \<and> i < length (cs[j := c'])"
    using e assms(3,5,7) by simp
  have step: "c_leader_epoch (snd w2 ! i) = Some e \<and> e < lease_epoch (fst w2) \<and>
      c_enforce_single (snd w2 ! i) \<and> i < length (snd w2)"
    if "leader_step w1 w2" "c_leader_epoch (snd w1 ! i) = Some e \<and> e < lease_epoch (fst w1) \<and>
      c_enforce_single (snd w1 ! i) \<and> i < length (snd w1)" for w1 w2
  proof -
    have "c_leader_epoch (snd w2 ! i) = Some e"
      using overtaken_step [OF that(1)] that(2) by simp
    moreover have "e < lease_epoch (fst w2)"
      using lease_epoch_step [OF that(1)] that(2) by simp
    moreover have "c_enforce_single (snd w2 ! i) \<and> i < length (snd w2)"
      using that by (cases rule: leader_step.cases)
        (auto simp: nth_list_update acquire_Inr dest!: resign_eq)
    ultimately show ?thesis by simp
  qed
  have "c_leader_epoch (snd w2 ! i) = Some e \<and> e < lease_epoch (fst w2) \<and>
      c_enforce_single (snd w2 ! i) \<and> i < length (snd w2)"
    if "leader_step\<^sup>*\<^sup>* (db', cs[j := c']) w2" for w2
    using that by (induction rule: rtranclp_induct) (use start step in auto)
  from this [OF assms(9)] have "c_leader_epoch (cs2 ! i) = Some e" "e < lease_epoch db2"
    "c_enforce_single (cs2 ! i)" by simp_all
  then have "\<not> is_leader (cs2 ! i) db2"
    by (auto simp: is_leader_def get_leader_def lease_epoch_def split: option.splits)
  with \<open>c_enforce_single (cs2 ! i)\<close> show ?thesis
    by (auto simp: critical_section_def assert_leader_def)
qed

text \<open>A live lease is never taken: leadership is granted exactly when there is no lease or its
  holder has been silent for longer than the lease's own ttl; the epoch then grows by one.\<close>

theorem takeover_needs_silence:
  "((\<exists>c' db'. acquire_leadership now c db = Inr (c', db')) \<longleftrightarrow>
     (case leader_lease db of None \<Rightarrow> True
      | Some l \<Rightarrow> now > l_last_heartbeat l + (case l_ttl l of None \<Rightarrow> leader_ttl_s | Some t \<Rightarrow> t))) \<and>
   (\<forall>c' db'. acquire_leadership now c db = Inr (c', db') \<longrightarrow>
      lease_epoch db' = lease_epoch db + 1 \<and> is_leader c' db')"
  by (auto simp: acquire_Inr leader_alive_def lease_epoch_def is_leader_def get_leader_def
      split: option.splits)

definition sample_process :: "rat \<Rightarrow> int option \<Rightarrow> coordinator" where
  "sample_process ttl e = \<lparr>c_coordinator_id = ''coord'', c_leader_ttl = ttl, c_enforce_single = True,
     c_leader_epoch = e\<rparr>"

definition sample_lease :: "int \<Rightarrow> rat \<Rightarrow> db" where
  "sample_lease e t = empty_db\<lparr>leader_lease := Some \<lparr>l_coordinator_id = ''coord'', l_epoch = e,
     l_started_at = t, l_last_heartbeat = t, l_ttl = Some 30\<rparr>\<rparr>"

lemma sample_start: "fresh_start (empty_db, [sample_process 30 None, sample_process 30 None])"
  by (simp add: fresh_start_def sample_process_def)

lemma sample_first:
  "leader_step\<^sup>*\<^sup>* (empty_db, [sample_process 30 None, sample_process 30 None])
     (sample_lease 1 10, [sample_process 30 (Some 1), sample_process 30 None])"
proof -
  have "leader_step (empty_db, [sample_process 30 None, sample_process 30 None])
     (sample_lease 1 10, [sample_process 30 None, sample_process 30 None]
        [0 := sample_process 30 (Some 1)])"
    by (rule leader_step.acquire [where now = 10])
      (simp_all add: acquire_Inr leader_alive_def lease_epoch_def sample_process_def sample_lease_def
        empty_db_def)
  then show ?thesis by simp
qed

lemma at_most_one_leader_witness:
  "is_leader (sample_process 30 (Some 1)) (sample_lease 1 10) \<and> (0 :: nat) = 0"
  using at_most_one_leader [OF sample_start sample_first, of 0 0]
  by (simp add: is_leader_def get_leader_def sample_lease_def sample_process_def)

lemma old_leader_is_fenced_witness:
  "\<exists>e. critical_section (sample_process 30 (Some 1)) (\<lambda>db. Inr (JNull, db)) (sample_lease 2 50) = Inl e"
proof -
  have "\<exists>e. critical_section ([sample_process 30 (Some 1), sample_process 30 (Some 2)] ! 0)
      (\<lambda>db. Inr (JNull, db)) (sample_lease 2 50) = Inl e"
    by (rule old_leader_is_fenced [OF sample_start sample_first, where j = 1 and now = 50
          and c' = "sample_process 30 (Some 2)" and db' = "sample_lease 2 50"])
      (simp_all add: acquire_Inr leader_alive_def lease_epoch_def sample_process_def sample_lease_def)
  then show ?thesis by simp
qed

lemma takeover_needs_silence_witness:
  "lease_epoch (sample_lease 2 50) = lease_epoch (sample_lease 1 10) + 1 \<and>
   is_leader (sample_process 30 (Some 2)) (sample_lease 2 50)"
  by (rule takeover_needs_silence [of 50 "sample_process 30 None" "sample_lease 1 10",
        THEN conjunct2, rule_format])
    (simp add: acquire_Inr leader_alive_def lease_epoch_def sample_process_def sample_lease_def)

end
