(* ===== verification/Fsm.thy ===== *)
theory Fsm
  imports Prelude "HOL-Library.Sublist"
begin

text \<open>
  The lifecycle tables of \<open>omd_server/fsm.py\<close> and its single operation \<open>advance\<close>. The tables are
  the source's; the machine that walks them is the third-party package \<open>transitions\<close>, so it is the
  parameter \<open>fire\<close>: \<open>fire states transitions state trigger\<close> builds \<open>Machine(...)\<close> in the given
  initial state, calls the trigger, and gives the new state or the raised error. What the code
  relies on is the documented dispatch rule, the locale \<open>transition_machine\<close>: a trigger takes the
  first transition of that name whose sources contain the state, and raises without one
  (\<open>auto_transitions=False\<close>, \<open>ignore_invalid_triggers=False\<close>).
\<close>

section \<open>The tables\<close>

type_synonym transition = "string \<times> string list \<times> string"

datatype fsm_error = MachineError string | TriggerAttributeError string | StateValueError string

type_synonym machine =
  "string list \<Rightarrow> transition list \<Rightarrow> string \<Rightarrow> string \<Rightarrow> (fsm_error, string) result"

definition orbit_states :: "string list" where
  "orbit_states = [''PENDING'', ''HELD'', ''RELEASED'', ''EXPIRED'', ''DENIED'']"

definition orbit_transitions :: "transition list" where
  "orbit_transitions =
    [(''hold'', [''PENDING''], ''HELD''),
     (''grant'', [''PENDING''], ''HELD''),
     (''renew'', [''HELD''], ''HELD''),
     (''release'', [''HELD''], ''RELEASED''),
     (''expire'', [''HELD''], ''EXPIRED''),
     (''deny'', [''PENDING''], ''DENIED'')]"

definition task_states :: "string list" where
  "task_states = [''PENDING'', ''BLOCKED'', ''READY'', ''CLAIMED'', ''IN_ORBIT'',
     ''DONE'', ''CONNECTING'', ''MERGED'', ''ABORTED'', ''POISONED'']"

definition task_transitions :: "transition list" where
  "task_transitions =
    [(''block'', [''PENDING''], ''BLOCKED''),
     (''ready'', [''PENDING'', ''BLOCKED''], ''READY''),
     (''claim'', [''READY''], ''CLAIMED''),
     (''start'', [''CLAIMED''], ''IN_ORBIT''),
     (''finish'', [''IN_ORBIT''], ''DONE''),
     (''connect'', [''DONE''], ''CONNECTING''),
     (''merged'', [''CONNECTING''], ''MERGED''),
     (''rollback'', [''CONNECTING''], ''DONE''),
     (''abort'', [''PENDING'', ''BLOCKED'', ''READY'', ''CLAIMED'', ''IN_ORBIT'',
        ''DONE'', ''CONNECTING'', ''MERGED'', ''ABORTED''], ''ABORTED''),
     (''requeue'', [''ABORTED''], ''PENDING''),
     (''poison'', [''ABORTED''], ''POISONED'')]"

definition barrier_states :: "string list" where
  "barrier_states = [''ARMED'', ''TRIPPING'', ''TRIPPED'', ''CONSUMED'', ''BROKEN'']"

definition barrier_transitions :: "transition list" where
  "barrier_transitions =
    [(''fill'', [''ARMED''], ''TRIPPING''),
     (''trip'', [''TRIPPING''], ''TRIPPED''),
     (''consume'', [''TRIPPED''], ''CONSUMED''),
     (''break_'', [''ARMED'', ''TRIPPING''], ''BROKEN'')]"

definition fsm_spec :: "string \<Rightarrow> string list \<times> transition list" where
  "fsm_spec kind =
     (if kind = ''orbit'' then (orbit_states, orbit_transitions)
      else if kind = ''barrier'' then (barrier_states, barrier_transitions)
      else (task_states, task_transitions))"

definition advance :: "machine \<Rightarrow> string \<Rightarrow> string \<Rightarrow> string \<Rightarrow> (fsm_error, string) result" where
  "advance fire kind state trigger =
     (let (states, trans) = fsm_spec kind in fire states trans state trigger)"

section \<open>The machine the code relies on\<close>

definition first_match :: "transition list \<Rightarrow> string \<Rightarrow> string \<Rightarrow> string option" where
  "first_match ts state trigger =
     map_option (\<lambda>(_, _, dest). dest)
       (List.find (\<lambda>(name, sources, _). name = trigger \<and> state \<in> set sources) ts)"

locale transition_machine =
  fixes fire :: machine
  assumes fires: "state \<in> set states \<Longrightarrow> first_match ts state trigger = Some dest \<Longrightarrow>
      fire states ts state trigger = Inr dest"
    and refuses: "state \<notin> set states \<or> first_match ts state trigger = None \<Longrightarrow>
      \<exists>e. fire states ts state trigger = Inl e"
begin

lemma fire_Inr_iff:
  "fire states ts state trigger = Inr dest \<longleftrightarrow>
     state \<in> set states \<and> first_match ts state trigger = Some dest"
proof
  assume "fire states ts state trigger = Inr dest"
  moreover from this have "\<not> (state \<notin> set states \<or> first_match ts state trigger = None)"
    by (metis refuses sum.distinct(1))
  ultimately show "state \<in> set states \<and> first_match ts state trigger = Some dest"
    using fires [of state states ts trigger] by auto
qed (simp add: fires)

lemma advance_Inr_iff:
  "advance fire kind state trigger = Inr dest \<longleftrightarrow>
     state \<in> set (fst (fsm_spec kind)) \<and>
     first_match (snd (fsm_spec kind)) state trigger = Some dest"
  by (simp add: advance_def fire_Inr_iff split: prod.split)

end

text \<open>A machine with that dispatch rule: the interpretation shows that the documented behaviour is
  consistent, and the witnesses run the tables on it.\<close>

definition first_transition :: machine where
  "first_transition states ts state trigger =
     (if state \<notin> set states then Inl (StateValueError state)
      else if trigger \<notin> set (map fst ts) then Inl (TriggerAttributeError trigger)
      else case first_match ts state trigger of
        None \<Rightarrow> Inl (MachineError trigger)
      | Some dest \<Rightarrow> Inr dest)"

lemma first_match_name: "first_match ts s trig = Some d \<Longrightarrow> trig \<in> set (map fst ts)"
  by (induction ts) (auto simp: first_match_def split: if_splits)

interpretation first_machine: transition_machine first_transition
  by unfold_locales (auto simp: first_transition_def dest: first_match_name)

section \<open>Runs\<close>

text \<open>One lifecycle step: some trigger of the kind's table leads from the one state to the other.\<close>

definition fsm_step :: "machine \<Rightarrow> string \<Rightarrow> string \<Rightarrow> string \<Rightarrow> bool" where
  "fsm_step fire kind a b \<longleftrightarrow>
     list_ex (\<lambda>(trigger, _). advance fire kind a trigger = Inr b) (snd (fsm_spec kind))"

fun fsm_run :: "machine \<Rightarrow> string \<Rightarrow> string list \<Rightarrow> bool" where
  "fsm_run fire kind (a # b # rest) \<longleftrightarrow> fsm_step fire kind a b \<and> fsm_run fire kind (b # rest)"
| "fsm_run fire kind _ \<longleftrightarrow> True"

text \<open>The states a table leads to from a state, computed from the table alone.\<close>

definition successors :: "string \<Rightarrow> string \<Rightarrow> string list" where
  "successors kind a =
     (if a \<in> set (fst (fsm_spec kind))
      then remdups (List.map_filter (\<lambda>(trigger, _). first_match (snd (fsm_spec kind)) a trigger)
        (snd (fsm_spec kind)))
      else [])"

lemma fsm_step_iff:
  assumes "transition_machine fire"
  shows "fsm_step fire kind a b \<longleftrightarrow> b \<in> set (successors kind a)"
  by (auto simp: fsm_step_def successors_def list_ex_iff map_filter_def Bex_def image_iff
      transition_machine.advance_Inr_iff [OF assms] split: prod.splits) force+

lemma successors_foreign: "a \<notin> set (fst (fsm_spec kind)) \<Longrightarrow> successors kind a = []"
  by (simp add: successors_def)

lemmas table_defs = fsm_spec_def orbit_states_def orbit_transitions_def task_states_def
  task_transitions_def barrier_states_def barrier_transitions_def

lemma task_successors:
  "successors ''task'' ''PENDING'' = [''BLOCKED'', ''READY'', ''ABORTED'']"
  "successors ''task'' ''BLOCKED'' = [''READY'', ''ABORTED'']"
  "successors ''task'' ''READY'' = [''CLAIMED'', ''ABORTED'']"
  "successors ''task'' ''CLAIMED'' = [''IN_ORBIT'', ''ABORTED'']"
  "successors ''task'' ''IN_ORBIT'' = [''DONE'', ''ABORTED'']"
  "successors ''task'' ''DONE'' = [''CONNECTING'', ''ABORTED'']"
  "successors ''task'' ''CONNECTING'' = [''MERGED'', ''DONE'', ''ABORTED'']"
  "successors ''task'' ''MERGED'' = [''ABORTED'']"
  "successors ''task'' ''ABORTED'' = [''ABORTED'', ''PENDING'', ''POISONED'']"
  "successors ''task'' ''POISONED'' = []"
  by code_simp+

lemma orbit_successors:
  "successors ''orbit'' ''PENDING'' = [''HELD'', ''DENIED'']"
  "successors ''orbit'' ''HELD'' = [''HELD'', ''RELEASED'', ''EXPIRED'']"
  "successors ''orbit'' ''RELEASED'' = []"
  "successors ''orbit'' ''EXPIRED'' = []"
  "successors ''orbit'' ''DENIED'' = []"
  by code_simp+

lemma barrier_successors:
  "successors ''barrier'' ''ARMED'' = [''TRIPPING'', ''BROKEN'']"
  "successors ''barrier'' ''TRIPPING'' = [''TRIPPED'', ''BROKEN'']"
  "successors ''barrier'' ''TRIPPED'' = [''CONSUMED'']"
  "successors ''barrier'' ''CONSUMED'' = []"
  "successors ''barrier'' ''BROKEN'' = []"
  by code_simp+

section \<open>Properties\<close>

text \<open>What a task must have been through to be in a state, when it was declared PENDING.\<close>

definition task_history :: "string \<Rightarrow> string list" where
  "task_history s =
     (let path = [''PENDING'', ''READY'', ''CLAIMED'', ''IN_ORBIT'', ''DONE'', ''CONNECTING'', ''MERGED'']
      in if s \<in> set path then takeWhile (\<lambda>x. x \<noteq> s) path @ [s] else [''PENDING''])"

lemma task_history_steps:
  "list_all (\<lambda>a. list_all (\<lambda>b. subseq (task_history b) (task_history a @ [b]) \<or>
     subseq (task_history b) (task_history a)) (successors ''task'' a)) task_states"
  by code_simp

lemma task_history_step:
  "b \<in> set (successors ''task'' a) \<Longrightarrow>
     subseq (task_history b) (task_history a @ [b]) \<or> subseq (task_history b) (task_history a)"
  using task_history_steps
  by (cases "a \<in> set task_states") (auto simp: list_all_iff successors_def fsm_spec_def)

lemma fsm_run_snoc:
  "fsm_run fire kind (xs @ [a, b]) \<longleftrightarrow> fsm_run fire kind (xs @ [a]) \<and> fsm_step fire kind a b"
proof (induction xs)
  case (Cons x xs)
  then show ?case by (cases xs) auto
qed simp

lemma task_run_history:
  assumes "transition_machine fire"
  shows "fsm_run fire ''task'' (xs @ [s]) \<Longrightarrow> hd (xs @ [s]) = ''PENDING'' \<Longrightarrow>
    subseq (task_history s) (xs @ [s])"
proof (induction xs arbitrary: s rule: rev_induct)
  case Nil
  then show ?case by (simp add: task_history_def)
next
  case (snoc a xs)
  then have run: "fsm_run fire ''task'' (xs @ [a])" "s \<in> set (successors ''task'' a)"
    by (simp_all add: fsm_run_snoc fsm_step_iff [OF assms])
  moreover have "hd (xs @ [a]) = ''PENDING''"
    using snoc.prems(2) by (cases xs) auto
  ultimately have h: "subseq (task_history a) (xs @ [a])"
    using snoc.IH by blast
  from task_history_step [OF run(2)] show ?case
  proof
    assume "subseq (task_history s) (task_history a @ [s])"
    moreover have "subseq (task_history a @ [s]) ((xs @ [a]) @ [s])"
      using h by (intro list_emb_append_mono) auto
    ultimately show ?thesis by (rule subseq_order.trans)
  next
    assume "subseq (task_history s) (task_history a)"
    with h have "subseq (task_history s) (xs @ [a])" by (rule subseq_order.trans [rotated])
    then have "subseq (task_history s @ []) ((xs @ [a]) @ [s])"
      by (intro list_emb_append_mono list_emb_Nil)
    then show ?thesis by simp
  qed
qed

text \<open>No shortcut to MERGED: every legal run of a task from PENDING to MERGED went through READY,
  CLAIMED, IN_ORBIT, DONE and CONNECTING in this order, however often it was aborted, requeued or
  rolled back on the way.\<close>

theorem merged_only_after_connect:
  assumes "transition_machine fire"
    and "fsm_run fire ''task'' (''PENDING'' # states @ [''MERGED''])"
  shows "subseq [''PENDING'', ''READY'', ''CLAIMED'', ''IN_ORBIT'', ''DONE'', ''CONNECTING'', ''MERGED'']
    (''PENDING'' # states @ [''MERGED''])"
  using task_run_history [OF assms(1), of "''PENDING'' # states" "''MERGED''"] assms(2)
  by (simp add: task_history_def)

lemma merged_only_after_connect_witness:
  "subseq [''PENDING'', ''READY'', ''CLAIMED'', ''IN_ORBIT'', ''DONE'', ''CONNECTING'', ''MERGED'']
    (''PENDING'' # [''READY'', ''ABORTED'', ''PENDING'', ''READY'', ''CLAIMED'', ''IN_ORBIT'', ''DONE'',
      ''CONNECTING'', ''DONE'', ''CONNECTING''] @ [''MERGED''])"
  by (rule merged_only_after_connect [OF first_machine.transition_machine_axioms]) code_simp

text \<open>Terminal states: no trigger leads out of a POISONED task, of a RELEASED, EXPIRED or DENIED
  orbit, of a CONSUMED or BROKEN barrier. A TRIPPED barrier can only be consumed: no trigger breaks
  it, although the table's comment reads "any non-terminal to BROKEN".\<close>

theorem terminal_states_absorb:
  assumes "transition_machine fire"
  shows "\<not> fsm_step fire ''task'' ''POISONED'' s \<and> \<not> fsm_step fire ''orbit'' ''RELEASED'' s \<and>
    \<not> fsm_step fire ''orbit'' ''EXPIRED'' s \<and> \<not> fsm_step fire ''orbit'' ''DENIED'' s \<and>
    \<not> fsm_step fire ''barrier'' ''CONSUMED'' s \<and> \<not> fsm_step fire ''barrier'' ''BROKEN'' s \<and>
    (fsm_step fire ''barrier'' ''TRIPPED'' s \<longleftrightarrow> s = ''CONSUMED'')"
  by (auto simp: fsm_step_iff [OF assms] task_successors orbit_successors barrier_successors)

lemma terminal_states_absorb_witness:
  "\<not> fsm_step first_transition ''task'' ''POISONED'' ''PENDING'' \<and>
   fsm_step first_transition ''barrier'' ''TRIPPED'' ''CONSUMED''"
  using terminal_states_absorb [OF first_machine.transition_machine_axioms] by simp

end
