(* ===== verification/Config.thy ===== *)
theory Config
  imports Leader Fsm
begin

text \<open>
  What a \<open>Coordinator\<close> of \<open>omd_server/core.py\<close> is configured with, as far as the verbs read it, and
  the calls of \<open>fsm.advance\<close> as the verbs make them. \<open>g_sha\<close> is the digest, \<open>g_fire\<close> the machine of
  the package \<open>transitions\<close>; the other fields are attributes the constructor sets.
\<close>

record config =
  g_sha :: "json \<Rightarrow> string"
  g_fire :: machine
  g_policy :: queue_policy
  g_repository_id :: string
  g_coordinator_id :: string
  g_service :: string
  g_instance_id :: string
  g_leader_epoch :: "int option"
  g_agent_ttl :: "rat option"
  g_max_reclaims :: int
  g_wait_timeout :: rat
  g_queue_capacity :: int
  g_idem_ttl :: "rat option"
  g_terminal_retention :: "rat option"
  g_merge_resource :: string
  g_merge_timeout :: rat
  g_check_budget :: rat
  g_repo_bound :: bool
  g_strict_writeset :: bool

text \<open>\<open>self.agent_ttl or 90.0\<close>.\<close>

definition agent_ttl_or_default :: "config \<Rightarrow> rat" where
  "agent_ttl_or_default g = (case g_agent_ttl g of None \<Rightarrow> 90 | Some t \<Rightarrow> if t = 0 then 90 else t)"

definition ttl_or_default :: "config \<Rightarrow> rat option \<Rightarrow> rat" where
  "ttl_or_default g ttl = (case ttl of None \<Rightarrow> agent_ttl_or_default g | Some t \<Rightarrow> t)"

fun core_fsm_error :: "fsm_error \<Rightarrow> core_error" where
  "core_fsm_error (MachineError s) = FsmError s"
| "core_fsm_error (TriggerAttributeError s) = FsmError s"
| "core_fsm_error (StateValueError s) = FsmError s"

definition step_state :: "config \<Rightarrow> string \<Rightarrow> string \<Rightarrow> string \<Rightarrow> (core_error, string) result" where
  "step_state g kind st trigger =
     (case advance (g_fire g) kind st trigger of Inl e \<Rightarrow> Inl (core_fsm_error e) | Inr s \<Rightarrow> Inr s)"

definition lawful :: "config \<Rightarrow> bool" where
  "lawful g \<longleftrightarrow> transition_machine (g_fire g)"

lemma step_state_Inr:
  "lawful g \<Longrightarrow> step_state g kind st trigger = Inr s \<longleftrightarrow>
     st \<in> set (fst (fsm_spec kind)) \<and> first_match (snd (fsm_spec kind)) st trigger = Some s"
  using transition_machine.advance_Inr_iff [of "g_fire g" kind st trigger s]
  by (cases "advance (g_fire g) kind st trigger") (simp_all add: step_state_def lawful_def)

named_theorems transition_results \<open>the transitions the verbs make\<close>

lemma orbit_transition_results [transition_results]:
  assumes "lawful g"
  shows "step_state g ''orbit'' ''PENDING'' ''grant'' = Inr ''HELD''"
    "step_state g ''orbit'' ''PENDING'' ''deny'' = Inr ''DENIED''"
    "step_state g ''orbit'' ''HELD'' ''renew'' = Inr ''HELD''"
    "step_state g ''orbit'' ''HELD'' ''release'' = Inr ''RELEASED''"
    "step_state g ''orbit'' ''HELD'' ''expire'' = Inr ''EXPIRED''"
  by (simp_all add: step_state_Inr [OF assms] table_defs first_match_def)

lemma barrier_transition_results [transition_results]:
  assumes "lawful g"
  shows "step_state g ''barrier'' ''ARMED'' ''fill'' = Inr ''TRIPPING''"
    "step_state g ''barrier'' ''TRIPPING'' ''trip'' = Inr ''TRIPPED''"
    "step_state g ''barrier'' ''TRIPPED'' ''consume'' = Inr ''CONSUMED''"
    "step_state g ''barrier'' ''ARMED'' ''break_'' = Inr ''BROKEN''"
    "step_state g ''barrier'' ''TRIPPING'' ''break_'' = Inr ''BROKEN''"
  by (simp_all add: step_state_Inr [OF assms] table_defs first_match_def)

lemma task_transition_results [transition_results]:
  assumes "lawful g"
  shows "step_state g ''task'' ''PENDING'' ''ready'' = Inr ''READY''"
    "step_state g ''task'' ''READY'' ''claim'' = Inr ''CLAIMED''"
    "step_state g ''task'' ''CLAIMED'' ''start'' = Inr ''IN_ORBIT''"
    "step_state g ''task'' ''IN_ORBIT'' ''finish'' = Inr ''DONE''"
    "step_state g ''task'' ''DONE'' ''connect'' = Inr ''CONNECTING''"
    "step_state g ''task'' ''CONNECTING'' ''merged'' = Inr ''MERGED''"
    "step_state g ''task'' ''CONNECTING'' ''rollback'' = Inr ''DONE''"
    "step_state g ''task'' ''ABORTED'' ''poison'' = Inr ''POISONED''"
    "step_state g ''task'' ''ABORTED'' ''requeue'' = Inr ''PENDING''"
  by (simp_all add: step_state_Inr [OF assms] table_defs first_match_def)

definition sample_config :: config where
  "sample_config = \<lparr>g_sha = (\<lambda>_. ''h''), g_fire = first_transition, g_policy = default_policy,
     g_repository_id = ''repo'', g_coordinator_id = ''coord'', g_service = ''omd'', g_instance_id = ''inst'',
     g_leader_epoch = Some 1, g_agent_ttl = Some 90, g_max_reclaims = 3, g_wait_timeout = 3600,
     g_queue_capacity = 1024, g_idem_ttl = Some 3600, g_terminal_retention = None,
     g_merge_resource = ''repo'', g_merge_timeout = 60, g_check_budget = 0, g_repo_bound = True,
     g_strict_writeset = False\<rparr>"

lemma sample_config_lawful: "lawful sample_config"
  by (simp add: lawful_def sample_config_def first_machine.transition_machine_axioms)

end
