(* ===== verification/TaskState.thy ===== *)
theory TaskState
  imports Config
begin

text \<open>
  The observed conditions of a task, \<open>omd_server/task_state.py\<close>: dependencies, held write orbits and
  the owner's heartbeat, joined from the store, and the phase summary folded from them. The state
  column stays authoritative; nothing here writes.
\<close>

section \<open>Conditions\<close>

definition task_terminal :: "string list" where
  "task_terminal = [''MERGED'', ''ABORTED'', ''POISONED'']"

definition deps_satisfied :: "task \<Rightarrow> db \<Rightarrow> bool" where
  "deps_satisfied t db \<longleftrightarrow>
     list_all (\<lambda>d. case get_task d db of None \<Rightarrow> False | Some dep \<Rightarrow> t_state dep = ''MERGED'') (t_deps t)"

definition task_held :: "task \<Rightarrow> db \<Rightarrow> bool" where
  "task_held t db \<longleftrightarrow>
     list_ex (\<lambda>o'. List.member write_modes (mode o') \<and> o_state o' = ''HELD'') (orbits_for_task (t_task_id t) db)"

definition heartbeat_fresh :: "task \<Rightarrow> db \<Rightarrow> rat \<Rightarrow> rat option \<Rightarrow> bool option" where
  "heartbeat_fresh t db now agent_ttl =
     (case t_agent_id t of
        None \<Rightarrow> None
      | Some aid \<Rightarrow>
          if aid = '''' then None
          else (case get_agent aid db of
              None \<Rightarrow> None
            | Some a \<Rightarrow>
                (case (case a_liveness_ttl a of None \<Rightarrow> agent_ttl | Some ttl \<Rightarrow> Some ttl) of
                   None \<Rightarrow> None
                 | Some ttl \<Rightarrow> Some (now - a_last_heartbeat a \<le> ttl))))"

record conditions =
  cd_deps_satisfied :: bool
  cd_held :: bool
  cd_heartbeat_fresh :: "bool option"
  cd_merge_ready :: bool

definition task_conditions :: "task \<Rightarrow> db \<Rightarrow> rat \<Rightarrow> rat option \<Rightarrow> conditions" where
  "task_conditions t db now agent_ttl =
     (let d = deps_satisfied t db; h = task_held t db in
      \<lparr>cd_deps_satisfied = d, cd_held = h, cd_heartbeat_fresh = heartbeat_fresh t db now agent_ttl,
       cd_merge_ready = (t_state t = ''DONE'' \<and> h \<and> d)\<rparr>)"

definition derive_task_phase :: "conditions \<Rightarrow> string \<Rightarrow> string" where
  "derive_task_phase c fsm_state =
     (if List.member task_terminal fsm_state then fsm_state
      else if cd_merge_ready c then ''MergeReady''
      else if \<not> cd_deps_satisfied c then ''Blocked''
      else if cd_held c then (if cd_heartbeat_fresh c = Some False then ''Stalled'' else ''Working'')
      else ''Ready'')"

section \<open>Properties\<close>

text \<open>The summary never contradicts the lifecycle: a terminal task shows its state; otherwise
  \<open>MergeReady\<close> is shown exactly for a DONE task with a held write orbit and merged dependencies,
  \<open>Blocked\<close> exactly when a dependency is not merged, and \<open>Stalled\<close> only when the owner is known and
  has been silent for longer than its window (an unclaimed task never reads as stalled).\<close>

theorem phase_is_exact:
  fixes t :: task
  defines "phase db now ttl \<equiv> derive_task_phase (task_conditions t db now ttl) (t_state t)"
  shows "(List.member task_terminal (t_state t) \<longrightarrow> phase db now ttl = t_state t) \<and>
    (\<not> List.member task_terminal (t_state t) \<longrightarrow>
      (phase db now ttl = ''MergeReady'' \<longleftrightarrow> t_state t = ''DONE'' \<and> task_held t db \<and> deps_satisfied t db) \<and>
      (phase db now ttl = ''Blocked'' \<longleftrightarrow> \<not> deps_satisfied t db) \<and>
      (phase db now ttl = ''Stalled'' \<longrightarrow>
        (\<exists>a. Option.bind (t_agent_id t) (\<lambda>aid. get_agent aid db) = Some a \<and>
          (\<exists>w. (case a_liveness_ttl a of None \<Rightarrow> ttl | Some x \<Rightarrow> Some x) = Some w \<and>
             now - a_last_heartbeat a > w))))"
proof -
  have stalled: "\<exists>a. Option.bind (t_agent_id t) (\<lambda>aid. get_agent aid db) = Some a \<and>
      (\<exists>w. (case a_liveness_ttl a of None \<Rightarrow> ttl | Some x \<Rightarrow> Some x) = Some w \<and> now - a_last_heartbeat a > w)"
    if "heartbeat_fresh t db now ttl = Some False"
    using that by (auto simp: heartbeat_fresh_def split: option.splits if_splits)
  show ?thesis
    using stalled
    by (auto simp: phase_def derive_task_phase_def task_conditions_def Let_def task_terminal_def)
qed

text \<open>A dangling dependency blocks for good: as long as the store has no MERGED task under one of
  its dependency ids, a live task is never shown ready, working or ready to merge.\<close>

theorem unmerged_dependency_blocks:
  assumes "d \<in> set (t_deps t)" and "\<forall>dep. get_task d db = Some dep \<longrightarrow> t_state dep \<noteq> ''MERGED''"
    and "\<not> List.member task_terminal (t_state t)"
  shows "derive_task_phase (task_conditions t db now ttl) (t_state t) = ''Blocked''"
proof -
  have "\<not> deps_satisfied t db"
    using assms(1,2) by (auto simp: deps_satisfied_def list_all_iff split: option.splits)
  then show ?thesis
    using assms(3) by (simp add: derive_task_phase_def task_conditions_def Let_def)
qed

definition sample_task :: "string \<Rightarrow> string list \<Rightarrow> task" where
  "sample_task tid deps = new_task 0 tid tid [''a/**''] [] deps ''PENDING'' 0 [] None None"

lemma phase_is_exact_witness:
  "derive_task_phase (task_conditions (sample_task ''t'' [''gone'']) empty_db 5 (Some 90)) ''PENDING'' = ''Blocked''"
  using phase_is_exact [of "sample_task ''t'' [''gone'']" empty_db 5 "Some 90"]
  by (simp add: sample_task_def new_task_def task_terminal_def deps_satisfied_def get_task_def empty_db_def)

lemma unmerged_dependency_blocks_witness:
  "derive_task_phase (task_conditions (sample_task ''t'' [''gone'']) empty_db 5 (Some 90)) ''PENDING'' = ''Blocked''"
  using unmerged_dependency_blocks [of "''gone''" "sample_task ''t'' [''gone'']" empty_db 5 "Some 90"]
  by (simp add: sample_task_def new_task_def task_terminal_def get_task_def empty_db_def)

end
