(* ===== verification/Outbox.thy ===== *)
theory Outbox
  imports Idem
begin

text \<open>
  The admission notification outbox of \<open>omd_server/store.py\<close>: notification rows that commit with
  the transition they report and are delivered after it, at least once, in order within the stream
  of a request (repository, request id, generation) and after the events they depend on.
  Every operation runs inside a transaction, as its guard demands. \<open>AUTOINCREMENT\<close> gives a row a
  number above every number given before.
\<close>

section \<open>Operations\<close>

definition get_admission_outbox :: "string \<Rightarrow> db \<Rightarrow> outbox_row option" where
  "get_admission_outbox ev db = fetchone (filter (\<lambda>x. x_event_id x = ev) (outbox db))"

definition admission_outbox_predecessors :: "string \<Rightarrow> db \<Rightarrow> string list" where
  "admission_outbox_predecessors ev db = sort (map snd (filter (\<lambda>d. fst d = ev) (outbox_deps db)))"

definition admission_outbox_rows :: "string list \<Rightarrow> db \<Rightarrow> outbox_row list" where
  "admission_outbox_rows states db =
     sort_key x_seq (if states = [] then outbox db else filter (\<lambda>x. x_state x \<in> set states) (outbox db))"

text \<open>The arguments of an enqueue: a row whose number, state and delivery columns are not read.\<close>

definition same_event :: "outbox_row \<Rightarrow> outbox_row \<Rightarrow> bool" where
  "same_event a b \<longleftrightarrow> x_event_id a = x_event_id b \<and> x_effect_key a = x_effect_key b \<and>
     x_schema_version a = x_schema_version b \<and> x_repository_id a = x_repository_id b \<and>
     x_request_id a = x_request_id b \<and> x_request_generation a = x_request_generation b \<and>
     x_orbit_id a = x_orbit_id b \<and> x_transition_kind a = x_transition_kind b \<and>
     x_correlation_id a = x_correlation_id b \<and> x_payload a = x_payload b \<and>
     x_payload_sha256 a = x_payload_sha256 b"

definition insert_outbox :: "outbox_row \<Rightarrow> string list \<Rightarrow> db \<Rightarrow> db" where
  "insert_outbox row preds db =
     (let n = Suc (outbox_autoinc db) in db\<lparr>
        outbox := outbox db @ [row\<lparr>x_seq := n, x_state := ''PENDING'', x_attempts := 0,
          x_available_at := x_created_at row, x_claimed_by := None, x_claim_token := None,
          x_claim_deadline := None, x_delivered_at := None, x_last_error := None\<rparr>],
        outbox_autoinc := n,
        outbox_deps := outbox_deps db @ map (Pair (x_event_id row)) preds\<rparr>)"

definition enqueue_admission_outbox ::
  "outbox_row \<Rightarrow> string list \<Rightarrow> db \<Rightarrow> (core_error, outbox_row option \<times> db) result" where
  "enqueue_admission_outbox row predecessors db =
     (let preds = sort (remdups predecessors); ev = x_event_id row in
      if ev \<in> set preds then Inl (RuntimeError ''admission outbox event cannot depend on itself'')
      else
        let by_effect = fetchone (filter (\<lambda>x. x_effect_key x = x_effect_key row) (outbox db));
            existing = (case get_admission_outbox ev db of None \<Rightarrow> by_effect | Some x \<Rightarrow> Some x)
        in case existing of
             Some x \<Rightarrow>
               if \<not> same_event x row then Inl (RuntimeError ''admission outbox event_id collision'')
               else if admission_outbox_predecessors ev db \<noteq> preds then
                 Inl (RuntimeError ''admission outbox dependency collision'')
               else Inr (Some x, db)
           | None \<Rightarrow>
               let db' = insert_outbox row preds db in
               if \<exists>p\<in>set preds. get_admission_outbox p db' = None then
                 Inl (RuntimeError ''admission outbox predecessor is missing'')
               else Inr (get_admission_outbox ev db', db'))"

definition same_stream :: "outbox_row \<Rightarrow> outbox_row \<Rightarrow> bool" where
  "same_stream p x \<longleftrightarrow> x_repository_id p = x_repository_id x \<and> x_request_id p = x_request_id x \<and>
     x_request_generation p = x_request_generation x"

text \<open>The two \<open>NOT EXISTS\<close> clauses: an undelivered earlier row of the stream, and an undelivered (or
  missing) predecessor.\<close>

definition stream_blocked :: "db \<Rightarrow> outbox_row \<Rightarrow> bool" where
  "stream_blocked db x \<longleftrightarrow>
     (\<exists>p\<in>set (outbox db). same_stream p x \<and> x_seq p < x_seq x \<and> x_state p \<noteq> ''DELIVERED'')"

definition dependency_blocked :: "db \<Rightarrow> outbox_row \<Rightarrow> bool" where
  "dependency_blocked db x \<longleftrightarrow>
     (\<exists>d\<in>set (outbox_deps db). fst d = x_event_id x \<and>
        (case get_admission_outbox (snd d) db of None \<Rightarrow> True | Some p \<Rightarrow> x_state p \<noteq> ''DELIVERED''))"

definition stream_head :: "db \<Rightarrow> outbox_row \<Rightarrow> bool" where
  "stream_head db x \<longleftrightarrow>
     x_state x \<noteq> ''DELIVERED'' \<and> \<not> stream_blocked db x \<and> \<not> dependency_blocked db x"

definition claim_due :: "rat \<Rightarrow> outbox_row \<Rightarrow> bool" where
  "claim_due now x \<longleftrightarrow> (x_state x = ''PENDING'' \<and> x_available_at x \<le> now) \<or>
     (x_state x = ''DELIVERING'' \<and> due (x_claim_deadline x) now)"

definition claim_token :: "string \<Rightarrow> string" where
  "claim_token u = ''outbox-claim-'' @ u"

definition claim_next_admission_outbox ::
  "string \<Rightarrow> rat \<Rightarrow> rat \<Rightarrow> db \<Rightarrow> outbox_row option \<times> db" where
  "claim_next_admission_outbox owner now lease_ttl db =
     (case fetchone (sort_key x_seq (filter (\<lambda>x. claim_due now x \<and> stream_head db x) (outbox db))) of
        None \<Rightarrow> (None, db)
      | Some head \<Rightarrow>
          let (u, db) = fresh_uuid db;
              p = (\<lambda>x. x_event_id x = x_event_id head \<and> claim_due now x);
              hits = length (filter p (outbox db));
              db' = db\<lparr>outbox := update_where p
                (\<lambda>x. x\<lparr>x_state := ''DELIVERING'', x_claimed_by := Some owner,
                       x_claim_token := Some (claim_token u),
                       x_claim_deadline := Some (now + lease_ttl),
                       x_attempts := Suc (x_attempts x), x_last_error := None\<rparr>) (outbox db)\<rparr>
          in if hits \<noteq> 1 then (None, db') else (get_admission_outbox (x_event_id head) db', db'))"

definition holds_claim :: "string \<Rightarrow> string \<Rightarrow> outbox_row \<Rightarrow> bool" where
  "holds_claim ev token x \<longleftrightarrow>
     x_event_id x = ev \<and> x_state x = ''DELIVERING'' \<and> x_claim_token x = Some token"

definition ack_admission_outbox :: "string \<Rightarrow> string \<Rightarrow> rat \<Rightarrow> db \<Rightarrow> bool \<times> db" where
  "ack_admission_outbox ev token now db =
     (length (filter (holds_claim ev token) (outbox db)) = 1,
      db\<lparr>outbox := update_where (holds_claim ev token)
        (\<lambda>x. x\<lparr>x_state := ''DELIVERED'', x_delivered_at := Some now, x_claimed_by := None,
               x_claim_token := None, x_claim_deadline := None, x_last_error := None\<rparr>) (outbox db)\<rparr>)"

definition retry_admission_outbox :: "string \<Rightarrow> string \<Rightarrow> rat \<Rightarrow> string \<Rightarrow> db \<Rightarrow> bool \<times> db" where
  "retry_admission_outbox ev token available_at err db =
     (length (filter (holds_claim ev token) (outbox db)) = 1,
      db\<lparr>outbox := update_where (holds_claim ev token)
        (\<lambda>x. x\<lparr>x_state := ''PENDING'', x_available_at := available_at, x_claimed_by := None,
               x_claim_token := None, x_claim_deadline := None, x_last_error := Some err\<rparr>) (outbox db)\<rparr>)"

definition count_outbox :: "string \<Rightarrow> db \<Rightarrow> nat" where
  "count_outbox st db = length (filter (\<lambda>x. x_state x = st) (outbox db))"

definition admission_outbox_stats :: "db \<Rightarrow> nat \<times> nat \<times> nat \<times> outbox_row option" where
  "admission_outbox_stats db =
     (count_outbox ''PENDING'' db, count_outbox ''DELIVERING'' db, count_outbox ''DELIVERED'' db,
      fetchone (sort_key x_seq (filter (\<lambda>x. x_state x \<noteq> ''DELIVERED'') (outbox db))))"

definition next_admission_outbox_due_at :: "db \<Rightarrow> rat option" where
  "next_admission_outbox_due_at db =
     sql_min (map (\<lambda>x. if x_state x = ''PENDING'' then Some (x_available_at x) else x_claim_deadline x)
       (filter (stream_head db) (outbox db)))"

section \<open>Invariant\<close>

definition outbox_states :: "string list" where
  "outbox_states = [''PENDING'', ''DELIVERING'', ''DELIVERED'']"

text \<open>Event ids are unique, row numbers grow with insertion, every row that was ever claimed has only
  delivered rows of its stream and delivered predecessors before it, and a claim token belongs to
  one claim: it was drawn before the next id.\<close>

definition outbox_ok :: "db \<Rightarrow> bool" where
  "outbox_ok db \<longleftrightarrow>
     distinct (map x_event_id (outbox db)) \<and>
     sorted_wrt (<) (map x_seq (outbox db)) \<and>
     (\<forall>x\<in>set (outbox db). x_seq x \<le> outbox_autoinc db \<and> List.member outbox_states (x_state x)) \<and>
     (\<forall>x\<in>set (outbox db). x_state x \<noteq> ''PENDING'' \<longrightarrow> 0 < x_attempts x) \<and>
     (\<forall>x\<in>set (outbox db). 0 < x_attempts x \<longrightarrow> \<not> stream_blocked db x \<and> \<not> dependency_blocked db x) \<and>
     (\<forall>d\<in>set (outbox_deps db). \<exists>x\<in>set (outbox db). x_event_id x = fst d)"

inductive outbox_step :: "db \<Rightarrow> db \<Rightarrow> bool" where
  enqueue: "enqueue_admission_outbox row preds db = Inr (r, db') \<Longrightarrow> outbox_step db db'"
| claim: "claim_next_admission_outbox owner now ttl db = (r, db') \<Longrightarrow> outbox_step db db'"
| ack: "ack_admission_outbox ev token now db = (b, db') \<Longrightarrow> outbox_step db db'"
| retry: "retry_admission_outbox ev token later err db = (b, db') \<Longrightarrow> outbox_step db db'"

lemma outbox_okD:
  assumes "outbox_ok db"
  shows "distinct (map x_event_id (outbox db))"
    and "sorted_wrt (<) (map x_seq (outbox db))"
    and "x \<in> set (outbox db) \<Longrightarrow> x_seq x \<le> outbox_autoinc db"
    and "x \<in> set (outbox db) \<Longrightarrow> List.member outbox_states (x_state x)"
    and "x \<in> set (outbox db) \<Longrightarrow> x_state x \<noteq> ''PENDING'' \<Longrightarrow> 0 < x_attempts x"
    and "x \<in> set (outbox db) \<Longrightarrow> 0 < x_attempts x \<Longrightarrow> \<not> stream_blocked db x"
    and "x \<in> set (outbox db) \<Longrightarrow> 0 < x_attempts x \<Longrightarrow> \<not> dependency_blocked db x"
    and "d \<in> set (outbox_deps db) \<Longrightarrow> \<exists>x\<in>set (outbox db). x_event_id x = fst d"
  using assms unfolding outbox_ok_def by blast+

lemma event_unique:
  "outbox_ok db \<Longrightarrow> x \<in> set (outbox db) \<Longrightarrow> y \<in> set (outbox db) \<Longrightarrow> x_event_id x = x_event_id y \<Longrightarrow> x = y"
  using outbox_okD(1) by (auto simp: distinct_map inj_on_def)

lemma get_outbox_iff:
  assumes "outbox_ok db"
  shows "get_admission_outbox ev db = Some x \<longleftrightarrow> x \<in> set (outbox db) \<and> x_event_id x = ev"
proof
  assume "get_admission_outbox ev db = Some x"
  then show "x \<in> set (outbox db) \<and> x_event_id x = ev"
    by (auto simp: get_admission_outbox_def dest: fetchone_filter_Some)
next
  assume x: "x \<in> set (outbox db) \<and> x_event_id x = ev"
  then obtain y where y: "get_admission_outbox ev db = Some y"
    by (cases "get_admission_outbox ev db") (auto simp: get_admission_outbox_def filter_empty_conv)
  then have "y \<in> set (outbox db)" "x_event_id y = ev"
    by (auto simp: get_admission_outbox_def dest: fetchone_filter_Some)
  with x event_unique [OF assms] y show "get_admission_outbox ev db = Some x" by metis
qed

text \<open>The claim, ack and retry updates touch the delivery columns of some rows; a delivered row stays
  delivered. Such an update unblocks rows and never blocks one.\<close>

definition delivery_update :: "(outbox_row \<Rightarrow> outbox_row) \<Rightarrow> db \<Rightarrow> bool" where
  "delivery_update g db \<longleftrightarrow> (\<forall>x\<in>set (outbox db). x_event_id (g x) = x_event_id x \<and>
     x_seq (g x) = x_seq x \<and> x_repository_id (g x) = x_repository_id x \<and>
     x_request_id (g x) = x_request_id x \<and> x_request_generation (g x) = x_request_generation x \<and>
     (x_state x = ''DELIVERED'' \<longrightarrow> x_state (g x) = ''DELIVERED'') \<and>
     List.member outbox_states (x_state (g x)) \<and>
     (x_state (g x) \<noteq> ''PENDING'' \<longrightarrow> 0 < x_attempts (g x)) \<and>
     (0 < x_attempts (g x) \<longrightarrow> 0 < x_attempts x \<or> stream_head db x))"

lemma get_outbox_map:
  assumes "delivery_update g db"
  shows "get_admission_outbox ev (db\<lparr>outbox := map g (outbox db)\<rparr>) =
    map_option g (get_admission_outbox ev db)"
proof -
  have "filter (\<lambda>x. x_event_id x = ev) (map g (outbox db)) = map g (filter (\<lambda>x. x_event_id x = ev) (outbox db))"
    using assms by (auto simp: filter_map delivery_update_def intro!: arg_cong [where f = "map g"] filter_cong)
  then show ?thesis by (simp add: get_admission_outbox_def)
qed

lemma delivery_update_ok:
  assumes ok: "outbox_ok db" and g: "delivery_update g db"
  shows "outbox_ok (db\<lparr>uuids := n, outbox := map g (outbox db)\<rparr>)"
proof -
  let ?db = "db\<lparr>uuids := n, outbox := map g (outbox db)\<rparr>"
  note gd = g [unfolded delivery_update_def, rule_format]
  have same: "same_stream (g x) (g y) = same_stream x y"
    if "x \<in> set (outbox db)" "y \<in> set (outbox db)" for x y
    using gd [OF that(1)] gd [OF that(2)] by (simp add: same_stream_def)
  have maps: "map (x_event_id \<circ> g) (outbox db) = map x_event_id (outbox db)"
    "map (x_seq \<circ> g) (outbox db) = map x_seq (outbox db)"
    using gd by simp_all
  have get: "get_admission_outbox ev ?db = map_option g (get_admission_outbox ev db)" for ev
    using get_outbox_map [OF g] by (simp add: get_admission_outbox_def)
  have stream: "stream_blocked db x" if "x \<in> set (outbox db)" "stream_blocked ?db (g x)" for x
  proof -
    from that(2) obtain p where p: "p \<in> set (outbox db)" "same_stream (g p) (g x)"
      "x_seq (g p) < x_seq (g x)" "x_state (g p) \<noteq> ''DELIVERED''"
      by (auto simp: stream_blocked_def)
    with gd [OF p(1)] gd [OF that(1)] same [OF p(1) that(1)] show ?thesis
      unfolding stream_blocked_def by auto
  qed
  have dep: "dependency_blocked db x" if x: "x \<in> set (outbox db)" "dependency_blocked ?db (g x)" for x
  proof -
    obtain d where d: "d \<in> set (outbox_deps db)" "fst d = x_event_id x"
      "case get_admission_outbox (snd d) ?db of None \<Rightarrow> True | Some p \<Rightarrow> x_state p \<noteq> ''DELIVERED''"
      using x(2) gd [OF x(1)] by (auto simp: dependency_blocked_def)
    have "case get_admission_outbox (snd d) db of None \<Rightarrow> True | Some p \<Rightarrow> x_state p \<noteq> ''DELIVERED''"
    proof (cases "get_admission_outbox (snd d) db")
      case (Some p)
      then have "p \<in> set (outbox db)" using get_outbox_iff [OF ok] by blast
      with gd [of p] d(3) Some show ?thesis by (auto simp: get)
    qed simp
    with d(1,2) show ?thesis unfolding dependency_blocked_def by blast
  qed
  have "\<not> stream_blocked ?db (g x) \<and> \<not> dependency_blocked ?db (g x)"
    if x: "x \<in> set (outbox db)" "0 < x_attempts (g x)" for x
    using gd [OF x(1)] x(2) stream [OF x(1)] dep [OF x(1)] outbox_okD(6,7) [OF ok x(1)]
    unfolding stream_head_def by blast
  moreover have "\<forall>x\<in>set (outbox db). x_seq (g x) \<le> outbox_autoinc db \<and> List.member outbox_states (x_state (g x))"
    using gd outbox_okD(3) [OF ok] by simp
  moreover have "\<forall>d\<in>set (outbox_deps db). \<exists>x\<in>set (outbox db). x_event_id (g x) = fst d"
    using gd outbox_okD(8) [OF ok] by metis
  moreover have "\<forall>x\<in>set (outbox db). x_state (g x) \<noteq> ''PENDING'' \<longrightarrow> 0 < x_attempts (g x)"
    using gd by blast
  ultimately show ?thesis
    using outbox_okD(1,2) [OF ok] unfolding outbox_ok_def by (simp add: maps)
qed

lemma update_where_map: "update_where p f xs = map (\<lambda>x. if p x then f x else x) xs"
  by (simp add: update_where_def)

lemma claim_cases:
  assumes "claim_next_admission_outbox owner now ttl db = (r, db')"
  obtains (idle) "r = None" "db' = db" "\<forall>x\<in>set (outbox db). \<not> (claim_due now x \<and> stream_head db x)"
  | (claimed) head g where "head \<in> set (outbox db)" "claim_due now head" "stream_head db head"
      "db' = db\<lparr>uuids := Suc (uuids db), outbox := map g (outbox db)\<rparr>"
      "g = (\<lambda>x. if x_event_id x = x_event_id head \<and> claim_due now x then
          x\<lparr>x_state := ''DELIVERING'', x_claimed_by := Some owner,
            x_claim_token := Some (claim_token (nat_text (uuids db))),
            x_claim_deadline := Some (now + ttl), x_attempts := Suc (x_attempts x), x_last_error := None\<rparr>
          else x)"
      "outbox_ok db \<longrightarrow> r = Some (g head)"
proof (cases "fetchone (sort_key x_seq (filter (\<lambda>x. claim_due now x \<and> stream_head db x) (outbox db)))")
  case None
  with assms have "r = None" "db' = db" by (simp_all add: claim_next_admission_outbox_def)
  moreover have "\<forall>x\<in>set (outbox db). \<not> (claim_due now x \<and> stream_head db x)"
    using None by (simp add: filter_empty_conv)
  ultimately show ?thesis by (rule idle)
next
  case (Some head)
  then have h: "head \<in> set (outbox db)" "claim_due now head" "stream_head db head"
    using fetchone_sort_key [OF Some] by auto
  let ?p = "\<lambda>x. x_event_id x = x_event_id head \<and> claim_due now x"
  let ?g = "\<lambda>x. if ?p x then
          x\<lparr>x_state := ''DELIVERING'', x_claimed_by := Some owner,
            x_claim_token := Some (claim_token (nat_text (uuids db))),
            x_claim_deadline := Some (now + ttl), x_attempts := Suc (x_attempts x), x_last_error := None\<rparr>
          else x"
  have db': "db' = db\<lparr>uuids := Suc (uuids db), outbox := map ?g (outbox db)\<rparr>"
    using assms Some by (auto simp: claim_next_admission_outbox_def fresh_uuid_def Let_def
        update_where_map split: if_splits)
  have "r = Some (?g head)" if ok: "outbox_ok db"
  proof -
    have one: "filter ?p (outbox db) = [head]"
      using outbox_okD(1) [OF ok] h by (intro distinct_key_filter [of x_event_id]) auto
    have "filter (\<lambda>x. x_event_id x = x_event_id head) (map ?g (outbox db)) =
        map ?g (filter (\<lambda>x. x_event_id x = x_event_id head) (outbox db))"
      by (auto simp: filter_map intro!: arg_cong [where f = "map ?g"] filter_cong split: if_splits)
    moreover have "filter (\<lambda>x. x_event_id x = x_event_id head) (outbox db) = [head]"
      using outbox_okD(1) [OF ok] h by (intro distinct_key_filter [of x_event_id]) auto
    ultimately have "get_admission_outbox (x_event_id head) db' = Some (?g head)"
      by (simp add: get_admission_outbox_def db')
    then show ?thesis
      using assms Some one db' by (simp add: claim_next_admission_outbox_def fresh_uuid_def Let_def
        update_where_map)
  qed
  with h db' show ?thesis by (intro claimed [of head ?g]) auto
qed

lemma outbox_ok_claim:
  assumes "claim_next_admission_outbox owner now ttl db = (r, db')" and ok: "outbox_ok db"
  shows "outbox_ok db'"
  using assms(1)
proof (cases rule: claim_cases)
  case (claimed head g)
  have "x = head" if "x \<in> set (outbox db)" "x_event_id x = x_event_id head" for x
    using event_unique [OF ok that(1) claimed(1) that(2)] .
  moreover have "x_state head \<noteq> ''DELIVERED''"
    using claimed(3) by (simp add: stream_head_def)
  ultimately have "delivery_update g db"
    using claimed(3) outbox_okD(4,5) [OF ok]
    by (auto simp: delivery_update_def claimed(5) outbox_states_def)
  then show ?thesis using delivery_update_ok [OF ok] claimed(4) by simp
qed (use ok in simp)

lemma outbox_ok_settle:
  assumes ok: "outbox_ok db"
    and f: "\<And>x. x_event_id (f x) = x_event_id x \<and> x_seq (f x) = x_seq x \<and>
      x_repository_id (f x) = x_repository_id x \<and> x_request_id (f x) = x_request_id x \<and>
      x_request_generation (f x) = x_request_generation x \<and> x_attempts (f x) = x_attempts x \<and>
      x_state (f x) \<in> {''PENDING'', ''DELIVERED''}"
  shows "outbox_ok (db\<lparr>outbox := update_where (holds_claim ev token) f (outbox db)\<rparr>)"
proof -
  let ?g = "\<lambda>x. if holds_claim ev token x then f x else x"
  have "delivery_update ?g db"
    using f outbox_okD(4,5) [OF ok]
    by (auto simp: delivery_update_def holds_claim_def outbox_states_def)
  from delivery_update_ok [OF ok this, of "uuids db"] show ?thesis
    by (simp add: update_where_map)
qed

lemma enqueue_cases:
  assumes "enqueue_admission_outbox row preds db = Inr (r, db')"
  obtains (known) x where "db' = db" "r = Some x" "x \<in> set (outbox db)" "same_event x row"
      "admission_outbox_predecessors (x_event_id row) db = sort (remdups preds)"
  | (new) "db' = insert_outbox row (sort (remdups preds)) db" "x_event_id row \<notin> set preds"
      "\<forall>x\<in>set (outbox db). x_event_id x \<noteq> x_event_id row"
      "\<forall>p\<in>set preds. get_admission_outbox p db' \<noteq> None"
      "r = get_admission_outbox (x_event_id row) db'"
proof -
  let ?ex = "case get_admission_outbox (x_event_id row) db of
      None \<Rightarrow> fetchone (filter (\<lambda>x. x_effect_key x = x_effect_key row) (outbox db)) | Some x \<Rightarrow> Some x"
  have self: "x_event_id row \<notin> set preds"
    using assms by (auto simp: enqueue_admission_outbox_def Let_def split: if_splits)
  show ?thesis
  proof (cases ?ex)
    case None
    then have "get_admission_outbox (x_event_id row) db = None" by (auto split: option.splits)
    then have "\<forall>x\<in>set (outbox db). x_event_id x \<noteq> x_event_id row"
      by (simp add: get_admission_outbox_def filter_empty_conv)
    then show ?thesis
      using assms None self new by (auto simp: enqueue_admission_outbox_def Let_def split: if_splits)
  next
    case (Some x)
    then have x: "x \<in> set (outbox db)"
      by (auto simp: get_admission_outbox_def split: option.splits dest: fetchone_filter_Some)
    from assms self have "db' = db \<and> r = Some x \<and> same_event x row \<and>
        admission_outbox_predecessors (x_event_id row) db = sort (remdups preds)"
      unfolding enqueue_admission_outbox_def Let_def Some by (auto split: if_splits)
    then show ?thesis using x known by blast
  qed
qed

lemma get_outbox_insert:
  "ev \<noteq> x_event_id row \<Longrightarrow> get_admission_outbox ev (insert_outbox row preds db) = get_admission_outbox ev db"
  by (simp add: get_admission_outbox_def insert_outbox_def Let_def)

lemma outbox_insert:
  "\<exists>new. outbox (insert_outbox row preds db) = outbox db @ [new] \<and> x_event_id new = x_event_id row \<and>
     x_seq new = Suc (outbox_autoinc db) \<and> x_state new = ''PENDING'' \<and> x_attempts new = 0 \<and>
     x_available_at new = x_created_at row"
  "outbox_autoinc (insert_outbox row preds db) = Suc (outbox_autoinc db)"
  "outbox_deps (insert_outbox row preds db) = outbox_deps db @ map (Pair (x_event_id row)) preds"
  by (simp_all add: insert_outbox_def Let_def)

lemma outbox_ok_insert:
  assumes ok: "outbox_ok db" and new: "\<forall>x\<in>set (outbox db). x_event_id x \<noteq> x_event_id row"
  shows "outbox_ok (insert_outbox row preds db)"
proof -
  let ?db = "insert_outbox row preds db"
  obtain n where n: "outbox ?db = outbox db @ [n]" "x_event_id n = x_event_id row"
    "x_seq n = Suc (outbox_autoinc db)" "x_state n = ''PENDING''" "x_attempts n = 0"
    using outbox_insert(1) by blast
  have stream: "stream_blocked db x" if "x \<in> set (outbox db)" "stream_blocked ?db x" for x
    using that outbox_okD(3) [OF ok that(1)] by (auto simp: stream_blocked_def n)
  have dep: "dependency_blocked db x" if "x \<in> set (outbox db)" "dependency_blocked ?db x" for x
  proof -
    have "x_event_id x \<noteq> x_event_id row" using new that(1) by blast
    moreover from that(2) obtain d where d: "d \<in> set (outbox_deps ?db)" "fst d = x_event_id x"
      "case get_admission_outbox (snd d) ?db of None \<Rightarrow> True | Some p \<Rightarrow> x_state p \<noteq> ''DELIVERED''"
      by (auto simp: dependency_blocked_def)
    ultimately have old: "d \<in> set (outbox_deps db)" by (auto simp: outbox_insert)
    have "case get_admission_outbox (snd d) db of None \<Rightarrow> True | Some p \<Rightarrow> x_state p \<noteq> ''DELIVERED''"
    proof (cases "snd d = x_event_id row")
      case True
      then have "get_admission_outbox (snd d) db = None"
        using new by (simp add: get_admission_outbox_def filter_empty_conv)
      then show ?thesis by simp
    qed (use d(3) get_outbox_insert in simp)
    with old d(2) show ?thesis by (auto simp: dependency_blocked_def)
  qed
  have "sorted_wrt (<) (map x_seq (outbox ?db))"
    using outbox_okD(2,3) [OF ok] by (auto simp: n sorted_wrt_append less_Suc_eq_le)
  moreover have "\<forall>x\<in>set (outbox ?db). x_seq x \<le> outbox_autoinc ?db \<and> List.member outbox_states (x_state x)"
    using outbox_okD(3,4) [OF ok] by (auto simp: n outbox_insert outbox_states_def le_Suc_eq)
  moreover have "\<forall>x\<in>set (outbox ?db). 0 < x_attempts x \<longrightarrow> \<not> stream_blocked ?db x \<and> \<not> dependency_blocked ?db x"
    using outbox_okD(6,7) [OF ok] stream dep by (auto simp: n)
  moreover have "\<forall>d\<in>set (outbox_deps ?db). \<exists>x\<in>set (outbox ?db). x_event_id x = fst d"
    using outbox_okD(8) [OF ok] by (fastforce simp: n outbox_insert(3))
  ultimately show ?thesis
    using outbox_okD(1,5) [OF ok] new by (auto simp: outbox_ok_def n)
qed

lemma outbox_ok_step: "outbox_step db db' \<Longrightarrow> outbox_ok db \<Longrightarrow> outbox_ok db'"
proof (induction rule: outbox_step.induct)
  case (enqueue row preds db r db')
  from enqueue(1) show ?case
    by (cases rule: enqueue_cases) (simp_all add: enqueue(2) outbox_ok_insert)
next
  case (claim owner now ttl db r db')
  then show ?case by (rule outbox_ok_claim)
next
  case (ack ev token now db b db')
  from ack(1) show ?case
    by (auto simp: ack_admission_outbox_def intro!: outbox_ok_settle [OF ack(2)])
next
  case (retry ev token later err db b db')
  from retry(1) show ?case
    by (auto simp: retry_admission_outbox_def intro!: outbox_ok_settle [OF retry(2)])
qed

lemma outbox_ok_reachable: "outbox_step\<^sup>*\<^sup>* db db' \<Longrightarrow> outbox_ok db \<Longrightarrow> outbox_ok db'"
  by (induction rule: rtranclp_induct) (auto intro: outbox_ok_step)

lemma outbox_ok_empty: "outbox db = [] \<Longrightarrow> outbox_deps db = [] \<Longrightarrow> outbox_ok db"
  by (simp add: outbox_ok_def)

section \<open>Properties\<close>

text \<open>C25. Delivery in order: in every reachable outbox, a row that has ever been handed to the notifier
  has only delivered rows before it in the stream of its request, and only delivered predecessors.
  Retries, expired claims and new rows never break this.\<close>

theorem delivery_respects_order:
  assumes "outbox_step\<^sup>*\<^sup>* db0 db" and "outbox db0 = []" and "outbox_deps db0 = []"
    and "x \<in> set (outbox db)" and "0 < x_attempts x"
  shows "(\<forall>p\<in>set (outbox db). same_stream p x \<and> x_seq p < x_seq x \<longrightarrow> x_state p = ''DELIVERED'') \<and>
    (\<forall>d\<in>set (outbox_deps db). fst d = x_event_id x \<longrightarrow>
       (\<exists>p\<in>set (outbox db). x_event_id p = snd d \<and> x_state p = ''DELIVERED''))"
proof -
  have ok: "outbox_ok db"
    using outbox_ok_reachable [OF assms(1) outbox_ok_empty [OF assms(2,3)]] .
  have "\<exists>p\<in>set (outbox db). x_event_id p = snd d \<and> x_state p = ''DELIVERED''"
    if "d \<in> set (outbox_deps db)" "fst d = x_event_id x" for d
  proof -
    have "\<not> (case get_admission_outbox (snd d) db of None \<Rightarrow> True | Some p \<Rightarrow> x_state p \<noteq> ''DELIVERED'')"
      using outbox_okD(7) [OF ok assms(4,5)] that by (auto simp: dependency_blocked_def)
    then show ?thesis using get_outbox_iff [OF ok] by (auto split: option.splits)
  qed
  then show ?thesis
    using outbox_okD(6) [OF ok assms(4,5)] by (auto simp: stream_blocked_def)
qed

text \<open>The timer is exact: some row can be claimed at a time if and only if the computed due time
  has come. A stream that waits for a retry never hides a due row of another stream, and no wake-up
  is lost or spurious.\<close>

theorem claim_iff_due:
  assumes "outbox_ok db"
  shows "(\<exists>x db'. claim_next_admission_outbox owner now ttl db = (Some x, db')) \<longleftrightarrow>
    (\<exists>t. next_admission_outbox_due_at db = Some t \<and> t \<le> now)"
proof -
  let ?due = "\<lambda>x. if x_state x = ''PENDING'' then Some (x_available_at x) else x_claim_deadline x"
  have "(\<exists>x db'. claim_next_admission_outbox owner now ttl db = (Some x, db')) \<longleftrightarrow>
      (\<exists>x\<in>set (outbox db). claim_due now x \<and> stream_head db x)"
  proof -
    obtain r db' where c: "claim_next_admission_outbox owner now ttl db = (r, db')" by fastforce
    then show ?thesis
      by (cases rule: claim_cases) (use assms c in auto)
  qed
  also have "\<dots> \<longleftrightarrow> (\<exists>x\<in>set (outbox db). stream_head db x \<and> (\<exists>t. ?due x = Some t \<and> t \<le> now))"
  proof -
    have "claim_due now x \<longleftrightarrow> (\<exists>t. ?due x = Some t \<and> t \<le> now)"
      if "x \<in> set (outbox db)" "stream_head db x" for x
      using outbox_okD(4) [OF assms that(1)] that(2)
      by (auto simp: claim_due_def due_def outbox_states_def stream_head_def split: option.splits)
    then show ?thesis by blast
  qed
  also have "\<dots> \<longleftrightarrow> (\<exists>t. next_admission_outbox_due_at db = Some t \<and> t \<le> now)"
    unfolding next_admission_outbox_due_at_def sql_min_le set_map set_filter by blast
  finally show ?thesis .
qed

lemma update_keeps_event:
  assumes "x \<in> set xs" and "same_event x row" and "same_event (f x) row"
  shows "\<exists>x'\<in>set (update_where p f xs). same_event x' row"
  using assms by (cases "p x") (auto simp: set_update_where)

lemma step_keeps_event:
  assumes "outbox_step db db'" and ok: "outbox_ok db" and x: "x \<in> set (outbox db)" "same_event x row"
  shows "\<exists>x'\<in>set (outbox db'). same_event x' row"
    and "admission_outbox_predecessors (x_event_id x) db' = admission_outbox_predecessors (x_event_id x) db"
    and "uuids db \<le> uuids db'"
proof -
  have all: "(\<exists>x'\<in>set (outbox db'). same_event x' row) \<and>
      admission_outbox_predecessors (x_event_id x) db' = admission_outbox_predecessors (x_event_id x) db \<and>
      uuids db \<le> uuids db'"
    using assms(1)
  proof (cases rule: outbox_step.cases)
    case (enqueue row' preds r)
    from this show ?thesis
    proof (cases rule: enqueue_cases)
      case new
      then have "x_event_id x \<noteq> x_event_id row'" using x(1) by blast
      then have "filter (\<lambda>d. fst d = x_event_id x) (outbox_deps db') =
          filter (\<lambda>d. fst d = x_event_id x) (outbox_deps db)"
        by (simp add: new(1) outbox_insert filter_map comp_def)
      then show ?thesis
        using x by (auto simp: new(1) insert_outbox_def Let_def admission_outbox_predecessors_def)
    qed (use x in auto)
  next
    case (claim owner now ttl r)
    from this show ?thesis
    proof (cases rule: claim_cases)
      case (claimed head g)
      have "same_event (g x) row" using x(2) by (simp add: claimed(5) same_event_def)
      then show ?thesis using x by (auto simp: claimed(4) admission_outbox_predecessors_def)
    qed (use x in auto)
  next
    case (ack ev token now b)
    let ?f = "\<lambda>x. x\<lparr>x_state := ''DELIVERED'', x_delivered_at := Some now, x_claimed_by := None,
               x_claim_token := None, x_claim_deadline := None, x_last_error := None\<rparr>"
    have "same_event (?f x) row" using x(2) by (simp add: same_event_def)
    from update_keeps_event [where p = "holds_claim ev token" and f = ?f, OF x this] show ?thesis
      using ack by (auto simp: ack_admission_outbox_def admission_outbox_predecessors_def)
  next
    case (retry ev token later err b)
    let ?f = "\<lambda>x. x\<lparr>x_state := ''PENDING'', x_available_at := later, x_claimed_by := None,
               x_claim_token := None, x_claim_deadline := None, x_last_error := Some err\<rparr>"
    have "same_event (?f x) row" using x(2) by (simp add: same_event_def)
    from update_keeps_event [where p = "holds_claim ev token" and f = ?f, OF x this] show ?thesis
      using retry by (auto simp: retry_admission_outbox_def admission_outbox_predecessors_def)
  qed
  from all show "\<exists>x'\<in>set (outbox db'). same_event x' row"
    and "admission_outbox_predecessors (x_event_id x) db' = admission_outbox_predecessors (x_event_id x) db"
    and "uuids db \<le> uuids db'" by blast+
qed

lemma same_event_id: "same_event x row \<Longrightarrow> x_event_id x = x_event_id row"
  by (simp add: same_event_def)

lemma run_keeps_event:
  assumes "outbox_step\<^sup>*\<^sup>* db db'" and "outbox_ok db" and "x \<in> set (outbox db)" and "same_event x row"
  shows "(\<exists>x'\<in>set (outbox db'). same_event x' row) \<and> outbox_ok db' \<and> uuids db \<le> uuids db' \<and>
    admission_outbox_predecessors (x_event_id row) db' = admission_outbox_predecessors (x_event_id row) db"
  using assms
proof (induction rule: rtranclp_induct)
  case base
  then show ?case by auto
next
  case (step d d')
  then obtain x' where x': "x' \<in> set (outbox d)" "same_event x' row" and ok: "outbox_ok d" by blast
  note k = step_keeps_event [OF step(2) ok x']
  show ?case
    using step k outbox_ok_step [OF step(2) ok] same_event_id [OF x'(2)] by auto
qed

lemma insert_predecessors:
  assumes "outbox_ok db" and "\<forall>x\<in>set (outbox db). x_event_id x \<noteq> x_event_id row"
  shows "admission_outbox_predecessors (x_event_id row) (insert_outbox row preds db) = sort preds"
proof -
  have "filter (\<lambda>d. fst d = x_event_id row) (outbox_deps db) = []"
    using outbox_okD(8) [OF assms(1)] assms(2) by (fastforce simp: filter_empty_conv)
  then show ?thesis
    by (simp add: admission_outbox_predecessors_def outbox_insert filter_map comp_def)
qed

text \<open>One row per event: after a successful enqueue, repeating it, at any later time and however
  far the delivery has got, returns the row of the event and changes nothing. A crash between the
  commit and the acknowledgement therefore never sends a second event.\<close>

theorem enqueue_is_idempotent:
  assumes "outbox_ok db" and "enqueue_admission_outbox row preds db = Inr (r, db')"
    and "outbox_step\<^sup>*\<^sup>* db' later"
  shows "\<exists>x. enqueue_admission_outbox row preds later = Inr (Some x, later) \<and> same_event x row"
proof -
  have ok': "outbox_ok db'" using assms(1,2) outbox_ok_step outbox_step.enqueue by blast
  have self: "x_event_id row \<notin> set preds"
    using assms(2) by (auto simp: enqueue_admission_outbox_def Let_def split: if_splits)
  obtain x where x: "x \<in> set (outbox db')" "same_event x row"
    and p: "admission_outbox_predecessors (x_event_id row) db' = sort (remdups preds)"
    using assms(2)
  proof (cases rule: enqueue_cases)
    case new
    let ?n = "last (outbox db')"
    have "?n \<in> set (outbox db') \<and> same_event ?n row"
      by (simp add: new(1) insert_outbox_def Let_def same_event_def)
    moreover have "admission_outbox_predecessors (x_event_id row) db' = sort (remdups preds)"
      using insert_predecessors [OF assms(1) new(3), of "sort (remdups preds)"]
      by (simp add: new(1) sorted_sort_id)
    ultimately show ?thesis using that by blast
  qed (use that in auto)
  obtain y where y: "y \<in> set (outbox later)" "same_event y row" and okl: "outbox_ok later"
    and pl: "admission_outbox_predecessors (x_event_id row) later = sort (remdups preds)"
    using run_keeps_event [OF assms(3) ok' x] p by auto
  then have "get_admission_outbox (x_event_id row) later = Some y"
    using get_outbox_iff [OF okl] same_event_id by blast
  then show ?thesis using self y pl by (simp add: enqueue_admission_outbox_def Let_def)
qed

lemma claimed_row:
  assumes "claim_next_admission_outbox owner now ttl db = (Some x, db')" and ok: "outbox_ok db"
  shows "x \<in> set (outbox db') \<and> x_claim_token x = Some (claim_token (nat_text (uuids db))) \<and>
    uuids db' = Suc (uuids db)"
  using assms(1)
proof (cases rule: claim_cases)
  case (claimed head g)
  then show ?thesis using ok by simp
qed simp

lemma claim_token_inj: "claim_token (nat_text m) = claim_token (nat_text n) \<longleftrightarrow> m = n"
proof
  assume "claim_token (nat_text m) = claim_token (nat_text n)"
  then have "py_int (nat_text m) = py_int (nat_text n)" by (simp add: claim_token_def)
  then show "m = n" by (simp add: py_int_nat_text)
qed simp

text \<open>An expired claim is dead: once a row has been claimed again, the worker of the earlier claim
  can neither acknowledge nor reschedule it; both calls return \<open>False\<close> and change nothing.\<close>

theorem expired_claim_is_fenced:
  assumes "outbox_ok db" and "claim_next_admission_outbox w1 t1 ttl1 db = (Some x, db1)"
    and "x_claim_token x = Some token"
    and "outbox_step\<^sup>*\<^sup>* db1 db2" and "claim_next_admission_outbox w2 t2 ttl2 db2 = (Some y, db3)"
    and "x_event_id y = x_event_id x"
  shows "ack_admission_outbox (x_event_id x) token now db3 = (False, db3) \<and>
    retry_admission_outbox (x_event_id x) token later err db3 = (False, db3)"
proof -
  note 1 = claimed_row [OF assms(2,1)]
  have ok1: "outbox_ok db1" using outbox_ok_claim [OF assms(2,1)] .
  have ok2: "outbox_ok db2" and u: "uuids db1 \<le> uuids db2"
    using run_keeps_event [OF assms(4) ok1, of x x] 1 by (auto simp: same_event_def)
  note 2 = claimed_row [OF assms(5) ok2]
  have ok3: "outbox_ok db3" using outbox_ok_claim [OF assms(5) ok2] .
  have "\<not> holds_claim (x_event_id x) token z" if "z \<in> set (outbox db3)" for z
  proof
    assume h: "holds_claim (x_event_id x) token z"
    then have "z = y"
      using event_unique [OF ok3 that, of y] 2 assms(6) by (simp add: holds_claim_def)
    with h 1 2 assms(3) u show False by (simp add: holds_claim_def claim_token_inj)
  qed
  then have "filter (holds_claim (x_event_id x) token) (outbox db3) = []"
    "update_where (holds_claim (x_event_id x) token) f (outbox db3) = outbox db3" for f
    by (simp_all add: filter_empty_conv update_where_none)
  then show ?thesis by (simp add: ack_admission_outbox_def retry_admission_outbox_def)
qed

section \<open>Witnesses\<close>

definition sample_event :: "string \<Rightarrow> outbox_row" where
  "sample_event ev = \<lparr>x_seq = 0, x_event_id = ev, x_effect_key = ev, x_schema_version = ''v1'',
     x_repository_id = ''repo'', x_request_id = ''r1'', x_request_generation = 0, x_orbit_id = ''o1'',
     x_transition_kind = ''GRANT'', x_correlation_id = ''a'', x_payload = JNull,
     x_payload_sha256 = ''h'', x_state = ''PENDING'', x_attempts = 0, x_available_at = 1,
     x_claimed_by = None, x_claim_token = None, x_claim_deadline = None, x_created_at = 1,
     x_delivered_at = None, x_last_error = None\<rparr>"

definition sample_db1 :: db where
  "sample_db1 = insert_outbox (sample_event ''e1'') [] empty_db"

definition sample_db2 :: db where
  "sample_db2 = snd (claim_next_admission_outbox ''w1'' 5 10 sample_db1)"

definition sample_db3 :: db where
  "sample_db3 = snd (claim_next_admission_outbox ''w2'' 50 10 sample_db2)"

lemma sample_enqueue: "enqueue_admission_outbox (sample_event ''e1'') [] empty_db =
    Inr (get_admission_outbox ''e1'' sample_db1, sample_db1)"
  by code_simp

lemma sample_empty_ok: "outbox_ok empty_db"
  by (simp add: outbox_ok_empty empty_db_def)

lemma sample_db1_ok: "outbox_ok sample_db1"
  using outbox_ok_step [OF outbox_step.enqueue [OF sample_enqueue] sample_empty_ok] .

lemma sample_run: "outbox_step\<^sup>*\<^sup>* empty_db sample_db2"
  unfolding sample_db2_def
  by (rule rtranclp.rtrancl_into_rtrancl [OF r_into_rtranclp [where r = outbox_step,
        OF outbox_step.enqueue [OF sample_enqueue]] outbox_step.claim [OF prod.collapse [symmetric]]])

text \<open>Two events of one stream: the second is claimed, so the first has been delivered.\<close>

definition sample_later :: db where
  "sample_later = snd (claim_next_admission_outbox ''w1'' 7 10
     (snd (ack_admission_outbox ''e1'' (claim_token ''0'') 6
       (snd (claim_next_admission_outbox ''w1'' 5 10 (insert_outbox (sample_event ''e2'') [] sample_db1))))))"

lemma sample_later_run: "outbox_step\<^sup>*\<^sup>* empty_db sample_later"
proof -
  have e2: "enqueue_admission_outbox (sample_event ''e2'') [] sample_db1 =
      Inr (get_admission_outbox ''e2'' (insert_outbox (sample_event ''e2'') [] sample_db1),
        insert_outbox (sample_event ''e2'') [] sample_db1)"
    by code_simp
  show ?thesis
    unfolding sample_later_def
    by (rule rtranclp.rtrancl_into_rtrancl [OF rtranclp.rtrancl_into_rtrancl [OF rtranclp.rtrancl_into_rtrancl
          [OF rtranclp.rtrancl_into_rtrancl [OF r_into_rtranclp [where r = outbox_step,
          OF outbox_step.enqueue [OF sample_enqueue]] outbox_step.enqueue [OF e2]]
          outbox_step.claim [OF prod.collapse [symmetric]]] outbox_step.ack [OF prod.collapse [symmetric]]]
          outbox_step.claim [OF prod.collapse [symmetric]]])
qed

lemma delivery_respects_order_witness: "x_state (hd (outbox sample_later)) = ''DELIVERED''"
proof -
  let ?x = "last (outbox sample_later)" and ?p = "hd (outbox sample_later)"
  have "?x \<in> set (outbox sample_later)" "0 < x_attempts ?x" by code_simp+
  from delivery_respects_order [OF sample_later_run _ _ this]
  have "\<forall>p\<in>set (outbox sample_later). same_stream p ?x \<and> x_seq p < x_seq ?x \<longrightarrow> x_state p = ''DELIVERED''"
    by (simp add: empty_db_def)
  moreover have "?p \<in> set (outbox sample_later)" "same_stream ?p ?x" "x_seq ?p < x_seq ?x" by code_simp+
  ultimately show ?thesis by blast
qed

lemma claim_iff_due_witness:
  "(\<exists>x db'. claim_next_admission_outbox ''w1'' 5 10 sample_db1 = (Some x, db')) \<longleftrightarrow>
   (\<exists>t. next_admission_outbox_due_at sample_db1 = Some t \<and> t \<le> 5)"
  by (rule claim_iff_due [OF sample_db1_ok])

lemma enqueue_is_idempotent_witness:
  "\<exists>x. enqueue_admission_outbox (sample_event ''e1'') [] sample_db2 = Inr (Some x, sample_db2) \<and>
     same_event x (sample_event ''e1'')"
proof (rule enqueue_is_idempotent [OF sample_empty_ok sample_enqueue])
  show "outbox_step\<^sup>*\<^sup>* sample_db1 sample_db2"
    unfolding sample_db2_def by (rule r_into_rtranclp, rule outbox_step.claim) (rule prod.collapse [symmetric])
qed

lemma expired_claim_is_fenced_witness:
  "ack_admission_outbox (x_event_id (hd (outbox sample_db2))) (claim_token (nat_text 0)) 60 sample_db3 =
     (False, sample_db3) \<and>
   retry_admission_outbox (x_event_id (hd (outbox sample_db2))) (claim_token (nat_text 0)) 60 ''no'' sample_db3 =
     (False, sample_db3)"
proof (rule expired_claim_is_fenced [OF sample_db1_ok])
  show "claim_next_admission_outbox ''w1'' 5 10 sample_db1 = (Some (hd (outbox sample_db2)), sample_db2)"
    by code_simp
  show "x_claim_token (hd (outbox sample_db2)) = Some (claim_token (nat_text 0))" by code_simp
  show "claim_next_admission_outbox ''w2'' 50 10 sample_db2 = (Some (hd (outbox sample_db3)), sample_db3)"
    by code_simp
  show "x_event_id (hd (outbox sample_db3)) = x_event_id (hd (outbox sample_db2))" by code_simp
qed simp

end
