(* ===== verification/ContractSpec.thy ===== *)
theory ContractSpec
  imports Idem
begin

text \<open>
  The table the admission contract executes, \<open>omd_server/scheduler_admission_fsm.json\<close>: the decoded
  parts of the file that \<open>omd_server/admission_contract.py\<close> reads. In the file every event and every
  effect lists its properties in the order of its required fields, and a field has the same type
  wherever it occurs, so a schema is given by its field list and \<open>field_type\<close>; every update and every
  binding copies the event's field of its own name, but for the terminal reason.
\<close>

type_synonym dict = "(string \<times> json) list"

record field_decl =
  dc_type :: string
  dc_const :: "json option"

record contract_schema =
  cs_required :: "string list"
  cs_properties :: "(string \<times> field_decl) list"

record contract_transition =
  ct_id :: string
  ct_from :: string
  ct_event :: string
  ct_to :: string
  ct_guard :: string
  ct_updates :: dict
  ct_effects :: "string list"
  ct_bindings :: "(string \<times> dict) list"

record contract_spec =
  sp_events :: "(string \<times> contract_schema) list"
  sp_effects :: "(string \<times> contract_schema) list"
  sp_decision_schema :: string
  sp_common_fields :: "string list"
  sp_variant_fields :: "(string \<times> string list) list"
  sp_transitions :: "contract_transition list"

section \<open>Field groups\<close>

definition identity_fields :: "string list" where
  "identity_fields = [''repository_id'', ''request_id'', ''orbit_id'', ''request_generation'', ''owner_agent'',
     ''bail_epoch'', ''mode'', ''pathspec_digest'', ''policy_version'']"

definition request_fields :: "string list" where
  "request_fields = [''repository_id'', ''request_id'', ''orbit_id'', ''request_generation'']"

definition owner_fields :: "string list" where
  "owner_fields = request_fields @ [''owner_agent'', ''bail_epoch'']"

definition lease_fields :: "string list" where
  "lease_fields = owner_fields @ [''fence'']"

definition field_type :: "string \<Rightarrow> string" where
  "field_type f =
     (if f \<in> {''request_generation'', ''bail_epoch'', ''fence'', ''queue_seq'', ''queue_depth'',
              ''queue_capacity'', ''no_lease_fence''} then ''non-negative integer''
      else if f \<in> {''owner_agent'', ''actor''} then ''actor-id''
      else if f \<in> {''pathspec_digest'', ''authority_snapshot_hash'', ''blocker_fingerprint''} then ''sha256''
      else if f \<in> {''lease_deadline'', ''observed_at'', ''enqueued_at'', ''wait_deadline'', ''retry_after_at''}
        then ''timestamp''
      else if f \<in> {''base_priority'', ''effective_priority''} then ''integer''
      else ''string'')"

definition field_declaration :: "string \<Rightarrow> field_decl" where
  "field_declaration f =
     \<lparr>dc_type = field_type f, dc_const = (if f = ''no_lease_fence'' then Some (JInt 0) else None)\<rparr>"

definition schema_of_fields :: "string list \<Rightarrow> contract_schema" where
  "schema_of_fields fs = \<lparr>cs_required = fs, cs_properties = map (\<lambda>f. (f, field_declaration f)) fs\<rparr>"

section \<open>Events, effects, decisions\<close>

definition admission_event_fields :: "(string \<times> string list) list" where
  "admission_event_fields =
    [(''ADMISSION_GRANTED'', identity_fields @ [''actor'', ''event_id'', ''authority_snapshot_hash'', ''decision_id'', ''fence'',
         ''lease_deadline'', ''base_priority'', ''effective_priority'', ''observed_at'']),
     (''ADMISSION_QUEUED'', identity_fields @ [''actor'', ''event_id'', ''authority_snapshot_hash'', ''decision_id'', ''queue_seq'',
         ''enqueued_at'', ''wait_deadline'', ''base_priority'', ''effective_priority'',
         ''observed_at'']),
     (''ADMISSION_DENIED'', identity_fields @ [''actor'', ''event_id'', ''authority_snapshot_hash'', ''decision_id'', ''reason'',
         ''base_priority'', ''effective_priority'', ''observed_at'']),
     (''ADMISSION_REJECTED'', identity_fields @ [''actor'', ''event_id'', ''authority_snapshot_hash'', ''decision_id'', ''reason'',
         ''queue_depth'', ''queue_capacity'', ''retry_after_at'', ''base_priority'',
         ''effective_priority'', ''observed_at'']),
     (''PROMOTION_GRANTED'', identity_fields @ [''queue_seq'', ''actor'', ''event_id'', ''authority_snapshot_hash'', ''decision_id'',
         ''fence'', ''lease_deadline'', ''base_priority'', ''effective_priority'', ''observed_at'']),
     (''PROMOTION_BLOCKED'', identity_fields @ [''queue_seq'', ''actor'', ''event_id'', ''authority_snapshot_hash'', ''decision_id'',
         ''blocker_fingerprint'', ''base_priority'', ''effective_priority'', ''observed_at'']),
     (''PROMOTION_DENIED'', identity_fields @ [''queue_seq'', ''actor'', ''event_id'', ''authority_snapshot_hash'', ''decision_id'',
         ''reason'', ''base_priority'', ''effective_priority'', ''observed_at'']),
     (''RENEW'', request_fields @ [''actor'', ''owner_agent'', ''fence'', ''bail_epoch'', ''authority_snapshot_hash'',
         ''lease_deadline'', ''event_id'']),
     (''RELEASE'', request_fields @ [''actor'', ''owner_agent'', ''fence'', ''bail_epoch'', ''authority_snapshot_hash'',
         ''event_id'']),
     (''CANCEL'', request_fields @ [''actor'', ''owner_agent'', ''bail_epoch'', ''authority_snapshot_hash'', ''event_id'']),
     (''WAIT_TIMEOUT'', request_fields @ [''actor'', ''authority_snapshot_hash'', ''observed_at'', ''event_id'']),
     (''LEASE_EXPIRED'', request_fields @ [''actor'', ''fence'', ''authority_snapshot_hash'', ''observed_at'', ''event_id'']),
     (''WAIT_OWNER_RECLAIMED'', request_fields @ [''actor'', ''owner_agent'', ''no_lease_fence'', ''bail_epoch'',
         ''authority_snapshot_hash'', ''event_id'']),
     (''LEASE_OWNER_RECLAIMED'', request_fields @ [''actor'', ''owner_agent'', ''fence'', ''bail_epoch'', ''authority_snapshot_hash'',
         ''event_id''])]"

definition admission_effect_fields :: "(string \<times> string list) list" where
  "admission_effect_fields =
    [(''RecordLeaseGrant'', request_fields @ [''event_id'', ''authority_snapshot_hash'', ''decision_id'', ''policy_version'',
         ''fence'', ''lease_deadline'', ''base_priority'', ''effective_priority'', ''observed_at'']),
     (''RecordQueueEntry'', request_fields @ [''event_id'', ''authority_snapshot_hash'', ''decision_id'', ''policy_version'',
         ''queue_seq'', ''enqueued_at'', ''wait_deadline'', ''base_priority'',
         ''effective_priority'', ''observed_at'']),
     (''RecordDenial'', request_fields @ [''event_id'', ''authority_snapshot_hash'', ''decision_id'', ''reason'',
         ''base_priority'', ''effective_priority'', ''observed_at'']),
     (''RecordOverload'', request_fields @ [''event_id'', ''authority_snapshot_hash'', ''decision_id'', ''reason'', ''queue_depth'',
         ''queue_capacity'', ''retry_after_at'', ''base_priority'', ''effective_priority'',
         ''observed_at'']),
     (''RecordQueueObservation'', request_fields @ [''event_id'', ''authority_snapshot_hash'', ''decision_id'', ''blocker_fingerprint'',
         ''base_priority'', ''effective_priority'', ''observed_at'']),
     (''RecordLeaseRenewal'', request_fields @ [''event_id'', ''authority_snapshot_hash'', ''fence'', ''lease_deadline'']),
     (''RecordRelease'', request_fields @ [''event_id'', ''authority_snapshot_hash'', ''fence'']),
     (''RecordCancellation'', request_fields @ [''event_id'', ''authority_snapshot_hash'']),
     (''RecordTimeout'', request_fields @ [''event_id'', ''authority_snapshot_hash'', ''observed_at'']),
     (''RecordExpiration'', request_fields @ [''event_id'', ''authority_snapshot_hash'', ''fence'', ''observed_at'']),
     (''RecordWaitOwnerReclaim'', request_fields @ [''event_id'', ''authority_snapshot_hash'', ''owner_agent'', ''no_lease_fence'',
         ''bail_epoch'']),
     (''RecordLeaseOwnerReclaim'', request_fields @ [''event_id'', ''authority_snapshot_hash'', ''owner_agent'', ''fence'', ''bail_epoch'']),
     (''AuditInvalidTransition'', [''state'', ''event'', ''actor'', ''reason'', ''event_id''])]"

definition admission_variant_fields :: "(string \<times> string list) list" where
  "admission_variant_fields =
    [(''ADMISSION_GRANTED'', [''fence'', ''lease_deadline'', ''base_priority'', ''effective_priority'', ''observed_at'']),
     (''PROMOTION_GRANTED'', [''queue_seq'', ''fence'', ''lease_deadline'', ''base_priority'', ''effective_priority'',
         ''observed_at'']),
     (''ADMISSION_QUEUED'', [''queue_seq'', ''enqueued_at'', ''wait_deadline'', ''base_priority'',
         ''effective_priority'', ''observed_at'']),
     (''ADMISSION_DENIED'', [''reason'', ''base_priority'', ''effective_priority'', ''observed_at'']),
     (''ADMISSION_REJECTED'', [''reason'', ''queue_depth'', ''queue_capacity'', ''retry_after_at'', ''base_priority'',
         ''effective_priority'', ''observed_at'']),
     (''PROMOTION_DENIED'', [''queue_seq'', ''reason'', ''base_priority'', ''effective_priority'', ''observed_at'']),
     (''PROMOTION_BLOCKED'', [''queue_seq'', ''blocker_fingerprint'', ''base_priority'', ''effective_priority'',
         ''observed_at''])]"

section \<open>Transitions\<close>

definition copy :: "string \<Rightarrow> string \<times> json" where
  "copy f = (f, JStr (''event.'' @ f))"

definition effect_binding :: "string \<Rightarrow> dict" where
  "effect_binding e = map copy (case map_of admission_effect_fields e of None \<Rightarrow> [] | Some fs \<Rightarrow> fs)"

definition transition_row ::
  "string \<Rightarrow> string \<Rightarrow> string \<Rightarrow> string \<Rightarrow> string \<Rightarrow> dict \<Rightarrow> string \<Rightarrow> contract_transition" where
  "transition_row tid src ev dst guard updates effect =
     \<lparr>ct_id = tid, ct_from = src, ct_event = ev, ct_to = dst, ct_guard = guard, ct_updates = updates,
      ct_effects = [effect], ct_bindings = [(effect, effect_binding effect)]\<rparr>"

definition admission_transitions :: "contract_transition list" where
  "admission_transitions =
    [transition_row ''grant-immediate'' ''REQUESTED'' ''ADMISSION_GRANTED'' ''HELD'' ''admission_identity_current''
      (map copy [''authority_snapshot_hash'', ''decision_id'', ''fence'', ''lease_deadline'',
         ''base_priority'', ''effective_priority'', ''observed_at''])
      ''RecordLeaseGrant'',
     transition_row ''queue-request'' ''REQUESTED'' ''ADMISSION_QUEUED'' ''PENDING'' ''admission_identity_current''
      (map copy [''authority_snapshot_hash'', ''decision_id'', ''queue_seq'', ''enqueued_at'',
         ''wait_deadline'', ''base_priority'', ''effective_priority'', ''observed_at''])
      ''RecordQueueEntry'',
     transition_row ''deny-request'' ''REQUESTED'' ''ADMISSION_DENIED'' ''DENIED'' ''admission_identity_current''
      (map copy [''authority_snapshot_hash'', ''decision_id''] @ [(''terminal_reason'', JStr ''event.reason'')] @
        map copy [''base_priority'', ''effective_priority'', ''observed_at''])
      ''RecordDenial'',
     transition_row ''reject-overload'' ''REQUESTED'' ''ADMISSION_REJECTED'' ''REJECTED'' ''admission_identity_current''
      (map copy [''authority_snapshot_hash'', ''decision_id''] @ [(''terminal_reason'', JStr ''event.reason'')] @
        map copy [''queue_depth'', ''queue_capacity'', ''retry_after_at'', ''base_priority'',
         ''effective_priority'', ''observed_at''])
      ''RecordOverload'',
     transition_row ''cancel-requested'' ''REQUESTED'' ''CANCEL'' ''CANCELLED'' ''wait_owner_current''
      (map copy [''authority_snapshot_hash''])
      ''RecordCancellation'',
     transition_row ''promote-pending'' ''PENDING'' ''PROMOTION_GRANTED'' ''HELD'' ''promotion_identity_current''
      (map copy [''authority_snapshot_hash'', ''decision_id'', ''fence'', ''lease_deadline'',
         ''base_priority'', ''effective_priority'', ''observed_at''])
      ''RecordLeaseGrant'',
     transition_row ''observe-blocked'' ''PENDING'' ''PROMOTION_BLOCKED'' ''PENDING'' ''promotion_identity_current''
      (map copy [''authority_snapshot_hash'', ''decision_id'', ''blocker_fingerprint'',
         ''base_priority'', ''effective_priority'', ''observed_at''])
      ''RecordQueueObservation'',
     transition_row ''deny-pending'' ''PENDING'' ''PROMOTION_DENIED'' ''DENIED'' ''promotion_identity_current''
      (map copy [''authority_snapshot_hash'', ''decision_id''] @ [(''terminal_reason'', JStr ''event.reason'')] @
        map copy [''base_priority'', ''effective_priority'', ''observed_at''])
      ''RecordDenial'',
     transition_row ''timeout-pending'' ''PENDING'' ''WAIT_TIMEOUT'' ''TIMED_OUT'' ''wait_timeout_due''
      (map copy [''authority_snapshot_hash''])
      ''RecordTimeout'',
     transition_row ''cancel-pending'' ''PENDING'' ''CANCEL'' ''CANCELLED'' ''wait_owner_current''
      (map copy [''authority_snapshot_hash''])
      ''RecordCancellation'',
     transition_row ''reclaim-pending-owner'' ''PENDING'' ''WAIT_OWNER_RECLAIMED'' ''CANCELLED'' ''pending_owner_reclaim_current''
      (map copy [''authority_snapshot_hash''])
      ''RecordWaitOwnerReclaim'',
     transition_row ''renew-held'' ''HELD'' ''RENEW'' ''HELD'' ''lease_authority_current''
      (map copy [''authority_snapshot_hash'', ''lease_deadline''])
      ''RecordLeaseRenewal'',
     transition_row ''release-held'' ''HELD'' ''RELEASE'' ''RELEASED'' ''lease_authority_current''
      (map copy [''authority_snapshot_hash''])
      ''RecordRelease'',
     transition_row ''expire-held'' ''HELD'' ''LEASE_EXPIRED'' ''EXPIRED'' ''lease_timeout_due''
      (map copy [''authority_snapshot_hash''])
      ''RecordExpiration'',
     transition_row ''reclaim-held-owner'' ''HELD'' ''LEASE_OWNER_RECLAIMED'' ''EXPIRED'' ''held_owner_reclaim_current''
      (map copy [''authority_snapshot_hash''])
      ''RecordLeaseOwnerReclaim'']"

definition admission_spec :: contract_spec where
  "admission_spec =
     \<lparr>sp_events = map (\<lambda>(ev, fs). (ev, schema_of_fields fs)) admission_event_fields,
      sp_effects = map (\<lambda>(ef, fs). (ef, schema_of_fields fs)) admission_effect_fields,
      sp_decision_schema = ''admission_decision/v2'',
      sp_common_fields = ''event_type'' # identity_fields @ [''authority_snapshot_hash''],
      sp_variant_fields = admission_variant_fields, sp_transitions = admission_transitions\<rparr>"

end
