(* ===== verification/Contract.thy ===== *)
theory Contract
  imports ContractSpec Fsm
begin

text \<open>
  The executable contract of an admission request, \<open>omd_server/admission_contract.py\<close>: the reducer
  \<open>step\<close> over the table of \<open>ContractSpec\<close>, the identity of decisions, and the projection to the
  states of the orbit row. A payload and a context are JSON objects; \<open>sha\<close> is \<open>sha256_json\<close>. A
  rejection carries its reason.
\<close>

section \<open>Values\<close>

text \<open>\<open>d.get(f)\<close>, and Python's \<open>==\<close>, which compares numbers of any type by value.\<close>

definition pget :: "string \<Rightarrow> dict \<Rightarrow> json" where
  "pget f d = (case map_of d f of None \<Rightarrow> JNull | Some v \<Rightarrow> v)"

fun num_of :: "json \<Rightarrow> pyfloat option" where
  "num_of (JBool b) = Some (Fin (if b then 1 else 0))"
| "num_of (JInt i) = Some (Fin (of_int i))"
| "num_of (JFloat x) = Some x"
| "num_of _ = None"

definition py_eq :: "json \<Rightarrow> json \<Rightarrow> bool" where
  "py_eq a b =
     (case (num_of a, num_of b) of
        (Some x, Some y) \<Rightarrow> x = y \<and> x \<noteq> NaN
      | (None, None) \<Rightarrow> a = b
      | _ \<Rightarrow> False)"

definition is_sha256 :: "string \<Rightarrow> bool" where
  "is_sha256 s \<longleftrightarrow> length s = 64 \<and> list_all (\<lambda>c. c \<in> set ''0123456789abcdef'') s"

fun valid_type :: "string \<Rightarrow> json \<Rightarrow> bool" where
  "valid_type ty (JStr s) =
     (if ty = ''string'' \<or> ty = ''actor-id'' then s \<noteq> [] else ty = ''sha256'' \<and> is_sha256 s)"
| "valid_type ty (JInt i) =
     (if ty = ''non-negative integer'' then i \<ge> 0 else ty = ''integer'' \<or> ty = ''timestamp'')"
| "valid_type ty (JFloat x) = (ty = ''timestamp'' \<and> finite_float x \<noteq> None)"
| "valid_type ty _ = False"

definition valid_property :: "json \<Rightarrow> field_decl \<Rightarrow> bool" where
  "valid_property v d \<longleftrightarrow>
     valid_type (dc_type d) v \<and> (case dc_const d of None \<Rightarrow> True | Some c \<Rightarrow> py_eq v c)"

fun validate_properties :: "(string \<times> field_decl) list \<Rightarrow> dict \<Rightarrow> (string, unit) result" where
  "validate_properties [] payload = Inr ()"
| "validate_properties ((f, d) # ps) payload =
     (case map_of payload f of
        None \<Rightarrow> validate_properties ps payload
      | Some v \<Rightarrow>
          if valid_property v d then validate_properties ps payload
          else Inl (''invalid_property:'' @ f @ '':'' @ dc_type d))"

section \<open>Decisions\<close>

fun variant_fields :: "(string \<times> string list) list \<Rightarrow> string \<Rightarrow> (string, string list) result" where
  "variant_fields [] ev =
     Inl (''event '' @ [char_of (39 :: nat)] @ ev @ [char_of (39 :: nat)] @ '' is not an admission decision'')"
| "variant_fields ((declared, fs) # vs) ev =
     (if ev \<in> set (split_on (CHR ''|'') declared) then Inr fs else variant_fields vs ev)"

fun join_text :: "string \<Rightarrow> string list \<Rightarrow> string" where
  "join_text c [] = []"
| "join_text c [x] = x"
| "join_text c (x # y # xs) = x @ c @ join_text c (y # xs)"

definition put_all :: "dict \<Rightarrow> dict \<Rightarrow> dict" where
  "put_all kvs d = fold (\<lambda>(k, v). dict_put k v) kvs d"

definition canonical_decision_envelope :: "contract_spec \<Rightarrow> string \<Rightarrow> dict \<Rightarrow> (string, dict) result" where
  "canonical_decision_envelope sp ev payload =
     bind_res (variant_fields (sp_variant_fields sp) ev) (\<lambda>vs.
       let fs = filter (\<lambda>f. f \<noteq> ''event_type'') (sp_common_fields sp) @ vs;
           missing = filter (\<lambda>f. map_of payload f = None) fs
       in if missing \<noteq> [] then Inl (''missing decision fields: '' @ join_text '', '' missing)
          else Inr (put_all (map (\<lambda>f. (f, pget f payload)) fs)
            [(''schema'', JStr (sp_decision_schema sp)), (''event_type'', JStr ev)]))"

definition admission_decision_id ::
  "(json \<Rightarrow> string) \<Rightarrow> contract_spec \<Rightarrow> string \<Rightarrow> dict \<Rightarrow> (string, string) result" where
  "admission_decision_id sha sp ev payload =
     bind_res (canonical_decision_envelope sp ev payload) (\<lambda>e. Inr (sha (JDict e)))"

definition bind_decision_id ::
  "(json \<Rightarrow> string) \<Rightarrow> contract_spec \<Rightarrow> string \<Rightarrow> dict \<Rightarrow> (string, dict) result" where
  "bind_decision_id sha sp ev payload =
     bind_res (admission_decision_id sha sp ev payload) (\<lambda>i. Inr (dict_put ''decision_id'' (JStr i) payload))"

section \<open>Guards\<close>

fun same_fields :: "dict \<Rightarrow> dict \<Rightarrow> string list \<Rightarrow> (string, unit) result" where
  "same_fields ctx payload [] = Inr ()"
| "same_fields ctx payload (f # fs) =
     (if py_eq (pget f ctx) (pget f payload) then same_fields ctx payload fs
      else Inl (''identity_mismatch:'' @ f))"

fun finite_number :: "json \<Rightarrow> rat option" where
  "finite_number (JInt i) = Some (of_int i)"
| "finite_number (JFloat x) = finite_float x"
| "finite_number _ = None"

definition deadline_passed :: "json \<Rightarrow> json \<Rightarrow> string \<Rightarrow> string \<Rightarrow> (string, unit) result" where
  "deadline_passed deadline observed invalid early =
     (case (finite_number deadline, finite_number observed) of
        (Some d, Some t) \<Rightarrow> if t \<ge> d then Inr () else Inl early
      | _ \<Rightarrow> Inl invalid)"

definition identity_guard ::
  "(json \<Rightarrow> string) \<Rightarrow> contract_spec \<Rightarrow> string \<Rightarrow> dict \<Rightarrow> string \<Rightarrow> dict \<Rightarrow> (string, unit) result" where
  "identity_guard sha sp guard ctx ev payload =
     bind_res (same_fields ctx payload identity_fields) (\<lambda>_.
       if guard = ''promotion_identity_current'' \<and> \<not> py_eq (pget ''queue_seq'' ctx) (pget ''queue_seq'' payload)
       then Inl ''identity_mismatch:queue_seq''
       else case admission_decision_id sha sp ev payload of
           Inl e \<Rightarrow> Inl (''invalid_decision_envelope:'' @ e)
         | Inr i \<Rightarrow> if py_eq (pget ''decision_id'' payload) (JStr i) then Inr () else Inl ''decision_id_mismatch'')"

definition evaluate_decision_guard ::
  "(json \<Rightarrow> string) \<Rightarrow> contract_spec \<Rightarrow> string \<Rightarrow> string \<Rightarrow> dict \<Rightarrow> string \<Rightarrow> dict \<Rightarrow> (string, unit) result" where
  "evaluate_decision_guard sha sp trusted guard ctx ev payload =
     (if \<not> py_eq (pget ''authority_snapshot_hash'' payload) (JStr trusted) then Inl ''authority_snapshot_mismatch''
      else if guard = ''admission_identity_current'' \<or> guard = ''promotion_identity_current'' then
        identity_guard sha sp guard ctx ev payload
      else if guard = ''lease_authority_current'' \<or> guard = ''held_owner_reclaim_current'' then
        same_fields ctx payload lease_fields
      else if guard = ''wait_owner_current'' \<or> guard = ''pending_owner_reclaim_current'' then
        bind_res (same_fields ctx payload owner_fields) (\<lambda>_.
          if guard = ''pending_owner_reclaim_current'' \<and> \<not> py_eq (pget ''no_lease_fence'' payload) (JInt 0)
          then Inl ''pending_reclaim_has_lease_fence'' else Inr ())
      else if guard = ''wait_timeout_due'' then
        bind_res (same_fields ctx payload request_fields) (\<lambda>_.
          deadline_passed (pget ''wait_deadline'' ctx) (pget ''observed_at'' payload)
            ''invalid_wait_deadline'' ''wait_deadline_not_due'')
      else if guard = ''lease_timeout_due'' then
        bind_res (same_fields ctx payload request_fields) (\<lambda>_.
          if \<not> py_eq (pget ''fence'' ctx) (pget ''fence'' payload) then Inl ''identity_mismatch:fence''
          else deadline_passed (pget ''lease_deadline'' ctx) (pget ''observed_at'' payload)
            ''invalid_lease_deadline'' ''lease_deadline_not_due'')
      else Inl (''unknown_guard:'' @ guard))"

section \<open>The reducer\<close>

definition starts_with :: "string \<Rightarrow> string \<Rightarrow> bool" where
  "starts_with p s \<longleftrightarrow> take (length p) s = p"

fun contract_resolve :: "json \<Rightarrow> dict \<Rightarrow> dict \<Rightarrow> json" where
  "contract_resolve (JStr s) ctx payload =
     (if starts_with ''event.'' s then pget (drop 6 s) payload
      else if starts_with ''configuration.'' s then pget (drop 14 s) ctx
      else if s = ''rejection.reason'' then JStr ''invalid_transition'' else JStr s)"
| "contract_resolve e ctx payload = e"

type_synonym decisions = "(json \<times> dict) list"

record step_result =
  sr_context :: dict
  sr_effects :: "dict list"
  sr_seen :: decisions
  sr_accepted :: bool
  sr_replayed :: bool
  sr_reason :: string

definition contract_audit :: "dict \<Rightarrow> string \<Rightarrow> dict \<Rightarrow> string \<Rightarrow> decisions \<Rightarrow> step_result" where
  "contract_audit ctx ev payload why seen =
     \<lparr>sr_context = ctx,
      sr_effects = [[(''type'', JStr ''AuditInvalidTransition''), (''state'', pget ''state'' ctx), (''event'', JStr ev),
         (''actor'', pget ''actor'' payload), (''reason'', JStr why), (''event_id'', pget ''event_id'' payload)]],
      sr_seen = seen, sr_accepted = False, sr_replayed = False, sr_reason = why\<rparr>"

definition check_schema :: "contract_spec \<Rightarrow> string \<Rightarrow> dict \<Rightarrow> (string, unit) result" where
  "check_schema sp ev payload =
     (case map_of (sp_events sp) ev of
        None \<Rightarrow> Inl ''unknown_event''
      | Some sc \<Rightarrow>
          let missing = filter (\<lambda>f. map_of payload f = None) (cs_required sc) in
          if missing \<noteq> [] then Inl (''missing_required:'' @ join_text '','' missing)
          else validate_properties (cs_properties sc) payload)"

text \<open>The decision of an event that carries one: a replay of a seen decision, or a fresh one.\<close>

datatype decision_check = Replay | Fresh "(json \<times> dict) option"

definition check_decision ::
  "(json \<Rightarrow> string) \<Rightarrow> contract_spec \<Rightarrow> decisions \<Rightarrow> string \<Rightarrow> dict \<Rightarrow> (string, decision_check) result" where
  "check_decision sha sp seen ev payload =
     (let i = pget ''decision_id'' payload in
      if i = JNull then Inr (Fresh None)
      else case canonical_decision_envelope sp ev payload of
          Inl e \<Rightarrow> Inl (''invalid_envelope:'' @ e)
        | Inr env \<Rightarrow>
            (case map_of seen i of
               Some prior \<Rightarrow> if prior = env then Inr Replay else Inl ''decision_envelope_conflict''
             | None \<Rightarrow>
                 if py_eq (JStr (sha (JDict env))) i then Inr (Fresh (Some (i, env)))
                 else Inl ''decision_id_mismatch''))"

definition find_transition :: "contract_spec \<Rightarrow> dict \<Rightarrow> string \<Rightarrow> contract_transition option" where
  "find_transition sp ctx ev =
     List.find (\<lambda>t. py_eq (JStr (ct_from t)) (pget ''state'' ctx) \<and> ct_event t = ev) (sp_transitions sp)"

definition transition_effect :: "contract_transition \<Rightarrow> dict \<Rightarrow> dict \<Rightarrow> string \<Rightarrow> dict" where
  "transition_effect t ctx payload ef =
     put_all (map (\<lambda>(f, e). (f, contract_resolve e ctx payload))
         (case map_of (ct_bindings t) ef of None \<Rightarrow> [] | Some b \<Rightarrow> b))
       [(''type'', JStr ef)]"

fun effects_of ::
  "contract_spec \<Rightarrow> contract_transition \<Rightarrow> dict \<Rightarrow> dict \<Rightarrow> string list \<Rightarrow> (string, dict list) result" where
  "effects_of sp t ctx payload [] = Inr []"
| "effects_of sp t ctx payload (ef # efs) =
     (let e = transition_effect t ctx payload ef;
          sc = (case map_of (sp_effects sp) ef of None \<Rightarrow> \<lparr>cs_required = [], cs_properties = []\<rparr> | Some sc \<Rightarrow> sc);
          missing = filter (\<lambda>f. map_of e f = None) (cs_required sc)
      in if missing \<noteq> [] then Inl (''invalid_effect:'' @ ef @ '':missing_required:'' @ join_text '','' missing)
         else case validate_properties (cs_properties sc) e of
             Inl why \<Rightarrow> Inl (''invalid_effect:'' @ ef @ '':'' @ why)
           | Inr _ \<Rightarrow> bind_res (effects_of sp t ctx payload efs) (\<lambda>es. Inr (e # es)))"

definition next_context :: "contract_transition \<Rightarrow> dict \<Rightarrow> dict \<Rightarrow> dict" where
  "next_context t ctx payload =
     put_all (map (\<lambda>(f, e). (f, contract_resolve e ctx payload)) (ct_updates t))
       (dict_put ''state'' (JStr (ct_to t)) ctx)"

definition fire_transition ::
  "(json \<Rightarrow> string) \<Rightarrow> contract_spec \<Rightarrow> string \<Rightarrow> dict \<Rightarrow> string \<Rightarrow> dict \<Rightarrow> (string, dict \<times> dict list) result" where
  "fire_transition sha sp trusted ctx ev payload =
     (case find_transition sp ctx ev of
        None \<Rightarrow> Inl ''invalid_transition''
      | Some t \<Rightarrow>
          bind_res (evaluate_decision_guard sha sp trusted (ct_guard t) ctx ev payload) (\<lambda>_.
            bind_res (effects_of sp t ctx payload (ct_effects t)) (\<lambda>es.
              Inr (next_context t ctx payload, es))))"

definition admission_step ::
  "(json \<Rightarrow> string) \<Rightarrow> contract_spec \<Rightarrow> string \<Rightarrow> decisions \<Rightarrow> dict \<Rightarrow> string \<Rightarrow> json \<Rightarrow> step_result" where
  "admission_step sha sp trusted seen ctx ev event =
     (case event of
        JDict payload \<Rightarrow>
          (case bind_res (check_schema sp ev payload) (\<lambda>_. check_decision sha sp seen ev payload) of
             Inl why \<Rightarrow> contract_audit ctx ev payload why seen
           | Inr Replay \<Rightarrow>
               \<lparr>sr_context = ctx, sr_effects = [], sr_seen = seen, sr_accepted = True, sr_replayed = True,
                sr_reason = ''''\<rparr>
           | Inr (Fresh decision) \<Rightarrow>
               (case fire_transition sha sp trusted ctx ev payload of
                  Inl why \<Rightarrow> contract_audit ctx ev payload why seen
                | Inr (ctx', effects) \<Rightarrow>
                    \<lparr>sr_context = ctx', sr_effects = effects,
                     sr_seen = (case decision of None \<Rightarrow> seen | Some d \<Rightarrow> d # seen),
                     sr_accepted = True, sr_replayed = False, sr_reason = ''''\<rparr>))
      | _ \<Rightarrow> contract_audit ctx ev [] ''payload_not_object'' [])"

section \<open>The projection\<close>

record projection =
  pj_state :: "string option"
  pj_reason :: "json option"

definition or_default :: "json \<Rightarrow> string \<Rightarrow> json option" where
  "or_default v d = Some (if truthy (Some v) then v else JStr d)"

definition project_legacy :: "string \<Rightarrow> dict \<Rightarrow> (string, projection) result" where
  "project_legacy st ctx =
     (let why = pget ''terminal_reason'' ctx in
      if st = ''REQUESTED'' then Inr \<lparr>pj_state = None, pj_reason = None\<rparr>
      else if st \<in> {''PENDING'', ''HELD'', ''RELEASED'', ''EXPIRED''} then Inr \<lparr>pj_state = Some st, pj_reason = None\<rparr>
      else if st = ''DENIED'' then Inr \<lparr>pj_state = Some ''DENIED'', pj_reason = or_default why ''policy_or_cycle_denial''\<rparr>
      else if st = ''CANCELLED'' then Inr \<lparr>pj_state = Some ''DENIED'', pj_reason = or_default why ''cancelled''\<rparr>
      else if st = ''TIMED_OUT'' then Inr \<lparr>pj_state = Some ''DENIED'', pj_reason = or_default why ''wait_timeout''\<rparr>
      else if st = ''REJECTED'' then Inr \<lparr>pj_state = None, pj_reason = or_default why ''rejected''\<rparr>
      else Inl (''unknown semantic orbit state: '' @ st))"

section \<open>Properties\<close>

lemma step_accepted:
  assumes "admission_step sha sp trusted seen ctx ev (JDict payload) = r" and "sr_accepted r" and "\<not> sr_replayed r"
  obtains t d es where "find_transition sp ctx ev = Some t"
    and "check_schema sp ev payload = Inr ()" and "check_decision sha sp seen ev payload = Inr (Fresh d)"
    and "evaluate_decision_guard sha sp trusted (ct_guard t) ctx ev payload = Inr ()"
    and "sr_context r = next_context t ctx payload" and "effects_of sp t ctx payload (ct_effects t) = Inr es"
    and "sr_effects r = es" and "sr_seen r = (case d of None \<Rightarrow> seen | Some e \<Rightarrow> e # seen)"
proof (cases "bind_res (check_schema sp ev payload) (\<lambda>_. check_decision sha sp seen ev payload)")
  case (Inl why)
  then show thesis using assms by (auto simp: admission_step_def contract_audit_def)
next
  case (Inr c)
  show thesis
  proof (cases c)
    case Replay
    then show thesis using assms Inr by (auto simp: admission_step_def)
  next
    case (Fresh d)
    have "\<exists>c es. fire_transition sha sp trusted ctx ev payload = Inr (c, es)"
      using assms Inr Fresh by (auto simp: admission_step_def contract_audit_def split: sum.splits)
    then obtain c es where fire: "fire_transition sha sp trusted ctx ev payload = Inr (c, es)" by blast
    then obtain t where t: "find_transition sp ctx ev = Some t"
        "evaluate_decision_guard sha sp trusted (ct_guard t) ctx ev payload = Inr ()"
        "effects_of sp t ctx payload (ct_effects t) = Inr es" "c = next_context t ctx payload"
      by (auto simp: fire_transition_def bind_res_Inr_iff split: option.splits)
    show thesis
      using that [OF t(1) _ _ t(2)] t(3,4) Inr Fresh fire assms
      by (auto simp: admission_step_def bind_res_Inr_iff)
  qed
qed

lemma find_SomeD: "List.find p xs = Some x \<Longrightarrow> x \<in> set xs \<and> p x"
  by (induction xs) (auto split: if_splits)

lemma find_transition_D:
  assumes "find_transition sp ctx ev = Some t"
  shows "t \<in> set (sp_transitions sp) \<and> py_eq (JStr (ct_from t)) (pget ''state'' ctx) \<and> ct_event t = ev"
  using find_SomeD [OF assms [unfolded find_transition_def]] by simp

lemma same_fields_D: "same_fields ctx payload fs = Inr u \<Longrightarrow> f \<in> set fs \<Longrightarrow> py_eq (pget f ctx) (pget f payload)"
  by (induction fs) (auto split: if_splits)

lemma py_eq_str [simp]: "py_eq (JStr s) v \<longleftrightarrow> v = JStr s" "py_eq v (JStr s) \<longleftrightarrow> v = JStr s"
  by (cases v, auto simp: py_eq_def)+

lemma bind_res_fst: "bind_res r f = Inr y \<Longrightarrow> \<exists>x. r = Inr x"
  by (cases r) auto

lemma request_in_groups: "set request_fields \<subseteq> set identity_fields" "set request_fields \<subseteq> set owner_fields"
    "set request_fields \<subseteq> set lease_fields"
  by (auto simp: request_fields_def identity_fields_def owner_fields_def lease_fields_def)

text \<open>Whatever the guard: the snapshot is the trusted one and the event names this request.\<close>

lemma guard_identity:
  assumes "evaluate_decision_guard sha sp trusted guard ctx ev payload = Inr ()"
  shows "pget ''authority_snapshot_hash'' payload = JStr trusted \<and>
    (\<forall>f\<in>set request_fields. py_eq (pget f ctx) (pget f payload))"
proof
  show snap: "pget ''authority_snapshot_hash'' payload = JStr trusted"
    by (rule ccontr) (use assms in \<open>simp add: evaluate_decision_guard_def\<close>)
  let ?A = "guard = ''admission_identity_current'' \<or> guard = ''promotion_identity_current''"
  let ?B = "guard = ''lease_authority_current'' \<or> guard = ''held_owner_reclaim_current''"
  let ?C = "guard = ''wait_owner_current'' \<or> guard = ''pending_owner_reclaim_current''"
  let ?D = "guard = ''wait_timeout_due''" and ?E = "guard = ''lease_timeout_due''"
  note eval = assms [unfolded evaluate_decision_guard_def snap py_eq_str not_True_eq_False simp_thms if_False]
  have "\<exists>fs. same_fields ctx payload fs = Inr () \<and> set request_fields \<subseteq> set fs"
  proof (cases ?A)
    case True
    then have "identity_guard sha sp guard ctx ev payload = Inr ()" using eval by (simp only: if_True)
    then show ?thesis using request_in_groups by (auto simp: identity_guard_def bind_res_Inr_iff)
  next
    case A: False
    show ?thesis
    proof (cases ?B)
      case True
      then have "same_fields ctx payload lease_fields = Inr ()" using eval A by (simp only: if_True if_False)
      then show ?thesis using request_in_groups by blast
    next
      case B: False
      show ?thesis
      proof (cases ?C)
        case True
        then have "\<exists>u. same_fields ctx payload owner_fields = Inr u"
          using eval A B by (simp only: if_True if_False) (erule bind_res_fst)
        then show ?thesis using request_in_groups by auto
      next
        case C: False
        show ?thesis
        proof (cases "?D \<or> ?E")
          case True
          then have "\<exists>u. same_fields ctx payload request_fields = Inr u"
            using eval A B C by (cases ?D) (simp only: if_True if_False simp_thms, erule bind_res_fst)+
          then show ?thesis by auto
        next
          case False
          then show ?thesis using eval A B C by (simp only: if_False de_Morgan_disj sum.distinct)
        qed
      qed
    qed
  qed
  then show "\<forall>f\<in>set request_fields. py_eq (pget f ctx) (pget f payload)"
    using same_fields_D by blast
qed

lemma pget_dict_put: "pget f (dict_put k v d) = (if f = k then v else pget f d)"
  by (simp add: pget_def)

lemma pget_put_all: "f \<notin> fst ` set kvs \<Longrightarrow> pget f (put_all kvs d) = pget f d"
  unfolding put_all_def by (induction kvs arbitrary: d) (auto simp: pget_dict_put)

lemma admission_updates_keep_state: "list_all (\<lambda>t. ''state'' \<notin> set (map fst (ct_updates t))) admission_transitions"
  by code_simp

lemma next_state:
  assumes "t \<in> set admission_transitions"
  shows "pget ''state'' (next_context t ctx payload) = JStr (ct_to t)"
proof -
  have "''state'' \<notin> fst ` set (ct_updates t)"
    using admission_updates_keep_state assms by (auto simp: list_all_iff)
  then show ?thesis unfolding next_context_def by (subst pget_put_all) (force simp: pget_dict_put)+
qed
text \<open>Only a current event moves a request: when the contract accepts an event, the event carries
  the trusted snapshot hash and the request's own repository, request id, orbit and generation, and
  the new state is the target of a transition that the table has from the old state under that event.\<close>

theorem accepted_event_is_current:
  assumes "admission_step sha admission_spec trusted seen ctx ev (JDict payload) = r"
    and "sr_accepted r" and "\<not> sr_replayed r"
  shows "pget ''authority_snapshot_hash'' payload = JStr trusted \<and>
    (\<forall>f\<in>set request_fields. py_eq (pget f ctx) (pget f payload)) \<and>
    (\<exists>t\<in>set admission_transitions. ct_event t = ev \<and> pget ''state'' ctx = JStr (ct_from t) \<and>
       pget ''state'' (sr_context r) = JStr (ct_to t))"
proof (rule step_accepted [OF assms])
  fix t d es
  assume t: "find_transition admission_spec ctx ev = Some t"
    and guard: "evaluate_decision_guard sha admission_spec trusted (ct_guard t) ctx ev payload = Inr ()"
    and ctx: "sr_context r = next_context t ctx payload"
  have mem: "t \<in> set admission_transitions" "pget ''state'' ctx = JStr (ct_from t)" "ct_event t = ev"
    using find_transition_D [OF t] by (auto simp: admission_spec_def)
  have "pget ''state'' (sr_context r) = JStr (ct_to t)" using next_state [OF mem(1)] ctx by simp
  then show ?thesis using guard_identity [OF guard] mem by (intro conjI bexI [OF _ mem(1)]) simp_all
qed

text \<open>A refused event is inert: the context and the decisions seen so far stay as they are, and
  the only effect is one audit record with the reason.\<close>

theorem refused_event_is_inert:
  assumes "\<not> sr_accepted (admission_step sha sp trusted seen ctx ev (JDict payload))"
  shows "sr_context (admission_step sha sp trusted seen ctx ev (JDict payload)) = ctx \<and>
    sr_seen (admission_step sha sp trusted seen ctx ev (JDict payload)) = seen \<and>
    map (pget ''type'') (sr_effects (admission_step sha sp trusted seen ctx ev (JDict payload))) =
      [JStr ''AuditInvalidTransition''] \<and>
    map (pget ''reason'') (sr_effects (admission_step sha sp trusted seen ctx ev (JDict payload))) =
      [JStr (sr_reason (admission_step sha sp trusted seen ctx ev (JDict payload)))]"
proof (cases "bind_res (check_schema sp ev payload) (\<lambda>_. check_decision sha sp seen ev payload)")
  case (Inl why)
  then show ?thesis by (simp add: admission_step_def contract_audit_def pget_def)
next
  case (Inr c)
  then show ?thesis
    using assms by (cases c; cases "fire_transition sha sp trusted ctx ev payload")
      (auto simp: admission_step_def contract_audit_def pget_def)
qed

lemma decision_of_fresh:
  assumes "check_decision sha sp seen ev payload = Inr (Fresh d)" and "pget ''decision_id'' payload \<noteq> JNull"
  obtains env where "canonical_decision_envelope sp ev payload = Inr env"
    and "d = Some (pget ''decision_id'' payload, env)"
  using assms by (auto simp: check_decision_def Let_def split: sum.splits option.splits if_splits)

text \<open>A decision takes effect once: after an accepted decision, the same event is answered as a
  replay without effect in whatever context it arrives, and an event that presents the same decision id
  with another envelope is refused.\<close>

theorem decision_takes_effect_once:
  assumes "admission_step sha sp trusted seen ctx ev (JDict payload) = r" and "sr_accepted r"
    and "\<not> sr_replayed r" and "pget ''decision_id'' payload \<noteq> JNull"
  shows "(let r2 = admission_step sha sp trusted' (sr_seen r) ctx' ev (JDict payload) in
      sr_accepted r2 \<and> sr_replayed r2 \<and> sr_context r2 = ctx' \<and> sr_effects r2 = [] \<and> sr_seen r2 = sr_seen r) \<and>
    (pget ''decision_id'' payload' = pget ''decision_id'' payload \<longrightarrow>
     canonical_decision_envelope sp ev' payload' \<noteq> canonical_decision_envelope sp ev payload \<longrightarrow>
     \<not> sr_accepted (admission_step sha sp trusted' (sr_seen r) ctx' ev' (JDict payload')))"
proof (rule step_accepted [OF assms(1-3)])
  fix t d es
  assume schema: "check_schema sp ev payload = Inr ()"
    and dec: "check_decision sha sp seen ev payload = Inr (Fresh d)"
    and seen: "sr_seen r = (case d of None \<Rightarrow> seen | Some e \<Rightarrow> e # seen)"
  obtain env where env: "canonical_decision_envelope sp ev payload = Inr env"
      and d: "d = Some (pget ''decision_id'' payload, env)"
    using decision_of_fresh [OF dec assms(4)] .
  have known: "map_of (sr_seen r) (pget ''decision_id'' payload) = Some env"
    using seen d by simp
  have "check_decision sha sp (sr_seen r) ev payload = Inr Replay"
    using env known assms(4) by (simp add: check_decision_def Let_def)
  then have again: "let r2 = admission_step sha sp trusted' (sr_seen r) ctx' ev (JDict payload) in
      sr_accepted r2 \<and> sr_replayed r2 \<and> sr_context r2 = ctx' \<and> sr_effects r2 = [] \<and> sr_seen r2 = sr_seen r"
    using schema by (simp add: admission_step_def Let_def)
  have "\<not> sr_accepted (admission_step sha sp trusted' (sr_seen r) ctx' ev' (JDict payload'))"
    if same: "pget ''decision_id'' payload' = pget ''decision_id'' payload"
      and other: "canonical_decision_envelope sp ev' payload' \<noteq> canonical_decision_envelope sp ev payload"
  proof -
    have "\<exists>why. check_decision sha sp (sr_seen r) ev' payload' = Inl why"
      using known same other env assms(4)
      by (cases "canonical_decision_envelope sp ev' payload'") (auto simp: check_decision_def Let_def)
    then have "\<exists>why. bind_res (check_schema sp ev' payload')
        (\<lambda>_. check_decision sha sp (sr_seen r) ev' payload') = Inl why"
      by (cases "check_schema sp ev' payload'") auto
    then show ?thesis by (auto simp: admission_step_def contract_audit_def)
  qed
  with again show ?thesis by blast
qed

lemma admission_targets_project:
  "list_all (\<lambda>t. \<forall>s\<in>{ct_from t, ct_to t}. s \<in> {''REQUESTED'', ''PENDING'', ''HELD'', ''RELEASED'', ''EXPIRED'',
       ''DENIED'', ''CANCELLED'', ''TIMED_OUT'', ''REJECTED''}) admission_transitions"
  by code_simp

definition legacy_of :: "string \<Rightarrow> string option" where
  "legacy_of st =
     (if st \<in> {''REQUESTED'', ''REJECTED''} then None
      else if st \<in> {''CANCELLED'', ''TIMED_OUT''} then Some ''DENIED'' else Some st)"

definition legacy_move :: "string option \<Rightarrow> string option \<Rightarrow> bool" where
  "legacy_move a b \<longleftrightarrow> a = None \<or> a = b \<or>
     list_ex (\<lambda>(trigger, srcs, dst). a \<noteq> None \<and> the a \<in> set srcs \<and> b = Some dst) orbit_transitions"

lemma admission_moves: "list_all (\<lambda>t. legacy_move (legacy_of (ct_from t)) (legacy_of (ct_to t))) admission_transitions"
  by code_simp

lemma project_legacy_of:
  assumes "s \<in> {''REQUESTED'', ''PENDING'', ''HELD'', ''RELEASED'', ''EXPIRED'', ''DENIED'', ''CANCELLED'',
      ''TIMED_OUT'', ''REJECTED''}"
  shows "\<exists>p. project_legacy s c = Inr p \<and> pj_state p = legacy_of s"
  using assms by (elim insertE emptyE; simp add: project_legacy_def legacy_of_def)

text \<open>C35. The contract refines the orbit machine: whenever it accepts an event, the projections of the
  old and the new state to the orbit row are both defined, and either the row does not exist yet (or
  never will), or its state is kept, or it moves by a transition of \<open>fsm.py\<close>.\<close>

theorem contract_refines_orbit_machine:
  assumes "admission_step sha admission_spec trusted seen ctx ev (JDict payload) = r"
    and "sr_accepted r" and "\<not> sr_replayed r"
  shows "\<exists>st st' p p'. pget ''state'' ctx = JStr st \<and> pget ''state'' (sr_context r) = JStr st' \<and>
    project_legacy st ctx = Inr p \<and> project_legacy st' (sr_context r) = Inr p' \<and>
    (pj_state p = None \<or> pj_state p' = pj_state p \<or>
     (\<exists>trigger srcs dst s. (trigger, srcs, dst) \<in> set orbit_transitions \<and> s \<in> set srcs \<and>
        pj_state p = Some s \<and> pj_state p' = Some dst))"
proof (rule step_accepted [OF assms])
  fix t d es
  assume t: "find_transition admission_spec ctx ev = Some t" and ctx: "sr_context r = next_context t ctx payload"
  have mem: "t \<in> set admission_transitions" "pget ''state'' ctx = JStr (ct_from t)"
    using find_transition_D [OF t] by (auto simp: admission_spec_def)
  have new: "pget ''state'' (sr_context r) = JStr (ct_to t)" using next_state [OF mem(1)] ctx by simp
  have known: "s \<in> {''REQUESTED'', ''PENDING'', ''HELD'', ''RELEASED'', ''EXPIRED'', ''DENIED'', ''CANCELLED'',
      ''TIMED_OUT'', ''REJECTED''}" if "s \<in> {ct_from t, ct_to t}" for s
    using admission_targets_project mem(1) that unfolding list_all_iff by blast
  obtain p where p: "project_legacy (ct_from t) ctx = Inr p" "pj_state p = legacy_of (ct_from t)"
    using project_legacy_of [OF known] by blast
  obtain p' where p': "project_legacy (ct_to t) (sr_context r) = Inr p'" "pj_state p' = legacy_of (ct_to t)"
    using project_legacy_of [OF known] by blast
  have "legacy_move (pj_state p) (pj_state p')"
    using admission_moves mem(1) unfolding list_all_iff p(2) p'(2) by blast
  then have "pj_state p = None \<or> pj_state p' = pj_state p \<or>
     (\<exists>trigger srcs dst s. (trigger, srcs, dst) \<in> set orbit_transitions \<and> s \<in> set srcs \<and>
        pj_state p = Some s \<and> pj_state p' = Some dst)"
    unfolding legacy_move_def list_ex_iff by fastforce
  then show ?thesis using mem(2) new p(1) p'(1) by blast
qed

section \<open>Witnesses\<close>

definition demo_hash :: string where
  "demo_hash = replicate 64 (CHR ''a'')"

definition demo_identity :: dict where
  "demo_identity = [(''repository_id'', JStr ''repo''), (''request_id'', JStr ''r1''), (''orbit_id'', JStr ''orb-1''),
     (''request_generation'', JInt 0), (''owner_agent'', JStr ''a''), (''bail_epoch'', JInt 0),
     (''mode'', JStr ''write''), (''pathspec_digest'', JStr demo_hash), (''policy_version'', JStr ''v1'')]"

definition demo_context :: dict where
  "demo_context = (''state'', JStr ''REQUESTED'') # demo_identity"

definition demo_grant :: dict where
  "demo_grant = demo_identity @ [(''actor'', JStr ''coord''), (''event_id'', JStr ''evt-1''),
     (''authority_snapshot_hash'', JStr demo_hash), (''decision_id'', JStr demo_hash), (''fence'', JInt 1),
     (''lease_deadline'', JFloat (Fin 600)), (''base_priority'', JInt 0), (''effective_priority'', JInt 0),
     (''observed_at'', JFloat (Fin 1))]"

definition demo_result :: step_result where
  "demo_result = admission_step (\<lambda>_. demo_hash) admission_spec demo_hash [] demo_context ''ADMISSION_GRANTED''
     (JDict demo_grant)"

lemma demo_flags: "(sr_accepted demo_result, sr_replayed demo_result) = (True, False)"
  by code_simp

lemma demo_accepted: "sr_accepted demo_result" "\<not> sr_replayed demo_result"
  using demo_flags by simp_all

lemma accepted_event_is_current_witness:
  "pget ''authority_snapshot_hash'' demo_grant = JStr demo_hash \<and>
   (\<exists>t. t \<in> set admission_transitions \<and> ct_event t = ''ADMISSION_GRANTED'' \<and>
      pget ''state'' (sr_context demo_result) = JStr (ct_to t))"
  using accepted_event_is_current [OF demo_result_def [symmetric] demo_accepted] by blast

lemma contract_refines_orbit_machine_witness:
  "\<exists>st' p'. pget ''state'' (sr_context demo_result) = JStr st' \<and> project_legacy st' (sr_context demo_result) = Inr p'"
  using contract_refines_orbit_machine [OF demo_result_def [symmetric] demo_accepted] by blast

lemma refused_event_is_inert_witness:
  "sr_context (admission_step (\<lambda>_. demo_hash) admission_spec ''other'' [] demo_context ''ADMISSION_GRANTED''
     (JDict demo_grant)) = demo_context"
proof -
  have "\<not> sr_accepted (admission_step (\<lambda>_. demo_hash) admission_spec ''other'' [] demo_context
      ''ADMISSION_GRANTED'' (JDict demo_grant))"
    by code_simp
  from refused_event_is_inert [OF this] show ?thesis by blast
qed

lemma decision_takes_effect_once_witness:
  "let r2 = admission_step (\<lambda>_. demo_hash) admission_spec ''other'' (sr_seen demo_result) demo_context
       ''ADMISSION_GRANTED'' (JDict demo_grant) in
     sr_accepted r2 \<and> sr_replayed r2 \<and> sr_context r2 = demo_context \<and> sr_effects r2 = [] \<and>
     sr_seen r2 = sr_seen demo_result"
proof -
  have "pget ''decision_id'' demo_grant \<noteq> JNull" by code_simp
  from decision_takes_effect_once [OF demo_result_def [symmetric] demo_accepted this]
  show ?thesis by blast
qed

end
