(* ===== verification/DepGraph.thy ===== *)
theory DepGraph
  imports Config
begin

text \<open>
  The dependency graph of the tasks and its gate, \<open>_dep_graph\<close>, \<open>_find_cycle\<close>, \<open>_would_cycle\<close> of
  \<open>omd_server/core.py\<close>, and the verbs that add edges, \<open>declare\<close> and \<open>depend\<close>. The depth-first search
  colours the nodes; \<open>fuel\<close> bounds its recursion depth and is shown to be enough.
\<close>

section \<open>Graphs\<close>

text \<open>A Python \<open>dict\<close> of sets, as an association list of lists.\<close>

type_synonym graph = "(string \<times> string list) list"

fun add_edges :: "string \<Rightarrow> string list \<Rightarrow> graph \<Rightarrow> graph" where
  "add_edges n ds [] = [(n, ds)]"
| "add_edges n ds ((k, es) # g) = (if k = n then (k, es @ ds) # g else (k, es) # add_edges n ds g)"

definition graph_succs :: "graph \<Rightarrow> string \<Rightarrow> string list" where
  "graph_succs g n = (case map_of g n of None \<Rightarrow> [] | Some ds \<Rightarrow> ds)"

definition sorted_succs :: "graph \<Rightarrow> string \<Rightarrow> string list" where
  "sorted_succs g n = sort (remdups (graph_succs g n))"

definition dep_graph :: "(string \<times> string) list \<Rightarrow> db \<Rightarrow> graph" where
  "dep_graph extra db =
     fold (\<lambda>(src, dst). add_edges src [dst]) extra
       (fold (\<lambda>t. add_edges (t_task_id t) (t_deps t)) (all_tasks db) [])"

section \<open>The search\<close>

datatype color = White | Gray | Black

datatype search = Cycle "string list" | Clear "string \<Rightarrow> color" | OutOfFuel

text \<open>\<open>visit\<close> and the loop over the successors inside it; \<open>path\<close> is the stack, whose last node is the
  one being visited.\<close>

function (sequential) visit :: "graph \<Rightarrow> nat \<Rightarrow> (string \<Rightarrow> color) \<Rightarrow> string list \<Rightarrow> string \<Rightarrow> search"
  and visit_all :: "graph \<Rightarrow> nat \<Rightarrow> (string \<Rightarrow> color) \<Rightarrow> string list \<Rightarrow> string list \<Rightarrow> search" where
  "visit g 0 c path n = OutOfFuel"
| "visit g (Suc fuel) c path n =
     (case visit_all g fuel (c(n := Gray)) (path @ [n]) (sorted_succs g n) of
        Clear c' \<Rightarrow> Clear (c'(n := Black))
      | r \<Rightarrow> r)"
| "visit_all g fuel c path [] = Clear c"
| "visit_all g fuel c path (m # ms) =
     (if c m = Gray then Cycle (dropWhile (\<lambda>x. x \<noteq> m) path @ [m])
      else if c m = White then
        (case visit g fuel c path m of Clear c' \<Rightarrow> visit_all g fuel c' path ms | r \<Rightarrow> r)
      else visit_all g fuel c path ms)"
  by pat_completeness auto
termination
  by (relation "measures [\<lambda>x. case x of Inl (g, k, _) \<Rightarrow> 2 * k | Inr (g, k, _) \<Rightarrow> 2 * k + 1,
      \<lambda>x. case x of Inl _ \<Rightarrow> 0 | Inr (g, k, c, p, ms) \<Rightarrow> length ms]") auto

fun visit_roots :: "graph \<Rightarrow> nat \<Rightarrow> (string \<Rightarrow> color) \<Rightarrow> string list \<Rightarrow> search" where
  "visit_roots g fuel c [] = Clear c"
| "visit_roots g fuel c (n # ns) =
     (if c n = White then (case visit g fuel c [] n of Clear c' \<Rightarrow> visit_roots g fuel c' ns | r \<Rightarrow> r)
      else visit_roots g fuel c ns)"

definition graph_nodes :: "graph \<Rightarrow> string list" where
  "graph_nodes g = remdups (map fst g @ concat (map snd g))"

definition search_cycle :: "graph \<Rightarrow> search" where
  "search_cycle g = visit_roots g (length (graph_nodes g)) (\<lambda>_. White) (sort (map fst g))"

definition find_cycle :: "graph \<Rightarrow> string list option" where
  "find_cycle g = (case search_cycle g of Cycle p \<Rightarrow> Some p | _ \<Rightarrow> None)"

definition would_cycle :: "string \<Rightarrow> string list \<Rightarrow> db \<Rightarrow> string list option" where
  "would_cycle tid deps db =
     find_cycle (add_edges tid [] (dep_graph (map (\<lambda>d. (tid, d)) deps) db))"

section \<open>Verbs\<close>

definition declare_overlaps :: "string list \<Rightarrow> string list \<Rightarrow> (string \<times> string) list" where
  "declare_overlaps writes shared =
     concat (map (\<lambda>w. map (\<lambda>s. (w, s)) (filter (\<lambda>s. sets_overlap [w] [s]) shared)) writes)"

definition cycle_json :: "string list \<Rightarrow> json" where
  "cycle_json cyc = JList (map JStr cyc)"

definition declare_task ::
  "rat \<Rightarrow> string \<Rightarrow> string \<Rightarrow> string list \<Rightarrow> string list \<Rightarrow> string list \<Rightarrow> int \<Rightarrow> string list \<Rightarrow> db \<Rightarrow> json \<times> db" where
  "declare_task now tid nm writes reads deps prio shared db =
     (let overlaps = declare_overlaps writes shared in
      if overlaps \<noteq> [] then
        (ok_false ''write_shared_overlap'' [(''task_id'', JStr tid),
           (''overlaps'', JList (map (\<lambda>(w, s). JDict [(''write'', JStr w), (''shared'', JStr s)]) overlaps)),
           (''hint'', JStr (''partition writes and shared into disjoint globs; '' @
              ''shared is not an implicit exclusion from writes''))], db)
      else
        case (if deps = [] then None else would_cycle tid deps db) of
          Some cyc \<Rightarrow>
            (JDict [(''ok'', JBool False), (''reason'', JStr ''dep_cycle''), (''cycle'', cycle_json cyc),
               (''task_id'', JStr tid)], db)
        | None \<Rightarrow>
            (JDict [(''ok'', JBool True), (''task_id'', JStr tid), (''state'', JStr ''PENDING'')],
             add_task now tid nm writes reads deps ''PENDING'' prio shared None None db))"

definition depend :: "string \<Rightarrow> string \<Rightarrow> db \<Rightarrow> json \<times> db" where
  "depend tid after db =
     (case get_task tid db of
        None \<Rightarrow> (ok_false ''no such task'' [(''task_id'', JStr tid)], db)
      | Some t \<Rightarrow>
          let existing = t_deps t in
          if after \<in> set existing then
            (JDict [(''ok'', JBool True), (''noop'', JBool True), (''task_id'', JStr tid), (''after'', JStr after),
               (''deps'', JList (map JStr existing))], db)
          else
            case would_cycle tid (existing @ [after]) db of
              Some cyc \<Rightarrow>
                (JDict [(''ok'', JBool False), (''reason'', JStr ''dep_cycle''), (''cycle'', cycle_json cyc),
                   (''task_id'', JStr tid), (''after'', JStr after)], db)
            | None \<Rightarrow>
                let new_deps = existing @ [after] in
                (JDict [(''ok'', JBool True), (''task_id'', JStr tid), (''after'', JStr after),
                   (''deps'', JList (map JStr new_deps))], set_task_deps tid new_deps db))"

section \<open>The search finds a cycle exactly if there is one\<close>

definition graph_edges :: "graph \<Rightarrow> (string \<times> string) set" where
  "graph_edges g = {(n, m). m \<in> set (graph_succs g n)}"

lemma sorted_succs_set [simp]: "set (sorted_succs g n) = {m. (n, m) \<in> graph_edges g}"
  by (simp add: sorted_succs_def graph_edges_def)

definition closed_cycle :: "graph \<Rightarrow> string list \<Rightarrow> bool" where
  "closed_cycle g p \<longleftrightarrow> 2 \<le> length p \<and> hd p = last p \<and> successively (\<lambda>a b. (a, b) \<in> graph_edges g) p"

text \<open>The colours during the search: the gray nodes are the path, black nodes lead to black nodes only
  and lie on no cycle.\<close>

definition search_inv :: "graph \<Rightarrow> (string \<Rightarrow> color) \<Rightarrow> string list \<Rightarrow> bool" where
  "search_inv g c path \<longleftrightarrow>
     {x. c x = Gray} = set path \<and> distinct path \<and> successively (\<lambda>a b. (a, b) \<in> graph_edges g) path \<and>
     (\<forall>x y. c x = Black \<longrightarrow> (x, y) \<in> graph_edges g \<longrightarrow> c y = Black) \<and>
     (\<forall>x. c x = Black \<longrightarrow> (x, x) \<notin> (graph_edges g)\<^sup>+)"

definition blacker :: "(string \<Rightarrow> color) \<Rightarrow> (string \<Rightarrow> color) \<Rightarrow> bool" where
  "blacker c c' \<longleftrightarrow> (\<forall>x. c x = Black \<longrightarrow> c' x = Black)"

lemma blacker_trans: "blacker a b \<Longrightarrow> blacker b c \<Longrightarrow> blacker a c"
  by (simp add: blacker_def)

lemma dropWhile_first: "m \<notin> set a \<Longrightarrow> dropWhile (\<lambda>x. x \<noteq> m) (a @ m # b) = m # b"
  by (induction a) auto

lemma back_edge_cycle:
  assumes "search_inv g c path" and "m \<in> set path" and "(last path, m) \<in> graph_edges g"
  shows "closed_cycle g (dropWhile (\<lambda>x. x \<noteq> m) path @ [m])"
proof -
  obtain a b where path: "path = a @ m # b" "m \<notin> set a" using assms(2) split_list_first by metis
  then have drop: "dropWhile (\<lambda>x. x \<noteq> m) path = m # b" by (simp add: dropWhile_first)
  have "successively (\<lambda>a b. (a, b) \<in> graph_edges g) (m # b)"
    using assms(1) path by (simp add: search_inv_def successively_append_iff)
  then show ?thesis
    using assms(3) drop path successively_append_iff [of _ "m # b" "[m]"] by (simp add: closed_cycle_def)
qed

lemma black_reach:
  assumes "\<forall>x y. c x = Black \<longrightarrow> (x, y) \<in> E \<longrightarrow> c y = Black" and "(x, y) \<in> E\<^sup>+" and "c x = Black"
  shows "c y = Black"
  using assms(2) by (induction rule: trancl_induct) (use assms(1,3) in blast)+

text \<open>A node all of whose successors are black can be coloured black.\<close>

lemma blacken:
  assumes inv: "search_inv g c (path @ [n])" and succs: "\<And>m. (n, m) \<in> graph_edges g \<Longrightarrow> c m = Black"
  shows "search_inv g (c(n := Black)) path"
proof -
  have gray: "c n = Gray" using inv by (auto simp: search_inv_def)
  have closed: "\<forall>x y. c x = Black \<longrightarrow> (x, y) \<in> graph_edges g \<longrightarrow> c y = Black"
    using inv by (simp add: search_inv_def)
  have "(n, n) \<notin> (graph_edges g)\<^sup>+"
  proof
    assume "(n, n) \<in> (graph_edges g)\<^sup>+"
    then obtain m where m: "(n, m) \<in> graph_edges g" "m = n \<or> (m, n) \<in> (graph_edges g)\<^sup>+"
      by (metis tranclD rtranclD)
    then have "c n = Black" using succs black_reach [OF closed] by blast
    then show False using gray by simp
  qed
  moreover have "{x. (c(n := Black)) x = Gray} = set path"
    using inv by (auto simp: search_inv_def)
  ultimately show ?thesis
    using inv succs closed unfolding search_inv_def by (auto simp: successively_append_iff)
qed

lemma search_correct:
  "search_inv g c path \<Longrightarrow> c n = White \<Longrightarrow> (path \<noteq> [] \<Longrightarrow> (last path, n) \<in> graph_edges g) \<Longrightarrow>
     (case visit g fuel c path n of
        Cycle p \<Rightarrow> closed_cycle g p
      | Clear c' \<Rightarrow> search_inv g c' path \<and> c' n = Black \<and> blacker c c'
      | OutOfFuel \<Rightarrow> True)"
  "search_inv g c path \<Longrightarrow> path \<noteq> [] \<Longrightarrow> (\<And>m. m \<in> set ms \<Longrightarrow> (last path, m) \<in> graph_edges g) \<Longrightarrow>
     (case visit_all g fuel c path ms of
        Cycle p \<Rightarrow> closed_cycle g p
      | Clear c' \<Rightarrow> search_inv g c' path \<and> (\<forall>m\<in>set ms. c' m = Black) \<and> blacker c c'
      | OutOfFuel \<Rightarrow> True)"
proof (induction g fuel c path n and g fuel c path ms rule: visit_visit_all.induct)
  case (2 g fuel c path n)
  have "n \<notin> set path" using 2(2,3) unfolding search_inv_def by (metis color.distinct(1) mem_Collect_eq)
  then have inv: "search_inv g (c(n := Gray)) (path @ [n])"
    using 2(2-4) by (auto simp: search_inv_def successively_append_iff)
  show ?case
  proof (cases "visit_all g fuel (c(n := Gray)) (path @ [n]) (sorted_succs g n)")
    case (Clear c')
    then have c': "search_inv g c' (path @ [n])" "\<forall>m. (n, m) \<in> graph_edges g \<longrightarrow> c' m = Black"
        "blacker (c(n := Gray)) c'"
      using 2(1) [OF inv, unfolded Clear search.case] by simp_all
    moreover have "blacker c (c'(n := Black))"
      using c'(3) 2(3) by (auto simp: blacker_def)
    ultimately show ?thesis using Clear blacken by simp
  next
    case (Cycle p)
    then show ?thesis using 2(1) [OF inv, unfolded Cycle search.case] by simp
  qed simp
next
  case (4 g fuel c path m ms)
  have edge: "(last path, m) \<in> graph_edges g" using 4(6) by simp
  show ?case
  proof (cases "c m")
    case Gray
    then have "m \<in> set path" using 4(4) by (auto simp: search_inv_def)
    then show ?thesis using Gray back_edge_cycle [OF 4(4) _ edge] by simp
  next
    case Black
    then show ?thesis using 4(3) [OF _ _ 4(4,5)] 4(6)
      by (auto simp: blacker_def split: search.splits)
  next
    case White
    note visit = 4(1) [OF _ White 4(4) White]
    show ?thesis
    proof (cases "visit g fuel c path m")
      case (Clear c')
      then have c': "search_inv g c' path" "c' m = Black" "blacker c c'"
        using visit edge White by auto
      then have "case visit_all g fuel c' path ms of
          Cycle p \<Rightarrow> closed_cycle g p
        | Clear c'' \<Rightarrow> search_inv g c'' path \<and> (\<forall>m\<in>set ms. c'' m = Black) \<and> blacker c' c''
        | OutOfFuel \<Rightarrow> True"
        using 4(2) [OF _ White Clear c'(1) 4(5)] 4(6) White by simp
      then show ?thesis
        using White Clear c' by (auto simp: blacker_def split: search.splits)
    qed (use visit edge White in auto)
  qed
qed (auto simp: blacker_def)


lemma roots_correct:
  "search_inv g c [] \<Longrightarrow>
     (case visit_roots g fuel c ns of
        Cycle p \<Rightarrow> closed_cycle g p
      | Clear c' \<Rightarrow> search_inv g c' [] \<and> (\<forall>n\<in>set ns. c' n = Black) \<and> blacker c c'
      | OutOfFuel \<Rightarrow> True)"
proof (induction ns arbitrary: c)
  case (Cons n ns)
  have step: ?case if eq: "visit_roots g fuel c (n # ns) = visit_roots g fuel c1 ns"
    and c1: "search_inv g c1 []" "c1 n = Black" "blacker c c1" for c1
    using Cons.IH [OF c1(1)] c1(2,3) unfolding eq blacker_def
    by (cases "visit_roots g fuel c1 ns") simp_all
  show ?case
  proof (cases "c n = White")
    case True
    note visit = search_correct(1) [OF Cons.prems True, where fuel = fuel]
    show ?thesis
    proof (cases "visit g fuel c [] n")
      case (Clear c')
      then show ?thesis using visit True by (intro step [of c']) simp_all
    qed (use visit True in simp_all)
  next
    case False
    then have "c n = Black"
      using Cons.prems by (cases "c n") (auto simp: search_inv_def)
    then show ?thesis using Cons.prems False by (intro step [of c]) (simp_all add: blacker_def)
  qed
qed (simp add: blacker_def)

text \<open>The fuel is enough: each nested call colours another node gray.\<close>

definition whites :: "graph \<Rightarrow> (string \<Rightarrow> color) \<Rightarrow> string set" where
  "whites g c = {x \<in> set (graph_nodes g). c x = White}"

lemma whites_finite [simp]: "finite (whites g c)"
  by (simp add: whites_def)

lemma whites_shrink:
  "visit g fuel c path n = Clear c' \<Longrightarrow> whites g c' \<subseteq> whites g c"
  "visit_all g fuel c path ms = Clear c' \<Longrightarrow> whites g c' \<subseteq> whites g c"
proof (induction g fuel c path n and g fuel c path ms arbitrary: c' and c' rule: visit_visit_all.induct)
  case (2 g fuel c path n)
  then obtain c1 where "visit_all g fuel (c(n := Gray)) (path @ [n]) (sorted_succs g n) = Clear c1"
      and "c' = c1(n := Black)"
    by (auto split: search.splits)
  then have "whites g c1 \<subseteq> whites g (c(n := Gray))" by (intro 2(1))
  then have "whites g c1 \<subseteq> whites g c" by (auto simp: whites_def split: if_splits)
  then show ?case using \<open>c' = c1(n := Black)\<close> by (auto simp: whites_def)
next
  case (4 g fuel c path m ms)
  then show ?case by (fastforce split: search.splits if_splits)
qed auto

lemma edge_node: "(n, m) \<in> graph_edges g \<Longrightarrow> m \<in> set (graph_nodes g)"
  by (auto 4 4 simp: graph_edges_def graph_succs_def graph_nodes_def split: option.splits
      dest!: map_of_SomeD [OF sym] map_of_SomeD)

lemma fuel_enough:
  "c n = White \<Longrightarrow> n \<in> set (graph_nodes g) \<Longrightarrow> card (whites g c) \<le> fuel \<Longrightarrow> visit g fuel c path n \<noteq> OutOfFuel"
  "card (whites g c) \<le> fuel \<Longrightarrow> set ms \<subseteq> set (graph_nodes g) \<Longrightarrow> visit_all g fuel c path ms \<noteq> OutOfFuel"
proof (induction g fuel c path n and g fuel c path ms rule: visit_visit_all.induct)
  case (1 g c path n)
  then have "n \<in> whites g c" by (simp add: whites_def)
  then show ?case using 1(3) by (simp add: card_eq_0_iff)
next
  case (2 g fuel c path n)
  have "whites g (c(n := Gray)) = whites g c - {n}" and "n \<in> whites g c"
    using 2(2,3) by (auto simp: whites_def)
  then have "card (whites g (c(n := Gray))) \<le> fuel" using 2(4) by simp
  then have "visit_all g fuel (c(n := Gray)) (path @ [n]) (sorted_succs g n) \<noteq> OutOfFuel"
    by (rule 2(1)) (auto intro: edge_node)
  then show ?case by (cases "visit_all g fuel (c(n := Gray)) (path @ [n]) (sorted_succs g n)") simp_all
next
  case (4 g fuel c path m ms)
  show ?case
  proof (cases "c m")
    case White
    show ?thesis
    proof (cases "visit g fuel c path m")
      case (Clear c')
      then have "card (whites g c') \<le> fuel"
        using whites_shrink(1) card_mono whites_finite 4(4) by (meson le_trans)
      then show ?thesis using 4(2) [OF _ White Clear] 4(5) White Clear by simp
    qed (use 4(1) [OF _ White White] 4(4,5) White in auto)
  qed (use 4 in auto)
qed auto

lemma roots_fuel:
  "card (whites g c) \<le> fuel \<Longrightarrow> set ns \<subseteq> set (graph_nodes g) \<Longrightarrow> visit_roots g fuel c ns \<noteq> OutOfFuel"
proof (induction ns arbitrary: c)
  case (Cons n ns)
  show ?case
  proof (cases "c n = White")
    case True
    show ?thesis
    proof (cases "visit g fuel c [] n")
      case (Clear c')
      then have "card (whites g c') \<le> fuel"
        using whites_shrink(1) card_mono whites_finite Cons.prems(1) by (meson le_trans)
      then show ?thesis using Cons True Clear by simp
    qed (use fuel_enough(1) [of c n] True Cons.prems in auto)
  qed (use Cons in auto)
qed simp

lemma search_cycle_total: "search_cycle g \<noteq> OutOfFuel"
proof -
  have "whites g (\<lambda>_. White) = set (graph_nodes g)" by (simp add: whites_def)
  then have "card (whites g (\<lambda>_. White)) \<le> length (graph_nodes g)" by (simp add: card_length)
  then show ?thesis
    unfolding search_cycle_def by (rule roots_fuel) (auto simp: graph_nodes_def)
qed

lemma closed_cycle_trancl: "closed_cycle g p \<Longrightarrow> (hd p, hd p) \<in> (graph_edges g)\<^sup>+"
proof -
  have "successively (\<lambda>a b. (a, b) \<in> E) (a # b # q) \<Longrightarrow> (a, last (b # q)) \<in> E\<^sup>+" for a b q and E :: "(string \<times> string) set"
    by (induction q arbitrary: a b) (auto intro: trancl_into_trancl2)
  moreover assume "closed_cycle g p"
  ultimately show ?thesis
    by (cases p rule: remdups_adj.cases) (auto simp: closed_cycle_def)
qed

lemma edge_key: "(n, m) \<in> graph_edges g \<Longrightarrow> n \<in> set (map fst g)"
  using map_of_eq_None_iff [of g n] by (auto simp: graph_edges_def graph_succs_def split: option.splits)

lemma search_correct_total:
  "search_cycle g \<noteq> OutOfFuel \<and> (find_cycle g = None \<longleftrightarrow> acyclic (graph_edges g)) \<and>
   pred_option (closed_cycle g) (find_cycle g)"
proof -
  have init: "search_inv g (\<lambda>_. White) []" by (simp add: search_inv_def)
  note search = roots_correct [OF init, where fuel = "length (graph_nodes g)" and ns = "sort (map fst g)", folded search_cycle_def]
  show ?thesis
  proof (cases "search_cycle g")
    case (Cycle p)
    then have "closed_cycle g p" using search by simp
    then show ?thesis using Cycle closed_cycle_trancl by (auto simp: find_cycle_def acyclic_def)
  next
    case (Clear c)
    then have c: "search_inv g c []" "\<forall>n\<in>set (map fst g). c n = Black" using search by auto
    have "(x, x) \<notin> (graph_edges g)\<^sup>+" for x
    proof
      assume x: "(x, x) \<in> (graph_edges g)\<^sup>+"
      then have "c x = Black" using c(2) edge_key by (meson tranclD)
      then show False using x c(1) by (simp add: search_inv_def)
    qed
    then show ?thesis using Clear by (simp add: find_cycle_def acyclic_def)
  qed (use search_cycle_total in simp)
qed

lemma find_cycle_correct_search: "find_cycle g = None \<longleftrightarrow> acyclic (graph_edges g)"
  using search_correct_total by blast

text \<open>C36. The cycle detector is correct and total: it answers nothing exactly if the
  dependency graph is acyclic, and a path it answers is a cycle of the graph. The recursion never
  runs out of the fuel given to it.\<close>

theorem find_cycle_correct:
  "search_cycle g \<noteq> OutOfFuel \<and> (find_cycle g = None \<longleftrightarrow> acyclic (graph_edges g)) \<and>
   pred_option (closed_cycle g) (find_cycle g)"
  by (rule search_correct_total)


section \<open>The gate keeps the tasks' dependencies acyclic\<close>

definition task_edges :: "db \<Rightarrow> (string \<times> string) set" where
  "task_edges db = {(t_task_id t, d) | t d. t \<in> set (tasks db) \<and> d \<in> set (t_deps t)}"

lemma task_edgesI: "t \<in> set (tasks db) \<Longrightarrow> t_task_id t = n \<Longrightarrow> d \<in> set (t_deps t) \<Longrightarrow> (n, d) \<in> task_edges db"
  by (auto simp: task_edges_def)

lemma graph_succs_add [simp]:
  "graph_succs (add_edges n ds g) x = graph_succs g x @ (if x = n then ds else [])"
  by (induction n ds g rule: add_edges.induct) (auto simp: graph_succs_def)

lemma graph_edges_add [simp]: "graph_edges (add_edges n ds g) = graph_edges g \<union> {n} \<times> set ds"
  by (auto simp: graph_edges_def split: if_splits)

lemma graph_edges_Nil [simp]: "graph_edges [] = {}"
  by (simp add: graph_edges_def graph_succs_def)

lemma graph_edges_dep_graph [simp]: "graph_edges (dep_graph extra db) = set extra \<union> task_edges db"
proof -
  have "graph_edges (fold (\<lambda>t. add_edges (t_task_id t) (t_deps t)) ts g) =
      graph_edges g \<union> {(t_task_id t, d) | t d. t \<in> set ts \<and> d \<in> set (t_deps t)}" for g and ts :: "task list"
    by (induction ts arbitrary: g) auto
  moreover have "graph_edges (fold (\<lambda>(src, dst). add_edges src [dst]) es g) = graph_edges g \<union> set es" for es g
    by (induction es arbitrary: g) auto
  ultimately show ?thesis by (simp add: dep_graph_def all_tasks_def task_edges_def Un_commute)
qed

lemma would_cycle_iff:
  "would_cycle tid deps db = None \<longleftrightarrow> acyclic ({tid} \<times> set deps \<union> task_edges db)"
proof -
  have "graph_edges (add_edges tid [] (dep_graph (map (\<lambda>d. (tid, d)) deps) db)) =
      {tid} \<times> set deps \<union> task_edges db"
    by auto
  then show ?thesis
    unfolding would_cycle_def using find_cycle_correct_search by metis
qed

inductive dep_step :: "db \<Rightarrow> db \<Rightarrow> bool" where
  declared: "dep_step db (snd (declare_task now tid nm writes reads deps prio shared db))"
| depended: "dep_step db (snd (depend tid after db))"

lemma task_edges_declare:
  "task_edges (add_task now tid nm writes reads deps st prio shared rf rfs db) \<subseteq>
     {tid} \<times> set deps \<union> task_edges db"
  by (auto simp: task_edges_def add_task_def upsert_def set_update_where new_task_def)

lemma task_edges_set_deps: "task_edges (set_task_deps tid deps db) \<subseteq> {tid} \<times> set deps \<union> task_edges db"
  by (auto simp: task_edges_def set_task_deps_def set_update_where)

lemma declare_acyclic:
  assumes "acyclic (task_edges db)"
  shows "acyclic (task_edges (snd (declare_task now tid nm writes reads deps prio shared db)))"
proof (cases "declare_overlaps writes shared = [] \<and> (deps = [] \<or> would_cycle tid deps db = None)")
  case True
  then have "snd (declare_task now tid nm writes reads deps prio shared db) =
      add_task now tid nm writes reads deps ''PENDING'' prio shared None None db"
    by (auto simp: declare_task_def)
  moreover have "acyclic ({tid} \<times> set deps \<union> task_edges db)"
    using True assms by (auto simp: would_cycle_iff)
  ultimately show ?thesis by (metis acyclic_subset task_edges_declare)
next
  case False
  then show ?thesis using assms by (auto simp: declare_task_def Let_def)
qed

lemma depend_refused:
  "get_task tid db = None \<or> (\<exists>t. get_task tid db = Some t \<and> (after \<in> set (t_deps t) \<or>
     would_cycle tid (t_deps t @ [after]) db \<noteq> None)) \<Longrightarrow> snd (depend tid after db) = db"
  by (auto simp: depend_def Let_def)

lemma depend_accepted:
  "get_task tid db = Some t \<Longrightarrow> after \<notin> set (t_deps t) \<Longrightarrow> would_cycle tid (t_deps t @ [after]) db = None \<Longrightarrow>
     snd (depend tid after db) = set_task_deps tid (t_deps t @ [after]) db"
  by (simp add: depend_def Let_def)

lemma get_task_row: "get_task tid db = Some t \<Longrightarrow> t \<in> set (tasks db) \<and> t_task_id t = tid"
  unfolding get_task_def by (rule fetchone_filter_Some)

lemma get_task_edges: "get_task tid db = Some t \<Longrightarrow> {tid} \<times> set (t_deps t) \<subseteq> task_edges db"
  by (auto simp: task_edges_def dest: get_task_row)

lemma depend_edges:
  assumes "get_task tid db = Some t"
  shows "task_edges (snd (depend tid after db)) \<subseteq> insert (tid, after) (task_edges db) \<and>
    ((tid, after) \<in> task_edges (snd (depend tid after db)) \<longleftrightarrow>
       (tid, after) \<in> task_edges db \<or> acyclic (insert (tid, after) (task_edges db)))"
proof -
  note old = get_task_edges [OF assms]
  have t: "t \<in> set (tasks db)" "t_task_id t = tid"
    using get_task_row [OF assms] by simp_all
  have wc: "would_cycle tid (t_deps t @ [after]) db = None \<longleftrightarrow> acyclic (insert (tid, after) (task_edges db))"
  proof -
    have "{tid} \<times> set (t_deps t @ [after]) \<union> task_edges db = insert (tid, after) (task_edges db)"
      using old by auto
    then show ?thesis by (simp add: would_cycle_iff)
  qed
  consider "after \<in> set (t_deps t)" | "after \<notin> set (t_deps t)" "would_cycle tid (t_deps t @ [after]) db = None"
    | "after \<notin> set (t_deps t)" "would_cycle tid (t_deps t @ [after]) db \<noteq> None"
    by blast
  then show ?thesis
  proof cases
    case 1
    then show ?thesis using assms old by (auto simp: depend_refused)
  next
    case 2
    have "t\<lparr>t_deps := t_deps t @ [after]\<rparr> \<in> set (tasks (set_task_deps tid (t_deps t @ [after]) db))"
      using t by (auto simp: set_task_deps_def set_update_where)
    then have "(tid, after) \<in> task_edges (set_task_deps tid (t_deps t @ [after]) db)"
      using t(2) by (intro task_edgesI [of "t\<lparr>t_deps := t_deps t @ [after]\<rparr>"]) simp_all
    moreover have "task_edges (set_task_deps tid (t_deps t @ [after]) db) \<subseteq> insert (tid, after) (task_edges db)"
      using task_edges_set_deps old by fastforce
    ultimately show ?thesis using depend_accepted [OF assms 2] wc 2 by simp
  next
    case 3
    then show ?thesis using assms wc by (auto simp: depend_refused)
  qed
qed

lemma depend_acyclic:
  assumes "acyclic (task_edges db)"
  shows "acyclic (task_edges (snd (depend tid after db)))"
proof (cases "get_task tid db")
  case (Some t)
  note edges = depend_edges [OF Some, of after]
  show ?thesis
  proof (cases "(tid, after) \<in> task_edges (snd (depend tid after db))")
    case True
    then have "acyclic (insert (tid, after) (task_edges db))"
      using edges assms by (metis insert_absorb)
    then show ?thesis using edges acyclic_subset by blast
  next
    case False
    then have "task_edges (snd (depend tid after db)) \<subseteq> task_edges db" using edges by blast
    then show ?thesis using assms acyclic_subset by blast
  qed
qed (use assms in \<open>simp add: depend_refused\<close>)

lemma dep_run_acyclic: "dep_step\<^sup>*\<^sup>* db db' \<Longrightarrow> acyclic (task_edges db) \<Longrightarrow> acyclic (task_edges db')"
  by (induction rule: rtranclp_induct) (auto elim!: dep_step.cases intro: declare_acyclic depend_acyclic)

text \<open>C37. After any sequence of \<open>declare\<close> and \<open>depend\<close> calls on a coordinator whose dependencies were
  acyclic they still are, and the gate is exact: \<open>depend\<close> on an existing task ends with the edge recorded
  if and only if the graph with that edge is acyclic.\<close>

theorem dependency_gate:
  assumes "dep_step\<^sup>*\<^sup>* db db'" and "acyclic (task_edges db)" and "get_task tid db' = Some t"
  shows "acyclic (task_edges db') \<and>
    ((tid, after) \<in> task_edges (snd (depend tid after db')) \<longleftrightarrow> acyclic (insert (tid, after) (task_edges db')))"
  using dep_run_acyclic [OF assms(1,2)] depend_edges [OF assms(3), of after] by (metis insert_absorb)


section \<open>Concrete input\<close>

definition dep_db1 :: db where
  "dep_db1 = snd (declare_task 0 ''a'' ''A'' [] [] [''b''] 0 [] empty_db)"

definition dep_db2 :: db where
  "dep_db2 = snd (declare_task 0 ''b'' ''B'' [] [] [] 0 [] dep_db1)"

lemma dep_db2_get: "map_option t_task_id (get_task ''b'' dep_db2) = Some ''b''"
  by code_simp

theorem dependency_gate_witness:
  "\<exists>t. get_task ''b'' dep_db2 = Some t \<and> acyclic (task_edges dep_db2) \<and>
     (((''b'', ''a'') \<in> task_edges (snd (depend ''b'' ''a'' dep_db2))) =
       acyclic (insert (''b'', ''a'') (task_edges dep_db2)))"
proof -
  obtain t where t: "get_task ''b'' dep_db2 = Some t" using dep_db2_get by auto
  have empty: "acyclic (task_edges empty_db)"
    by (simp add: task_edges_def empty_db_def acyclic_def)
  have "dep_step empty_db dep_db1" "dep_step dep_db1 dep_db2"
    unfolding dep_db1_def dep_db2_def by (rule dep_step.intros)+
  then have "dep_step\<^sup>*\<^sup>* empty_db dep_db2"
    by (meson converse_rtranclp_into_rtranclp rtranclp.rtrancl_refl)
  from dependency_gate [OF this empty t, of "''a''"] show ?thesis using t by blast
qed

end
