(* ===== verification/Ledger.thy ===== *)
theory Ledger
  imports Config Outbox Contract
begin

text \<open>
  How a decision of the authority becomes durable (\<open>omd_server/core.py\<close>, from \<open>_rank_observation\<close> to
  \<open>_pending_owner_fresh\<close>): the decision over the rows of the store, the identity and the payload of its
  event, the check by the admission contract, and the notification written to the outbox. Every
  transition of an orbit row goes through \<open>assert_admission_projection\<close>.
\<close>

section \<open>Rows as admission reads them\<close>

definition adm :: "orbit \<Rightarrow> adm_row" where
  "adm o' = adm_row.truncate o'"

lemma adm_simps [simp]:
  "orbit_id (adm o') = orbit_id o'" "agent_id (adm o') = agent_id o'" "mode (adm o') = mode o'"
  "pathspec (adm o') = pathspec o'" "priority (adm o') = priority o'" "queue_seq (adm o') = queue_seq o'"
  "policy_version (adm o') = policy_version o'" "enqueued_at (adm o') = enqueued_at o'"
  "fence (adm o') = fence o'"
  by (simp_all add: adm_def adm_row.truncate_def)

definition base_priority :: "orbit \<Rightarrow> int" where
  "base_priority o' = (case priority o' of None \<Rightarrow> 0 | Some p \<Rightarrow> p)"

definition lift_adm :: "(adm_error, 'a) result \<Rightarrow> (core_error, 'a) result" where
  "lift_adm r = (case r of Inl e \<Rightarrow> Inl (CoreAdmissionError e) | Inr x \<Rightarrow> Inr x)"

lemma lift_adm_Inr [simp]: "lift_adm r = Inr x \<longleftrightarrow> r = Inr x"
  by (cases r) (simp_all add: lift_adm_def)

section \<open>Ranks\<close>

record rank_facts =
  ro_base_priority :: int
  ro_effective_priority :: "int option"
  ro_observed_at :: rat
  ro_policy_version :: "string option"

definition rank_observation :: "config \<Rightarrow> orbit \<Rightarrow> rat \<Rightarrow> rank_facts" where
  "rank_observation g row now =
     \<lparr>ro_base_priority = base_priority row,
      ro_effective_priority = effective_priority (g_sha g) (g_policy g) (base_priority row) (policy_version row)
        (enqueued_at row) (Some (Fin now)) (o_state row \<noteq> ''PENDING''),
      ro_observed_at = now, ro_policy_version = policy_version row\<rparr>"

definition rank_fields :: "rank_facts \<Rightarrow> dict" where
  "rank_fields r = [(''base_priority'', JInt (ro_base_priority r)),
     (''effective_priority'', opt_json JInt (ro_effective_priority r)),
     (''observed_at'', JFloat (Fin (ro_observed_at r))),
     (''policy_version'', opt_str (ro_policy_version r))]"

text \<open>\<open>int(row.get("queue_seq") or -1)\<close>: a missing ticket and ticket 0 give -1.\<close>

definition pending_key :: "config \<Rightarrow> rat \<Rightarrow> orbit \<Rightarrow> int \<times> int \<times> int \<times> string" where
  "pending_key g now row =
     (case policy_rank_key (g_sha g) (g_policy g) (base_priority row) (queue_seq row) (policy_version row)
         (enqueued_at row) (Some (Fin now)) False of
        None \<Rightarrow> (0, 0, case queue_seq row of None \<Rightarrow> - 1 | Some n \<Rightarrow> if n = 0 then - 1 else n, orbit_id row)
      | Some (a, b) \<Rightarrow> (1, a, b, orbit_id row))"

definition ordered_pending :: "config \<Rightarrow> rat \<Rightarrow> db \<Rightarrow> orbit list" where
  "ordered_pending g now db = sort_key (pending_key g now) (pending_orbits db)"

section \<open>Decisions over the store\<close>

definition conflict_ids :: "string list \<Rightarrow> string \<Rightarrow> db \<Rightarrow> (core_error, string list) result" where
  "conflict_ids ps md db =
     bind_res (lift_adm (filter_res (\<lambda>o'. exact_conflict ps md (adm o')) (held_orbits db))) (\<lambda>os.
       Inr (map orbit_id os))"

definition decide_now :: "config \<Rightarrow> rat \<Rightarrow> admission_request \<Rightarrow> db \<Rightarrow> (core_error, admission_decision) result" where
  "decide_now g now req db =
     lift_adm (decide_admission (g_sha g) (g_policy g) (Fin now) True req
       (map adm (held_orbits db)) (map adm (pending_orbits db)))"

definition snapshot_hash :: "config \<Rightarrow> rat option \<Rightarrow> db \<Rightarrow> (core_error, string) result" where
  "snapshot_hash g observed db =
     lift_adm (authority_snapshot_hash (g_sha g) (g_leader_epoch g)
       (case observed of None \<Rightarrow> None | Some _ \<Rightarrow> Some (g_policy g)) (map_option Fin observed)
       (map adm (held_orbits db)) (map adm (pending_orbits db)))"

definition admission_decision_now ::
  "config \<Rightarrow> rat \<Rightarrow> (adm_error, admission_request) result \<Rightarrow> db \<Rightarrow>
   (core_error, admission_decision \<times> string) result" where
  "admission_decision_now g now request db =
     bind_res (lift_adm request) (\<lambda>req.
       bind_res (decide_now g now req db) (\<lambda>d.
         bind_res (snapshot_hash g (Some now) db) (\<lambda>h. Inr (d, h))))"

section \<open>Identities and payloads\<close>

definition version_or_current :: "config \<Rightarrow> string option \<Rightarrow> string" where
  "version_or_current g v =
     (case v of None \<Rightarrow> current_version (g_sha g) (g_policy g)
      | Some v \<Rightarrow> if v = [] then current_version (g_sha g) (g_policy g) else v)"

definition internal_request_id :: "orbit \<Rightarrow> string" where
  "internal_request_id o' =
     (case o_request_id o' of
        None \<Rightarrow> ''internal:'' @ orbit_id o' | Some r \<Rightarrow> if r = [] then ''internal:'' @ orbit_id o' else r)"

definition row_strings :: "orbit \<Rightarrow> (adm_error, string list) result" where
  "row_strings o' =
     bind_res (row_paths (pathspec o')) (\<lambda>v.
       case v of
         JList vs \<Rightarrow> (case all_some (map json_str vs) of None \<Rightarrow> Inl (TypeError ''pathspec'') | Some ps \<Rightarrow> Inr ps)
       | _ \<Rightarrow> Inl (TypeError ''pathspec''))"

definition row_digest :: "config \<Rightarrow> orbit \<Rightarrow> (core_error, string) result" where
  "row_digest g o' =
     (case o_pathspec_digest o' of
        Some d \<Rightarrow> Inr d
      | None \<Rightarrow> lift_adm (bind_res (row_strings o') (pathspec_digest (g_sha g))))"

definition admission_identity :: "config \<Rightarrow> orbit \<Rightarrow> (core_error, dict) result" where
  "admission_identity g o' =
     bind_res (row_digest g o') (\<lambda>digest.
       Inr [(''repository_id'', JStr (g_repository_id g)), (''request_id'', JStr (internal_request_id o')),
            (''orbit_id'', JStr (orbit_id o')), (''request_generation'', JInt (o_request_generation o')),
            (''owner_agent'', JStr (agent_id o')), (''bail_epoch'', JInt (o_bail_epoch o')),
            (''mode'', JStr (mode o')), (''pathspec_digest'', JStr digest),
            (''policy_version'', JStr (version_or_current g (policy_version o')))])"

definition fresh_event_id :: "db \<Rightarrow> string \<times> db" where
  "fresh_event_id db = (let (u, db) = fresh_uuid db in (''evt-'' @ u, db))"

definition admission_payload ::
  "config \<Rightarrow> string \<Rightarrow> dict \<Rightarrow> string \<Rightarrow> dict \<Rightarrow> db \<Rightarrow> (core_error, dict \<times> db) result" where
  "admission_payload g ev identity h variant db =
     (let (i, db) = fresh_event_id db;
          payload = put_all variant (put_all [(''actor'', JStr (g_coordinator_id g)), (''event_id'', JStr i),
            (''authority_snapshot_hash'', JStr h)] identity)
      in case bind_decision_id (g_sha g) admission_spec ev payload of
           Inl e \<Rightarrow> Inl (CoreValueError e)
         | Inr p \<Rightarrow> Inr (p, db))"

section \<open>Notifications\<close>

definition admission_notification_events :: "(string \<times> string) list" where
  "admission_notification_events =
     [(''ADMISSION_GRANTED'', ''orbit_granted''), (''ADMISSION_QUEUED'', ''orbit_pending''),
      (''ADMISSION_DENIED'', ''orbit_denied''), (''ADMISSION_REJECTED'', ''orbit_rejected''),
      (''PROMOTION_GRANTED'', ''orbit_granted''), (''PROMOTION_DENIED'', ''orbit_denied''),
      (''RELEASE'', ''orbit_released''), (''CANCEL'', ''orbit_cancelled''), (''WAIT_TIMEOUT'', ''orbit_timed_out''),
      (''LEASE_EXPIRED'', ''orbit_expired''), (''WAIT_OWNER_RECLAIMED'', ''orbit_released''),
      (''LEASE_OWNER_RECLAIMED'', ''orbit_released'')]"

definition auxiliary_notification_events :: "(string \<times> string) list" where
  "auxiliary_notification_events = [(''AGENT_RECLAIMED'', ''agent_reclaimed'')]"

definition notification_schema :: "string \<Rightarrow> string option" where
  "notification_schema ev =
     (if map_of auxiliary_notification_events ev \<noteq> None then Some ''coordination_notification/v1''
      else if map_of admission_notification_events ev \<noteq> None then Some ''admission_notification/v1'' else None)"

fun str_of :: "json \<Rightarrow> string" where
  "str_of (JStr s) = s"
| "str_of _ = []"

fun int_of :: "json \<Rightarrow> int" where
  "int_of (JInt i) = i"
| "int_of _ = 0"

text \<open>\<open>context.get("owner_agent") or payload.get("owner_agent") or payload["request_id"]\<close>.\<close>

definition correlation_of :: "dict \<Rightarrow> dict \<Rightarrow> string" where
  "correlation_of ctx payload =
     (if truthy (Some (pget ''owner_agent'' ctx)) then str_of (pget ''owner_agent'' ctx)
      else if truthy (Some (pget ''owner_agent'' payload)) then str_of (pget ''owner_agent'' payload)
      else str_of (pget ''request_id'' payload))"

definition notification_effect_key :: "config \<Rightarrow> string \<Rightarrow> string \<Rightarrow> dict \<Rightarrow> string" where
  "notification_effect_key g schema ev payload =
     (if schema = ''admission_notification/v1'' then ''admission-effect-'' else ''coordination-effect-'') @
     g_sha g (JDict [(''schema'', JStr schema), (''repository_id'', pget ''repository_id'' payload),
       (''request_id'', pget ''request_id'' payload), (''request_generation'', pget ''request_generation'' payload),
       (''orbit_id'', pget ''orbit_id'' payload), (''transition_kind'', JStr ev)])"

definition notification_envelope :: "config \<Rightarrow> string \<Rightarrow> string \<Rightarrow> string \<Rightarrow> string \<Rightarrow> dict \<Rightarrow> string \<Rightarrow> dict" where
  "notification_envelope g schema telemetry ev key payload cid =
     put_all payload
       [(''cid'', JStr cid), (''correlation_id'', JStr cid), (''cycle_id'', JStr cid),
        (''service'', JStr (g_service g)), (''event'', JStr telemetry), (''notification_schema'', JStr schema),
        (''semantic_event'', JStr ev), (''effect_key'', JStr key),
        (''promoted'', JBool (ev = ''PROMOTION_GRANTED'')), (''deadlock'', JBool (ev = ''PROMOTION_DENIED''))]"

definition notification_row :: "config \<Rightarrow> rat \<Rightarrow> string \<Rightarrow> string \<Rightarrow> string \<Rightarrow> dict \<Rightarrow> dict \<Rightarrow> outbox_row" where
  "notification_row g now schema telemetry ev payload ctx =
     (let key = notification_effect_key g schema ev payload;
          cid = correlation_of ctx payload;
          envelope = JDict (notification_envelope g schema telemetry ev key payload cid);
          created = (case finite_number (pget ''observed_at'' payload) of None \<Rightarrow> now | Some t \<Rightarrow> t)
      in \<lparr>x_seq = 0, x_event_id = str_of (pget ''event_id'' payload), x_effect_key = key, x_schema_version = schema,
          x_repository_id = str_of (pget ''repository_id'' payload), x_request_id = str_of (pget ''request_id'' payload),
          x_request_generation = int_of (pget ''request_generation'' payload),
          x_orbit_id = str_of (pget ''orbit_id'' payload), x_transition_kind = ev, x_correlation_id = cid,
          x_payload = envelope, x_payload_sha256 = g_sha g envelope, x_state = ''PENDING'', x_attempts = 0,
          x_available_at = created, x_claimed_by = None, x_claim_token = None, x_claim_deadline = None,
          x_created_at = created, x_delivered_at = None, x_last_error = None\<rparr>)"

definition enqueue_notification ::
  "config \<Rightarrow> rat \<Rightarrow> string \<Rightarrow> dict \<Rightarrow> dict \<Rightarrow> string list \<Rightarrow> db \<Rightarrow> (core_error, db) result" where
  "enqueue_notification g now ev payload ctx preds db =
     (case (map_of (admission_notification_events @ auxiliary_notification_events) ev, notification_schema ev) of
        (Some telemetry, Some schema) \<Rightarrow>
          (let missing = filter (\<lambda>k. map_of payload k = None)
                 [''repository_id'', ''request_id'', ''request_generation'', ''orbit_id'', ''event_id'']
           in if missing \<noteq> [] then Inl (RuntimeError (''admission notification identity missing: '' @ join_text '', '' missing))
              else bind_res (enqueue_admission_outbox (notification_row g now schema telemetry ev payload ctx) preds db)
                (\<lambda>(_, db). Inr db))
      | _ \<Rightarrow> Inr db)"

section \<open>The contract's check\<close>

definition assert_admission_projection ::
  "config \<Rightarrow> rat \<Rightarrow> dict \<Rightarrow> string \<Rightarrow> dict \<Rightarrow> string \<Rightarrow> string option \<Rightarrow> db \<Rightarrow> (core_error, step_result \<times> db) result" where
  "assert_admission_projection g now ctx ev payload trusted expected db =
     (let r = admission_step (g_sha g) admission_spec trusted [] ctx ev (JDict payload) in
      if \<not> sr_accepted r then Inl (RuntimeError (''admission reducer rejected authority decision: '' @ sr_reason r))
      else case project_legacy (str_of (pget ''state'' (sr_context r))) (sr_context r) of
          Inl e \<Rightarrow> Inl (CoreValueError e)
        | Inr p \<Rightarrow>
            if pj_state p \<noteq> expected then Inl (RuntimeError ''admission projection mismatch'')
            else bind_res (enqueue_notification g now ev payload (sr_context r) [] db) (\<lambda>db. Inr (r, db)))"

definition lifecycle_expected :: "(string \<times> string \<times> string) list" where
  "lifecycle_expected = [(''RENEW'', ''HELD'', ''HELD''), (''RELEASE'', ''RELEASED'', ''RELEASED''),
     (''LEASE_EXPIRED'', ''EXPIRED'', ''EXPIRED''), (''WAIT_OWNER_RECLAIMED'', ''CANCELLED'', ''DENIED''),
     (''LEASE_OWNER_RECLAIMED'', ''EXPIRED'', ''EXPIRED'')]"

definition lifecycle_payload :: "config \<Rightarrow> string \<Rightarrow> dict \<Rightarrow> orbit \<Rightarrow> string \<Rightarrow> string \<Rightarrow> dict \<Rightarrow> dict" where
  "lifecycle_payload g ev identity o' h i variant =
     (let base = map (\<lambda>f. (f, pget f identity)) request_fields @
            [(''actor'', JStr (g_coordinator_id g)), (''authority_snapshot_hash'', JStr h), (''event_id'', JStr i)];
          owned = (if ev \<in> {''RENEW'', ''RELEASE'', ''WAIT_OWNER_RECLAIMED'', ''LEASE_OWNER_RECLAIMED''}
            then put_all [(''owner_agent'', pget ''owner_agent'' identity), (''bail_epoch'', pget ''bail_epoch'' identity)] base
            else base);
          fenced = (if ev \<in> {''RENEW'', ''RELEASE'', ''LEASE_EXPIRED'', ''LEASE_OWNER_RECLAIMED''}
            then dict_put ''fence'' (opt_int (fence o')) owned else owned)
      in put_all variant fenced)"

definition lifecycle_context :: "string \<Rightarrow> dict \<Rightarrow> orbit \<Rightarrow> dict" where
  "lifecycle_context ev identity o' =
     (let ctx = dict_put ''state'' (JStr (o_state o')) identity;
          ctx = (if fence o' \<noteq> None then dict_put ''fence'' (opt_int (fence o')) ctx else ctx)
      in if ev = ''LEASE_EXPIRED'' then dict_put ''lease_deadline'' (opt_json (\<lambda>t. JFloat (Fin t)) (o_expires_at o')) ctx
         else ctx)"

text \<open>What the callers read of the result: the snapshot hash and the id of the event.\<close>

definition reduce_orbit_lifecycle ::
  "config \<Rightarrow> rat \<Rightarrow> orbit \<Rightarrow> string \<Rightarrow> dict \<Rightarrow> db \<Rightarrow> (core_error, string \<times> string \<times> db) result" where
  "reduce_orbit_lifecycle g now o' ev variant db =
     (case map_of lifecycle_expected ev of
        None \<Rightarrow> Inl (CoreValueError (''unsupported orbit lifecycle event: '' @ ev))
      | Some (semantic, legacy) \<Rightarrow>
          bind_res (snapshot_hash g None db) (\<lambda>h.
          bind_res (admission_identity g o') (\<lambda>identity.
            (let (i, db) = fresh_event_id db;
                 payload = lifecycle_payload g ev identity o' h i variant
             in bind_res (assert_admission_projection g now (lifecycle_context ev identity o') ev payload h (Some legacy) db)
                  (\<lambda>(r, db).
                    if pget ''state'' (sr_context r) \<noteq> JStr semantic
                    then Inl (RuntimeError ''admission lifecycle mismatch'')
                    else Inr (h, i, db))))))"

definition pending_owner_fresh :: "config \<Rightarrow> rat \<Rightarrow> orbit \<Rightarrow> db \<Rightarrow> bool" where
  "pending_owner_fresh g now o' db =
     (case get_agent (agent_id o') db of
        None \<Rightarrow> False
      | Some a \<Rightarrow>
          if a_state a \<noteq> ''WORKING'' then False
          else (case g_agent_ttl g of
              None \<Rightarrow> True
            | Some d \<Rightarrow>
                if d = 0 then True
                else (let ttl = (case a_liveness_ttl a of None \<Rightarrow> d | Some t \<Rightarrow> if t = 0 then d else t)
                      in a_last_heartbeat a \<ge> now - ttl)))"

end
