(* ===== verification/Scheduler.thy ===== *)
theory Scheduler
  imports Ledger DepGraph
begin

text \<open>
  The maintenance of the queue in \<open>omd_server/core.py\<close>: timing out, promotion, the wait-for graph and
  the resolution of its cycles (\<open>_timeout_pending\<close>, \<open>_promote_pending\<close>, \<open>_wait_for\<close>, \<open>_cycle_with\<close>,
  \<open>_deny_reservation_cycles\<close>) and the expiry of leases in \<open>_reconcile_admission\<close>.
\<close>

section \<open>Timing out\<close>

definition queue_context :: "dict \<Rightarrow> orbit \<Rightarrow> dict \<Rightarrow> dict" where
  "queue_context identity o' extra =
     put_all extra (put_all [(''state'', JStr ''PENDING''), (''queue_seq'', opt_int (queue_seq o'))] identity)"

definition timeout_payload :: "config \<Rightarrow> rat \<Rightarrow> dict \<Rightarrow> string \<Rightarrow> string \<Rightarrow> dict" where
  "timeout_payload g now identity h i =
     map (\<lambda>f. (f, pget f identity)) request_fields @
     [(''actor'', JStr (g_coordinator_id g)), (''authority_snapshot_hash'', JStr h),
      (''observed_at'', JFloat (Fin now)), (''event_id'', JStr i)]"

definition timeout_orbit :: "config \<Rightarrow> rat \<Rightarrow> orbit \<Rightarrow> db \<Rightarrow> (core_error, db) result" where
  "timeout_orbit g now o' db =
     bind_res (snapshot_hash g None db) (\<lambda>h.
     bind_res (admission_identity g o') (\<lambda>identity.
       (let (i, db) = fresh_event_id db in
        bind_res (assert_admission_projection g now
            (queue_context identity o' [(''wait_deadline'', opt_json (\<lambda>t. JFloat (Fin t)) (o_wait_deadline o'))])
            ''WAIT_TIMEOUT'' (timeout_payload g now identity h i) h (Some ''DENIED'') db) (\<lambda>(_, db).
        bind_res (step_state g ''orbit'' ''PENDING'' ''deny'') (\<lambda>st.
          Inr (set_orbit (orbit_id o') (no_set\<lparr>u_state := Some st, u_released_at := Some (Some now),
            u_authority_snapshot_hash := Some (Some h), u_decision_id := Some None,
            u_decision_type := Some (Some ''WAIT_TIMEOUT''), u_blocker_ids := Some [],
            u_terminal_reason := Some (Some ''wait_timeout'')\<rparr>) db))))))"

text \<open>A loop over rows that were read before it, each iteration on the store the last one left.\<close>

fun for_rows :: "('a \<Rightarrow> db \<Rightarrow> (core_error, db) result) \<Rightarrow> 'a list \<Rightarrow> db \<Rightarrow> (core_error, db) result" where
  "for_rows f [] db = Inr db"
| "for_rows f (x # xs) db = bind_res (f x db) (for_rows f xs)"

definition timeout_pending :: "config \<Rightarrow> rat \<Rightarrow> db \<Rightarrow> (core_error, db) result" where
  "timeout_pending g now db = for_rows (timeout_orbit g now) (due_pending_orbits now db) db"

section \<open>Promotion\<close>

definition decision_fields :: "admission_decision \<Rightarrow> dict" where
  "decision_fields d = [(''base_priority'', JInt (dec_base_priority d)),
     (''effective_priority'', JInt (dec_effective_priority d)), (''observed_at'', JFloat (Fin (dec_observed_at d)))]"

definition decided_columns :: "string \<Rightarrow> string \<Rightarrow> dict \<Rightarrow> admission_decision \<Rightarrow> string list \<Rightarrow> orbit_set \<Rightarrow> orbit_set" where
  "decided_columns ev h payload d blockers u =
     u\<lparr>u_authority_snapshot_hash := Some (Some h),
       u_decision_id := Some (Some (str_of (pget ''decision_id'' payload))),
       u_decision_type := Some (Some ev), u_decision_schema := Some (Some ''admission_decision/v2''),
       u_decision_observed_at := Some (Some (dec_observed_at d)),
       u_decision_effective_priority := Some (Some (dec_effective_priority d)), u_blocker_ids := Some blockers\<rparr>"

definition grant_pending ::
  "config \<Rightarrow> rat \<Rightarrow> orbit \<Rightarrow> admission_decision \<Rightarrow> string \<Rightarrow> dict \<Rightarrow> db \<Rightarrow> (core_error, db) result" where
  "grant_pending g now o' d h identity db =
     (let (fn, db) = next_fence db;
          rg = (if mode o' = ''read'' then Some (Some (integration_gen db)) else None);
          lease_deadline = now + (case o_requested_ttl o' of None \<Rightarrow> 600 | Some t \<Rightarrow> t)
      in bind_res (admission_payload g ''PROMOTION_GRANTED'' identity h
           ([(''queue_seq'', opt_int (queue_seq o')), (''fence'', JInt fn),
             (''lease_deadline'', JFloat (Fin lease_deadline))] @ decision_fields d) db) (\<lambda>(payload, db).
         bind_res (assert_admission_projection g now
             (queue_context identity o' (rank_fields (rank_observation g o' now)))
             ''PROMOTION_GRANTED'' payload h (Some ''HELD'') db) (\<lambda>(_, db).
         bind_res (step_state g ''orbit'' ''PENDING'' ''grant'') (\<lambda>st.
           Inr (set_orbit (orbit_id o') (decided_columns ''PROMOTION_GRANTED'' h payload d []
             (no_set\<lparr>u_state := Some st, u_expires_at := Some (Some lease_deadline), u_fence := Some (Some fn),
                     u_read_gen := rg\<rparr>)) db)))))"

definition block_pending ::
  "config \<Rightarrow> rat \<Rightarrow> orbit \<Rightarrow> admission_decision \<Rightarrow> string \<Rightarrow> dict \<Rightarrow> db \<Rightarrow> (core_error, db) result" where
  "block_pending g now o' d h identity db =
     bind_res (admission_payload g ''PROMOTION_BLOCKED'' identity h
         ([(''queue_seq'', opt_int (queue_seq o')),
           (''blocker_fingerprint'', JStr (g_sha g (JList (map JStr (blocker_ids d)))))] @ decision_fields d) db)
       (\<lambda>(payload, db).
         bind_res (assert_admission_projection g now
             (queue_context identity o' (rank_fields (rank_observation g o' now)))
             ''PROMOTION_BLOCKED'' payload h (Some ''PENDING'') db) (\<lambda>(_, db).
           Inr (set_orbit (orbit_id o')
             (decided_columns ''PROMOTION_BLOCKED'' h payload d (blocker_ids d) no_set) db)))"

definition promote_orbit :: "config \<Rightarrow> rat \<Rightarrow> orbit \<Rightarrow> db \<Rightarrow> (core_error, db) result" where
  "promote_orbit g now o' db =
     (if due (o_wait_deadline o') now then Inr db
      else if \<not> pending_owner_fresh g now o' db then Inr db
      else if ro_effective_priority (rank_observation g o' now) = None then Inr db
      else bind_res (admission_decision_now g now (row_request (g_sha g) (g_policy g) (adm o')) db) (\<lambda>(d, h).
        bind_res (admission_identity g o') (\<lambda>identity.
          if grantable d then grant_pending g now o' d h identity db
          else block_pending g now o' d h identity db)))"

definition promote_pending :: "config \<Rightarrow> rat \<Rightarrow> db \<Rightarrow> (core_error, db) result" where
  "promote_pending g now db = for_rows (promote_orbit g now) (ordered_pending g now db) db"

section \<open>The wait-for graph\<close>

text \<open>The edges between agents and, for each edge, the queued orbits it comes from.\<close>

type_synonym wait_graph = "graph \<times> ((string \<times> string) \<times> string) list"

definition owner_of :: "string \<Rightarrow> orbit list \<Rightarrow> string" where
  "owner_of oid rows = (case List.find (\<lambda>o'. orbit_id o' = oid) rows of None \<Rightarrow> [] | Some o' \<Rightarrow> agent_id o')"

definition add_blocker :: "orbit list \<Rightarrow> orbit \<Rightarrow> string \<Rightarrow> wait_graph \<Rightarrow> wait_graph" where
  "add_blocker rows p blocker w =
     (let source = agent_id p; target = owner_of blocker rows in
      if target = source then w
      else (add_edges source [target] (fst w), snd w @ [((source, target), orbit_id p)]))"

definition wait_for_row :: "config \<Rightarrow> rat \<Rightarrow> db \<Rightarrow> orbit \<Rightarrow> wait_graph \<Rightarrow> (core_error, wait_graph) result" where
  "wait_for_row g now db p w =
     (if ro_effective_priority (rank_observation g p now) = None then Inr w
      else bind_res (lift_adm (request_with (case policy_version p of None \<Rightarrow> [] | Some v \<Rightarrow> v) (adm p))) (\<lambda>req.
        bind_res (decide_now g now req db) (\<lambda>d.
          Inr (fold (add_blocker (pending_orbits db @ held_orbits db) p) (blocker_ids d) w))))"

fun wait_for_rows :: "config \<Rightarrow> rat \<Rightarrow> db \<Rightarrow> orbit list \<Rightarrow> wait_graph \<Rightarrow> (core_error, wait_graph) result" where
  "wait_for_rows g now db [] w = Inr w"
| "wait_for_rows g now db (p # ps) w = bind_res (wait_for_row g now db p w) (wait_for_rows g now db ps)"

definition wait_for :: "config \<Rightarrow> rat \<Rightarrow> db \<Rightarrow> (core_error, wait_graph) result" where
  "wait_for g now db = wait_for_rows g now db (pending_orbits db) ([], [])"

lemma graph_succs_nodes: "m \<in> set (graph_succs g n) \<Longrightarrow> m \<in> set (graph_nodes g)"
  using edge_node [of n m g] by (simp add: graph_edges_def)

text \<open>The search of \<open>_cycle_with\<close>: \<open>path\<close> holds the nodes on the way.\<close>

function cycle_dfs :: "graph \<Rightarrow> string \<Rightarrow> string \<Rightarrow> string list \<Rightarrow> bool" where
  "cycle_dfs g node n path =
     list_ex (\<lambda>m. if m = node then True else if m \<in> set path then False
       else cycle_dfs g node m (m # path)) (graph_succs g n)"
  by pat_completeness auto

termination
proof (relation "measure (\<lambda>(g, node, n, path). card (set (graph_nodes g) - set path))")
  fix g :: graph and node n path and m :: string
  assume "m \<in> set (graph_succs g n)" and "m \<noteq> node" and "m \<notin> set path"
  then have "set (graph_nodes g) - set (m # path) \<subset> set (graph_nodes g) - set path"
    using graph_succs_nodes [of m g n] by auto
  then have "card (set (graph_nodes g) - set (m # path)) < card (set (graph_nodes g) - set path)"
    by (intro psubset_card_mono) simp_all
  then show "((g, node, m, m # path), (g, node, n, path)) \<in>
      measure (\<lambda>(g, node, n, path). card (set (graph_nodes g) - set path))"
    by simp
qed simp

definition cycle_with :: "config \<Rightarrow> string \<Rightarrow> rat \<Rightarrow> db \<Rightarrow> (core_error, bool) result" where
  "cycle_with g node now db = bind_res (wait_for g now db) (\<lambda>(edges, _). Inr (cycle_dfs edges node node [node]))"

section \<open>Breaking cycles\<close>

definition cycle_sources :: "wait_graph \<Rightarrow> string list \<Rightarrow> string list" where
  "cycle_sources w cyc =
     remdups (map snd (filter (\<lambda>(e, _). e \<in> set (zip cyc (tl cyc))) (snd w)))"

definition victim_key :: "orbit \<Rightarrow> int \<times> string" where
  "victim_key o' = (case queue_seq o' of None \<Rightarrow> 0 | Some n \<Rightarrow> n, orbit_id o')"

definition pending_candidates :: "string list \<Rightarrow> db \<Rightarrow> orbit list" where
  "pending_candidates ids db =
     filter (\<lambda>o'. o_state o' = ''PENDING'') (List.map_filter (\<lambda>i. get_orbit i db) ids)"

definition cycle_victim :: "orbit list \<Rightarrow> orbit option" where
  "cycle_victim cands = (case cands of [] \<Rightarrow> None | c # cs \<Rightarrow>
     Some (foldl (\<lambda>a b. if victim_key a < victim_key b then b else a) c cs))"

definition deny_victim :: "config \<Rightarrow> rat \<Rightarrow> string \<Rightarrow> orbit \<Rightarrow> db \<Rightarrow> (core_error, db) result" where
  "deny_victim g now why o' db =
     bind_res (admission_decision_now g now
         (row_request (g_sha g) (g_policy g) (adm o')) db) (\<lambda>(d, h).
     bind_res (admission_identity g o') (\<lambda>identity.
     bind_res (admission_payload g ''PROMOTION_DENIED'' identity h
         ([(''queue_seq'', opt_int (queue_seq o')), (''reason'', JStr why)] @ decision_fields d) db) (\<lambda>(payload, db).
     bind_res (assert_admission_projection g now
         (queue_context identity o' (rank_fields (rank_observation g o' now)))
         ''PROMOTION_DENIED'' payload h (Some ''DENIED'') db) (\<lambda>(_, db).
     bind_res (step_state g ''orbit'' ''PENDING'' ''deny'') (\<lambda>st.
       Inr (set_orbit (orbit_id o') (decided_columns ''PROMOTION_DENIED'' h payload d (blocker_ids d)
         (no_set\<lparr>u_state := Some st, u_released_at := Some (Some now), u_terminal_reason := Some (Some why)\<rparr>)) db))))))"

text \<open>The \<open>while True\<close> loop, with the number of its iterations bounded by \<open>fuel\<close>; \<open>None\<close> means that
  the bound was reached.\<close>

fun deny_cycles_loop :: "config \<Rightarrow> rat \<Rightarrow> string \<Rightarrow> nat \<Rightarrow> db \<Rightarrow> (core_error, db) result option" where
  "deny_cycles_loop g now why 0 db = None"
| "deny_cycles_loop g now why (Suc fuel) db =
     (case wait_for g now db of
        Inl e \<Rightarrow> Some (Inl e)
      | Inr w \<Rightarrow>
          (case find_cycle (fst w) of
             None \<Rightarrow> Some (Inr db)
           | Some cyc \<Rightarrow>
               (case cycle_victim (pending_candidates (cycle_sources w cyc) db) of
                  None \<Rightarrow> Some (Inl (RuntimeError ''reservation cycle has no authoritative PENDING source''))
                | Some v \<Rightarrow>
                    (case deny_victim g now why v db of
                       Inl e \<Rightarrow> Some (Inl e)
                     | Inr db \<Rightarrow> deny_cycles_loop g now why fuel db))))"

text \<open>Each iteration takes a row out of the queue, so one more than its length is enough
  (\<open>deny_cycles_terminates\<close>); the branch for a loop that goes on is never taken then.\<close>

definition deny_reservation_cycles :: "config \<Rightarrow> rat \<Rightarrow> string \<Rightarrow> db \<Rightarrow> (core_error, db) result" where
  "deny_reservation_cycles g now why db =
     (case deny_cycles_loop g now why (Suc (length (pending_orbits db))) db of
        Some r \<Rightarrow> r | None \<Rightarrow> Inl (RuntimeError ''the loop goes on''))"

section \<open>Expiry and the queue\<close>

definition expire_orbit :: "config \<Rightarrow> rat \<Rightarrow> orbit \<Rightarrow> db \<Rightarrow> (core_error, db) result" where
  "expire_orbit g now o' db =
     bind_res (reduce_orbit_lifecycle g now o' ''LEASE_EXPIRED'' [(''observed_at'', JFloat (Fin now))] db) (\<lambda>(h, _, db).
     bind_res (step_state g ''orbit'' ''HELD'' ''expire'') (\<lambda>st.
       Inr (set_orbit (orbit_id o') (no_set\<lparr>u_state := Some st, u_released_at := Some (Some now),
         u_authority_snapshot_hash := Some (Some h), u_decision_id := Some None,
         u_decision_type := Some (Some ''LEASE_EXPIRED''), u_terminal_reason := Some (Some ''lease_expired'')\<rparr>) db)))"

definition expire_due :: "config \<Rightarrow> rat \<Rightarrow> db \<Rightarrow> (core_error, db) result" where
  "expire_due g now db = for_rows (expire_orbit g now) (due_orbits now db) db"

definition rank_change_reason :: string where
  "rank_change_reason = ''reservation_cycle_after_rank_change''"

text \<open>The last three steps of \<open>_reconcile_admission\<close>.\<close>

definition settle_queue :: "config \<Rightarrow> rat \<Rightarrow> db \<Rightarrow> (core_error, db) result" where
  "settle_queue g now db =
     bind_res (timeout_pending g now db) (\<lambda>db.
     bind_res (deny_reservation_cycles g now rank_change_reason db) (promote_pending g now))"

text \<open>\<open>_reconcile_admission(now, reclaim=False)\<close>.\<close>

definition reconcile_no_reclaim :: "config \<Rightarrow> rat \<Rightarrow> db \<Rightarrow> (core_error, db) result" where
  "reconcile_no_reclaim g now db = bind_res (expire_due g now db) (settle_queue g now)"

end
