(* ===== verification/Barriers.thy ===== *)
theory Barriers
  imports Config
begin

text \<open>
  Barriers, \<open>omd_server/_barriers.py\<close> with the barrier tables of \<open>omd_server/store.py\<close>: a rendezvous
  of tasks that are connected together. A party is alive as long as its task holds its write orbits
  under the fence it arrived with; a death or the deadline breaks the barrier, so that everybody who
  waits is told. The verbs that sweep first (\<open>barrier_arrive\<close>, \<open>barrier_status\<close>) are here from the
  point after their sweep and complete in \<open>Process\<close>,
  with the trip that merges the tasks.
\<close>

section \<open>Tables\<close>

definition add_barrier ::
  "rat \<Rightarrow> string \<Rightarrow> string \<Rightarrow> string \<Rightarrow> int \<Rightarrow> int \<Rightarrow> string \<Rightarrow> string \<Rightarrow> rat option \<Rightarrow> db \<Rightarrow> db" where
  "add_barrier now bid nm kind parties gen st policy deadline db = db\<lparr>barriers := barriers db @
     [\<lparr>b_barrier_id = bid, b_name = nm, b_kind = kind, b_parties = parties, b_generation = gen,
       b_state = st, b_break_reason = None, b_policy = policy, b_deadline_at = deadline,
       b_created_at = now\<rparr>]\<rparr>"

definition get_barrier :: "string \<Rightarrow> db \<Rightarrow> barrier option" where
  "get_barrier bid db = fetchone (filter (\<lambda>b. b_barrier_id b = bid) (barriers db))"

definition barrier_by_name :: "string \<Rightarrow> db \<Rightarrow> barrier option" where
  "barrier_by_name nm db =
     fetchone (sort_key (\<lambda>b. - b_generation b) (filter (\<lambda>b. b_name b = nm) (barriers db)))"

text \<open>The given keyword arguments of \<open>set_barrier\<close> are an update of the row.\<close>

definition set_barrier :: "string \<Rightarrow> (barrier \<Rightarrow> barrier) \<Rightarrow> db \<Rightarrow> db" where
  "set_barrier bid upd db = db\<lparr>barriers := update_where (\<lambda>b. b_barrier_id b = bid) upd (barriers db)\<rparr>"

definition is_party :: "string \<Rightarrow> int \<Rightarrow> string \<Rightarrow> party \<Rightarrow> bool" where
  "is_party bid gen tid p \<longleftrightarrow> p_barrier_id p = bid \<and> p_generation p = gen \<and> p_task_id p = tid"

definition add_barrier_party :: "string \<Rightarrow> int \<Rightarrow> string \<Rightarrow> string option \<Rightarrow> db \<Rightarrow> db" where
  "add_barrier_party bid gen tid aid db =
     (if \<exists>p\<in>set (barrier_parties db). is_party bid gen tid p then db
      else db\<lparr>barrier_parties := barrier_parties db @
        [\<lparr>p_barrier_id = bid, p_generation = gen, p_task_id = tid, p_agent_id = aid,
          p_arrived = False, p_arrive_fence = None\<rparr>]\<rparr>)"

definition parties_of :: "string \<Rightarrow> int \<Rightarrow> db \<Rightarrow> party list" where
  "parties_of bid gen db =
     sort_key p_task_id (filter (\<lambda>p. p_barrier_id p = bid \<and> p_generation p = gen) (barrier_parties db))"

definition get_barrier_party :: "string \<Rightarrow> int \<Rightarrow> string \<Rightarrow> db \<Rightarrow> party option" where
  "get_barrier_party bid gen tid db = fetchone (filter (is_party bid gen tid) (barrier_parties db))"

definition set_barrier_party :: "string \<Rightarrow> int \<Rightarrow> string \<Rightarrow> (party \<Rightarrow> party) \<Rightarrow> db \<Rightarrow> db" where
  "set_barrier_party bid gen tid upd db =
     db\<lparr>barrier_parties := update_where (is_party bid gen tid) upd (barrier_parties db)\<rparr>"

definition del_barrier_party :: "string \<Rightarrow> int \<Rightarrow> string \<Rightarrow> db \<Rightarrow> db" where
  "del_barrier_party bid gen tid db =
     db\<lparr>barrier_parties := filter (\<lambda>p. \<not> is_party bid gen tid p) (barrier_parties db)\<rparr>"

definition barriers_with_task :: "string \<Rightarrow> db \<Rightarrow> barrier list" where
  "barriers_with_task tid db =
     filter (\<lambda>b. list_ex (is_party (b_barrier_id b) (b_generation b) tid) (barrier_parties db) \<and>
       (b_state b = ''ARMED'' \<or> b_state b = ''TRIPPING'')) (barriers db)"

definition all_barriers :: "string list \<Rightarrow> db \<Rightarrow> barrier list" where
  "all_barriers states db =
     (if states = [] then barriers db else filter (\<lambda>b. b_state b \<in> set states) (barriers db))"

section \<open>Parties\<close>

definition task_dependents :: "string \<Rightarrow> db \<Rightarrow> string list" where
  "task_dependents tid db =
     map t_task_id (filter (\<lambda>t. t_task_id t \<noteq> tid \<and> tid \<in> set (t_deps t)) (all_tasks db))"

definition party_write_fence :: "string \<Rightarrow> db \<Rightarrow> int option" where
  "party_write_fence tid db =
     (let writes = filter (\<lambda>o'. mode o' \<in> set write_modes \<and> o_state o' = ''HELD'') (orbits_for_task tid db)
      in if writes = [] then None else max_fence writes)"

definition party_alive :: "db \<Rightarrow> party \<Rightarrow> bool" where
  "party_alive db p =
     (case get_task (p_task_id p) db of
        None \<Rightarrow> False
      | Some t \<Rightarrow>
          if t_state t = ''ABORTED'' \<or> t_state t = ''POISONED'' then False
          else if t_state t = ''MERGED'' then True
          else (case party_write_fence (p_task_id p) db of
              None \<Rightarrow> False
            | Some cur \<Rightarrow>
                \<not> (p_arrived p \<and> p_arrive_fence p \<noteq> None \<and> t_state t \<noteq> ''CONNECTING'' \<and>
                   Some cur \<noteq> p_arrive_fence p)))"

definition break_barrier :: "config \<Rightarrow> barrier \<Rightarrow> string \<Rightarrow> db \<Rightarrow> (core_error, db) result" where
  "break_barrier g b why db =
     (if b_state b \<in> {''BROKEN'', ''TRIPPED'', ''CONSUMED''} then Inr db
      else bind_res (step_state g ''barrier'' (b_state b) ''break_'') (\<lambda>st.
        Inr (set_barrier (b_barrier_id b) (\<lambda>b. b\<lparr>b_state := st, b_break_reason := Some why\<rparr>) db)))"

definition live_parties :: "barrier \<Rightarrow> db \<Rightarrow> party list \<times> party list" where
  "live_parties b db = partition (party_alive db) (parties_of (b_barrier_id b) (b_generation b) db)"

section \<open>Evaluation\<close>

definition merged_task :: "db \<Rightarrow> string \<Rightarrow> bool" where
  "merged_task db tid = (case get_task tid db of None \<Rightarrow> False | Some t \<Rightarrow> t_state t = ''MERGED'')"

type_synonym trip_plan = "(string \<times> int option) list"

definition plan_of :: "party list \<Rightarrow> db \<Rightarrow> trip_plan" where
  "plan_of live db = map (\<lambda>p. (p_task_id p, p_arrive_fence p))
     (filter (\<lambda>p. \<not> merged_task db (p_task_id p)) (sort_key p_task_id live))"

text \<open>Steps 2 and 3 of \<open>_barrier_eval\<close>, once no party is dead or the dead ones are dropped: the
  deadline, then the trip.\<close>

definition settle_barrier ::
  "config \<Rightarrow> rat \<Rightarrow> barrier \<Rightarrow> party list \<Rightarrow> bool \<Rightarrow> db \<Rightarrow> (core_error, trip_plan option \<times> db) result" where
  "settle_barrier g now b live can_trip db =
     (if due (b_deadline_at b) now \<and> list_ex (\<lambda>p. \<not> p_arrived p) live then
        bind_res (break_barrier g b ''timeout'' db) (\<lambda>db. Inr (None, db))
      else if can_trip \<and> live \<noteq> [] \<and> list_all p_arrived live then
        bind_res (step_state g ''barrier'' ''ARMED'' ''fill'') (\<lambda>st.
          let db = set_barrier (b_barrier_id b) (\<lambda>b. b\<lparr>b_state := st\<rparr>) db
          in Inr (Some (plan_of live db), db))
      else Inr (None, db))"

definition shrink_barrier :: "barrier \<Rightarrow> party list \<Rightarrow> nat \<Rightarrow> db \<Rightarrow> db" where
  "shrink_barrier b dead left db =
     set_barrier (b_barrier_id b) (\<lambda>b. b\<lparr>b_parties := int left\<rparr>)
       (fold (\<lambda>p. del_barrier_party (b_barrier_id b) (b_generation b) (p_task_id p)) dead db)"

definition barrier_eval ::
  "config \<Rightarrow> rat \<Rightarrow> string \<Rightarrow> bool \<Rightarrow> db \<Rightarrow> (core_error, trip_plan option \<times> db) result" where
  "barrier_eval g now bid can_trip db =
     (case get_barrier bid db of
        None \<Rightarrow> Inr (None, db)
      | Some b \<Rightarrow>
          if b_state b \<noteq> ''ARMED'' then Inr (None, db)
          else let (live, dead) = live_parties b db in
            if dead = [] then settle_barrier g now b live can_trip db
            else if b_policy b = ''shrink'' \<and> list_all (\<lambda>p. task_dependents (p_task_id p) db = []) dead then
              (let db = shrink_barrier b dead (length live) db in
               case get_barrier bid db of
                 None \<Rightarrow> Inl (RuntimeError ''barrier row is None'')
               | Some b \<Rightarrow> settle_barrier g now b (fst (live_parties b db)) can_trip db)
            else bind_res (break_barrier g b ''participant_dead'' db) (\<lambda>db. Inr (None, db)))"

section \<open>Verbs\<close>

definition barrier_active_response :: "barrier \<Rightarrow> json" where
  "barrier_active_response b =
     ok_false ''barrier already active'' [(''name'', JStr (b_name b)), (''state'', JStr (b_state b)),
       (''generation'', JInt (b_generation b))]"

definition barrier_id_of :: "string \<Rightarrow> int \<Rightarrow> string" where
  "barrier_id_of nm gen = ''bar-'' @ nm @ ''-'' @ int_text gen"

text \<open>The loop over \<open>set(task_ids)\<close>; the order in which a Python set is traversed is not observable,
  since parties are read by task id.\<close>

definition add_parties :: "string \<Rightarrow> int \<Rightarrow> string list \<Rightarrow> db \<Rightarrow> db" where
  "add_parties bid gen tids db =
     fold (\<lambda>tid db. add_barrier_party bid gen tid
            (case get_task tid db of None \<Rightarrow> None | Some t \<Rightarrow> t_agent_id t) db) (remdups tids) db"

definition active_barrier :: "barrier option \<Rightarrow> bool" where
  "active_barrier prev \<longleftrightarrow>
     (case prev of None \<Rightarrow> False | Some b \<Rightarrow> b_state b = ''ARMED'' \<or> b_state b = ''TRIPPING'')"

definition barrier_declare ::
  "rat \<Rightarrow> string \<Rightarrow> string list \<Rightarrow> string \<Rightarrow> string \<Rightarrow> rat option \<Rightarrow> db \<Rightarrow> json \<times> db" where
  "barrier_declare now nm tids kind policy timeout db =
     (if tids = [] then (ok_false ''barrier needs >=1 task'' [(''name'', JStr nm)], db)
      else if policy \<noteq> ''break'' \<and> policy \<noteq> ''shrink'' then
        (ok_false ''policy must be break|shrink'' [(''name'', JStr nm)], db)
      else
        let prev = barrier_by_name nm db in
        if active_barrier prev then
          (barrier_active_response (the prev), db)
        else
          let gen = (case prev of None \<Rightarrow> 0 | Some b \<Rightarrow> b_generation b + 1);
              bid = barrier_id_of nm gen;
              n = int (length (remdups tids));
              db = add_barrier now bid nm kind n gen ''ARMED'' policy
                (case timeout of None \<Rightarrow> None | Some t \<Rightarrow> Some (now + t)) db;
              db = add_parties bid gen tids db
          in (JDict [(''ok'', JBool True), (''name'', JStr nm), (''barrier_id'', JStr bid),
                (''generation'', JInt gen), (''parties'', JInt n), (''state'', JStr ''ARMED''),
                (''policy'', JStr policy)], db))"

definition broken_response :: "string \<Rightarrow> string option \<Rightarrow> json" where
  "broken_response nm why =
     JDict [(''ok'', JBool False), (''state'', JStr ''BROKEN''), (''name'', JStr nm), (''reason'', opt_str why)]"

definition arrived_count :: "party list \<Rightarrow> int" where
  "arrived_count parts = int (length (filter p_arrived parts))"

text \<open>Phase A of an arrival, after its sweep; a trip plan means that the request stays reserved while
  the merges run.\<close>

definition arrive_at ::
  "config \<Rightarrow> rat \<Rightarrow> barrier \<Rightarrow> string \<Rightarrow> string \<Rightarrow> string \<Rightarrow> int \<Rightarrow> db \<Rightarrow>
   (core_error, slot \<times> trip_plan option \<times> db) result" where
  "arrive_at g now b nm aid tid cap db =
     (let bid = b_barrier_id b; gen = b_generation b;
          db = set_barrier_party bid gen tid
            (\<lambda>p. p\<lparr>p_arrived := True, p_arrive_fence := Some cap, p_agent_id := Some aid\<rparr>) db
      in bind_res (barrier_eval g now bid True db) (\<lambda>(plan, db).
           case plan of
             Some steps \<Rightarrow>
               Inr (\<lparr>sl_value = None, sl_deferred = True, sl_terminal = False, sl_reply = None\<rparr>, plan, db)
           | None \<Rightarrow>
               (case get_barrier bid db of
                  None \<Rightarrow> Inl (RuntimeError ''barrier row is None'')
                | Some nb \<Rightarrow>
                    if b_state nb = ''BROKEN'' then
                      Inr (slot_return (broken_response nm (b_break_reason nb)), None, db)
                    else
                      let parts = parties_of bid gen db in
                      Inr (slot_set (JDict [(''ok'', JBool True), (''state'', JStr (b_state nb)),
                        (''name'', JStr nm), (''arrived'', JInt (arrived_count parts)),
                        (''parties'', JInt (int (length parts)))]), None, db))))"

definition arrive_after_sweep ::
  "config \<Rightarrow> rat \<Rightarrow> string \<Rightarrow> string \<Rightarrow> string \<Rightarrow> int option \<Rightarrow> int option \<Rightarrow> db \<Rightarrow>
   (core_error, slot \<times> trip_plan option \<times> db) result" where
  "arrive_after_sweep g now nm aid tid fn epoch db =
     (case check_alive (Some aid) epoch db of
        Some dead \<Rightarrow> Inr (slot_set dead, None, db)
      | None \<Rightarrow>
          (case barrier_by_name nm db of
             None \<Rightarrow> Inr (slot_set (ok_false ''no such barrier'' [(''name'', JStr nm)]), None, db)
           | Some b \<Rightarrow>
               if b_state b = ''BROKEN'' then
                 Inr (slot_return (broken_response nm (case b_break_reason b of
                     None \<Rightarrow> Some ''broken'' | Some w \<Rightarrow> Some (if w = '''' then ''broken'' else w))), None, db)
               else if b_state b = ''TRIPPING'' then
                 Inr (slot_return (JDict [(''ok'', JBool False), (''state'', JStr ''TRIPPING''),
                   (''name'', JStr nm), (''reason'', JStr ''trip in progress''), (''retry'', JBool True)]),
                   None, db)
               else if b_state b = ''TRIPPED'' \<or> b_state b = ''CONSUMED'' then
                 Inr (slot_set (JDict [(''ok'', JBool True), (''state'', JStr (b_state b)), (''name'', JStr nm),
                   (''noop'', JBool True)]), None, db)
               else (case get_barrier_party (b_barrier_id b) (b_generation b) tid db of
                   None \<Rightarrow> Inr (slot_set (ok_false ''task not a barrier member''
                     [(''name'', JStr nm), (''task'', JStr tid)]), None, db)
                 | Some p \<Rightarrow>
                     (case party_write_fence tid db of
                        None \<Rightarrow> Inr (slot_set (ok_false ''no HELD write orbit for task''
                          [(''name'', JStr nm), (''task'', JStr tid)]), None, db)
                      | Some cap \<Rightarrow>
                          if fn \<noteq> None \<and> fn \<noteq> Some cap then
                            Inr (slot_return (JDict [(''ok'', JBool False), (''fenced_out'', JBool True),
                              (''reason'', JStr ''stale fence''), (''current'', JInt cap),
                              (''yours'', opt_int fn)]), None, db)
                          else arrive_at g now b nm aid tid cap db))))"

section \<open>The trip\<close>

text \<open>The text Python's formatting gives a \<open>reason\<close>, which is a string or missing.\<close>

fun reason_text :: "json option \<Rightarrow> string" where
  "reason_text (Some (JStr s)) = s"
| "reason_text _ = ''None''"

definition trip_failed :: "config \<Rightarrow> string \<Rightarrow> string \<Rightarrow> db \<Rightarrow> (core_error, db) result" where
  "trip_failed g bid why db =
     (case get_barrier bid db of
        None \<Rightarrow> Inr db
      | Some b \<Rightarrow>
          if b_state b = ''TRIPPING'' \<or> b_state b = ''ARMED'' then
            break_barrier g b (''trip_failed:'' @ why) db
          else Inr db)"

text \<open>The last critical section: the barrier is tripped if this driver still owns the trip.\<close>

definition finish_trip ::
  "config \<Rightarrow> string \<Rightarrow> int \<Rightarrow> string \<Rightarrow> string list \<Rightarrow> db \<Rightarrow> (core_error, json \<times> db) result" where
  "finish_trip g bid gen nm merged db =
     (let lost = (\<lambda>st why. JDict [(''ok'', JBool False), (''state'', JStr st), (''name'', JStr nm),
            (''reason'', JStr why), (''merged'', JList (map JStr merged)), (''generation'', JInt gen)])
      in case get_barrier bid db of
        None \<Rightarrow> Inr (lost ''UNKNOWN'' ''barrier trip ownership lost (state=UNKNOWN)'', db)
      | Some b \<Rightarrow>
          if b_generation b = gen \<and> b_state b = ''TRIPPING'' then
            bind_res (step_state g ''barrier'' ''TRIPPING'' ''trip'') (\<lambda>st.
              Inr (JDict [(''ok'', JBool True), (''state'', JStr ''TRIPPED''), (''name'', JStr nm),
                     (''merged'', JList (map JStr merged)), (''generation'', JInt gen)],
                   set_barrier bid (\<lambda>b. b\<lparr>b_state := st\<rparr>) db))
          else Inr (lost (b_state b) (case b_break_reason b of
              None \<Rightarrow> ''barrier trip ownership lost (state='' @ b_state b @ '')''
            | Some w \<Rightarrow> if w = '''' then ''barrier trip ownership lost (state='' @ b_state b @ '')'' else w), db))"

text \<open>The database part of \<open>_terminalize_barrier_exception\<close>: after an exception the barrier moves
  forward if every party is merged, and breaks otherwise.\<close>

definition terminalize_barrier ::
  "config \<Rightarrow> string \<Rightarrow> int \<Rightarrow> string \<Rightarrow> db \<Rightarrow> (core_error, (barrier \<times> string list) option \<times> db) result" where
  "terminalize_barrier g bid gen exc db =
     (case get_barrier bid db of
        None \<Rightarrow> Inr (None, db)
      | Some b \<Rightarrow>
          let parts = parties_of bid gen db;
              merged = filter (merged_task db) (map p_task_id parts)
          in bind_res
               (if b_state b = ''TRIPPING'' \<and> parts \<noteq> [] \<and> length merged = length parts then
                  bind_res (step_state g ''barrier'' ''TRIPPING'' ''trip'') (\<lambda>st.
                    Inr (set_barrier bid (\<lambda>b. b\<lparr>b_state := st\<rparr>) db))
                else if b_state b = ''ARMED'' \<or> b_state b = ''TRIPPING'' then
                  break_barrier g b (''trip_exception:'' @ exc) db
                else Inr db)
               (\<lambda>db. case get_barrier bid db of
                  None \<Rightarrow> Inl (RuntimeError ''barrier row is None'')
                | Some t \<Rightarrow> Inr (Some (t, merged), db)))"

definition terminal_response ::
  "int \<Rightarrow> string \<Rightarrow> string \<Rightarrow> (barrier \<times> string list) option \<Rightarrow> json option" where
  "terminal_response gen nm exc outcome =
     (case outcome of
        None \<Rightarrow> None
      | Some (t, merged) \<Rightarrow>
          if b_state t = ''TRIPPED'' \<or> b_state t = ''CONSUMED'' then
            Some (JDict [(''ok'', JBool True), (''state'', JStr (b_state t)), (''name'', JStr nm),
              (''merged'', JList (map JStr merged)), (''generation'', JInt gen),
              (''recovered_exception'', JStr exc)])
          else if b_state t = ''BROKEN'' then
            Some (JDict [(''ok'', JBool False), (''state'', JStr ''BROKEN''), (''name'', JStr nm),
              (''reason'', JStr (case b_break_reason t of None \<Rightarrow> ''trip_exception:'' @ exc
                 | Some w \<Rightarrow> if w = '''' then ''trip_exception:'' @ exc else w)),
              (''merged'', JList (map JStr merged)), (''generation'', JInt gen)])
          else None)"

section \<open>Aborting, consuming, observing\<close>

definition barrier_abort_body ::
  "config \<Rightarrow> string \<Rightarrow> string option \<Rightarrow> int option \<Rightarrow> db \<Rightarrow> (core_error, slot \<times> db) result" where
  "barrier_abort_body g nm aid epoch db =
     (case check_alive aid epoch db of
        Some dead \<Rightarrow> Inr (slot_set dead, db)
      | None \<Rightarrow>
          (case barrier_by_name nm db of
             None \<Rightarrow> Inr (slot_set (ok_false ''no such barrier'' [(''name'', JStr nm)]), db)
           | Some b \<Rightarrow>
               if b_state b \<in> {''BROKEN'', ''TRIPPED'', ''CONSUMED''} then
                 Inr (slot_set (JDict [(''ok'', JBool True), (''state'', JStr (b_state b)),
                   (''name'', JStr nm), (''noop'', JBool True)]), db)
               else bind_res (break_barrier g b ''aborted'' db) (\<lambda>db.
                 Inr (slot_set (JDict [(''ok'', JBool True), (''state'', JStr ''BROKEN''), (''name'', JStr nm)]),
                      db))))"

definition barrier_abort ::
  "config \<Rightarrow> rat \<Rightarrow> string \<Rightarrow> string option \<Rightarrow> string option \<Rightarrow> int option \<Rightarrow> db \<Rightarrow>
   (core_error, json option \<times> db) result" where
  "barrier_abort g now nm aid request epoch =
     with_idem (g_sha g) now request aid ''barrier_abort'' (JList [JStr nm]) (barrier_abort_body g nm aid epoch)"

definition party_result :: "db \<Rightarrow> party \<Rightarrow> json" where
  "party_result db p = JDict [(''task_id'', JStr (p_task_id p)),
     (''merge_sha'', case get_task (p_task_id p) db of None \<Rightarrow> JNull | Some t \<Rightarrow> opt_str (t_merge_sha t))]"

text \<open>The tail of the refusal's reason, which is Korean text, is left out.\<close>

definition barrier_consume_body ::
  "config \<Rightarrow> string \<Rightarrow> string option \<Rightarrow> int option \<Rightarrow> db \<Rightarrow> (core_error, slot \<times> db) result" where
  "barrier_consume_body g nm aid epoch db =
     (case check_alive aid epoch db of
        Some dead \<Rightarrow> Inr (slot_set dead, db)
      | None \<Rightarrow>
          (case barrier_by_name nm db of
             None \<Rightarrow> Inr (slot_set (ok_false ''no such barrier'' [(''name'', JStr nm)]), db)
           | Some b \<Rightarrow>
               if b_state b \<noteq> ''TRIPPED'' \<and> b_state b \<noteq> ''CONSUMED'' then
                 Inr (slot_set (JDict [(''ok'', JBool False), (''state'', JStr (b_state b)), (''name'', JStr nm),
                   (''reason'', JStr (''not TRIPPED: '' @ b_state b))]), db)
               else
                 let results = JList (map (party_result db) (parties_of (b_barrier_id b) (b_generation b) db)) in
                 if b_state b = ''TRIPPED'' then
                   bind_res (step_state g ''barrier'' ''TRIPPED'' ''consume'') (\<lambda>st.
                     Inr (slot_set (JDict [(''ok'', JBool True), (''state'', JStr ''CONSUMED''), (''name'', JStr nm),
                            (''generation'', JInt (b_generation b)), (''results'', results)]),
                          set_barrier (b_barrier_id b) (\<lambda>b. b\<lparr>b_state := st\<rparr>) db))
                 else Inr (slot_set (JDict [(''ok'', JBool True), (''state'', JStr ''CONSUMED''), (''name'', JStr nm),
                        (''noop'', JBool True), (''generation'', JInt (b_generation b)),
                        (''results'', results)]), db)))"

definition barrier_consume ::
  "config \<Rightarrow> rat \<Rightarrow> string \<Rightarrow> string option \<Rightarrow> string option \<Rightarrow> int option \<Rightarrow> db \<Rightarrow>
   (core_error, json option \<times> db) result" where
  "barrier_consume g now nm aid request epoch =
     with_idem (g_sha g) now request aid ''barrier_consume'' (JList [JStr nm]) (barrier_consume_body g nm aid epoch)"

definition status_after_sweep ::
  "config \<Rightarrow> rat \<Rightarrow> string \<Rightarrow> db \<Rightarrow> (core_error, json \<times> db) result" where
  "status_after_sweep g now nm db =
     (case barrier_by_name nm db of
        None \<Rightarrow> Inr (ok_false ''no such barrier'' [(''name'', JStr nm)], db)
      | Some b \<Rightarrow>
          bind_res (barrier_eval g now (b_barrier_id b) False db) (\<lambda>(plan, db).
            case get_barrier (b_barrier_id b) db of
              None \<Rightarrow> Inl (RuntimeError ''barrier row is None'')
            | Some b \<Rightarrow>
                let parts = parties_of (b_barrier_id b) (b_generation b) db in
                Inr (JDict [(''ok'', JBool True), (''name'', JStr nm), (''state'', JStr (b_state b)),
                       (''generation'', JInt (b_generation b)), (''policy'', JStr (b_policy b)),
                       (''parties'', JInt (int (length parts))), (''arrived'', JInt (arrived_count parts)),
                       (''break_reason'', opt_str (b_break_reason b))], db)))"

section \<open>Evaluation: what a trip plan says\<close>

lemma barrier_table_frame [simp]:
  "get_task tid (set_barrier bid f db) = get_task tid db"
  "get_task tid (del_barrier_party bid gen k db) = get_task tid db"
  "get_task tid (shrink_barrier b dead n db) = get_task tid db"
  "orbits_for_task tid (set_barrier bid f db) = orbits_for_task tid db"
  "orbits_for_task tid (del_barrier_party bid gen k db) = orbits_for_task tid db"
  by (simp_all add: get_task_def orbits_for_task_def set_barrier_def del_barrier_party_def shrink_barrier_def
      fold_keeps [where P = "\<lambda>d. tasks d = tasks db"])

lemma orbits_shrink [simp]: "orbits_for_task tid (shrink_barrier b dead n db) = orbits_for_task tid db"
  unfolding shrink_barrier_def barrier_table_frame
  by (rule fold_keeps [where P = "\<lambda>d. orbits_for_task tid d = orbits_for_task tid db"]) simp_all

lemma party_fence_frame [simp]:
  "party_write_fence tid (set_barrier bid f db) = party_write_fence tid db"
  "party_write_fence tid (shrink_barrier b dead n db) = party_write_fence tid db"
  "merged_task (set_barrier bid f db) = merged_task db"
  by (simp_all add: party_write_fence_def merged_task_def fun_eq_iff)

lemma party_alive_frame [simp]:
  "party_alive (set_barrier bid f db) = party_alive db"
  "party_alive (shrink_barrier b dead n db) = party_alive db"
  by (simp_all add: party_alive_def fun_eq_iff split: option.splits)

lemma parties_set_barrier [simp]: "parties_of bid gen (set_barrier k f db) = parties_of bid gen db"
  by (simp add: parties_of_def set_barrier_def)

lemma parties_del:
  "set (parties_of bid gen (del_barrier_party bid gen tid db)) = {p\<in>set (parties_of bid gen db). p_task_id p \<noteq> tid}"
  by (auto simp: parties_of_def del_barrier_party_def is_party_def)

lemma parties_shrink:
  "set (parties_of (b_barrier_id b) (b_generation b) (shrink_barrier b dead n db)) =
     {p\<in>set (parties_of (b_barrier_id b) (b_generation b) db). p_task_id p \<notin> p_task_id ` set dead}"
proof -
  have "set (parties_of bid gen (fold (\<lambda>p. del_barrier_party bid gen (p_task_id p)) dead db)) =
      {p\<in>set (parties_of bid gen db). p_task_id p \<notin> p_task_id ` set dead}" for bid gen
    by (induction dead arbitrary: db) (auto simp: parties_del)
  then show ?thesis by (simp add: shrink_barrier_def)
qed

lemma get_barrier_set [simp]:
  assumes "\<And>b. b_barrier_id (f b) = b_barrier_id b"
  shows "get_barrier bid (set_barrier bid f db) = map_option f (get_barrier bid db)"
  unfolding get_barrier_def set_barrier_def by (simp add: fetchone_update_same assms)

lemma barriers_fold_del [simp]: "barriers (fold (\<lambda>p. del_barrier_party bid gen (p_task_id p)) dead db) = barriers db"
  by (rule fold_keeps [where P = "\<lambda>d. barriers d = barriers db"]) (simp_all add: del_barrier_party_def)

lemma get_barrier_shrink:
  "get_barrier (b_barrier_id b) (shrink_barrier b dead n db) =
     map_option (\<lambda>b. b\<lparr>b_parties := int n\<rparr>) (get_barrier (b_barrier_id b) db)"
proof -
  have "get_barrier k (fold (\<lambda>p. del_barrier_party bid gen (p_task_id p)) dead db) = get_barrier k db" for k bid gen
    unfolding get_barrier_def barriers_fold_del ..
  then show ?thesis by (simp add: shrink_barrier_def)
qed

lemma get_barrier_id: "get_barrier bid db = Some b \<Longrightarrow> b_barrier_id b = bid \<and> b \<in> set (barriers db)"
  unfolding get_barrier_def by (auto dest!: fetchone_filter_Some)

lemma live_partiesE:
  assumes "live_parties b db = (live, dead)"
  shows "set live = {p\<in>set (parties_of (b_barrier_id b) (b_generation b) db). party_alive db p}"
    "set dead = {p\<in>set (parties_of (b_barrier_id b) (b_generation b) db). \<not> party_alive db p}"
  using assms by (auto simp: live_parties_def)

lemma settle_plan:
  assumes "settle_barrier g now b live True db = Inr (Some plan, db')" and "lawful g"
  shows "db' = set_barrier (b_barrier_id b) (\<lambda>b. b\<lparr>b_state := ''TRIPPING''\<rparr>) db \<and> plan = plan_of live db' \<and>
    live \<noteq> [] \<and> (\<forall>p\<in>set live. p_arrived p)"
proof -
  have "\<not> (due (b_deadline_at b) now \<and> list_ex (\<lambda>p. \<not> p_arrived p) live)"
    using assms(1) by (auto simp: settle_barrier_def bind_res_Inr_iff)
  then show ?thesis
    using assms(1) barrier_transition_results(1) [OF assms(2)]
    by (auto simp: settle_barrier_def list_all_iff Let_def split: if_splits)
qed

text \<open>The outcomes of an evaluation: nothing to do, settled, settled after a shrink, or broken.\<close>

lemma barrier_eval_cases:
  assumes "barrier_eval g now bid can_trip db = Inr (plan, db')"
  obtains (idle) "plan = None" "db' = db" "\<forall>b. get_barrier bid db = Some b \<longrightarrow> b_state b \<noteq> ''ARMED''"
  | (settled) b live where "get_barrier bid db = Some b" "b_state b = ''ARMED''" "live_parties b db = (live, [])"
      "settle_barrier g now b live can_trip db = Inr (plan, db')"
  | (shrunk) b live dead b' live' where "get_barrier bid db = Some b" "b_state b = ''ARMED''" "dead \<noteq> []"
      "live_parties b db = (live, dead)" "b_policy b = ''shrink''"
      "\<forall>p\<in>set dead. task_dependents (p_task_id p) db = []"
      "b' = b\<lparr>b_parties := int (length live)\<rparr>"
      "live' = fst (live_parties b' (shrink_barrier b dead (length live) db))"
      "settle_barrier g now b' live' can_trip (shrink_barrier b dead (length live) db) = Inr (plan, db')"
  | (broken) b live dead where "get_barrier bid db = Some b" "b_state b = ''ARMED''" "dead \<noteq> []"
      "live_parties b db = (live, dead)" "plan = None"
      "b_policy b \<noteq> ''shrink'' \<or> (\<exists>p\<in>set dead. task_dependents (p_task_id p) db \<noteq> [])"
      "break_barrier g b ''participant_dead'' db = Inr db'"
proof (cases "\<exists>b. get_barrier bid db = Some b \<and> b_state b = ''ARMED''")
  case False
  then show thesis using assms idle by (auto simp: barrier_eval_def split: option.splits if_splits)
next
  case True
  then obtain b where b: "get_barrier bid db = Some b" "b_state b = ''ARMED''" by blast
  obtain live dead where parts: "live_parties b db = (live, dead)" by (metis prod.exhaust)
  show thesis
  proof (cases "dead = []")
    case True
    then show thesis using assms b parts settled by (simp add: barrier_eval_def)
  next
    case False
    note dead = this
    show thesis
    proof (cases "b_policy b = ''shrink'' \<and> list_all (\<lambda>p. task_dependents (p_task_id p) db = []) dead")
      case True
      have "get_barrier bid (shrink_barrier b dead (length live) db) = Some (b\<lparr>b_parties := int (length live)\<rparr>)"
        using b get_barrier_shrink get_barrier_id [OF b(1)] by force
      then show thesis
        using assms b parts dead True shrunk [of b dead live]
        by (simp add: barrier_eval_def list_all_iff Let_def)
    next
      case False
      then have "barrier_eval g now bid can_trip db =
          bind_res (break_barrier g b ''participant_dead'' db) (\<lambda>db. Inr (None, db))"
        using b parts dead by (simp add: barrier_eval_def) blast
      then have "plan = None" "break_barrier g b ''participant_dead'' db = Inr db'"
        using assms by (cases "break_barrier g b ''participant_dead'' db"; simp)+
      then show thesis
        using b parts dead False by (intro broken [of b dead live]) (auto simp: list_all_iff)
    qed
  qed
qed
lemma parties_shrink_live:
  assumes "live_parties b db = (live, dead)" and "dead \<noteq> [] \<Longrightarrow> b' = b\<lparr>b_parties := n\<rparr>"
  shows "set (parties_of (b_barrier_id b) (b_generation b) (shrink_barrier b dead k db)) \<subseteq> set live"
  using live_partiesE [OF assms(1)] by (auto simp: parties_shrink)

lemma plan_of_set:
  "(tid, fn) \<in> set (plan_of live db) \<longleftrightarrow>
     (\<exists>p\<in>set live. p_task_id p = tid \<and> p_arrive_fence p = fn \<and> \<not> merged_task db tid)"
  by (auto simp: plan_of_def)

lemma sorted_plan: "sorted (map fst (plan_of live db))"
proof -
  have "map fst (plan_of live db) = map p_task_id (filter (\<lambda>p. \<not> merged_task db (p_task_id p)) (sort_key p_task_id live))"
    by (simp add: plan_of_def)
  then show ?thesis
    by (simp add: filter_sort)
qed

text \<open>C33. A trip plan is current: when an evaluation hands out a plan, the barrier was armed and is
  now tripping, every party left in it is alive and has arrived, and the plan lists exactly the tasks
  that are not merged yet, in the order of their ids, each under the fence its write orbits carry now
  (a task whose connect is already running aside).\<close>

theorem trip_plan_is_current:
  assumes "barrier_eval g now bid True db = Inr (Some plan, db')" and "lawful g"
  shows "\<exists>b b'. get_barrier bid db = Some b \<and> b_state b = ''ARMED'' \<and>
    get_barrier bid db' = Some b' \<and> b_state b' = ''TRIPPING'' \<and> b_generation b' = b_generation b \<and>
    parties_of bid (b_generation b) db' \<noteq> [] \<and>
    (\<forall>p\<in>set (parties_of bid (b_generation b) db'). party_alive db' p \<and> p_arrived p) \<and>
    sorted (map fst plan) \<and>
    (\<forall>tid fn. (tid, fn) \<in> set plan \<longleftrightarrow>
       (\<exists>p\<in>set (parties_of bid (b_generation b) db'). p_task_id p = tid \<and> p_arrive_fence p = fn \<and>
          \<not> merged_task db' tid)) \<and>
    (\<forall>(tid, fn)\<in>set plan. fn \<noteq> None \<longrightarrow> (\<forall>t. get_task tid db' = Some t \<longrightarrow> t_state t \<noteq> ''CONNECTING'' \<longrightarrow>
       party_write_fence tid db' = fn))"
proof -
  obtain b b0 live d where armed: "get_barrier bid db = Some b" "b_state b = ''ARMED''"
    and b0: "get_barrier bid d = Some b0" "b_generation b0 = b_generation b"
    and parts: "set (parties_of bid (b_generation b) d) = set live" "\<forall>p\<in>set live. party_alive d p"
    and settle: "settle_barrier g now b0 live True d = Inr (Some plan, db')"
  proof (rule barrier_eval_cases [OF assms(1)])
    fix b live assume b: "get_barrier bid db = Some b" "b_state b = ''ARMED''"
      and live: "live_parties b db = (live, [])" and s: "settle_barrier g now b live True db = Inr (Some plan, db')"
    show thesis
      using live_partiesE [OF live] get_barrier_id [OF b(1)] s b
      by (intro that [of b db b live]) auto
  next
    fix b live dead b' live'
    assume b: "get_barrier bid db = Some b" "b_state b = ''ARMED''" and dead: "dead \<noteq> []"
      and live: "live_parties b db = (live, dead)" and b': "b' = b\<lparr>b_parties := int (length live)\<rparr>"
      and live': "live' = fst (live_parties b' (shrink_barrier b dead (length live) db))"
      and s: "settle_barrier g now b' live' True (shrink_barrier b dead (length live) db) = Inr (Some plan, db')"
    let ?d = "shrink_barrier b dead (length live) db"
    have id: "b_barrier_id b = bid" using get_barrier_id [OF b(1)] by simp
    have sub: "set (parties_of bid (b_generation b) ?d) \<subseteq> set live"
      using parties_shrink_live [OF live] id by simp
    have alive: "\<forall>p\<in>set live. party_alive ?d p" using live_partiesE(1) [OF live] by simp
    have "set live' = set (parties_of bid (b_generation b) ?d)"
      using sub alive id by (auto simp: live' b' live_parties_def)
    moreover have "get_barrier bid ?d = Some b'"
      using get_barrier_shrink [of b dead "length live" db] id b(1) by (simp add: b')
    ultimately show thesis using b s sub alive by (intro that [of b ?d b' live']) (auto simp: b')
  qed auto
  have b0_id: "b_barrier_id b0 = bid" using get_barrier_id [OF b0(1)] by simp
  from settle_plan [OF settle assms(2)] b0_id
  have db': "db' = set_barrier bid (\<lambda>b. b\<lparr>b_state := ''TRIPPING''\<rparr>) d" and plan: "plan = plan_of live db'"
    and arrived: "live \<noteq> []" "\<forall>p\<in>set live. p_arrived p" by auto
  have current: "party_write_fence tid db' = fn"
    if "(tid, fn) \<in> set plan" "fn \<noteq> None" "get_task tid db' = Some t" "t_state t \<noteq> ''CONNECTING''" for tid fn t
  proof -
    from that plan obtain p where p: "p \<in> set live" "p_task_id p = tid" "p_arrive_fence p = fn" "\<not> merged_task db' tid"
      by (auto simp: plan_of_set)
    then have "party_alive db' p" "p_arrived p" using parts arrived by (auto simp: db')
    then show ?thesis using p that(2-4)
      by (auto simp: party_alive_def merged_task_def split: option.splits if_splits)
  qed
  have "get_barrier bid db' = Some (b0\<lparr>b_state := ''TRIPPING''\<rparr>)"
    using b0(1) by (simp add: db')
  moreover have "parties_of bid (b_generation b) db' \<noteq> []"
    using parts(1) arrived(1) by (auto simp: db')
  moreover have "\<forall>p\<in>set (parties_of bid (b_generation b) db'). party_alive db' p \<and> p_arrived p"
    using parts arrived by (auto simp: db')
  moreover have "\<forall>tid fn. (tid, fn) \<in> set plan \<longleftrightarrow>
       (\<exists>p\<in>set (parties_of bid (b_generation b) db'). p_task_id p = tid \<and> p_arrive_fence p = fn \<and>
          \<not> merged_task db' tid)"
    using parts(1) by (simp add: plan plan_of_set db')
  ultimately show ?thesis
    using armed b0(2) current sorted_plan plan
    by (intro exI [of _ b] exI [of _ "b0\<lparr>b_state := ''TRIPPING''\<rparr>"]) auto
qed
text \<open>The primary key of \<open>barrier_parties\<close>.\<close>

definition party_keys :: "db \<Rightarrow> bool" where
  "party_keys db \<longleftrightarrow> distinct (map (\<lambda>p. (p_barrier_id p, p_generation p, p_task_id p)) (barrier_parties db))"

lemma party_key_unique:
  assumes "party_keys db" and "p \<in> set (parties_of bid gen db)" and "q \<in> set (parties_of bid gen db)"
    and "p_task_id p = p_task_id q"
  shows "p = q"
proof -
  have "inj_on (\<lambda>p. (p_barrier_id p, p_generation p, p_task_id p)) (set (barrier_parties db))"
    using assms(1) by (simp add: party_keys_def distinct_map)
  then show ?thesis using assms(2-4) by (auto simp: parties_of_def dest: inj_onD)
qed

text \<open>The deadline resolves an armed barrier: the first evaluation an arrival makes at or after
  the deadline leaves it broken or tripping, provided that the policy is \<open>break\<close> and the barrier has
  a party, or that some party is still alive. Nobody waits past the deadline of such a barrier.\<close>

theorem deadline_resolves_barrier:
  assumes "lawful g" and "party_keys db" and "get_barrier bid db = Some b" and "b_state b = ''ARMED''"
    and "due (b_deadline_at b) now"
    and "b_policy b = ''break'' \<and> parties_of bid (b_generation b) db \<noteq> [] \<or>
      (\<exists>p\<in>set (parties_of bid (b_generation b) db). party_alive db p)"
  shows "\<exists>plan db' b'. barrier_eval g now bid True db = Inr (plan, db') \<and> get_barrier bid db' = Some b' \<and>
    b_state b' \<in> {''BROKEN'', ''TRIPPING''}"
proof -
  have id: "b_barrier_id b = bid" using get_barrier_id [OF assms(3)] by simp
  obtain live dead where parts: "live_parties b db = (live, dead)" by (metis prod.exhaust)
  have settle: "\<exists>plan db' b'. settle_barrier g now c live' True d = Inr (plan, db') \<and> get_barrier bid db' = Some b' \<and>
      b_state b' \<in> {''BROKEN'', ''TRIPPING''}"
    if c: "get_barrier bid d = Some c" "b_state c = ''ARMED''" "b_deadline_at c = b_deadline_at b" "live' \<noteq> []"
    for c d live'
  proof -
    have cid: "b_barrier_id c = bid" using get_barrier_id [OF c(1)] by simp
    show ?thesis
    proof (cases "list_ex (\<lambda>p. \<not> p_arrived p) live'")
      case True
      then show ?thesis
        using c cid assms(5) barrier_transition_results(4) [OF assms(1)]
        by (simp add: settle_barrier_def break_barrier_def)
    next
      case False
      then have "list_all p_arrived live'" by (auto simp: list_ex_iff list_all_iff)
      then show ?thesis
        using False c cid barrier_transition_results(1) [OF assms(1)]
        by (simp add: settle_barrier_def Let_def)
    qed
  qed
  show ?thesis
  proof (cases "dead = []")
    case True
    have "live \<noteq> []"
      using assms(6) live_partiesE [OF parts] True id by force
    then show ?thesis
      using settle [OF assms(3,4) refl] assms(3,4) parts True by (simp add: barrier_eval_def)
  next
    case False
    note dead = this
    show ?thesis
    proof (cases "b_policy b = ''shrink'' \<and> list_all (\<lambda>p. task_dependents (p_task_id p) db = []) dead")
      case True
      let ?d = "shrink_barrier b dead (length live) db" and ?b = "b\<lparr>b_parties := int (length live)\<rparr>"
      obtain p where p: "p \<in> set live"
        using assms(6) True live_partiesE(1) [OF parts] id by auto
      have b': "get_barrier bid ?d = Some ?b"
        using get_barrier_shrink [of b dead "length live" db] id assms(3) by simp
      have "fst (live_parties ?b ?d) \<noteq> []"
      proof -
        have "p_task_id p \<notin> p_task_id ` set dead"
        proof
          assume "p_task_id p \<in> p_task_id ` set dead"
          then obtain q where q: "q \<in> set dead" "p_task_id p = p_task_id q" by blast
          then have "p = q"
            using p live_partiesE [OF parts] by (intro party_key_unique [OF assms(2)]) auto
          then show False using p q live_partiesE [OF parts] by auto
        qed
        then have "p \<in> set (fst (live_parties ?b ?d))"
          using p live_partiesE [OF parts] by (auto simp: live_parties_def parties_shrink)
        then show ?thesis by auto
      qed
      from settle [OF b' _ _ this] show ?thesis
        using assms(3,4) parts dead True b' by (simp add: barrier_eval_def Let_def)
    next
      case False
      then show ?thesis
        using assms(3,4) parts dead id barrier_transition_results(4) [OF assms(1)]
        by (simp add: barrier_eval_def break_barrier_def) blast
    qed
  qed
qed
text \<open>A full barrier that no arrival evaluates waits forever: when the last missing party of a
  \<open>shrink\<close> barrier dies, the sweep drops it and leaves the others arrived at an armed barrier. From
  then on no sweep and no status call ever changes it, at whatever time, even past the deadline,
  because only an arrival fills a barrier and only a missing party times it out. The same holds when
  every party has been dropped.\<close>

theorem full_barrier_waits_forever:
  assumes "get_barrier bid db = Some b" and "b_state b = ''ARMED''"
    and "\<forall>p\<in>set (parties_of bid (b_generation b) db). party_alive db p \<and> p_arrived p"
  shows "\<forall>now. barrier_eval g now bid False db = Inr (None, db)"
proof
  fix now
  have id: "b_barrier_id b = bid" using get_barrier_id [OF assms(1)] by simp
  then have "live_parties b db = (parties_of bid (b_generation b) db, [])"
    using assms(3) by (simp add: live_parties_def filter_id_conv filter_empty_conv comp_def)
  then show "barrier_eval g now bid False db = Inr (None, db)"
    using assms by (auto simp: barrier_eval_def settle_barrier_def list_ex_iff)
qed

section \<open>Generations\<close>

definition barrier_final :: "barrier \<Rightarrow> bool" where
  "barrier_final b \<longleftrightarrow> b_state b \<in> {''TRIPPED'', ''CONSUMED'', ''BROKEN''}"

definition barriers_ok :: "db \<Rightarrow> bool" where
  "barriers_ok db \<longleftrightarrow>
     distinct (map (\<lambda>b. (b_name b, b_generation b)) (barriers db)) \<and>
     (\<forall>b\<in>set (barriers db). 0 \<le> b_generation b \<and> b_barrier_id b = barrier_id_of (b_name b) (b_generation b) \<and>
        b_state b \<in> set barrier_states) \<and>
     (\<forall>b\<in>set (barriers db). \<forall>c\<in>set (barriers db).
        b_name b = b_name c \<longrightarrow> b_generation b < b_generation c \<longrightarrow> barrier_final b)"

text \<open>The id of a barrier determines its name and its generation, although a name may hold dashes.\<close>

lemma last_dash_unique:
  assumes "xs @ CHR ''-'' # ds = ys @ CHR ''-'' # es" and "CHR ''-'' \<notin> set ds" and "CHR ''-'' \<notin> set es"
  shows "xs = ys \<and> ds = es"
  using assms by (induction xs arbitrary: ys) (auto simp: Cons_eq_append_conv append_eq_Cons_conv)

lemma nat_text_no_dash: "CHR ''-'' \<notin> set (nat_text n)"
proof
  assume "CHR ''-'' \<in> set (nat_text n)"
  then obtain d where "d < 10" "CHR ''-'' = (char_of (48 + d :: nat) :: char)"
    using nat_text_digits by blast
  moreover have "list_all (\<lambda>d. CHR ''-'' \<noteq> (char_of (48 + d :: nat) :: char)) [0..<10]" by code_simp
  ultimately show False by (auto simp: list_all_iff)
qed

lemma nat_text_inj: "nat_text m = nat_text n \<Longrightarrow> m = n"
  using py_int_nat_text by (metis option.inject int_int_eq)

lemma barrier_id_inj:
  assumes "barrier_id_of n i = barrier_id_of m j" and "0 \<le> i" and "0 \<le> j"
  shows "n = m \<and> i = j"
proof -
  have "n @ CHR ''-'' # nat_text (nat i) = m @ CHR ''-'' # nat_text (nat j)"
    using assms by (simp add: barrier_id_of_def int_text_def)
  from last_dash_unique [OF this nat_text_no_dash nat_text_no_dash] show ?thesis
    using assms(2,3) by (auto dest!: nat_text_inj)
qed
lemma barriers_ok_cong: "barriers db' = barriers db \<Longrightarrow> barriers_ok db' = barriers_ok db"
  by (simp add: barriers_ok_def)

text \<open>A state change of one barrier keeps the invariant if it does not revive a final one.\<close>

lemma barriers_ok_set:
  assumes "barriers_ok db"
    and "\<And>b. b_name (f b) = b_name b \<and> b_generation (f b) = b_generation b \<and> b_barrier_id (f b) = b_barrier_id b"
    and "\<And>b. b \<in> set (barriers db) \<Longrightarrow> b_barrier_id b = bid \<Longrightarrow> barrier_final b \<Longrightarrow> barrier_final (f b)"
    and "\<And>b. b_state b \<in> set barrier_states \<Longrightarrow> b_state (f b) \<in> set barrier_states"
  shows "barriers_ok (set_barrier bid f db)"
proof -
  let ?p = "\<lambda>b. b_barrier_id b = bid"
  have "map (\<lambda>b. (b_name b, b_generation b)) (update_where ?p f (barriers db)) =
      map (\<lambda>b. (b_name b, b_generation b)) (barriers db)"
    using assms(2) by (intro map_update_where) simp
  moreover have "barrier_final b" if "b \<in> set (update_where ?p f (barriers db))"
    "c \<in> set (update_where ?p f (barriers db))" "b_name b = b_name c" "b_generation b < b_generation c" for b c
  proof -
    obtain b0 where b0: "b0 \<in> set (barriers db)" "b = (if ?p b0 then f b0 else b0)"
      using \<open>b \<in> _\<close> by (auto simp: update_where_def)
    obtain c0 where c0: "c0 \<in> set (barriers db)" "c = (if ?p c0 then f c0 else c0)"
      using \<open>c \<in> _\<close> by (auto simp: update_where_def)
    have "b_name b0 = b_name c0" "b_generation b0 < b_generation c0"
      using b0(2) c0(2) that(3,4) assms(2) by (auto split: if_splits)
    then have "barrier_final b0" using assms(1) b0(1) c0(1) by (auto simp: barriers_ok_def)
    then show ?thesis using b0 assms(3) by auto
  qed
  moreover have "0 \<le> b_generation b \<and> b_barrier_id b = barrier_id_of (b_name b) (b_generation b) \<and>
      b_state b \<in> set barrier_states"
    if "b \<in> set (update_where ?p f (barriers db))" for b
    using that assms(1,2,4) by (auto simp: set_update_where barriers_ok_def)
  ultimately show ?thesis
    using assms(1) by (simp add: barriers_ok_def set_barrier_def)
qed

lemma barriers_unique_id:
  assumes "barriers_ok db" and "b \<in> set (barriers db)" and "c \<in> set (barriers db)" and "b_barrier_id b = b_barrier_id c"
  shows "b = c"
proof -
  have "b_name b = b_name c \<and> b_generation b = b_generation c"
    using assms by (intro barrier_id_inj) (auto simp: barriers_ok_def)
  moreover have "inj_on (\<lambda>b. (b_name b, b_generation b)) (set (barriers db))"
    using assms(1) by (simp add: barriers_ok_def distinct_map)
  ultimately show ?thesis using assms(2,3) by (auto dest: inj_onD)
qed

lemma barriers_ok_state:
  assumes "barriers_ok db" and "b \<in> set (barriers db)" and "barrier_final b \<Longrightarrow> barrier_final (b\<lparr>b_state := st\<rparr>)"
    and "st \<in> set barrier_states"
  shows "barriers_ok (set_barrier (b_barrier_id b) (\<lambda>b. b\<lparr>b_state := st\<rparr>) db)"
    and "barriers_ok (set_barrier (b_barrier_id b) (\<lambda>b. b\<lparr>b_state := st, b_break_reason := why\<rparr>) db)"
proof -
  have final: "barrier_final (c\<lparr>b_state := st\<rparr>)"
    if "c \<in> set (barriers db)" "b_barrier_id c = b_barrier_id b" "barrier_final c" for c
    using that assms(3) barriers_unique_id [OF assms(1) _ assms(2)] by blast
  show "barriers_ok (set_barrier (b_barrier_id b) (\<lambda>b. b\<lparr>b_state := st\<rparr>) db)"
    using final assms(4) by (intro barriers_ok_set [OF assms(1)]) simp_all
  show "barriers_ok (set_barrier (b_barrier_id b) (\<lambda>b. b\<lparr>b_state := st, b_break_reason := why\<rparr>) db)"
    using final assms(4) by (intro barriers_ok_set [OF assms(1)]) (simp_all add: barrier_final_def)
qed

lemma barriers_okD:
  assumes "barriers_ok db" and "b \<in> set (barriers db)"
  shows "barrier_final b \<or> b_state b = ''ARMED'' \<or> b_state b = ''TRIPPING''"
  using assms by (auto simp: barriers_ok_def barrier_states_def barrier_final_def)

lemma barriers_ok_break:
  assumes "barriers_ok db" and "lawful g" and "b \<in> set (barriers db)" and "break_barrier g b why db = Inr db'"
  shows "barriers_ok db'"
proof (cases "barrier_final b")
  case True
  then have "db' = db" using assms(4) by (auto simp: break_barrier_def barrier_final_def)
  then show ?thesis using assms(1) by simp
next
  case False
  then have "b_state b = ''ARMED'' \<or> b_state b = ''TRIPPING''" using barriers_okD assms(1,3) by blast
  then have "db' = set_barrier (b_barrier_id b) (\<lambda>b. b\<lparr>b_state := ''BROKEN'', b_break_reason := Some why\<rparr>) db"
    using assms(4) barrier_transition_results(4,5) [OF assms(2)]
    by (auto simp: break_barrier_def)
  then show ?thesis using barriers_ok_state(2) [OF assms(1,3)] False by (simp add: barrier_states_def)
qed

lemma barriers_ok_shrink: "barriers_ok db \<Longrightarrow> barriers_ok (shrink_barrier b dead n db)"
  unfolding shrink_barrier_def
  by (rule barriers_ok_set) (simp_all add: barriers_ok_def barrier_final_def)

lemma barriers_ok_settle:
  assumes "barriers_ok db" and "lawful g" and "b \<in> set (barriers db)" and "b_state b = ''ARMED''"
    and "settle_barrier g now b live can_trip db = Inr (plan, db')"
  shows "barriers_ok db'"
proof -
  have "break_barrier g b ''timeout'' db = Inr db' \<or> db' = db \<or>
      db' = set_barrier (b_barrier_id b) (\<lambda>b. b\<lparr>b_state := ''TRIPPING''\<rparr>) db"
    using assms(5) barrier_transition_results(1) [OF assms(2)]
    by (auto simp: settle_barrier_def bind_res_Inr_iff Let_def split: if_splits)
  then show ?thesis
    using assms barriers_ok_break [OF assms(1-3)] barriers_ok_state(1) [OF assms(1,3)]
    by (auto simp: barrier_final_def barrier_states_def)
qed

lemma barriers_ok_eval:
  assumes "barriers_ok db" and "lawful g" and "barrier_eval g now bid can_trip db = Inr (plan, db')"
  shows "barriers_ok db'"
  using assms(3)
proof (cases rule: barrier_eval_cases)
  case (settled b live)
  then show ?thesis using barriers_ok_settle assms(1,2) get_barrier_id by blast
next
  case (shrunk b live dead b' live')
  let ?d = "shrink_barrier b dead (length live) db"
  have "b' \<in> set (barriers ?d)"
    using get_barrier_shrink [of b dead "length live" db] get_barrier_id [OF shrunk(1)] shrunk(1,7) get_barrier_id [of _ ?d]
    by auto
  then show ?thesis using barriers_ok_settle [OF barriers_ok_shrink [OF assms(1)] assms(2)] shrunk(2,7,9) by simp
next
  case (broken b live dead)
  then show ?thesis using barriers_ok_break assms(1,2) get_barrier_id by blast
qed (use assms(1) in simp)
lemma barriers_add_parties [simp]: "barriers (add_parties bid gen tids db) = barriers db"
  unfolding add_parties_def
  by (rule fold_keeps [where P = "\<lambda>d. barriers d = barriers db"]) (simp_all add: add_barrier_party_def)

lemma barrier_by_name_None: "barrier_by_name nm db = None \<longleftrightarrow> (\<forall>b\<in>set (barriers db). b_name b \<noteq> nm)"
  by (simp add: barrier_by_name_def filter_empty_conv)

lemma barrier_by_name_Some:
  assumes "barrier_by_name nm db = Some b"
  shows "b \<in> set (barriers db) \<and> b_name b = nm \<and>
    (\<forall>c\<in>set (barriers db). b_name c = nm \<longrightarrow> b_generation c \<le> b_generation b)"
  using fetchone_sort_key [OF assms [unfolded barrier_by_name_def]] by auto

lemma barrier_name_gen_unique:
  assumes "barriers_ok db" and "b \<in> set (barriers db)" and "c \<in> set (barriers db)" and "b_name b = b_name c"
    and "b_generation b = b_generation c"
  shows "b = c"
  using assms by (intro inj_onD [of "\<lambda>b. (b_name b, b_generation b)" "set (barriers db)"])
    (auto simp: barriers_ok_def distinct_map)

lemma barriers_ok_append:
  assumes "barriers_ok db" and "barriers db' = barriers db @ [new]" and "0 \<le> b_generation new"
    and "b_barrier_id new = barrier_id_of (b_name new) (b_generation new)" and "b_state new \<in> set barrier_states"
    and "\<And>b. b \<in> set (barriers db) \<Longrightarrow> b_name b = b_name new \<Longrightarrow> b_generation b < b_generation new \<and> barrier_final b"
  shows "barriers_ok db'"
proof -
  have "(b_name new, b_generation new) \<notin> (\<lambda>b. (b_name b, b_generation b)) ` set (barriers db)"
    using assms(6) by fastforce
  then show ?thesis using assms by (fastforce simp: barriers_ok_def)
qed

lemma barriers_ok_declare:
  assumes "barriers_ok db" and "barrier_declare now nm tids kind policy timeout db = (r, db')"
  shows "barriers_ok db'"
proof -
  define gen where "gen = (case barrier_by_name nm db of None \<Rightarrow> 0 | Some b \<Rightarrow> b_generation b + 1)"
  have below: "b_generation b < gen \<and> barrier_final b"
    if b: "b \<in> set (barriers db)" "b_name b = nm"
      and prev: "\<not> active_barrier (barrier_by_name nm db)" for b
  proof -
    obtain c where c: "barrier_by_name nm db = Some c"
      using b barrier_by_name_None by fastforce
    note top = barrier_by_name_Some [OF c]
    have le: "b_generation b \<le> b_generation c" using top b by blast
    have "barrier_final c"
      using prev c barriers_okD [OF assms(1)] top by (auto simp: active_barrier_def)
    then have "barrier_final b"
      using le barrier_name_gen_unique [OF assms(1) b(1), of c] top b assms(1)
      by (cases "b_generation b = b_generation c") (auto simp: barriers_ok_def)
    then show ?thesis using le c by (simp add: gen_def)
  qed
  have gen0: "0 \<le> gen"
    using assms(1) barrier_by_name_Some by (fastforce simp: gen_def barriers_ok_def split: option.splits)
  show ?thesis
  proof (cases "tids = [] \<or> (policy \<noteq> ''break'' \<and> policy \<noteq> ''shrink'') \<or>
      active_barrier (barrier_by_name nm db)")
    case True
    then have "db' = db" using assms(2) by (auto simp: barrier_declare_def Let_def split: if_splits)
    then show ?thesis using assms(1) by simp
  next
    case False
    then have "db' = snd (barrier_declare now nm tids kind policy timeout db)" using assms(2) by simp
    also have "\<dots> = add_parties (barrier_id_of nm gen) gen tids
        (add_barrier now (barrier_id_of nm gen) nm kind (int (length (remdups tids))) gen ''ARMED'' policy
          (case timeout of None \<Rightarrow> None | Some t \<Rightarrow> Some (now + t)) db)"
      using False unfolding barrier_declare_def gen_def Let_def by (simp only: if_False de_Morgan_disj snd_conv simp_thms)
    finally show ?thesis
      using False gen0 below by (intro barriers_ok_append [OF assms(1)])
        (auto simp: add_barrier_def barrier_states_def)
  qed
qed
lemma barriers_ok_arrive:
  assumes "barriers_ok db" and "lawful g" and "arrive_after_sweep g now nm aid tid fn epoch db = Inr (sl, plan, db')"
  shows "barriers_ok db'"
proof -
  have at: "barriers_ok db'"
    if "arrive_at g now b nm aid tid cap db = Inr (sl, plan, db')" for b cap
  proof -
    define d where "d = set_barrier_party (b_barrier_id b) (b_generation b) tid
        (\<lambda>p. p\<lparr>p_arrived := True, p_arrive_fence := Some cap, p_agent_id := Some aid\<rparr>) db"
    from that obtain plan' where "barrier_eval g now (b_barrier_id b) True d = Inr (plan', db')"
      unfolding arrive_at_def Let_def d_def [symmetric]
      by (auto simp: bind_res_Inr_iff split: option.splits if_splits)
    moreover have "barriers_ok d"
      using assms(1) barriers_ok_cong [of d db] by (simp add: d_def set_barrier_party_def)
    ultimately show ?thesis using barriers_ok_eval assms(2) by blast
  qed
  have "db' = db \<or> (\<exists>b cap. arrive_at g now b nm aid tid cap db = Inr (sl, plan, db'))"
    using assms(3) unfolding arrive_after_sweep_def by (auto split: option.splits if_splits)
  then show ?thesis using at assms(1) by blast
qed

lemma barriers_ok_finish:
  assumes "barriers_ok db" and "lawful g" and "finish_trip g bid gen nm merged db = Inr (r, db')"
  shows "barriers_ok db'"
proof -
  have "db' = db \<or> (\<exists>b. get_barrier bid db = Some b \<and> b_state b = ''TRIPPING'' \<and>
      db' = set_barrier (b_barrier_id b) (\<lambda>b. b\<lparr>b_state := ''TRIPPED''\<rparr>) db)"
    using assms(3) barrier_transition_results(2) [OF assms(2)] get_barrier_id
    by (auto simp: finish_trip_def Let_def split: option.splits if_splits)
  then show ?thesis
  proof (elim disjE exE conjE)
    fix b assume "get_barrier bid db = Some b" and s: "b_state b = ''TRIPPING''"
      and db': "db' = set_barrier (b_barrier_id b) (\<lambda>b. b\<lparr>b_state := ''TRIPPED''\<rparr>) db"
    then have "b \<in> set (barriers db)" using get_barrier_id by blast
    then show ?thesis
      unfolding db' by (rule barriers_ok_state(1) [OF assms(1)]) (simp_all add: barrier_states_def barrier_final_def)
  qed (use assms(1) in simp)
qed

lemma barriers_ok_failed:
  assumes "barriers_ok db" and "lawful g" and "trip_failed g bid why db = Inr db'"
  shows "barriers_ok db'"
proof (cases "get_barrier bid db")
  case None
  then show ?thesis using assms by (simp add: trip_failed_def)
next
  case (Some b)
  then have "b \<in> set (barriers db)" using get_barrier_id by blast
  moreover have "db' = db \<or> break_barrier g b (''trip_failed:'' @ why) db = Inr db'"
    using assms(3) Some by (auto simp: trip_failed_def split: if_splits)
  ultimately show ?thesis using assms(1) barriers_ok_break [OF assms(1,2)] by blast
qed

lemma barriers_ok_terminalize:
  assumes "barriers_ok db" and "lawful g" and "terminalize_barrier g bid gen exc db = Inr (r, db')"
  shows "barriers_ok db'"
proof (cases "get_barrier bid db")
  case None
  then show ?thesis using assms by (simp add: terminalize_barrier_def)
next
  case (Some b)
  have b: "b_barrier_id b = bid" "b \<in> set (barriers db)" using get_barrier_id [OF Some] by auto
  from assms(3) Some have "db' = db \<or> (\<exists>why. break_barrier g b why db = Inr db') \<or>
      (b_state b = ''TRIPPING'' \<and> db' = set_barrier bid (\<lambda>b. b\<lparr>b_state := ''TRIPPED''\<rparr>) db)"
    using barrier_transition_results(2) [OF assms(2)]
    by (auto simp: terminalize_barrier_def Let_def bind_res_Inr_iff split: option.splits if_splits)
  then show ?thesis
    using assms(1) barriers_ok_break [OF assms(1,2) b(2)] barriers_ok_state(1) [OF assms(1) b(2)] b(1)
    by (auto simp: barrier_states_def barrier_final_def)
qed

lemma barriers_ok_abort:
  assumes "barriers_ok db" and "lawful g" and "barrier_abort_body g nm aid epoch db = Inr (sl, db')"
  shows "barriers_ok db'"
proof -
  have "db' = db \<or> (\<exists>b why. barrier_by_name nm db = Some b \<and> break_barrier g b why db = Inr db')"
    using assms(3) unfolding barrier_abort_body_def
    by (auto simp: bind_res_Inr_iff split: option.splits if_splits)
  then show ?thesis using assms(1) barriers_ok_break [OF assms(1,2)] barrier_by_name_Some by blast
qed

lemma barriers_ok_consume:
  assumes "barriers_ok db" and "lawful g" and "barrier_consume_body g nm aid epoch db = Inr (sl, db')"
  shows "barriers_ok db'"
proof -
  have "db' = db \<or> (\<exists>b. barrier_by_name nm db = Some b \<and> b_state b = ''TRIPPED'' \<and>
      db' = set_barrier (b_barrier_id b) (\<lambda>b. b\<lparr>b_state := ''CONSUMED''\<rparr>) db)"
    using assms(3) barrier_transition_results(3) [OF assms(2)] unfolding barrier_consume_body_def Let_def
    by (auto split: option.splits if_splits)
  then show ?thesis
  proof (elim disjE exE conjE)
    fix b assume b: "barrier_by_name nm db = Some b" "b_state b = ''TRIPPED''"
      and db': "db' = set_barrier (b_barrier_id b) (\<lambda>b. b\<lparr>b_state := ''CONSUMED''\<rparr>) db"
    then have "b \<in> set (barriers db)" using barrier_by_name_Some by blast
    then show ?thesis
      unfolding db' by (rule barriers_ok_state(1) [OF assms(1)]) (simp_all add: barrier_states_def barrier_final_def)
  qed (use assms(1) in simp)
qed

text \<open>Whatever touches the barrier table: the verbs, the evaluations of a sweep, the critical sections
  of a trip, and every other operation of the coordinator, which leaves the table alone.\<close>

inductive barrier_step :: "config \<Rightarrow> db \<Rightarrow> db \<Rightarrow> bool" for g where
  declare_barrier: "barrier_declare now nm tids kind policy timeout db = (r, db') \<Longrightarrow> barrier_step g db db'"
| arrive: "arrive_after_sweep g now nm aid tid fn epoch db = Inr (sl, plan, db') \<Longrightarrow> barrier_step g db db'"
| evaluate: "barrier_eval g now bid can_trip db = Inr (plan, db') \<Longrightarrow> barrier_step g db db'"
| finish: "finish_trip g bid gen nm merged db = Inr (r, db') \<Longrightarrow> barrier_step g db db'"
| fail_trip: "trip_failed g bid why db = Inr db' \<Longrightarrow> barrier_step g db db'"
| terminalize: "terminalize_barrier g bid gen exc db = Inr (out, db') \<Longrightarrow> barrier_step g db db'"
| abort: "barrier_abort g now nm aid request epoch db = Inr (rep, db') \<Longrightarrow> barrier_step g db db'"
| consume: "barrier_consume g now nm aid request epoch db = Inr (rep, db') \<Longrightarrow> barrier_step g db db'"
| elsewhere: "barriers db' = barriers db \<Longrightarrow> barrier_step g db db'"

lemma barriers_ok_idem [simp]: "barriers_ok (db\<lparr>idempotency := xs\<rparr>) = barriers_ok db"
  by (simp add: barriers_ok_def)

lemma barriers_ok_step:
  assumes "lawful g" and "barrier_step g db db'" and "barriers_ok db"
  shows "barriers_ok db'"
  using assms(2)
proof cases
  case (abort now nm aid request epoch rep)
  show ?thesis
    by (rule with_idem_preserves [where P = barriers_ok, OF abort [unfolded barrier_abort_def] assms(3)])
      (auto intro: barriers_ok_abort [OF _ assms(1)])
next
  case (consume now nm aid request epoch rep)
  show ?thesis
    by (rule with_idem_preserves [where P = barriers_ok, OF consume [unfolded barrier_consume_def] assms(3)])
      (auto intro: barriers_ok_consume [OF _ assms(1)])
next
  case elsewhere
  then show ?thesis using barriers_ok_cong assms(3) by blast
next
  case declare_barrier
  then show ?thesis by (rule barriers_ok_declare [OF assms(3)])
next
  case arrive
  then show ?thesis by (rule barriers_ok_arrive [OF assms(3,1)])
next
  case evaluate
  then show ?thesis by (rule barriers_ok_eval [OF assms(3,1)])
next
  case finish
  then show ?thesis by (rule barriers_ok_finish [OF assms(3,1)])
next
  case fail_trip
  then show ?thesis by (rule barriers_ok_failed [OF assms(3,1)])
next
  case terminalize
  then show ?thesis by (rule barriers_ok_terminalize [OF assms(3,1)])
qed

text \<open>C34. One active generation: whatever the coordinator does from a database without barriers, a
  barrier that is armed or tripping is the newest of its name, the one every verb finds by the name;
  all older generations are final and stay so. A late arrival of an old generation can reach no
  barrier.\<close>

theorem one_active_generation:
  assumes "lawful g" and "barriers db0 = []" and "(barrier_step g)\<^sup>*\<^sup>* db0 db"
    and "b \<in> set (barriers db)" and "b_state b = ''ARMED'' \<or> b_state b = ''TRIPPING''"
  shows "barrier_by_name (b_name b) db = Some b"
proof -
  have "barriers_ok db0" using assms(2) by (simp add: barriers_ok_def)
  with assms(3) have ok: "barriers_ok db"
    by (induction rule: rtranclp_induct) (auto intro: barriers_ok_step [OF assms(1)])
  obtain c where c: "barrier_by_name (b_name b) db = Some c"
    using barrier_by_name_None assms(4) by fastforce
  note top = barrier_by_name_Some [OF c]
  have "\<not> barrier_final b" using assms(5) by (auto simp: barrier_final_def)
  then have "b_generation b = b_generation c"
    using ok top assms(4) by (fastforce simp: barriers_ok_def order_le_less)
  then show ?thesis using barrier_name_gen_unique [OF ok assms(4), of c] top c by simp
qed
text \<open>Rearming a tripped barrier loses its results: declaring the name again is refused only while
  the newest generation is armed or tripping, so a tripped one whose results nobody has consumed is
  replaced, and consuming by the name then finds the new generation and refuses.\<close>

theorem rearming_loses_results:
  assumes "barriers_ok db" and "barrier_by_name nm db = Some b" and "b_state b = ''TRIPPED''"
    and "tids \<noteq> []" and "barrier_declare now nm tids kind ''break'' timeout db = (r, db')"
  shows "is_success r \<and> (\<exists>c. barrier_by_name nm db' = Some c \<and> b_generation c = b_generation b + 1) \<and>
    (\<exists>refusal. barrier_consume_body g nm None None db' = Inr (slot_set refusal, db') \<and> \<not> is_success refusal)"
proof -
  define gen where "gen = b_generation b + 1"
  define d where "d = add_barrier now (barrier_id_of nm gen) nm kind (int (length (remdups tids))) gen ''ARMED'' ''break''
      (case timeout of None \<Rightarrow> None | Some t \<Rightarrow> Some (now + t)) db"
  have "barrier_declare now nm tids kind ''break'' timeout db =
      (JDict [(''ok'', JBool True), (''name'', JStr nm), (''barrier_id'', JStr (barrier_id_of nm gen)),
         (''generation'', JInt gen), (''parties'', JInt (int (length (remdups tids)))), (''state'', JStr ''ARMED''),
         (''policy'', JStr ''break'')], add_parties (barrier_id_of nm gen) gen tids d)"
    using assms(2-4) by (simp add: barrier_declare_def Let_def gen_def d_def active_barrier_def)
  with assms(5) have r: "is_success r" and db': "db' = add_parties (barrier_id_of nm gen) gen tids d"
    by auto
  obtain c where c: "barrier_by_name nm db' = Some c"
    using barrier_by_name_None [of nm db'] by (auto simp: db' d_def add_barrier_def)
  note top = barrier_by_name_Some [OF c] and old = barrier_by_name_Some [OF assms(2)]
  obtain new where new: "barriers db' = barriers db @ [new]" "b_name new = nm" "b_generation new = gen"
      "b_state new = ''ARMED''"
    by (simp add: db' d_def add_barrier_def)
  then have "gen \<le> b_generation c" using top by auto
  then have "c = new" using top old new(1) by (force simp: gen_def)
  then have "b_generation c = gen \<and> b_state c = ''ARMED''" using new by simp
  then show ?thesis using r c
    by (auto simp: barrier_consume_body_def check_alive_def gen_def)
qed

section \<open>Witnesses\<close>

definition sample_member :: "string \<Rightarrow> int \<Rightarrow> db \<Rightarrow> db" where
  "sample_member tid fn db = snd (add_orbit 1 (Some (''o-'' @ tid))
     ((orbit_args (Some tid) ''a'' [tid] ''write'' ''HELD'')\<lparr>fence := Some fn\<rparr>)
     (set_task tid (\<lambda>t. t\<lparr>t_state := ''DONE''\<rparr>) (add_task 1 tid tid [tid] [] [] ''DONE'' 0 [] None None db)))"

definition rendezvous :: "string \<Rightarrow> db" where
  "rendezvous policy = snd (barrier_declare 2 ''m'' [''t1'', ''t2''] ''connect'' policy (Some 10)
     (sample_member ''t2'' 2 (sample_member ''t1'' 1 empty_db)))"

definition arrive_sample :: "string \<Rightarrow> db \<Rightarrow> db" where
  "arrive_sample tid db =
     (case arrive_after_sweep sample_config 3 ''m'' ''a'' tid None None db of
        Inl e \<Rightarrow> db | Inr (sl, plan, db') \<Rightarrow> db')"

lemma trip_plan_is_current_witness:
  "\<exists>b b'. get_barrier ''bar-m-0'' (set_barrier_party ''bar-m-0'' 0 ''t2''
        (\<lambda>p. p\<lparr>p_arrived := True, p_arrive_fence := Some 2, p_agent_id := Some ''a''\<rparr>)
        (arrive_sample ''t1'' (rendezvous ''break''))) = Some b \<and> b_state b = ''ARMED'' \<and>
     get_barrier ''bar-m-0'' (arrive_sample ''t2'' (arrive_sample ''t1'' (rendezvous ''break''))) = Some b' \<and> b_state b' = ''TRIPPING''"
proof -
  let ?d = "set_barrier_party ''bar-m-0'' 0 ''t2''
    (\<lambda>p. p\<lparr>p_arrived := True, p_arrive_fence := Some 2, p_agent_id := Some ''a''\<rparr>)
    (arrive_sample ''t1'' (rendezvous ''break''))"
  let ?e = "arrive_sample ''t2'' (arrive_sample ''t1'' (rendezvous ''break''))"
  have "barrier_eval sample_config 3 ''bar-m-0'' True ?d = Inr (Some [(''t1'', Some 1), (''t2'', Some 2)], ?e)"
    by code_simp
  from trip_plan_is_current [OF this sample_config_lawful] show ?thesis by blast
qed

lemma deadline_resolves_barrier_witness:
  "\<exists>plan db' b'. barrier_eval sample_config 20 ''bar-m-0'' True (arrive_sample ''t1'' (rendezvous ''break'')) =
     Inr (plan, db') \<and> get_barrier ''bar-m-0'' db' = Some b' \<and> b_state b' \<in> {''BROKEN'', ''TRIPPING''}"
  by (rule deadline_resolves_barrier [OF sample_config_lawful,
        where b = "the (get_barrier ''bar-m-0'' (arrive_sample ''t1'' (rendezvous ''break'')))"])
    (code_simp+)

text \<open>The second party dies before it arrives; the sweep drops it and leaves the first one waiting.\<close>

definition stranded :: db where
  "stranded = (case barrier_eval sample_config 5 ''bar-m-0'' False
       (set_task ''t2'' (\<lambda>t. t\<lparr>t_state := ''POISONED''\<rparr>) (arrive_sample ''t1'' (rendezvous ''shrink''))) of
     Inl e \<Rightarrow> empty_db | Inr (plan, db) \<Rightarrow> db)"

lemma full_barrier_waits_forever_witness:
  "(\<forall>now. barrier_eval sample_config now ''bar-m-0'' False stranded = Inr (None, stranded)) \<and>
   length (parties_of ''bar-m-0'' 0 stranded) = 1"
proof
  let ?b = "the (get_barrier ''bar-m-0'' stranded)"
  have b: "get_barrier ''bar-m-0'' stranded = Some ?b" "b_state ?b = ''ARMED''" "b_generation ?b = 0" by code_simp+
  have "list_all (\<lambda>p. party_alive stranded p \<and> p_arrived p) (parties_of ''bar-m-0'' 0 stranded)" by code_simp
  then have "\<forall>p\<in>set (parties_of ''bar-m-0'' (b_generation ?b) stranded). party_alive stranded p \<and> p_arrived p"
    unfolding b(3) by (simp add: list_all_iff)
  from full_barrier_waits_forever [OF b(1,2) this]
  show "\<forall>now. barrier_eval sample_config now ''bar-m-0'' False stranded = Inr (None, stranded)" .
  show "length (parties_of ''bar-m-0'' 0 stranded) = 1" by code_simp
qed

lemma one_active_generation_witness:
  "barrier_by_name ''m'' (rendezvous ''break'') = get_barrier ''bar-m-0'' (rendezvous ''break'')"
proof -
  let ?b = "the (get_barrier ''bar-m-0'' (rendezvous ''break''))"
  have start: "barrier_step sample_config empty_db (sample_member ''t2'' 2 (sample_member ''t1'' 1 empty_db))"
    by (rule barrier_step.elsewhere) code_simp
  have "barrier_step sample_config (sample_member ''t2'' 2 (sample_member ''t1'' 1 empty_db)) (rendezvous ''break'')"
    unfolding rendezvous_def by (rule barrier_step.declare_barrier [OF surjective_pairing])
  then have run: "(barrier_step sample_config)\<^sup>*\<^sup>* empty_db (rendezvous ''break'')"
    using start by (meson converse_rtranclp_into_rtranclp rtranclp.rtrancl_refl)
  have b: "?b \<in> set (barriers (rendezvous ''break''))" "b_state ?b = ''ARMED''"
    "b_name ?b = ''m''" "get_barrier ''bar-m-0'' (rendezvous ''break'') = Some ?b" by code_simp+
  have "barrier_by_name (b_name ?b) (rendezvous ''break'') = Some ?b"
    by (rule one_active_generation [OF sample_config_lawful _ run b(1)])
      (use b(2) in \<open>simp_all add: empty_db_def\<close>)
  then show ?thesis using b by simp
qed

definition tripped :: db where
  "tripped = (case finish_trip sample_config ''bar-m-0'' 0 ''m'' [''t1'', ''t2'']
       (arrive_sample ''t2'' (arrive_sample ''t1'' (rendezvous ''break''))) of
     Inl e \<Rightarrow> empty_db | Inr (r, db) \<Rightarrow> db)"

lemma rearming_loses_results_witness:
  "\<exists>refusal. barrier_consume_body sample_config ''m'' None None
       (snd (barrier_declare 9 ''m'' [''t1''] ''connect'' ''break'' None tripped)) =
     Inr (slot_set refusal, snd (barrier_declare 9 ''m'' [''t1''] ''connect'' ''break'' None tripped)) \<and>
     \<not> is_success refusal"
proof -
  let ?b = "the (get_barrier ''bar-m-0'' tripped)"
  have b: "barrier_by_name ''m'' tripped = Some ?b" "b_state ?b = ''TRIPPED''" "barriers tripped = [?b]"
    "0 \<le> b_generation ?b" "b_barrier_id ?b = barrier_id_of (b_name ?b) (b_generation ?b)"
    "b_state ?b \<in> set barrier_states" by code_simp+
  have ok: "barriers_ok tripped" using b by (simp add: barriers_ok_def)
  from rearming_loses_results [OF ok b(1,2) _ prod.collapse [symmetric]] show ?thesis by simp
qed

end
