(* ===== verification/Sems.thy ===== *)
theory Sems
  imports Config
begin

text \<open>
  Semaphores, \<open>omd_server/_sems.py\<close>: a permit is a lease row, so the free permits are the maximum
  less the HELD permit rows, and waiters are served by priority, then by ticket. The verbs that
  sweep first (\<open>acquire\<close>, \<open>acquire_poll\<close>, \<open>sem_status\<close>) are here from the point after their sweep
  and complete in \<open>Polls\<close>.
\<close>

section \<open>Granting\<close>

definition grant_permit :: "config \<Rightarrow> rat \<Rightarrow> string \<Rightarrow> string \<Rightarrow> rat option \<Rightarrow> db \<Rightarrow> json \<times> string \<times> db" where
  "grant_permit g now aid sem ttl db =
     (let (fn, db) = next_fence db;
          (pid, db) = add_orbit now None ((orbit_args None aid [] ''write'' ''HELD'')\<lparr>fence := Some fn,
            o_expires_at := Some (now + ttl_or_default g ttl), o_reason := ''sem_permit:'' @ sem,
            o_kind := ''sem_permit'', o_resource_key := Some sem\<rparr>) db
      in (JDict [(''ok'', JBool True), (''state'', JStr ''ACQUIRED''), (''permit_id'', JStr pid),
            (''sem'', JStr sem), (''fence'', JInt fn)], pid, db))"

definition has_earlier_waiter :: "string \<Rightarrow> int \<Rightarrow> string \<Rightarrow> db \<Rightarrow> bool" where
  "has_earlier_waiter sem prio aid db \<longleftrightarrow>
     list_ex (\<lambda>w. sw_agent_id w \<noteq> aid \<and> (sw_priority w > prio \<or> sw_priority w = prio))
       (waiting_sem_waiters sem db)"

text \<open>The loop over the waiters, read once before it; \<open>break\<close> when the permits are used up.\<close>

fun promote_loop :: "config \<Rightarrow> rat \<Rightarrow> string \<Rightarrow> int \<Rightarrow> sem_waiter list \<Rightarrow> db \<Rightarrow> db" where
  "promote_loop g now sem limit [] db = db"
| "promote_loop g now sem limit (w # ws) db =
     (if int (count_active_permits sem db) \<ge> limit then db
      else case active_permit_for sem (sw_agent_id w) db of
          Some p \<Rightarrow> promote_loop g now sem limit ws
            (set_sem_waiter (sw_waiter_id w) ''GRANTED'' (Some (Some (orbit_id p))) db)
        | None \<Rightarrow>
            let (r, pid, db) = grant_permit g now (sw_agent_id w) sem (sw_ttl w) db in
            promote_loop g now sem limit ws (set_sem_waiter (sw_waiter_id w) ''GRANTED'' (Some (Some pid)) db))"

definition promote_sem_waiters :: "config \<Rightarrow> rat \<Rightarrow> string \<Rightarrow> db \<Rightarrow> db" where
  "promote_sem_waiters g now sem db =
     (case get_semaphore sem db of
        None \<Rightarrow> db
      | Some s \<Rightarrow> promote_loop g now sem (s_max_permits s) (waiting_sem_waiters sem db) db)"

section \<open>Verbs\<close>

definition sem_declare :: "config \<Rightarrow> rat \<Rightarrow> string \<Rightarrow> int \<Rightarrow> db \<Rightarrow> json \<times> db" where
  "sem_declare g now sem n db =
     (if n < 1 then (ok_false ''max_permits must be >= 1'' [(''sem'', JStr sem)], db)
      else (JDict [(''ok'', JBool True), (''sem'', JStr sem), (''max_permits'', JInt n)],
            promote_sem_waiters g now sem (add_semaphore now sem n db)))"

definition waiting_response :: "string \<Rightarrow> string \<Rightarrow> rat \<Rightarrow> json" where
  "waiting_response wid sem deadline =
     JDict [(''ok'', JBool True), (''state'', JStr ''WAITING''), (''waiter_id'', JStr wid),
       (''sem'', JStr sem), (''deadline'', JFloat (Fin deadline))]"

definition acquire_after_sweep ::
  "config \<Rightarrow> rat \<Rightarrow> string \<Rightarrow> string \<Rightarrow> rat option \<Rightarrow> bool \<Rightarrow> int \<Rightarrow> int option \<Rightarrow> db \<Rightarrow> json \<times> db" where
  "acquire_after_sweep g now aid sem ttl no_wait prio epoch db =
     (case check_alive (Some aid) epoch db of
        Some dead \<Rightarrow> (dead, db)
      | None \<Rightarrow>
          (case get_semaphore sem db of
             None \<Rightarrow> (ok_false ''no such semaphore'' [(''sem'', JStr sem)], db)
           | Some s \<Rightarrow>
               let db = upsert_agent aid None ''WORKING'' now db in
               (case active_permit_for sem aid db of
                  Some p \<Rightarrow> (JDict [(''ok'', JBool True), (''state'', JStr ''ACQUIRED''),
                      (''permit_id'', JStr (orbit_id p)), (''sem'', JStr sem),
                      (''fence'', opt_int (fence p)), (''reuse'', JBool True)], db)
                | None \<Rightarrow>
                    let avail = s_max_permits s - int (count_active_permits sem db) in
                    if avail \<ge> 1 \<and> \<not> has_earlier_waiter sem prio aid db then
                      (let (r, pid, db) = grant_permit g now aid sem ttl db in (r, db))
                    else if no_wait then
                      (JDict [(''ok'', JBool False), (''state'', JStr ''FAIL''), (''sem'', JStr sem),
                         (''reason'', JStr ''no permits available''), (''avail'', JInt (max avail 0))], db)
                    else
                      let (tick, db) = next_seq db; deadline = now + ttl_or_default g ttl;
                          (wid, db) = add_sem_waiter now sem aid ttl prio tick deadline db
                      in (waiting_response wid sem deadline, db))))"

definition granted_response :: "sem_waiter \<Rightarrow> db \<Rightarrow> json" where
  "granted_response w db =
     (let p = (case sw_permit_id w of None \<Rightarrow> None | Some pid \<Rightarrow> if pid = '''' then None else get_orbit pid db)
      in JDict [(''ok'', JBool True), (''state'', JStr ''ACQUIRED''), (''permit_id'', opt_str (sw_permit_id w)),
           (''sem'', JStr (sw_sem_id w)), (''fence'', case p of None \<Rightarrow> JNull | Some o' \<Rightarrow> opt_int (fence o'))])"

definition sem_release_body ::
  "config \<Rightarrow> rat \<Rightarrow> string \<Rightarrow> string \<Rightarrow> int option \<Rightarrow> int option \<Rightarrow> db \<Rightarrow> (core_error, slot \<times> db) result" where
  "sem_release_body g now pid aid fn epoch db =
     (case check_alive (Some aid) epoch db of
        Some dead \<Rightarrow> Inr (slot_set dead, db)
      | None \<Rightarrow>
          (case get_orbit pid db of
             None \<Rightarrow> Inr (slot_set (ok_false ''no such permit'' []), db)
           | Some p \<Rightarrow>
               if o_kind p \<noteq> ''sem_permit'' then Inr (slot_set (ok_false ''no such permit'' []), db)
               else if o_state p = ''RELEASED'' \<or> o_state p = ''EXPIRED'' then
                 Inr (slot_set (JDict [(''ok'', JBool True), (''noop'', JBool True),
                   (''state'', JStr (o_state p))]), db)
               else if o_state p \<noteq> ''HELD'' then
                 Inr (slot_set (ok_false (''not HELD: '' @ o_state p) []), db)
               else (case check_owner p aid fn of
                   Some bad \<Rightarrow> Inr (slot_set bad, db)
                 | None \<Rightarrow>
                     bind_res (step_state g ''orbit'' ''HELD'' ''release'') (\<lambda>st.
                       let db = set_orbit pid (no_set\<lparr>u_state := Some st, u_released_at := Some (Some now)\<rparr>) db
                       in Inr (slot_set (JDict [(''ok'', JBool True), (''sem'', opt_str (o_resource_key p))]),
                            (case o_resource_key p of None \<Rightarrow> db
                             | Some sem \<Rightarrow> promote_sem_waiters g now sem db))))))"

definition sem_release ::
  "config \<Rightarrow> rat \<Rightarrow> string \<Rightarrow> string \<Rightarrow> int option \<Rightarrow> string option \<Rightarrow> int option \<Rightarrow> db \<Rightarrow>
   (core_error, json option \<times> db) result" where
  "sem_release g now pid aid fn request epoch =
     with_idem (g_sha g) now request (Some aid) ''sem_release'' (JList [JStr pid, opt_int fn])
       (sem_release_body g now pid aid fn epoch)"

definition sem_status_after_sweep :: "string \<Rightarrow> db \<Rightarrow> json" where
  "sem_status_after_sweep sem db =
     (case get_semaphore sem db of
        None \<Rightarrow> ok_false ''no such semaphore'' [(''sem'', JStr sem)]
      | Some s \<Rightarrow>
          let active = int (count_active_permits sem db) in
          JDict [(''ok'', JBool True), (''sem'', JStr sem), (''max_permits'', JInt (s_max_permits s)),
            (''active'', JInt active), (''available'', JInt (max (s_max_permits s - active) 0)),
            (''waiting'', JInt (int (length (waiting_sem_waiters sem db))))])"

section \<open>Counting\<close>

lemma count_add_orbit:
  "add_orbit now None row db = (oid, db') \<Longrightarrow>
     count_active_permits sem db' = count_active_permits sem db +
       (if o_kind row = ''sem_permit'' \<and> o_state row = ''HELD'' \<and> o_resource_key row = Some sem then 1 else 0)"
  by (auto simp: add_orbit_def Let_def fresh_uuid_def count_active_permits_def is_permit_def)

lemma count_grant:
  assumes "grant_permit g now aid sem ttl db = (r, pid, db')"
  shows "count_active_permits sem' db' = count_active_permits sem' db + (if sem' = sem then 1 else 0)"
proof -
  have "count_active_permits sem' (snd (next_fence db)) = count_active_permits sem' db"
    by (simp add: next_fence_def count_active_permits_def)
  then show ?thesis
    using assms
    by (auto simp: grant_permit_def Let_def orbit_args_def dest!: count_add_orbit [where sem = sem']
        split: prod.splits)
qed

lemma count_frame [simp]:
  "count_active_permits sem (set_sem_waiter wid st p db) = count_active_permits sem db"
  "count_active_permits sem (add_semaphore now s n db) = count_active_permits sem db"
  "count_active_permits sem (upsert_agent aid nm st now db) = count_active_permits sem db"
  by (simp_all add: count_active_permits_def set_sem_waiter_def add_semaphore_def upsert_agent_def)

lemma promote_loop_bound:
  "int (count_active_permits sem (promote_loop g now sem limit ws db)) \<le>
     max limit (int (count_active_permits sem db))"
proof (induction ws arbitrary: db)
  case (Cons w ws)
  obtain r pid d where grant: "grant_permit g now (sw_agent_id w) sem (sw_ttl w) db = (r, pid, d)"
    by (metis prod.exhaust)
  then have "count_active_permits sem d = count_active_permits sem db + 1"
    by (simp add: count_grant)
  then show ?case
    using Cons.IH [of "set_sem_waiter (sw_waiter_id w) ''GRANTED'' (Some (Some pid)) d"]
      Cons.IH [of "set_sem_waiter (sw_waiter_id w) ''GRANTED'' (Some (Some (orbit_id p))) db" for p]
    by (auto simp: grant split: option.splits)
qed simp

lemma promote_loop_other:
  "sem' \<noteq> sem \<Longrightarrow> count_active_permits sem' (promote_loop g now sem limit ws db) = count_active_permits sem' db"
proof (induction ws arbitrary: db)
  case (Cons w ws)
  obtain r pid d where grant: "grant_permit g now (sw_agent_id w) sem (sw_ttl w) db = (r, pid, d)"
    by (metis prod.exhaust)
  then have "count_active_permits sem' d = count_active_permits sem' db"
    using Cons.prems by (simp add: count_grant)
  then show ?case
    using Cons by (auto simp: grant split: option.splits)
qed simp

lemma promote_bound:
  assumes "get_semaphore sem db = Some s"
  shows "int (count_active_permits sem (promote_sem_waiters g now sem' db)) \<le>
    max (s_max_permits s) (int (count_active_permits sem db))"
proof (cases "sem' = sem")
  case True
  then show ?thesis using assms promote_loop_bound by (simp add: promote_sem_waiters_def)
next
  case False
  then have "count_active_permits sem (promote_sem_waiters g now sem' db) = count_active_permits sem db"
    using promote_loop_other [of sem sem'] by (simp add: promote_sem_waiters_def split: option.splits)
  then show ?thesis by simp
qed

lemma count_set_orbit:
  assumes "u_state u = Some st" and "st \<noteq> ''HELD''"
  shows "count_active_permits sem (set_orbit oid u db) \<le> count_active_permits sem db"
proof -
  have "is_permit sem (apply_set (clear_evidence u) o') \<Longrightarrow> False" for o'
    using assms by (auto simp: is_permit_def)
  then have "length (filter (is_permit sem) (update_where p (apply_set (clear_evidence u)) xs)) \<le>
      length (filter (is_permit sem) xs)" for p and xs :: "orbit list"
    by (induction xs) (auto intro: le_SucI)
  then show ?thesis by (simp add: count_active_permits_def set_orbit_def)
qed

lemma get_semaphore_frame [simp]:
  "get_semaphore sem (set_orbit oid u db) = get_semaphore sem db"
  "get_semaphore sem (upsert_agent aid nm st now db) = get_semaphore sem db"
  "get_semaphore sem (set_sem_waiter wid st p db) = get_semaphore sem db"
  by (simp_all add: get_semaphore_def set_orbit_def upsert_agent_def set_sem_waiter_def)

lemma semaphores_grant: "grant_permit g now aid sem ttl db = (r, pid, d) \<Longrightarrow> semaphores d = semaphores db"
  by (auto simp: grant_permit_def next_fence_def add_orbit_def fresh_uuid_def Let_def)

lemma semaphores_promote: "semaphores (promote_loop g now sem limit ws db) = semaphores db"
proof (induction ws arbitrary: db)
  case (Cons w ws)
  obtain r pid d where grant: "grant_permit g now (sw_agent_id w) sem (sw_ttl w) db = (r, pid, d)"
    by (metis prod.exhaust)
  from semaphores_grant [OF this] show ?case
    using Cons.IH by (auto simp: grant set_sem_waiter_def split: option.splits)
qed simp

text \<open>What an \<open>acquire\<close> does to the database.\<close>

lemma acquire_cases:
  assumes "acquire_after_sweep g now aid sem ttl nw prio epoch db = (r, db')"
  defines "d \<equiv> upsert_agent aid None ''WORKING'' now db"
  shows "db' = db \<or> db' = d \<or>
    (\<exists>s r1 pid. get_semaphore sem db = Some s \<and> int (count_active_permits sem d) < s_max_permits s \<and>
       \<not> has_earlier_waiter sem prio aid d \<and> grant_permit g now aid sem ttl d = (r1, pid, db')) \<or>
    (\<exists>tick dl. db' = snd (add_sem_waiter now sem aid ttl prio tick dl (snd (next_seq d))))"
proof -
  obtain r1 pid d1 where grant: "grant_permit g now aid sem ttl d = (r1, pid, d1)"
    by (metis prod.exhaust)
  obtain tick d2 where tick: "next_seq d = (tick, d2)" by (metis prod.exhaust)
  obtain wid d3 where wait: "add_sem_waiter now sem aid ttl prio tick (now + ttl_or_default g ttl) d2 = (wid, d3)"
    by (metis prod.exhaust)
  have d3: "d3 = snd (add_sem_waiter now sem aid ttl prio tick (now + ttl_or_default g ttl) (snd (next_seq d)))"
    using tick wait by simp
  show ?thesis
  proof (cases "check_alive (Some aid) epoch db")
    case (Some dead)
    then show ?thesis using assms(1) by (simp add: acquire_after_sweep_def)
  next
    case None
    note alive = this
    show ?thesis
    proof (cases "get_semaphore sem db")
      case None
      then show ?thesis using alive assms(1) by (simp add: acquire_after_sweep_def)
    next
      case (Some s)
      have "db' = d \<or> db' = d1 \<and> int (count_active_permits sem d) < s_max_permits s \<and>
          \<not> has_earlier_waiter sem prio aid d \<or> db' = d3"
        using assms(1) alive Some grant tick wait
        by (auto simp: acquire_after_sweep_def d_def [symmetric] Let_def simp del: count_frame split: option.splits if_splits)
      then show ?thesis using Some grant d3 by blast
    qed
  qed
qed

lemma count_enqueue [simp]:
  "count_active_permits sem (snd (add_sem_waiter now sem' aid ttl prio tick dl (snd (next_seq db)))) =
     count_active_permits sem db"
  "semaphores (snd (add_sem_waiter now sem' aid ttl prio tick dl (snd (next_seq db)))) = semaphores db"
  by (simp_all add: add_sem_waiter_def next_seq_def fresh_uuid_def Let_def count_active_permits_def)

lemma acquire_bound:
  assumes "get_semaphore sem db = Some s" and "acquire_after_sweep g now aid sem' ttl nw prio epoch db = (r, db')"
  shows "int (count_active_permits sem db') \<le> max (s_max_permits s) (int (count_active_permits sem db)) \<and>
    semaphores db' = semaphores db"
proof -
  have "semaphores (upsert_agent aid None ''WORKING'' now db) = semaphores db"
    by (simp add: upsert_agent_def)
  then show ?thesis
    using acquire_cases [OF assms(2)] assms(1)
    by (auto dest: semaphores_grant simp: count_grant [where sem' = sem])
qed

text \<open>The verbs that touch permits; a semaphore's maximum is not lowered below what is in use.\<close>

inductive sem_step :: "config \<Rightarrow> db \<Rightarrow> db \<Rightarrow> bool" for g where
  acquire: "acquire_after_sweep g now aid sem ttl nw prio epoch db = (r, db') \<Longrightarrow> sem_step g db db'"
| release: "sem_release g now pid aid fn request epoch db = Inr (r, db') \<Longrightarrow> sem_step g db db'"
| promote: "sem_step g db (promote_sem_waiters g now sem db)"
| expire: "u_state u = Some ''EXPIRED'' \<Longrightarrow> sem_step g db (set_orbit pid u db)"
| declare_sem: "sem_declare g now sem n db = (r, db') \<Longrightarrow> int (count_active_permits sem db) \<le> n \<Longrightarrow>
    sem_step g db db'"

definition permits_ok :: "db \<Rightarrow> bool" where
  "permits_ok db \<longleftrightarrow> (\<forall>sem s. get_semaphore sem db = Some s \<longrightarrow>
     int (count_active_permits sem db) \<le> s_max_permits s)"

lemma permits_ok_idem [simp]: "permits_ok (db\<lparr>idempotency := xs\<rparr>) = permits_ok db"
  by (simp add: permits_ok_def get_semaphore_def count_active_permits_def)

lemma permits_ok_promote: "permits_ok db \<Longrightarrow> permits_ok (promote_sem_waiters g now sem db)"
proof -
  assume ok: "permits_ok db"
  have "semaphores (promote_sem_waiters g now sem db) = semaphores db"
    using semaphores_promote by (simp add: promote_sem_waiters_def split: option.splits)
  then have "get_semaphore k (promote_sem_waiters g now sem db) = get_semaphore k db" for k
    by (simp add: get_semaphore_def)
  then show ?thesis
    using ok promote_bound [where sem' = sem and g = g and now = now and db = db]
    unfolding permits_ok_def by (metis max.absorb1)
qed

lemma permits_ok_lower:
  assumes "permits_ok db" and "u_state u = Some st" and "st \<noteq> ''HELD''"
  shows "permits_ok (set_orbit oid u db)"
  unfolding permits_ok_def
proof (intro allI impI)
  fix sem s assume "get_semaphore sem (set_orbit oid u db) = Some s"
  then have "int (count_active_permits sem db) \<le> s_max_permits s"
    using assms(1) by (simp add: permits_ok_def)
  then show "int (count_active_permits sem (set_orbit oid u db)) \<le> s_max_permits s"
    using count_set_orbit [OF assms(2,3), of sem oid db] by linarith
qed

lemma permits_ok_release:
  assumes "permits_ok db" and "lawful g" and "sem_release_body g now pid aid fn epoch db = Inr (sl, db')"
  shows "permits_ok db'"
proof -
  let ?d = "set_orbit pid (no_set\<lparr>u_state := Some ''RELEASED'', u_released_at := Some (Some now)\<rparr>) db"
  have d: "permits_ok ?d"
    by (rule permits_ok_lower [OF assms(1), where st = "''RELEASED''"]) simp_all
  have "db' = db \<or> db' = ?d \<or> (\<exists>sem. db' = promote_sem_waiters g now sem ?d)"
    using assms(3) transition_results [OF assms(2)]
    by (simp add: sem_release_body_def Let_def split: option.splits if_splits) blast
  then show ?thesis using assms(1) d permits_ok_promote by blast
qed

lemma permits_ok_cong:
  assumes "semaphores db' = semaphores db" and "orbits db' = orbits db"
  shows "permits_ok db' = permits_ok db"
  using assms by (simp add: permits_ok_def get_semaphore_def count_active_permits_def)

lemma permits_ok_acquire:
  assumes "permits_ok db" and "acquire_after_sweep g now aid sem ttl nw prio epoch db = (r, db')"
  shows "permits_ok db'"
  unfolding permits_ok_def
proof (intro allI impI)
  fix k s assume s: "get_semaphore k db' = Some s"
  have "semaphores db' = semaphores db"
  proof (cases "get_semaphore sem db")
    case None
    then show ?thesis using assms(2) by (auto simp: acquire_after_sweep_def split: option.splits)
  next
    case (Some s')
    then show ?thesis using acquire_bound [OF _ assms(2)] by blast
  qed
  then have "get_semaphore k db = Some s" using s by (simp add: get_semaphore_def)
  moreover from this have "int (count_active_permits k db) \<le> s_max_permits s"
    using assms(1) by (simp add: permits_ok_def)
  ultimately show "int (count_active_permits k db') \<le> s_max_permits s"
    using acquire_bound [OF _ assms(2)] by force
qed

lemma get_semaphore_add:
  "get_semaphore k (add_semaphore now sem n db) = Some s \<Longrightarrow>
     (k = sem \<and> s_max_permits s = n) \<or> (k \<noteq> sem \<and> get_semaphore k db = Some s)"
proof -
  have fresh: "fetchone (filter (\<lambda>x. s_sem_id x = k) (update_where (\<lambda>x. s_sem_id x = sem)
      (\<lambda>x. x\<lparr>s_max_permits := n\<rparr>) xs)) = Some s \<Longrightarrow>
     (k = sem \<and> s_max_permits s = n) \<or> (k \<noteq> sem \<and> fetchone (filter (\<lambda>x. s_sem_id x = k) xs) = Some s)" for xs
  proof (induction xs)
    case (Cons x xs)
    then show ?case by (cases "s_sem_id x = sem"; cases "s_sem_id x = k") auto
  qed simp
  have app: "fetchone (xs @ ys) = (if xs = [] then fetchone ys else fetchone xs)" for xs ys :: "semaphore list"
    by (cases xs) auto
  show "get_semaphore k (add_semaphore now sem n db) = Some s \<Longrightarrow>
     (k = sem \<and> s_max_permits s = n) \<or> (k \<noteq> sem \<and> get_semaphore k db = Some s)"
    using fresh [of "semaphores db"]
    by (auto simp: get_semaphore_def add_semaphore_def upsert_def app filter_empty_conv split: if_splits)
qed

lemma permits_ok_declare:
  assumes "permits_ok db" and "sem_declare g now sem n db = (r, db')" and "int (count_active_permits sem db) \<le> n"
  shows "permits_ok db'"
proof -
  have "permits_ok (add_semaphore now sem n db)"
    unfolding permits_ok_def
  proof (intro allI impI)
    fix k s assume "get_semaphore k (add_semaphore now sem n db) = Some s"
    from get_semaphore_add [OF this] show "int (count_active_permits k (add_semaphore now sem n db)) \<le> s_max_permits s"
      using assms(1,3) by (auto simp: permits_ok_def)
  qed
  then show ?thesis
    using assms(1,2) permits_ok_promote by (auto simp: sem_declare_def split: if_splits)
qed

lemma permits_ok_step:
  assumes "lawful g" and "sem_step g db db'" and "permits_ok db"
  shows "permits_ok db'"
  using assms(2,3)
proof (cases rule: sem_step.cases)
  case (release now pid aid fn request epoch r)
  show ?thesis
    by (rule with_idem_preserves [where P = permits_ok, OF release(1) [unfolded sem_release_def] assms(3)])
      (auto intro: permits_ok_release [OF _ assms(1)])
next
  case (expire u pid)
  then show ?thesis using permits_ok_lower [OF assms(3), of u "''EXPIRED''"] by simp
qed (auto intro: permits_ok_acquire permits_ok_promote permits_ok_declare)

section \<open>The queue\<close>

definition waiter_ids_distinct :: "db \<Rightarrow> bool" where
  "waiter_ids_distinct db \<longleftrightarrow> distinct (map sw_waiter_id (sem_waiters db))"

lemma waiter_ids_set_sem_waiter [simp]:
  "waiter_ids_distinct (set_sem_waiter wid st p db) = waiter_ids_distinct db"
  by (simp add: waiter_ids_distinct_def set_sem_waiter_def map_update_where)

lemma sem_waiters_grant: "grant_permit g now aid sem ttl db = (r, pid, d) \<Longrightarrow> sem_waiters d = sem_waiters db"
  by (auto simp: grant_permit_def next_fence_def add_orbit_def fresh_uuid_def Let_def)

lemma filter_update_out:
  assumes "\<And>x. p x \<Longrightarrow> \<not> q (f x)"
  shows "filter q (update_where p f xs) = filter (\<lambda>x. \<not> p x) (filter q xs)"
  using assms by (induction xs) auto

text \<open>Granting the head of the queue removes it and nothing else.\<close>

lemma waiting_after_grant:
  assumes "waiter_ids_distinct db" and "waiting_sem_waiters sem db = w # ws"
  shows "waiting_sem_waiters sem (set_sem_waiter (sw_waiter_id w) ''GRANTED'' p db) = ws"
proof -
  let ?q = "\<lambda>x. sw_sem_id x = sem \<and> sw_state x = ''WAITING''"
  have "waiting_sem_waiters sem (set_sem_waiter (sw_waiter_id w) ''GRANTED'' p db) =
      filter (\<lambda>x. sw_waiter_id x \<noteq> sw_waiter_id w) (waiting_sem_waiters sem db)"
    by (simp add: waiting_sem_waiters_def set_sem_waiter_def filter_update_out filter_sort)
  moreover have "distinct (map sw_waiter_id (w # ws))"
  proof -
    have "inj_on sw_waiter_id (set (sem_waiters db))" and "distinct (sem_waiters db)"
      using assms(1) by (simp_all add: waiter_ids_distinct_def distinct_map)
    then show ?thesis
      unfolding assms(2) [symmetric] distinct_map
      by (auto simp: waiting_sem_waiters_def inj_on_def)
  qed
  then have "filter (\<lambda>x. sw_waiter_id x \<noteq> sw_waiter_id w) ws = ws"
    by (simp add: filter_id_conv) (metis imageI)
  ultimately show ?thesis using assms(2) by simp
qed

lemma promote_loop_prefix:
  assumes "waiter_ids_distinct db" and "waiting_sem_waiters sem db = ws"
  shows "\<exists>k. waiting_sem_waiters sem (promote_loop g now sem limit ws db) = drop k ws \<and>
    (k < length ws \<longrightarrow> limit \<le> int (count_active_permits sem (promote_loop g now sem limit ws db)))"
  using assms
proof (induction ws arbitrary: db)
  case (Cons w ws)
  show ?case
  proof (cases "limit \<le> int (count_active_permits sem db)")
    case True
    then show ?thesis using Cons.prems by (intro exI [of _ 0]) simp
  next
    case False
    obtain r pid d where grant: "grant_permit g now (sw_agent_id w) sem (sw_ttl w) db = (r, pid, d)"
      by (metis prod.exhaust)
    have d: "waiter_ids_distinct d" "waiting_sem_waiters sem d = w # ws"
      using sem_waiters_grant [OF grant] Cons.prems by (simp_all add: waiter_ids_distinct_def waiting_sem_waiters_def)
    obtain db1 where step: "promote_loop g now sem limit (w # ws) db = promote_loop g now sem limit ws db1"
      and inv: "waiter_ids_distinct db1" "waiting_sem_waiters sem db1 = ws"
    proof (cases "active_permit_for sem (sw_agent_id w) db")
      case None
      show thesis
        by (rule that [of "set_sem_waiter (sw_waiter_id w) ''GRANTED'' (Some (Some pid)) d"])
          (use False None grant d in \<open>simp_all add: waiting_after_grant\<close>)
    next
      case (Some p)
      show thesis
        by (rule that [of "set_sem_waiter (sw_waiter_id w) ''GRANTED'' (Some (Some (orbit_id p))) db"])
          (use False Some Cons.prems in \<open>simp_all add: waiting_after_grant\<close>)
    qed
    from Cons.IH [OF inv] show ?thesis
      unfolding step by (metis drop_Suc_Cons Suc_less_eq length_Cons)
  qed
qed auto

section \<open>Properties\<close>


text \<open>A promotion serves a prefix of the queue in its order (priority, then ticket): nobody is
  skipped, and if someone is left waiting all permits are in use.\<close>

theorem promotion_serves_queue_head:
  assumes "waiter_ids_distinct db" and "get_semaphore sem db = Some s"
  shows "\<exists>k. waiting_sem_waiters sem (promote_sem_waiters g now sem db) = drop k (waiting_sem_waiters sem db) \<and>
    (k < length (waiting_sem_waiters sem db) \<longrightarrow>
       s_max_permits s \<le> int (count_active_permits sem (promote_sem_waiters g now sem db)))"
  using promote_loop_prefix [OF assms(1) refl] assms(2) by (simp add: promote_sem_waiters_def)

text \<open>A caller that is given a fresh permit overtakes nobody: there was a free slot, and every
  other agent in the queue has a lower priority.\<close>

theorem fresh_permit_overtakes_nobody:
  assumes "acquire_after_sweep g now aid sem ttl nw prio epoch db = (r, db')"
    and "count_active_permits sem db < count_active_permits sem db'"
  shows "(\<exists>s. get_semaphore sem db = Some s \<and> int (count_active_permits sem db) < s_max_permits s) \<and>
    (\<forall>w\<in>set (waiting_sem_waiters sem db). sw_agent_id w = aid \<or> sw_priority w < prio)"
proof -
  let ?d = "upsert_agent aid None ''WORKING'' now db"
  have "waiting_sem_waiters sem ?d = waiting_sem_waiters sem db"
    by (simp add: waiting_sem_waiters_def upsert_agent_def)
  then show ?thesis
    using acquire_cases [OF assms(1)] assms(2)
    by (auto simp: has_earlier_waiter_def list_ex_iff)
qed

definition sem_demo :: "db \<times> db \<times> db" where
  "sem_demo =
     (let d1 = snd (sem_declare sample_config 0 ''gpu'' 1 empty_db);
          d2 = snd (acquire_after_sweep sample_config 1 ''a'' ''gpu'' (Some 300) False 0 None d1);
          d3 = snd (acquire_after_sweep sample_config 2 ''b'' ''gpu'' (Some 300) False 0 None d2)
      in (d1, d2, d3))"

lemma permits_ok_empty: "permits_ok empty_db"
  by (simp add: permits_ok_def get_semaphore_def empty_db_def)


theorem promotion_serves_queue_head_witness:
  "\<exists>k. waiting_sem_waiters ''gpu'' (promote_sem_waiters sample_config 5 ''gpu'' (snd (snd sem_demo))) =
      drop k (waiting_sem_waiters ''gpu'' (snd (snd sem_demo))) \<and>
    (k < length (waiting_sem_waiters ''gpu'' (snd (snd sem_demo))) \<longrightarrow>
       s_max_permits \<lparr>s_sem_id = ''gpu'', s_max_permits = 1, s_created_at = 0\<rparr> \<le>
       int (count_active_permits ''gpu'' (promote_sem_waiters sample_config 5 ''gpu'' (snd (snd sem_demo)))))"
  by (rule promotion_serves_queue_head) code_simp+

theorem fresh_permit_overtakes_nobody_witness:
  "(\<exists>s. get_semaphore ''gpu'' (fst sem_demo) = Some s \<and>
      int (count_active_permits ''gpu'' (fst sem_demo)) < s_max_permits s) \<and>
    list_all (\<lambda>w. sw_agent_id w = ''a'' \<or> sw_priority w < 0) (waiting_sem_waiters ''gpu'' (fst sem_demo))"
  unfolding list_all_iff
proof (rule fresh_permit_overtakes_nobody [where g = sample_config and now = 1 and ttl = "Some 300" and nw = False and epoch = None])
  show "acquire_after_sweep sample_config 1 ''a'' ''gpu'' (Some 300) False 0 None (fst sem_demo) =
      (fst (acquire_after_sweep sample_config 1 ''a'' ''gpu'' (Some 300) False 0 None (fst sem_demo)), fst (snd sem_demo))"
    by (simp add: sem_demo_def Let_def)
  show "count_active_permits ''gpu'' (fst sem_demo) < count_active_permits ''gpu'' (fst (snd sem_demo))"
    by code_simp
qed

end
