(* ===== verification/Flags.thy ===== *)
theory Flags
  imports Config
begin

text \<open>
  Flags, \<open>omd_server/_flags.py\<close>: LATCH facts with a monotone rank (\<open>LATCH_RANK\<close> of
  \<open>omd_server/_const.py\<close>), EPHEMERAL signals backed by a lease, and the registration of waiters.
  \<open>flag_wait_poll\<close>, which sweeps first, is in \<open>Polls\<close>. Response messages keep the keys and reasons of
  the code. Telemetry (\<open>_emit\<close>) is left out: it writes nothing the coordinator reads.
\<close>

section \<open>Satisfaction\<close>

definition latch_rank :: "string \<Rightarrow> int" where
  "latch_rank v = (if v = ''done'' then 1 else if v = ''merged'' then 2 else 0)"

definition rank_of :: "string option \<Rightarrow> int" where
  "rank_of v = (case v of None \<Rightarrow> 0 | Some s \<Rightarrow> latch_rank s)"

definition flag_satisfied :: "flag option \<Rightarrow> string option \<Rightarrow> bool" where
  "flag_satisfied frow want =
     (case frow of None \<Rightarrow> False
      | Some f \<Rightarrow>
          if f_status f \<noteq> ''LIVE'' then False
          else if f_value f = want then True
          else rank_of want > 0 \<and> f_rank f \<ge> rank_of want)"

definition flag_broken :: "flag option \<Rightarrow> bool" where
  "flag_broken frow = (case frow of None \<Rightarrow> False | Some f \<Rightarrow> f_status f = ''BROKEN'')"

section \<open>Waking\<close>

definition wake_flag_waiter :: "flag option \<Rightarrow> flag_waiter \<Rightarrow> db \<Rightarrow> db" where
  "wake_flag_waiter frow w db =
     (if flag_broken frow then
        set_flag_waiter (fw_waiter_id w) ''BROKEN'' (Some (Some ''producer_dead'')) db
      else if flag_satisfied frow (fw_want_value w) then
        set_flag_waiter (fw_waiter_id w) ''SATISFIED'' (Some (Some ''satisfied'')) db
      else db)"

definition wake_flag_waiters :: "string \<Rightarrow> db \<Rightarrow> db" where
  "wake_flag_waiters key db =
     fold (wake_flag_waiter (get_flag_row key db)) (waiters_for_key key ''WAITING'' db) db"

definition break_ephemeral_flags_for_lease :: "string \<Rightarrow> db \<Rightarrow> db" where
  "break_ephemeral_flags_for_lease lease db =
     fold (\<lambda>f db. wake_flag_waiters (f_key f)
            (set_flag_status (f_key f) ''BROKEN'' (f_epoch f + 1) None None None db))
       (ephemeral_flags_for_lease lease db) db"

section \<open>Setting\<close>

definition flag_set_latch ::
  "rat \<Rightarrow> string \<Rightarrow> string option \<Rightarrow> string option \<Rightarrow> flag option \<Rightarrow> db \<Rightarrow> json \<times> db" where
  "flag_set_latch now key val aid frow db =
     (let new_rank = rank_of val in
      case frow of
        Some f \<Rightarrow>
          if f_type f = ''EPHEMERAL'' then
            (ok_false ''flag is EPHEMERAL, not LATCH'' [(''key'', JStr key)], db)
          else if f_status f = ''LIVE'' \<and> f_value f = val then
            (JDict [(''ok'', JBool True), (''noop'', JBool True), (''key'', JStr key), (''value'', opt_str val),
               (''flag_type'', JStr ''LATCH''), (''epoch'', JInt (f_epoch f))], db)
          else if new_rank > 0 \<and> f_rank f > 0 \<and> new_rank < f_rank f then
            (ok_false ''monotonic downgrade rejected'' [(''key'', JStr key), (''current'', opt_str (f_value f)),
               (''current_rank'', JInt (f_rank f)), (''to'', opt_str val), (''to_rank'', JInt new_rank)], db)
          else
            let epoch = f_epoch f + 1; rank = (if new_rank \<noteq> 0 then max new_rank (f_rank f) else f_rank f);
                db = upsert_flag now \<lparr>f_key = key, f_value = val, f_set_by = aid, f_set_at = now,
                       f_type = ''LATCH'', f_epoch = epoch, f_rank = rank, f_status = ''LIVE'',
                       f_owner_agent = None, f_lease_id = None\<rparr> db
            in (JDict [(''ok'', JBool True), (''key'', JStr key), (''value'', opt_str val),
                  (''flag_type'', JStr ''LATCH''), (''epoch'', JInt epoch), (''rank'', JInt rank)],
                wake_flag_waiters key db)
      | None \<Rightarrow>
          let db = upsert_flag now \<lparr>f_key = key, f_value = val, f_set_by = aid, f_set_at = now,
                     f_type = ''LATCH'', f_epoch = 0, f_rank = new_rank, f_status = ''LIVE'',
                     f_owner_agent = None, f_lease_id = None\<rparr> db
          in (JDict [(''ok'', JBool True), (''key'', JStr key), (''value'', opt_str val),
                (''flag_type'', JStr ''LATCH''), (''epoch'', JInt 0), (''rank'', JInt new_rank)],
              wake_flag_waiters key db))"

definition ephemeral_lease :: "config \<Rightarrow> rat \<Rightarrow> string \<Rightarrow> string \<Rightarrow> rat option \<Rightarrow> db \<Rightarrow> string \<times> db" where
  "ephemeral_lease g now key aid ttl db =
     (let (fn, db) = next_fence db in
      add_orbit now None ((orbit_args None aid [] ''write'' ''HELD'')\<lparr>fence := Some fn,
        o_expires_at := Some (now + ttl_or_default g ttl), o_reason := ''flag_ephemeral:'' @ key,
        o_kind := ''flag_ephemeral'', o_resource_key := Some key\<rparr>) db)"

definition flag_set_ephemeral ::
  "config \<Rightarrow> rat \<Rightarrow> string \<Rightarrow> string option \<Rightarrow> string option \<Rightarrow> flag option \<Rightarrow> rat option \<Rightarrow> db \<Rightarrow>
   json \<times> db" where
  "flag_set_ephemeral g now key val agent frow ttl db =
     (case agent of
        None \<Rightarrow> (ok_false ''EPHEMERAL flag requires owner agent'' [(''key'', JStr key)], db)
      | Some aid \<Rightarrow>
          let db = upsert_agent aid None ''WORKING'' now db;
              live = (case frow of None \<Rightarrow> None | Some f \<Rightarrow> if f_status f = ''LIVE'' then Some f else None)
          in if (case frow of None \<Rightarrow> False | Some f \<Rightarrow> f_type f = ''LATCH'') then
               (ok_false ''flag is LATCH, not EPHEMERAL'' [(''key'', JStr key)], db)
             else if (case live of None \<Rightarrow> False
                 | Some f \<Rightarrow> f_owner_agent f \<noteq> Some aid \<and> f_owner_agent f \<noteq> None) then
               (ok_false ''not flag owner'' [(''key'', JStr key),
                  (''owner'', opt_str (Option.bind live f_owner_agent))], db)
             else
               let (lease, db) = (case Option.bind live f_lease_id of
                        None \<Rightarrow> ephemeral_lease g now key aid ttl db
                      | Some l \<Rightarrow> (l, case ttl of None \<Rightarrow> db
                          | Some t \<Rightarrow> set_orbit l (no_set\<lparr>u_expires_at := Some (Some (now + t))\<rparr>) db));
                   epoch = (case frow of None \<Rightarrow> 0 | Some f \<Rightarrow> f_epoch f + 1);
                   db = upsert_flag now \<lparr>f_key = key, f_value = val, f_set_by = Some aid, f_set_at = now,
                          f_type = ''EPHEMERAL'', f_epoch = epoch, f_rank = 0, f_status = ''LIVE'',
                          f_owner_agent = Some aid, f_lease_id = Some lease\<rparr> db
               in (JDict [(''ok'', JBool True), (''key'', JStr key), (''value'', opt_str val),
                     (''flag_type'', JStr ''EPHEMERAL''), (''epoch'', JInt epoch), (''lease_id'', JStr lease)],
                   wake_flag_waiters key db))"

definition upper_ascii :: "char \<Rightarrow> char" where
  "upper_ascii c = (if CHR ''a'' \<le> c \<and> c \<le> CHR ''z'' then char_of (of_char c - 32 :: nat) else c)"

definition flag_set_body ::
  "config \<Rightarrow> rat \<Rightarrow> string \<Rightarrow> string option \<Rightarrow> string option \<Rightarrow> string \<Rightarrow> rat option \<Rightarrow> int option \<Rightarrow> db \<Rightarrow>
   (core_error, slot \<times> db) result" where
  "flag_set_body g now key val agent ftype ttl epoch db =
     (case check_alive agent epoch db of
        Some dead \<Rightarrow> Inr (slot_set dead, db)
      | None \<Rightarrow>
          let frow = get_flag_row key db;
              (r, db) = (if ftype = ''EPHEMERAL'' then flag_set_ephemeral g now key val agent frow ttl db
                         else flag_set_latch now key val agent frow db)
          in Inr (slot_set r, db))"

definition flag_set ::
  "config \<Rightarrow> rat \<Rightarrow> string \<Rightarrow> string option \<Rightarrow> string option \<Rightarrow> string option \<Rightarrow> rat option \<Rightarrow>
   string option \<Rightarrow> int option \<Rightarrow> db \<Rightarrow> (core_error, json option \<times> db) result" where
  "flag_set g now key val agent flag_type ttl request epoch =
     (let ftype = map upper_ascii (case flag_type of None \<Rightarrow> ''LATCH'' | Some t \<Rightarrow> if t = '''' then ''LATCH'' else t)
      in with_idem (g_sha g) now request agent ''flag_set'' (JList [JStr key, opt_str val, JStr ftype])
           (flag_set_body g now key val agent ftype ttl epoch))"

section \<open>Clearing and reading\<close>

definition flag_clear_lease :: "config \<Rightarrow> rat \<Rightarrow> string option \<Rightarrow> db \<Rightarrow> (core_error, db) result" where
  "flag_clear_lease g now lease db =
     (case lease of
        None \<Rightarrow> Inr db
      | Some l \<Rightarrow>
          if l = '''' then Inr db
          else (case get_orbit l db of
              None \<Rightarrow> Inr db
            | Some lo \<Rightarrow>
                if o_state lo = ''HELD'' then
                  bind_res (step_state g ''orbit'' ''HELD'' ''release'') (\<lambda>st.
                    Inr (set_orbit l (no_set\<lparr>u_state := Some st, u_released_at := Some (Some now)\<rparr>) db))
                else Inr db))"

definition flag_clear_body ::
  "config \<Rightarrow> rat \<Rightarrow> string \<Rightarrow> string option \<Rightarrow> int option \<Rightarrow> db \<Rightarrow> (core_error, slot \<times> db) result" where
  "flag_clear_body g now key agent epoch db =
     (case check_alive agent epoch db of
        Some dead \<Rightarrow> Inr (slot_set dead, db)
      | None \<Rightarrow>
          (case get_flag_row key db of
             None \<Rightarrow> Inr (slot_set (JDict [(''ok'', JBool True), (''noop'', JBool True), (''key'', JStr key)]), db)
           | Some f \<Rightarrow>
               if f_type f \<noteq> ''EPHEMERAL'' then
                 Inr (slot_set (ok_false ''LATCH flag cannot be cleared'' [(''key'', JStr key)]), db)
               else if f_status f \<noteq> ''LIVE'' then
                 Inr (slot_set (JDict [(''ok'', JBool True), (''noop'', JBool True), (''key'', JStr key),
                   (''status'', JStr (f_status f))]), db)
               else if agent \<noteq> None \<and> f_owner_agent f \<noteq> agent \<and> f_owner_agent f \<noteq> None then
                 Inr (slot_set (ok_false ''not flag owner'' [(''key'', JStr key),
                   (''owner'', opt_str (f_owner_agent f))]), db)
               else
                 bind_res (flag_clear_lease g now (f_lease_id f) db) (\<lambda>db.
                 let db = set_flag_status key ''CLEARED'' (f_epoch f + 1) None None None db in
                 Inr (slot_set (JDict [(''ok'', JBool True), (''key'', JStr key), (''status'', JStr ''CLEARED'')]),
                      wake_flag_waiters key db))))"

definition flag_clear ::
  "config \<Rightarrow> rat \<Rightarrow> string \<Rightarrow> string option \<Rightarrow> string option \<Rightarrow> int option \<Rightarrow> db \<Rightarrow>
   (core_error, json option \<times> db) result" where
  "flag_clear g now key agent request epoch =
     with_idem (g_sha g) now request agent ''flag_clear'' (JList [JStr key]) (flag_clear_body g now key agent epoch)"

definition flag_get :: "string \<Rightarrow> db \<Rightarrow> json" where
  "flag_get key db =
     (case get_flag_row key db of
        None \<Rightarrow> JDict [(''key'', JStr key), (''value'', JNull)]
      | Some f \<Rightarrow> JDict [(''key'', JStr key), (''value'', opt_str (f_value f)), (''flag_type'', JStr (f_type f)),
          (''status'', JStr (f_status f)), (''epoch'', JInt (f_epoch f)), (''rank'', JInt (f_rank f)),
          (''owner'', opt_str (f_owner_agent f))])"

definition flag_wait ::
  "rat \<Rightarrow> string \<Rightarrow> string option \<Rightarrow> rat option \<Rightarrow> string option \<Rightarrow> db \<Rightarrow> json \<times> db" where
  "flag_wait now key want timeout agent db =
     (case timeout of
        None \<Rightarrow> (ok_false ''timeout required (no indefinite wait)'' [(''key'', JStr key)], db)
      | Some limit \<Rightarrow>
          let frow = get_flag_row key db in
          if flag_broken frow then
            (JDict [(''state'', JStr ''BROKEN''), (''reason'', JStr ''producer_dead''), (''key'', JStr key)], db)
          else if flag_satisfied frow want then
            (JDict [(''state'', JStr ''SATISFIED''), (''key'', JStr key),
               (''value'', opt_str (Option.bind frow f_value))], db)
          else
            let observed = (case frow of None \<Rightarrow> - 1 | Some f \<Rightarrow> f_epoch f); deadline = now + limit;
                (wid, db) = add_flag_waiter now agent key want observed deadline db
            in (JDict [(''state'', JStr ''WAITING''), (''waiter_id'', JStr wid), (''key'', JStr key),
                  (''want'', opt_str want), (''deadline'', JFloat (Fin deadline))], db))"

section \<open>Rows after an update\<close>

lemma get_flag_row_upsert:
  "get_flag_row k (upsert_flag now row db) =
     (if k = f_key row then Some (row\<lparr>f_set_at := now\<rparr>) else get_flag_row k db)"
proof (cases "k = f_key row")
  case True
  then show ?thesis
    using fetchone_upsert_same [of "\<lambda>f. f_key f = k" "row\<lparr>f_set_at := now\<rparr>" "\<lambda>_. row\<lparr>f_set_at := now\<rparr>" "flags db"]
    by (auto simp: get_flag_row_def upsert_flag_def Let_def split: option.splits)
next
  case False
  then show ?thesis
    using fetchone_upsert_other [of "\<lambda>f. f_key f = k" "row\<lparr>f_set_at := now\<rparr>" "\<lambda>f. f_key f = f_key row"
        "\<lambda>_. row\<lparr>f_set_at := now\<rparr>" "flags db"]
    by (auto simp: get_flag_row_def upsert_flag_def Let_def)
qed

lemma get_flag_row_status:
  "get_flag_row k (set_flag_status key st ep val own l db) =
     (if k = key then map_option (\<lambda>f. f\<lparr>f_status := st, f_epoch := ep, f_value := assign val (f_value f),
         f_owner_agent := assign own (f_owner_agent f), f_lease_id := assign l (f_lease_id f)\<rparr>) (get_flag_row k db)
      else get_flag_row k db)"
  by (auto simp: get_flag_row_def set_flag_status_def
      intro!: fetchone_update_same fetchone_update_other)

lemma get_flag_row_key: "get_flag_row k db = Some f \<Longrightarrow> f_key f = k"
  by (auto simp: get_flag_row_def dest: fetchone_filter_Some)

lemma flag_waiters_frame [simp]:
  "flag_waiters (upsert_flag now row db) = flag_waiters db"
  "flag_waiters (set_flag_status key st ep val own l db) = flag_waiters db"
  "flag_waiters (upsert_agent aid nm st now db) = flag_waiters db"
  "flag_waiters (set_orbit oid u db) = flag_waiters db"
  by (simp_all add: upsert_flag_def set_flag_status_def upsert_agent_def set_orbit_def Let_def)

lemma get_flag_row_frame [simp]:
  "get_flag_row k (upsert_agent aid nm st now db) = get_flag_row k db"
  "get_flag_row k (set_orbit oid u db) = get_flag_row k db"
  "get_flag_row k (set_flag_waiter wid st' wk db) = get_flag_row k db"
  by (simp_all add: get_flag_row_def upsert_agent_def set_orbit_def set_flag_waiter_def)

lemma ephemeral_lease_frame [simp]:
  "ephemeral_lease g now key aid ttl db = (l, db') \<Longrightarrow> flag_waiters db' = flag_waiters db"
  "ephemeral_lease g now key aid ttl db = (l, db') \<Longrightarrow> flags db' = flags db"
  by (auto simp: ephemeral_lease_def add_orbit_def next_fence_def fresh_uuid_def Let_def)

section \<open>Waiters\<close>

definition waiter_idle :: "flag option \<Rightarrow> flag_waiter \<Rightarrow> bool" where
  "waiter_idle frow w \<longleftrightarrow> \<not> flag_broken frow \<and> \<not> flag_satisfied frow (fw_want_value w)"

text \<open>No waiter sleeps on a flag that satisfies it or whose producer is gone.\<close>

definition waiters_ok :: "db \<Rightarrow> bool" where
  "waiters_ok db \<longleftrightarrow> (\<forall>w\<in>set (flag_waiters db). fw_state w = ''WAITING'' \<longrightarrow>
     waiter_idle (get_flag_row (fw_key w) db) w)"

lemma set_flag_waiter_rows:
  assumes "w \<in> set (flag_waiters (set_flag_waiter wid st wk db))" and "fw_state w \<noteq> st"
  shows "w \<in> set (flag_waiters db) \<and> fw_waiter_id w \<noteq> wid"
  using assms by (auto simp: set_flag_waiter_def set_update_where)

lemma wake_one:
  assumes "w \<in> set (flag_waiters (wake_flag_waiter frow v db))" and "fw_state w = ''WAITING''"
  shows "w \<in> set (flag_waiters db) \<and> (w = v \<longrightarrow> waiter_idle frow w)"
proof -
  consider "flag_broken frow" | "\<not> flag_broken frow" "flag_satisfied frow (fw_want_value v)"
    | "\<not> flag_broken frow" "\<not> flag_satisfied frow (fw_want_value v)" by blast
  then show ?thesis
  proof cases
    case 1
    then show ?thesis
      using set_flag_waiter_rows [of w "fw_waiter_id v" "''BROKEN''"] assms
      by (auto simp: wake_flag_waiter_def)
  next
    case 2
    then show ?thesis
      using set_flag_waiter_rows [of w "fw_waiter_id v" "''SATISFIED''"] assms
      by (auto simp: wake_flag_waiter_def)
  next
    case 3
    then show ?thesis using assms by (auto simp: wake_flag_waiter_def waiter_idle_def)
  qed
qed

lemma wake_fold:
  assumes "w \<in> set (flag_waiters (fold (wake_flag_waiter frow) ws db))" and "fw_state w = ''WAITING''"
  shows "w \<in> set (flag_waiters db) \<and> (w \<in> set ws \<longrightarrow> waiter_idle frow w)"
  using assms(1)
proof (induction ws arbitrary: db)
  case (Cons v ws)
  then have IH: "w \<in> set (flag_waiters (wake_flag_waiter frow v db))" "w \<in> set ws \<longrightarrow> waiter_idle frow w"
    by auto
  from wake_one [OF IH(1) assms(2)] IH(2) show ?case by auto
qed simp

lemma get_flag_row_wake [simp]: "get_flag_row k (fold (wake_flag_waiter frow) ws db) = get_flag_row k db"
  by (induction ws arbitrary: db) (auto simp: wake_flag_waiter_def)

lemma get_flag_row_wake_flag_waiters [simp]: "get_flag_row k (wake_flag_waiters key db) = get_flag_row k db"
  by (simp add: wake_flag_waiters_def)

text \<open>Waking a key restores the invariant after any change of that key's flag.\<close>

lemma waiters_ok_wake:
  assumes "waiters_ok db0" and "flag_waiters db = flag_waiters db0"
    and "\<And>k. k \<noteq> key \<Longrightarrow> get_flag_row k db = get_flag_row k db0"
  shows "waiters_ok (wake_flag_waiters key db)"
  unfolding waiters_ok_def
proof (intro ballI impI)
  fix w assume w: "w \<in> set (flag_waiters (wake_flag_waiters key db))" "fw_state w = ''WAITING''"
  then have old: "w \<in> set (flag_waiters db)"
    and woken: "w \<in> set (waiters_for_key key ''WAITING'' db) \<longrightarrow> waiter_idle (get_flag_row key db) w"
    using wake_fold [of w "get_flag_row key db" _ db] by (auto simp: wake_flag_waiters_def)
  show "waiter_idle (get_flag_row (fw_key w) (wake_flag_waiters key db)) w"
  proof (cases "fw_key w = key")
    case True
    then show ?thesis using woken old w(2) by (simp add: waiters_for_key_def)
  next
    case False
    then show ?thesis using assms old w(2) by (simp add: waiters_ok_def)
  qed
qed

lemma waiters_ok_latch:
  assumes "waiters_ok db" and "flag_set_latch now key val aid (get_flag_row key db) db = (r, db')"
  shows "waiters_ok db'"
  using assms
  by (auto simp: flag_set_latch_def Let_def get_flag_row_upsert intro!: waiters_ok_wake [OF assms(1)]
      split: option.splits if_splits)

text \<open>An EPHEMERAL set only registers the agent, or ends with the new row on a state whose flags are
  those of the start.\<close>

lemma ephemeral_cases:
  assumes "flag_set_ephemeral g now key val agent frow ttl db = (r, db')"
  obtains (refused) "db' = db \<or> (\<exists>aid. db' = upsert_agent aid None ''WORKING'' now db)"
  | (placed) d row where "flags d = flags db" "flag_waiters d = flag_waiters db" "f_key row = key"
      "f_type row = ''EPHEMERAL''" "f_status row = ''LIVE''"
      "\<forall>f. frow = Some f \<longrightarrow> f_type f \<noteq> ''LATCH''" "db' = wake_flag_waiters key (upsert_flag now row d)"
proof (cases agent)
  case None
  with assms show ?thesis by (intro refused) (simp add: flag_set_ephemeral_def)
next
  case (Some aid)
  define d0 where "d0 = upsert_agent aid None ''WORKING'' now db"
  define live where "live = (case frow of None \<Rightarrow> None | Some f \<Rightarrow> if f_status f = ''LIVE'' then Some f else None)"
  define ld where "ld = (case Option.bind live f_lease_id of
      None \<Rightarrow> ephemeral_lease g now key aid ttl d0
    | Some l \<Rightarrow> (l, case ttl of None \<Rightarrow> d0
        | Some t \<Rightarrow> set_orbit l (no_set\<lparr>u_expires_at := Some (Some (now + t))\<rparr>) d0))"
  note eq = assms [unfolded flag_set_ephemeral_def Some option.case Let_def, folded d0_def,
      folded live_def, folded ld_def]
  let ?row = "\<lparr>f_key = key, f_value = val, f_set_by = Some aid, f_set_at = now, f_type = ''EPHEMERAL'',
      f_epoch = (case frow of None \<Rightarrow> 0 | Some f \<Rightarrow> f_epoch f + 1), f_rank = 0, f_status = ''LIVE'',
      f_owner_agent = Some aid, f_lease_id = Some (fst ld)\<rparr>"
  have "db' = d0 \<or> (\<forall>f. frow = Some f \<longrightarrow> f_type f \<noteq> ''LATCH'') \<and>
      db' = wake_flag_waiters key (upsert_flag now ?row (snd ld))"
    using eq by (simp split: if_splits prod.splits option.splits)
  then show ?thesis
  proof
    assume "db' = d0"
    then show ?thesis by (intro refused) (auto simp: d0_def)
  next
    assume 2: "(\<forall>f. frow = Some f \<longrightarrow> f_type f \<noteq> ''LATCH'') \<and>
      db' = wake_flag_waiters key (upsert_flag now ?row (snd ld))"
    have d0: "flags d0 = flags db" "flag_waiters d0 = flag_waiters db"
      by (simp_all add: d0_def upsert_agent_def)
    have ld: "flags (snd ld) = flags db \<and> flag_waiters (snd ld) = flag_waiters db"
    proof (cases "Option.bind live f_lease_id")
      case None
      then have "ephemeral_lease g now key aid ttl d0 = (fst ld, snd ld)" by (simp add: ld_def)
      from ephemeral_lease_frame [OF this] d0 show ?thesis by simp
    next
      case (Some l)
      then show ?thesis using d0 by (cases ttl) (simp_all add: ld_def set_orbit_def)
    qed
    show ?thesis
      by (rule placed [of "snd ld" ?row]) (use 2 ld in simp_all)
  qed
qed

lemma get_flag_row_cong: "flags d = flags e \<Longrightarrow> get_flag_row k d = get_flag_row k e"
  by (simp add: get_flag_row_def)

lemma waiters_ok_ephemeral:
  assumes "waiters_ok db" and "flag_set_ephemeral g now key val agent frow ttl db = (r, db')"
  shows "waiters_ok db'"
  using assms(2)
proof (cases rule: ephemeral_cases)
  case refused
  then show ?thesis using assms(1) by (auto simp: waiters_ok_def)
next
  case (placed d row)
  show ?thesis
    unfolding placed(7)
  proof (rule waiters_ok_wake [OF assms(1)])
    fix k assume "k \<noteq> key"
    then show "get_flag_row k (upsert_flag now row d) = get_flag_row k db"
      using get_flag_row_cong [OF placed(1)] by (simp add: get_flag_row_upsert placed(3))
  qed (simp add: placed(2))
qed

lemma waiters_ok_status:
  assumes "waiters_ok db"
  shows "waiters_ok (wake_flag_waiters key (set_flag_status key st ep None None None db))"
  by (rule waiters_ok_wake [OF assms]) (simp_all add: get_flag_row_status)

lemma waiters_ok_break:
  assumes "waiters_ok db"
  shows "waiters_ok (break_ephemeral_flags_for_lease lease db)"
proof -
  have "waiters_ok (fold (\<lambda>f db. wake_flag_waiters (f_key f)
      (set_flag_status (f_key f) ''BROKEN'' (f_epoch f + 1) None None None db)) fs d)"
    if "waiters_ok d" for fs d
    using that by (induction fs arbitrary: d) (simp_all add: waiters_ok_status)
  with assms show ?thesis by (simp add: break_ephemeral_flags_for_lease_def)
qed

lemma waiters_ok_wait:
  assumes "waiters_ok db" and "flag_wait now key want timeout agent db = (r, db')"
  shows "waiters_ok db'"
proof -
  have row: "get_flag_row k (snd (add_flag_waiter now agent key want ob dl db)) = get_flag_row k db" for k ob dl
    by (simp add: get_flag_row_def add_flag_waiter_def fresh_uuid_def Let_def)
  have ws: "w \<in> set (flag_waiters (snd (add_flag_waiter now agent key want ob dl db))) \<Longrightarrow>
      w \<in> set (flag_waiters db) \<or> fw_key w = key \<and> fw_want_value w = want" for w ob dl
    by (auto simp: add_flag_waiter_def fresh_uuid_def Let_def)
  let ?frow = "get_flag_row key db"
  consider "timeout = None \<or> flag_broken ?frow \<or> flag_satisfied ?frow want"
    | limit where "timeout = Some limit" "\<not> flag_broken ?frow" "\<not> flag_satisfied ?frow want"
    by (cases timeout) auto
  then show ?thesis
  proof cases
    case 1
    then have "db' = db"
      using assms(2) by (cases timeout) (auto simp: flag_wait_def Let_def split: if_splits prod.splits)
    then show ?thesis using assms(1) by simp
  next
    case (2 limit)
    let ?d = "snd (add_flag_waiter now agent key want
        (case ?frow of None \<Rightarrow> - 1 | Some f \<Rightarrow> f_epoch f) (now + limit) db)"
    have db': "db' = ?d"
      using assms(2) 2 by (simp add: flag_wait_def Let_def split: prod.splits)
    have "waiter_idle (get_flag_row (fw_key w) db) w"
      if "w \<in> set (flag_waiters ?d)" "fw_state w = ''WAITING''" for w
      using ws [OF that(1)] that(2) 2 assms(1) unfolding waiters_ok_def waiter_idle_def by metis
    then show ?thesis using row by (simp add: waiters_ok_def db')
  qed
qed

lemma waiters_ok_clear_body:
  assumes "waiters_ok db" and "flag_clear_body g now key agent epoch db = Inr (sl, db')"
  shows "waiters_ok db'"
proof -
  have free: "waiters_ok (set_orbit l u db)" for l u
    using assms(1) by (simp add: waiters_ok_def)
  have woken: "waiters_ok (wake_flag_waiters key (set_flag_status key st ep None None None d))"
    if "d = db \<or> (\<exists>l u. d = set_orbit l u db)" for d st ep
    using that assms(1) free by (auto intro!: waiters_ok_status)
  have lease: "d = db \<or> (\<exists>l u. d = set_orbit l u db)"
    if "flag_clear_lease g now l db = Inr d" for l d
    using that by (auto simp: flag_clear_lease_def bind_res_Inr_iff split: option.splits if_splits)
  show ?thesis
  proof (cases "check_alive agent epoch db \<noteq> None \<or> get_flag_row key db = None")
    case True
    then have "db' = db"
      using assms(2) by (cases "check_alive agent epoch db") (auto simp: flag_clear_body_def)
    then show ?thesis using assms(1) by simp
  next
    case False
    then obtain f where f: "check_alive agent epoch db = None" "get_flag_row key db = Some f" by auto
    show ?thesis
    proof (cases "f_type f \<noteq> ''EPHEMERAL'' \<or> f_status f \<noteq> ''LIVE'' \<or>
        (agent \<noteq> None \<and> f_owner_agent f \<noteq> agent \<and> f_owner_agent f \<noteq> None)")
      case True
      then have "db' = db" using assms(2) f by (auto simp: flag_clear_body_def split: if_splits)
      then show ?thesis using assms(1) by simp
    next
      case False
      have "bind_res (flag_clear_lease g now (f_lease_id f) db) (\<lambda>db.
          let db = set_flag_status key ''CLEARED'' (f_epoch f + 1) None None None db in
          Inr (slot_set (JDict [(''ok'', JBool True), (''key'', JStr key), (''status'', JStr ''CLEARED'')]),
            wake_flag_waiters key db)) = Inr (sl, db')"
        using assms(2) f False unfolding flag_clear_body_def by (simp only: option.case if_False de_Morgan_disj not_not simp_thms)
      then obtain d where d: "flag_clear_lease g now (f_lease_id f) db = Inr d"
        "db' = wake_flag_waiters key (set_flag_status key ''CLEARED'' (f_epoch f + 1) None None None d)"
        unfolding bind_res_Inr_iff Let_def by blast
      show ?thesis unfolding d(2) by (rule woken) (rule lease [OF d(1)])
    qed
  qed
qed

lemma waiters_ok_set_body:
  assumes "waiters_ok db" and "flag_set_body g now key val agent ftype ttl epoch db = Inr (sl, db')"
  shows "waiters_ok db'"
proof (cases "check_alive agent epoch db")
  case None
  let ?frow = "get_flag_row key db"
  let ?e = "flag_set_ephemeral g now key val agent ?frow ttl db"
  let ?l = "flag_set_latch now key val agent ?frow db"
  have "db' = (if ftype = ''EPHEMERAL'' then snd ?e else snd ?l)"
    using assms(2) None by (simp add: flag_set_body_def Let_def split: if_splits prod.splits)
  then show ?thesis
    using waiters_ok_ephemeral [OF assms(1), of g now key val agent ?frow ttl "fst ?e" "snd ?e"]
      waiters_ok_latch [OF assms(1), of now key val agent "fst ?l" "snd ?l"] by simp
qed (use assms in \<open>simp add: flag_set_body_def\<close>)

section \<open>Runs of the flag verbs\<close>

inductive flag_step :: "config \<Rightarrow> db \<Rightarrow> db \<Rightarrow> bool" for g where
  set: "flag_set g now key val agent ftype ttl request epoch db = Inr (r, db') \<Longrightarrow> flag_step g db db'"
| clear: "flag_clear g now key agent request epoch db = Inr (r, db') \<Longrightarrow> flag_step g db db'"
| wait: "flag_wait now key want timeout agent db = (r, db') \<Longrightarrow> flag_step g db db'"
| lease_lost: "flag_step g db (break_ephemeral_flags_for_lease lease db)"

lemma waiters_ok_step: "flag_step g db db' \<Longrightarrow> waiters_ok db \<Longrightarrow> waiters_ok db'"
proof (induction rule: flag_step.induct)
  case (set now key val agent ftype ttl request epoch db r db')
  show ?case
    using set(1) unfolding flag_set_def Let_def
    by (rule with_idem_preserves [where P = waiters_ok])
      (use set(2) waiters_ok_set_body in \<open>auto simp: waiters_ok_def get_flag_row_def\<close>)
next
  case (clear now key agent request epoch db r db')
  show ?case
    using clear(1) unfolding flag_clear_def
    by (rule with_idem_preserves [where P = waiters_ok])
      (use clear(2) waiters_ok_clear_body in \<open>auto simp: waiters_ok_def get_flag_row_def\<close>)
next
  case (wait now key want timeout agent db r db')
  then show ?case using waiters_ok_wait by blast
next
  case (lease_lost db lease)
  then show ?case by (rule waiters_ok_break)
qed

text \<open>A recorded LATCH fact: the rank column reached that of the fact.\<close>

definition latched :: "string \<Rightarrow> string \<Rightarrow> db \<Rightarrow> bool" where
  "latched key want db \<longleftrightarrow> (case get_flag_row key db of None \<Rightarrow> False
     | Some f \<Rightarrow> f_type f = ''LATCH'' \<and> f_status f = ''LIVE'' \<and> latch_rank want \<le> f_rank f)"

lemma latched_wake [simp]: "latched key want (wake_flag_waiters k db) = latched key want db"
  by (simp add: latched_def)

lemma latched_latch:
  assumes "latched key want db" and "flag_set_latch now k val aid (get_flag_row k db) db = (r, db')"
  shows "latched key want db'"
proof -
  let ?frow = "get_flag_row k db"
  have row: "latched key want (upsert_flag now row db)"
    if "f_key row = k" "f_type row = ''LATCH''" "f_status row = ''LIVE''"
      "\<forall>f. ?frow = Some f \<longrightarrow> f_rank f \<le> f_rank row" for row
    using that assms(1) by (auto simp: latched_def get_flag_row_upsert split: option.splits)
  show ?thesis
    using assms by (auto simp: flag_set_latch_def Let_def intro!: row split: option.splits if_splits)
qed

lemma latched_status:
  assumes "latched key want db" and "k \<noteq> key"
  shows "latched key want (set_flag_status k st ep None None None db)"
  using assms by (simp add: latched_def get_flag_row_status)

lemma latched_break:
  assumes "latched key want db" and "distinct (map f_key (flags db))"
  shows "latched key want (break_ephemeral_flags_for_lease lease db)"
proof -
  have other: "f_key f \<noteq> key" if "f \<in> set (ephemeral_flags_for_lease lease db)" for f
  proof
    assume k: "f_key f = key"
    from that have f: "f \<in> set (flags db)" "f_type f = ''EPHEMERAL''"
      by (auto simp: ephemeral_flags_for_lease_def)
    then have "filter (\<lambda>x. f_key x = key) (flags db) = [f]"
      using assms(2) k by (intro distinct_key_filter [of f_key]) auto
    then show False using assms(1) f(2) by (simp add: latched_def get_flag_row_def)
  qed
  have steps: "latched key want (fold (\<lambda>f db. wake_flag_waiters (f_key f)
      (set_flag_status (f_key f) ''BROKEN'' (f_epoch f + 1) None None None db)) fs d)"
    if "latched key want d" "\<forall>f\<in>set fs. f_key f \<noteq> key" for fs d
    using that by (induction fs arbitrary: d) (simp_all add: latched_status)
  show ?thesis
    unfolding break_ephemeral_flags_for_lease_def by (rule steps [OF assms(1)]) (use other in blast)
qed

definition flag_keys :: "db \<Rightarrow> bool" where
  "flag_keys db \<longleftrightarrow> distinct (map f_key (flags db))"

lemma flag_keys_upsert [simp]: "flag_keys db \<Longrightarrow> flag_keys (upsert_flag now row db)"
  unfolding flag_keys_def upsert_flag_def Let_def by (simp add: distinct_upsert)

lemma flag_keys_status [simp]: "flag_keys (set_flag_status k st ep val own l db) = flag_keys db"
  by (simp add: flag_keys_def set_flag_status_def map_update_where)

lemma wake_flags [simp]: "flags (wake_flag_waiters k db) = flags db"
proof -
  have "flags (fold (wake_flag_waiter frow) ws d) = flags d" for frow ws d
    by (induction ws arbitrary: d) (auto simp: wake_flag_waiter_def set_flag_waiter_def)
  then show ?thesis by (simp add: wake_flag_waiters_def)
qed

lemma flag_keys_wake [simp]: "flag_keys (wake_flag_waiters k db) = flag_keys db"
  by (simp add: flag_keys_def)

text \<open>Facts stay recorded.\<close>

definition latch_inv :: "string \<Rightarrow> string \<Rightarrow> db \<Rightarrow> bool" where
  "latch_inv key want db \<longleftrightarrow> latched key want db \<and> flag_keys db"

lemma latch_inv_break:
  "latch_inv key want db \<Longrightarrow> latch_inv key want (break_ephemeral_flags_for_lease lease db)"
proof -
  assume inv: "latch_inv key want db"
  have "flag_keys (break_ephemeral_flags_for_lease lease db)"
    unfolding break_ephemeral_flags_for_lease_def
    by (rule fold_keeps) (use inv in \<open>simp_all add: latch_inv_def\<close>)
  then show ?thesis
    using inv latched_break [of key want db lease] by (simp add: latch_inv_def flag_keys_def)
qed

lemma latch_inv_set_body:
  assumes "latch_inv key want db"
    and "flag_set_body g now k val agent ftype ttl epoch db = Inr (sl, db')"
  shows "latch_inv key want db'"
proof (cases "check_alive agent epoch db")
  case None
  let ?frow = "get_flag_row k db"
  let ?e = "flag_set_ephemeral g now k val agent ?frow ttl db"
  let ?l = "flag_set_latch now k val agent ?frow db"
  have db': "db' = (if ftype = ''EPHEMERAL'' then snd ?e else snd ?l)"
    using assms(2) None by (simp add: flag_set_body_def Let_def split: if_splits prod.splits)
  have l: "latched key want (snd ?l)"
    using latched_latch [of key want db now k val agent "fst ?l" "snd ?l"] assms(1) by (simp add: latch_inv_def)
  have lk: "flag_keys (snd ?l)"
    using assms(1) by (auto simp: flag_set_latch_def Let_def latch_inv_def split: option.splits)
  have e: "latch_inv key want (snd ?e)"
  proof (rule ephemeral_cases [of g now k val agent ?frow ttl db "fst ?e" "snd ?e"])
    show "?e = (fst ?e, snd ?e)" by simp
  next
    assume refused: "snd ?e = db \<or> (\<exists>aid. snd ?e = upsert_agent aid None ''WORKING'' now db)"
    then show ?thesis
      using assms(1) by (auto simp: latch_inv_def latched_def flag_keys_def upsert_agent_def get_flag_row_def)
  next
    fix d row
    assume placed: "flags d = flags db" "flag_waiters d = flag_waiters db" "f_key row = k"
      "f_type row = ''EPHEMERAL''" "f_status row = ''LIVE''"
      "\<forall>f. ?frow = Some f \<longrightarrow> f_type f \<noteq> ''LATCH''" "snd ?e = wake_flag_waiters k (upsert_flag now row d)"
    have "k \<noteq> key \<or> \<not> latched key want db"
      using placed(6) by (auto simp: latched_def split: option.splits)
    then have "k \<noteq> key" using assms(1) by (simp add: latch_inv_def)
    then show ?thesis
      using assms(1) get_flag_row_cong [OF placed(1)] placed(1,3)
      by (simp add: latch_inv_def placed(7) latched_def get_flag_row_upsert)
        (simp add: flag_keys_def placed(1) upsert_flag_def Let_def distinct_upsert)
  qed
  show ?thesis using db' l lk e by (simp add: latch_inv_def)
qed (use assms in \<open>simp add: flag_set_body_def\<close>)

lemma flag_clear_body_cases:
  assumes "flag_clear_body g now k agent epoch db = Inr (sl, db')"
  shows "db' = db \<or> (\<exists>f d. get_flag_row k db = Some f \<and> f_type f = ''EPHEMERAL'' \<and>
    (d = db \<or> (\<exists>l u. d = set_orbit l u db)) \<and>
    db' = wake_flag_waiters k (set_flag_status k ''CLEARED'' (f_epoch f + 1) None None None d))"
proof (cases "check_alive agent epoch db \<noteq> None \<or> get_flag_row k db = None")
  case True
  then show ?thesis
    using assms by (cases "check_alive agent epoch db") (auto simp: flag_clear_body_def)
next
  case False
  then obtain f where f: "check_alive agent epoch db = None" "get_flag_row k db = Some f" by auto
  show ?thesis
  proof (cases "f_type f \<noteq> ''EPHEMERAL'' \<or> f_status f \<noteq> ''LIVE'' \<or>
      (agent \<noteq> None \<and> f_owner_agent f \<noteq> agent \<and> f_owner_agent f \<noteq> None)")
    case True
    then show ?thesis using assms f by (auto simp: flag_clear_body_def split: if_splits)
  next
    case False
    have "bind_res (flag_clear_lease g now (f_lease_id f) db) (\<lambda>db.
        let db = set_flag_status k ''CLEARED'' (f_epoch f + 1) None None None db in
        Inr (slot_set (JDict [(''ok'', JBool True), (''key'', JStr k), (''status'', JStr ''CLEARED'')]),
          wake_flag_waiters k db)) = Inr (sl, db')"
      using assms f False unfolding flag_clear_body_def
      by (simp only: option.case if_False de_Morgan_disj not_not simp_thms)
    then obtain d where d: "flag_clear_lease g now (f_lease_id f) db = Inr d"
      "db' = wake_flag_waiters k (set_flag_status k ''CLEARED'' (f_epoch f + 1) None None None d)"
      unfolding bind_res_Inr_iff Let_def by blast
    have "d = db \<or> (\<exists>l u. d = set_orbit l u db)"
      using d(1) by (auto simp: flag_clear_lease_def bind_res_Inr_iff split: option.splits if_splits)
    then show ?thesis using d(2) f(2) False by blast
  qed
qed

lemma latch_inv_clear_body:
  assumes "latch_inv key want db" and "flag_clear_body g now k agent epoch db = Inr (sl, db')"
  shows "latch_inv key want db'"
  using flag_clear_body_cases [OF assms(2)]
proof
  assume "\<exists>f d. get_flag_row k db = Some f \<and> f_type f = ''EPHEMERAL'' \<and>
    (d = db \<or> (\<exists>l u. d = set_orbit l u db)) \<and>
    db' = wake_flag_waiters k (set_flag_status k ''CLEARED'' (f_epoch f + 1) None None None d)"
  then obtain f d where f: "get_flag_row k db = Some f" "f_type f = ''EPHEMERAL''"
    and l: "d = db \<or> (\<exists>l u. d = set_orbit l u db)"
    and db': "db' = wake_flag_waiters k (set_flag_status k ''CLEARED'' (f_epoch f + 1) None None None d)"
    by blast
  from l have d: "flags d = flags db" by (auto simp: set_orbit_def)
  have "k \<noteq> key" using f assms(1) by (auto simp: latch_inv_def latched_def)
  moreover have "latch_inv key want d"
    using assms(1) d by (simp add: latch_inv_def latched_def flag_keys_def get_flag_row_def)
  ultimately show ?thesis by (simp add: db' latch_inv_def latched_status)
qed (use assms(1) in simp)

lemma latch_inv_cong:
  "flags d = flags e \<Longrightarrow> latch_inv key want d = latch_inv key want e"
  by (simp add: latch_inv_def latched_def flag_keys_def get_flag_row_def)

lemma latch_inv_idem [simp]: "latch_inv key want (d\<lparr>idempotency := xs\<rparr>) = latch_inv key want d"
  by (simp add: latch_inv_def latched_def flag_keys_def get_flag_row_def)

lemma latch_inv_step: "flag_step g db db' \<Longrightarrow> latch_inv key want db \<Longrightarrow> latch_inv key want db'"
proof (induction rule: flag_step.induct)
  case (set now k val agent ftype ttl request epoch db r db')
  show ?case
    using set(1) unfolding flag_set_def Let_def
    by (rule with_idem_preserves [where P = "latch_inv key want"])
      (use set(2) latch_inv_set_body in auto)
next
  case (clear now k agent request epoch db r db')
  show ?case
    using clear(1) unfolding flag_clear_def
    by (rule with_idem_preserves [where P = "latch_inv key want"])
      (use clear(2) latch_inv_clear_body in auto)
next
  case (wait now k wnt timeout agent db r db')
  have "flags db' = flags db"
    using wait(1) by (auto simp: flag_wait_def add_flag_waiter_def fresh_uuid_def Let_def
        split: option.splits if_splits)
  from latch_inv_cong [OF this] wait(2) show ?case by blast
next
  case (lease_lost db lease)
  then show ?case by (rule latch_inv_break)
qed

lemma flag_run_keeps:
  assumes "(flag_step g)\<^sup>*\<^sup>* db db'" and "P db" and "\<And>d d'. flag_step g d d' \<Longrightarrow> P d \<Longrightarrow> P d'"
  shows "P db'"
  using assms(1,2) by (induction rule: rtranclp_induct) (auto intro: assms(3))

section \<open>Properties\<close>


text \<open>A latched fact is final: once a LATCH flag has recorded the rank of \<open>done\<close> or \<open>merged\<close>, that
  wish stays satisfied through every sequence of flag verbs and lost leases; the fact can neither
  be cleared, nor broken, nor taken over by an EPHEMERAL flag, nor downgraded.\<close>

theorem latched_fact_is_final:
  assumes "(flag_step g)\<^sup>*\<^sup>* db db'" and "flag_keys db" and "0 < latch_rank want"
    and "get_flag_row key db = Some f" and "f_type f = ''LATCH''" and "f_status f = ''LIVE''"
    and "latch_rank want \<le> f_rank f"
  shows "flag_satisfied (get_flag_row key db') (Some want)"
proof -
  have "latched key want db" using assms(4-7) by (simp add: latched_def)
  then have "latch_inv key want db" using assms(2) by (simp add: latch_inv_def)
  then have "latch_inv key want db'"
    by (rule flag_run_keeps [where P = "latch_inv key want", OF assms(1)]) (rule latch_inv_step)
  then have "latched key want db'" by (simp add: latch_inv_def)
  then show ?thesis
    using assms(3) unfolding latched_def flag_satisfied_def rank_of_def by (simp split: option.splits)
qed

text \<open>The facts the coordinator itself records are not ranked: \<open>finish\<close> and \<open>connect\<close> write
  \<open>done\<close> and \<open>merged\<close> with \<open>Store.set_flag\<close>, which leaves the rank at 0. After the merge a wish for
  \<open>done\<close>, satisfied before, is no longer satisfied (the code's comment: \<open>merged\<close> implies \<open>done\<close>),
  and a later \<open>flag_set(done)\<close> is accepted as if nothing had merged.\<close>

theorem recorded_merge_unsatisfies_done:
  fixes key :: string
  assumes "get_flag_row key db = None"
  shows "flag_satisfied (get_flag_row key (set_flag t1 key (Some ''done'') by1 db)) (Some ''done'') \<and>
    \<not> flag_satisfied (get_flag_row key (set_flag t2 key (Some ''merged'') by2
        (set_flag t1 key (Some ''done'') by1 db))) (Some ''done'') \<and>
    (\<exists>r db'. flag_set_latch t3 key (Some ''done'') aid
        (get_flag_row key (set_flag t2 key (Some ''merged'') by2 (set_flag t1 key (Some ''done'') by1 db)))
        (set_flag t2 key (Some ''merged'') by2 (set_flag t1 key (Some ''done'') by1 db)) = (r, db') \<and>
      is_success r \<and> get_flag key db' = Some ''done'')"
proof -
  have row: "get_flag_row key (set_flag now key v who d) =
      (case get_flag_row key d of
         None \<Rightarrow> Some \<lparr>f_key = key, f_value = v, f_set_by = who, f_set_at = now, f_type = ''LATCH'',
           f_epoch = 0, f_rank = 0, f_status = ''LIVE'', f_owner_agent = None, f_lease_id = None\<rparr>
       | Some f \<Rightarrow> Some (f\<lparr>f_value := v, f_set_by := who, f_set_at := now\<rparr>))" for now v who d
    unfolding get_flag_row_def set_flag_def by (simp add: fetchone_upsert_same)
  show ?thesis
    by (auto simp: row assms flag_satisfied_def rank_of_def latch_rank_def flag_set_latch_def Let_def
        get_flag_def get_flag_row_upsert)
qed

definition sample_waiting :: db where
  "sample_waiting = snd (flag_wait 1 ''build'' (Some ''ok'') (Some 10) (Some ''b'') empty_db)"

definition sample_latched :: db where
  "sample_latched = snd (flag_set_latch 1 ''t1'' (Some ''merged'') (Some ''a'') None empty_db)"


lemma latched_fact_is_final_witness:
  "flag_satisfied (get_flag_row ''t1'' (break_ephemeral_flags_for_lease ''l'' sample_latched)) (Some ''done'')"
proof (rule latched_fact_is_final [where g = sample_config])
  show "(flag_step sample_config)\<^sup>*\<^sup>* sample_latched (break_ephemeral_flags_for_lease ''l'' sample_latched)"
    by (rule r_into_rtranclp, rule flag_step.lease_lost)
  show "get_flag_row ''t1'' sample_latched = Some (hd (flags sample_latched))" by code_simp
  show "flag_keys sample_latched" by code_simp
  show "f_type (hd (flags sample_latched)) = ''LATCH''" by code_simp
  show "f_status (hd (flags sample_latched)) = ''LIVE''" by code_simp
  show "latch_rank ''done'' \<le> f_rank (hd (flags sample_latched))" by code_simp
qed (simp add: latch_rank_def)

lemma recorded_merge_unsatisfies_done_witness:
  "\<not> flag_satisfied (get_flag_row ''t1'' (set_flag 2 ''t1'' (Some ''merged'') None
      (set_flag 1 ''t1'' (Some ''done'') (Some ''a'') empty_db))) (Some ''done'')"
  using recorded_merge_unsatisfies_done [of "''t1''" empty_db 1 "Some ''a''" 2 None 3 None]
  by (simp add: get_flag_row_def empty_db_def)

end
