(* ===== verification/Gc.thy ===== *)
theory Gc
  imports Store "HOL-Library.Multiset"
begin

text \<open>
  The terminal collection \<open>Store.gc_terminal\<close> of \<open>omd_server/store.py\<close>: the terminal-entry stamps are
  maintained, then the old terminal rows of \<open>tasks\<close> and \<open>orbits\<close> move to the archive tables, unless a
  live task refers to them.
\<close>

definition terminal_task :: "task \<Rightarrow> bool" where
  "terminal_task t \<longleftrightarrow> t_state t = ''MERGED'' \<or> t_state t = ''ABORTED'' \<or> t_state t = ''POISONED''"

definition orbit_terminal :: "orbit \<Rightarrow> bool" where
  "orbit_terminal o' \<longleftrightarrow> o_state o' = ''RELEASED'' \<or> o_state o' = ''EXPIRED'' \<or> o_state o' = ''DENIED''"

text \<open>Steps 0 and 1: the stamp of a row that left the terminal states is removed, a row seen there for
  the first time is stamped.\<close>

definition stamp_task :: "rat \<Rightarrow> task \<Rightarrow> task" where
  "stamp_task now t =
     (if \<not> terminal_task t then t\<lparr>t_terminal_at := None\<rparr>
      else if t_terminal_at t = None then
        t\<lparr>t_terminal_at := Some (if t_state t = ''MERGED''
            then (case t_merged_at t of None \<Rightarrow> now | Some m \<Rightarrow> m) else now)\<rparr>
      else t)"

definition stamp_orbit :: "rat \<Rightarrow> orbit \<Rightarrow> orbit" where
  "stamp_orbit now o' =
     (if orbit_terminal o' \<and> o_terminal_at o' = None
      then o'\<lparr>o_terminal_at := Some (case o_released_at o' of None \<Rightarrow> now | Some r \<Rightarrow> r)\<rparr> else o')"

definition old_task :: "rat \<Rightarrow> db \<Rightarrow> task \<Rightarrow> bool" where
  "old_task cutoff db t \<longleftrightarrow> terminal_task t \<and> due (t_terminal_at t) cutoff \<and>
     list_all (\<lambda>live. terminal_task live \<or> t_task_id t \<notin> set (t_deps live)) (tasks db)"

definition old_orbit :: "rat \<Rightarrow> db \<Rightarrow> orbit \<Rightarrow> bool" where
  "old_orbit cutoff db o' \<longleftrightarrow> orbit_terminal o' \<and> due (o_terminal_at o') cutoff \<and>
     list_all (\<lambda>live. terminal_task live \<or>
       (o_task_id o' \<noteq> Some (t_task_id live) \<and> t_connect_token_id live \<noteq> Some (orbit_id o'))) (tasks db)"

definition stamp_terminal :: "rat \<Rightarrow> db \<Rightarrow> db" where
  "stamp_terminal now db =
     db\<lparr>tasks := map (stamp_task now) (tasks db), orbits := map (stamp_orbit now) (orbits db)\<rparr>"

definition archive_tasks :: "rat \<Rightarrow> rat \<Rightarrow> db \<Rightarrow> db" where
  "archive_tasks now cutoff db =
     db\<lparr>tasks_archive := tasks_archive db @ map (\<lambda>t. (t, now)) (filter (old_task cutoff db) (tasks db)),
        tasks := filter (\<lambda>t. \<not> old_task cutoff db t) (tasks db)\<rparr>"

definition archive_orbits :: "rat \<Rightarrow> rat \<Rightarrow> db \<Rightarrow> db" where
  "archive_orbits now cutoff db =
     db\<lparr>orbits_archive := orbits_archive db @ map (\<lambda>o'. (o', now)) (filter (old_orbit cutoff db) (orbits db)),
        orbits := filter (\<lambda>o'. \<not> old_orbit cutoff db o') (orbits db)\<rparr>"

definition gc_terminal :: "rat \<Rightarrow> rat \<Rightarrow> db \<Rightarrow> db" where
  "gc_terminal now retention db =
     archive_orbits now (now - retention) (archive_tasks now (now - retention) (stamp_terminal now db))"

section \<open>What the collection keeps\<close>

lemma stamp_task_simps [simp]:
  "t_task_id (stamp_task now t) = t_task_id t" "t_state (stamp_task now t) = t_state t"
  "t_deps (stamp_task now t) = t_deps t" "t_connect_token_id (stamp_task now t) = t_connect_token_id t"
  "terminal_task (stamp_task now t) = terminal_task t"
  by (simp_all add: stamp_task_def terminal_task_def)

lemma stamp_orbit_simps [simp]:
  "orbit_id (stamp_orbit now o') = orbit_id o'" "o_state (stamp_orbit now o') = o_state o'"
  "o_request_id (stamp_orbit now o') = o_request_id o'"
  "o_task_id (stamp_orbit now o') = o_task_id o'" "o_kind (stamp_orbit now o') = o_kind o'"
  "mode (stamp_orbit now o') = mode o'" "pathspec (stamp_orbit now o') = pathspec o'"
  "agent_id (stamp_orbit now o') = agent_id o'" "fence (stamp_orbit now o') = fence o'"
  "o_expires_at (stamp_orbit now o') = o_expires_at o'"
  "o_resource_key (stamp_orbit now o') = o_resource_key o'"
  "orbit_terminal (stamp_orbit now o') = orbit_terminal o'"
  by (simp_all add: stamp_orbit_def orbit_terminal_def)

lemma gc_tables:
  "tasks (gc_terminal now retention db) =
     filter (\<lambda>t. \<not> old_task (now - retention) (stamp_terminal now db) t) (map (stamp_task now) (tasks db))"
  "agents (gc_terminal now retention db) = agents db"
  "fence_counter (gc_terminal now retention db) = fence_counter db"
  by (simp_all add: gc_terminal_def archive_orbits_def archive_tasks_def stamp_terminal_def)

lemma gc_orbits:
  "orbits (gc_terminal now retention db) =
     filter (\<lambda>o'. \<not> old_orbit (now - retention) (archive_tasks now (now - retention) (stamp_terminal now db)) o')
       (map (stamp_orbit now) (orbits db))"
  by (simp add: gc_terminal_def archive_orbits_def archive_tasks_def stamp_terminal_def)


section \<open>What live tasks see\<close>

lemma live_stays:
  assumes "live \<in> set (tasks db)" and "\<not> terminal_task live"
  shows "stamp_task now live \<in> set (tasks (gc_terminal now ret db))"
  using assms by (auto simp: gc_tables old_task_def)

lemma live_dependency_stays:
  assumes "live \<in> set (tasks db)" and "\<not> terminal_task live" and "d \<in> set (t_deps live)"
  shows "map_option t_state (get_task d (gc_terminal now ret db)) = map_option t_state (get_task d db)"
proof -
  let ?p = "\<lambda>t. \<not> old_task (now - ret) (stamp_terminal now db) t"
  have keep: "?p (stamp_task now t)" if "t_task_id t = d" for t
    using assms that by (auto simp: old_task_def list_all_iff stamp_terminal_def intro!: bexI [of _ live])
  have "map_option t_state (fetchone (filter (\<lambda>t. t_task_id t = d) (filter ?p (map (stamp_task now) ts)))) =
      map_option t_state (fetchone (filter (\<lambda>t. t_task_id t = d) ts))" for ts
  proof (induction ts)
    case (Cons t ts)
    then show ?case using keep [of t] by (cases "t_task_id t = d") auto
  qed simp
  then show ?thesis by (simp add: get_task_def gc_tables)
qed

lemma referenced_orbit_stays:
  assumes "live \<in> set (tasks db)" and "\<not> terminal_task live" and "o' \<in> set (orbits db)"
    and "\<not> orbit_terminal o' \<or> o_task_id o' = Some (t_task_id live) \<or> t_connect_token_id live = Some (orbit_id o')"
  shows "stamp_orbit now o' \<in> set (orbits (gc_terminal now ret db))"
proof -
  let ?db = "archive_tasks now (now - ret) (stamp_terminal now db)"
  have "stamp_task now live \<in> set (tasks ?db)"
    using assms(1,2) by (auto simp: archive_tasks_def stamp_terminal_def old_task_def)
  then have "\<not> old_orbit (now - ret) ?db (stamp_orbit now o')"
    using assms(2,4) by (auto simp: old_orbit_def list_all_iff intro!: bexI [of _ "stamp_task now live"])
  then show ?thesis using assms(3) by (simp add: gc_orbits)
qed


lemma mset_partition: "mset (filter (\<lambda>x. \<not> p x) xs) + mset (filter p xs) = mset xs"
  by (metis add.commute mset_filter multiset_partition)

lemma gc_archives:
  "tasks_archive (gc_terminal now ret db) = tasks_archive db @ map (\<lambda>t. (t, now))
     (filter (old_task (now - ret) (stamp_terminal now db)) (map (stamp_task now) (tasks db)))"
  "orbits_archive (gc_terminal now ret db) = orbits_archive db @ map (\<lambda>o'. (o', now))
     (filter (old_orbit (now - ret) (archive_tasks now (now - ret) (stamp_terminal now db))) (map (stamp_orbit now) (orbits db)))"
  by (simp_all add: gc_terminal_def archive_orbits_def archive_tasks_def stamp_terminal_def)

text \<open>The collection moves rows and loses none: the live and the archived rows of a table together
  are the ones from before, each with its terminal stamp.\<close>

theorem collection_moves_rows:
  "mset (orbits (gc_terminal now ret db)) + mset (map fst (orbits_archive (gc_terminal now ret db))) =
     mset (map (stamp_orbit now) (orbits db)) + mset (map fst (orbits_archive db)) \<and>
   mset (tasks (gc_terminal now ret db)) + mset (map fst (tasks_archive (gc_terminal now ret db))) =
     mset (map (stamp_task now) (tasks db)) + mset (map fst (tasks_archive db))"
  unfolding gc_tables(1) gc_orbits gc_archives map_append mset_append map_map comp_def fst_conv list.map_ident
  by (simp add: mset_partition add.left_commute [of _ "mset (map fst _)"] del: mset_map mset_filter filter_map)

section \<open>Request generations\<close>

text \<open>The collection forgets request generations: once the rows of a request id are old enough to be
  collected, the next generation of that id is 0 again, although rows of it stay in the archive. A
  claim that reuses the id a retention period later therefore starts over at generation 0.\<close>

theorem collection_restarts_generations:
  assumes "\<forall>o'\<in>set (orbits db). o_request_id o' = Some rid \<longrightarrow>
      orbit_terminal o' \<and> o_terminal_at o' = Some t \<and> o_task_id o' = None"
    and "t \<le> now - ret" and "\<forall>live\<in>set (tasks db). terminal_task live"
  shows "next_request_generation (Some rid) (gc_terminal now ret db) = 0 \<and>
    latest_orbit_by_request (Some rid) (gc_terminal now ret db) = None"
proof -
  let ?db = "archive_tasks now (now - ret) (stamp_terminal now db)"
  have live: "terminal_task u" if "u \<in> set (tasks ?db)" for u
    using that assms(3) by (auto simp: archive_tasks_def stamp_terminal_def)
  have "old_orbit (now - ret) ?db (stamp_orbit now o')" if "o' \<in> set (orbits db)" "o_request_id o' = Some rid" for o'
    using assms(1,2) that live by (auto simp: old_orbit_def list_all_iff due_def stamp_orbit_def)
  then have none: "o_request_id o' \<noteq> Some rid" if "o' \<in> set (orbits (gc_terminal now ret db))" for o'
    using that by (auto simp: gc_orbits)
  then have "filter (\<lambda>o'. o_kind o' = ''orbit'' \<and> sql_eq (o_request_id o') (Some rid)) (orbits (gc_terminal now ret db)) = []"
    "filter (\<lambda>o'. o_request_id o' = Some rid \<and> o_kind o' = ''orbit'') (orbits (gc_terminal now ret db)) = []"
    by (auto simp: filter_empty_conv sql_eq_def)
  then show ?thesis by (simp add: next_request_generation_def latest_orbit_by_request_def)
qed

section \<open>Samples\<close>

definition old_row :: orbit where
  "old_row = (orbit_args None ''a'' [''src/**''] ''write'' ''DENIED'')\<lparr>orbit_id := ''orb-0'', o_request_id := Some ''r1'',
     o_request_generation := 4, o_terminal_at := Some 10\<rparr>"

definition archive_sample :: db where
  "archive_sample = empty_db\<lparr>orbits := [old_row],
     tasks := [(new_task 1 ''dep'' '''' [] [] [] ''MERGED'' 0 [] None None)\<lparr>t_terminal_at := Some 5\<rparr>,
       new_task 2 ''live'' '''' [] [] [''dep''] ''PENDING'' 0 [] None None]\<rparr>"


lemma collection_restarts_generations_witness:
  "next_request_generation (Some ''r1'') (archive_sample\<lparr>tasks := []\<rparr>) = 5 \<and>
   next_request_generation (Some ''r1'') (gc_terminal 1000 100 (archive_sample\<lparr>tasks := []\<rparr>)) = 0"
proof -
  have "next_request_generation (Some ''r1'') (archive_sample\<lparr>tasks := []\<rparr>) = 5" by code_simp
  moreover have "next_request_generation (Some ''r1'') (gc_terminal 1000 100 (archive_sample\<lparr>tasks := []\<rparr>)) = 0"
    by (rule collection_restarts_generations [where t = 10, THEN conjunct1])
      (simp_all add: archive_sample_def old_row_def orbit_args_def orbit_terminal_def)
  ultimately show ?thesis by simp
qed

end
