(* ===== verification/Reclaim.thy ===== *)
theory Reclaim
  imports Scheduler Barriers Sems Flags Gc
begin

text \<open>
  Taking an agent's holdings back and the sweep (\<open>omd_server/core.py\<close>): \<open>_reclaim_agent_inline\<close>,
  \<open>_reclaim_zombies_inline\<close>, \<open>_reconcile_admission\<close> with its reclaim step and \<open>_sweep_inline\<close>. The git
  calls (aborting a merge, removing a worktree and a branch) write nothing the coordinator reads.
\<close>

section \<open>Holdings other than orbits\<close>

definition close_lease :: "config \<Rightarrow> orbit_set \<Rightarrow> string \<Rightarrow> db \<Rightarrow> (core_error, db) result" where
  "close_lease g u oid db =
     bind_res (step_state g ''orbit'' ''HELD'' ''expire'') (\<lambda>st. Inr (set_orbit oid (u\<lparr>u_state := Some st\<rparr>) db))"

definition released :: "rat \<Rightarrow> orbit_set" where
  "released now = no_set\<lparr>u_released_at := Some (Some now)\<rparr>"

definition reclaim_flag_lease :: "config \<Rightarrow> orbit_set \<Rightarrow> orbit \<Rightarrow> db \<Rightarrow> (core_error, db) result" where
  "reclaim_flag_lease g u o' db =
     close_lease g u (orbit_id o') (break_ephemeral_flags_for_lease (orbit_id o') db)"

definition cancel_sem_waits :: "string \<Rightarrow> db \<Rightarrow> db" where
  "cancel_sem_waits aid db =
     fold (\<lambda>w. set_sem_waiter (sw_waiter_id w) ''CANCELLED'' None)
       (filter (\<lambda>w. sw_agent_id w = aid \<and> sw_state w = ''WAITING'') (sem_waiters db)) db"

definition sems_of :: "orbit list \<Rightarrow> string list" where
  "sems_of ps = remdups (List.map_filter o_resource_key ps)"

definition promote_sems :: "config \<Rightarrow> rat \<Rightarrow> string list \<Rightarrow> db \<Rightarrow> db" where
  "promote_sems g now sems db = fold (promote_sem_waiters g now) sems db"

section \<open>Orbits\<close>

definition read_stale_key :: "string \<Rightarrow> string" where
  "read_stale_key oid = ''read_stale:'' @ oid"

definition clear_read_stale_signal :: "string \<Rightarrow> db \<Rightarrow> db" where
  "clear_read_stale_signal oid db =
     (case get_flag_row (read_stale_key oid) db of
        None \<Rightarrow> db
      | Some f \<Rightarrow>
          if f_status f = ''LIVE'' then
            wake_flag_waiters (read_stale_key oid)
              (set_flag_status (read_stale_key oid) ''CLEARED'' (f_epoch f + 1) None None None db)
          else db)"

definition reclaim_orbit ::
  "config \<Rightarrow> rat \<Rightarrow> bool \<Rightarrow> orbit \<Rightarrow> db \<Rightarrow> (core_error, string \<times> db) result" where
  "reclaim_orbit g now voluntary o' db =
     (let why = (''reason'', JStr (if voluntary then ''bail'' else ''reclaim''));
          observed = (''observed_at'', JFloat (Fin now));
          (trigger, ev, terminal, variant) =
            (if o_state o' = ''HELD''
             then (''expire'', ''LEASE_OWNER_RECLAIMED'', ''lease_owner_reclaimed'', [observed, why])
             else (''deny'', ''WAIT_OWNER_RECLAIMED'', ''wait_owner_reclaimed'',
                   [observed, (''no_lease_fence'', JInt 0), why]))
      in bind_res (reduce_orbit_lifecycle g now o' ev variant db) (\<lambda>(h, event, db).
         bind_res (step_state g ''orbit'' (o_state o') trigger) (\<lambda>st.
           let db = set_orbit (orbit_id o') (no_set\<lparr>u_state := Some st, u_released_at := Some (Some now),
                 u_merging := Some False, u_authority_snapshot_hash := Some (Some h), u_decision_id := Some None,
                 u_decision_type := Some (Some ev), u_blocker_ids := Some [],
                 u_terminal_reason := Some (Some terminal)\<rparr>) db
           in Inr (event, if mode o' = ''read'' then clear_read_stale_signal (orbit_id o') db else db))))"

fun reclaim_orbits ::
  "config \<Rightarrow> rat \<Rightarrow> bool \<Rightarrow> orbit list \<Rightarrow> db \<Rightarrow> (core_error, string list \<times> db) result" where
  "reclaim_orbits g now voluntary [] db = Inr ([], db)"
| "reclaim_orbits g now voluntary (o' # os) db =
     bind_res (reclaim_orbit g now voluntary o' db) (\<lambda>(ev, db).
       bind_res (reclaim_orbits g now voluntary os db) (\<lambda>(evs, db). Inr (ev # evs, db)))"

section \<open>Tasks\<close>

text \<open>An interrupted task is queued again, or poisoned after too many reclaims; \<open>Inl\<close> in the log marks
  the poisoned ones.\<close>

definition reclaim_task :: "config \<Rightarrow> task \<Rightarrow> db \<Rightarrow> (core_error, (string + string) list \<times> db) result" where
  "reclaim_task g t db =
     (if t_state t = ''CLAIMED'' \<or> t_state t = ''IN_ORBIT'' \<or> t_state t = ''CONNECTING'' then
        (let n = t_reclaims t + 1; poison = n > g_max_reclaims g in
         bind_res (step_state g ''task'' (t_state t) ''abort'') (\<lambda>st.
         bind_res (step_state g ''task'' st (if poison then ''poison'' else ''requeue'')) (\<lambda>st.
           Inr ([if poison then Inl (t_task_id t) else Inr (t_task_id t)],
                set_task (t_task_id t) (\<lambda>t. t\<lparr>t_state := st, t_agent_id := None, t_reclaims := n\<rparr>) db))))
      else Inr ([], db))"

fun reclaim_tasks :: "config \<Rightarrow> task list \<Rightarrow> db \<Rightarrow> (core_error, (string + string) list \<times> db) result" where
  "reclaim_tasks g [] db = Inr ([], db)"
| "reclaim_tasks g (t # ts) db =
     bind_res (reclaim_task g t db) (\<lambda>(l, db).
       bind_res (reclaim_tasks g ts db) (\<lambda>(ls, db). Inr (l @ ls, db)))"

definition lefts :: "('a + 'b) list \<Rightarrow> 'a list" where
  "lefts = List.map_filter (\<lambda>x. case x of Inl a \<Rightarrow> Some a | Inr _ \<Rightarrow> None)"

definition rights :: "('a + 'b) list \<Rightarrow> 'b list" where
  "rights = List.map_filter (\<lambda>x. case x of Inl _ \<Rightarrow> None | Inr b \<Rightarrow> Some b)"

definition evaluate_barrier :: "config \<Rightarrow> rat \<Rightarrow> string \<Rightarrow> db \<Rightarrow> (core_error, db) result" where
  "evaluate_barrier g now bid db = bind_res (barrier_eval g now bid False db) (\<lambda>(_, db). Inr db)"

section \<open>The notification of a reclaim\<close>

text \<open>The stream the notification belongs to: that of the last orbit that was freed, or one of its own.\<close>

definition reclaim_stream ::
  "config \<Rightarrow> string \<Rightarrow> orbit option \<Rightarrow> db \<Rightarrow> (core_error, string \<times> int \<times> string \<times> json) result" where
  "reclaim_stream g aid final db =
     (case final of
        Some o' \<Rightarrow> Inr (internal_request_id o', o_request_generation o', orbit_id o',
          opt_str (o_authority_snapshot_hash o'))
      | None \<Rightarrow>
          let epoch = (case get_agent aid db of None \<Rightarrow> 0 | Some a \<Rightarrow> a_bail_epoch a);
              key = g_sha g (JDict [(''repository_id'', JStr (g_repository_id g)), (''agent_id'', JStr aid),
                (''bail_epoch'', JInt epoch)])
          in bind_res (snapshot_hash g None db) (\<lambda>h.
            Inr (''internal:agent-reclaim:'' @ aid, epoch, ''agent-reclaim:'' @ key, JStr h)))"

definition enqueue_agent_reclaimed ::
  "config \<Rightarrow> rat \<Rightarrow> string \<Rightarrow> orbit option \<Rightarrow> bool \<Rightarrow> nat \<Rightarrow> nat \<Rightarrow> string list \<Rightarrow> string list \<Rightarrow> db \<Rightarrow>
   (core_error, db) result" where
  "enqueue_agent_reclaimed g now aid final voluntary n_orbits n_tasks poisoned events db =
     (let preds = sort (remdups events) in
      bind_res (reclaim_stream g aid final db) (\<lambda>(rid, gen, oid, h).
        let (i, db) = fresh_event_id db in
        enqueue_notification g now ''AGENT_RECLAIMED''
          [(''repository_id'', JStr (g_repository_id g)), (''request_id'', JStr rid), (''request_generation'', JInt gen),
           (''orbit_id'', JStr oid), (''owner_agent'', JStr aid), (''actor'', JStr (g_coordinator_id g)),
           (''event_id'', JStr i), (''authority_snapshot_hash'', h), (''voluntary'', JBool voluntary),
           (''orbits'', JInt (int n_orbits)), (''tasks'', JInt (int n_tasks)),
           (''poisoned'', JInt (int (length poisoned))), (''poisoned_task_ids'', JList (map JStr poisoned)),
           (''observed_at'', JFloat (Fin now)), (''predecessor_event_ids'', JList (map JStr preds))]
          [(''owner_agent'', JStr aid)] preds db))"

section \<open>Reclaiming an agent\<close>

text \<open>What happens to the holdings up to the tasks: tokens, flag leases, permits, waits, orbits.\<close>

definition reclaim_holdings ::
  "config \<Rightarrow> rat \<Rightarrow> bool \<Rightarrow> string \<Rightarrow> db \<Rightarrow> (core_error, string list \<times> string list \<times> string list \<times> db) result" where
  "reclaim_holdings g now voluntary aid db =
     bind_res (for_rows (\<lambda>o'. close_lease g (released now) (orbit_id o')) (merge_tokens_owned_by aid db) db) (\<lambda>db.
     bind_res (for_rows (reclaim_flag_lease g (released now)) (flag_leases_owned_by aid db) db) (\<lambda>db.
     let permits = sem_permits_owned_by aid db in
     bind_res (for_rows (\<lambda>o'. close_lease g (released now) (orbit_id o')) permits db) (\<lambda>db.
     let db = cancel_sem_waits aid db; owned = orbits_owned_by_agent aid db in
     bind_res (reclaim_orbits g now voluntary owned db) (\<lambda>(events, db).
       Inr (sems_of permits, map orbit_id owned, events, db)))))"

definition affected_barriers :: "task list \<Rightarrow> db \<Rightarrow> string list" where
  "affected_barriers ts db = remdups (concat (map (\<lambda>t. map b_barrier_id (barriers_with_task (t_task_id t) db)) ts))"

record reclaim_report =
  rr_orbits :: "string list"
  rr_tasks :: "string list"
  rr_poisoned :: "string list"

text \<open>The routine without its last step; the answer \<open>None\<close> is the \<open>noop\<close>.\<close>

definition reclaim_agent_core ::
  "config \<Rightarrow> rat \<Rightarrow> bool \<Rightarrow> string \<Rightarrow> db \<Rightarrow> (core_error, reclaim_report option \<times> db) result" where
  "reclaim_agent_core g now voluntary aid db =
     (case get_agent aid db of
        None \<Rightarrow> Inr (None, db)
      | Some a \<Rightarrow>
          if a_state a = ''RETIRED'' then Inr (None, db)
          else let db = bump_bail_epoch aid (set_agent_state aid (if voluntary then ''BAILING'' else ''ZOMBIE'') db) in
            bind_res (reclaim_holdings g now voluntary aid db) (\<lambda>(sems, freed, events, db).
            let ts = tasks_for_agent aid db; affected = affected_barriers ts db in
            bind_res (reclaim_tasks g ts db) (\<lambda>(log, db).
            bind_res (for_rows (evaluate_barrier g now) affected db) (\<lambda>db.
            let db = set_agent_state aid ''RETIRED'' db;
                final = (if freed = [] then None else get_orbit (last freed) db) in
            bind_res (enqueue_agent_reclaimed g now aid final voluntary (length freed) (length (rights log))
                (lefts log) events db) (\<lambda>db.
              Inr (Some \<lparr>rr_orbits = freed, rr_tasks = rights log, rr_poisoned = lefts log\<rparr>,
                   promote_sems g now sems db))))))"

definition reclaim_agent ::
  "config \<Rightarrow> rat \<Rightarrow> bool \<Rightarrow> bool \<Rightarrow> string \<Rightarrow> db \<Rightarrow> (core_error, reclaim_report option \<times> db) result" where
  "reclaim_agent g now voluntary promote aid db =
     bind_res (reclaim_agent_core g now voluntary aid db) (\<lambda>(report, db).
       if report \<noteq> None \<and> promote then bind_res (reconcile_no_reclaim g now db) (\<lambda>db. Inr (report, db))
       else Inr (report, db))"

definition reclaim_response :: "string \<Rightarrow> bool \<Rightarrow> reclaim_report option \<Rightarrow> json" where
  "reclaim_response aid voluntary report =
     (case report of
        None \<Rightarrow> JDict [(''agent'', JStr aid), (''noop'', JBool True)]
      | Some r \<Rightarrow> JDict [(''agent'', JStr aid), (''voluntary'', JBool voluntary),
          (''orbits'', JList (map JStr (rr_orbits r))), (''tasks'', JList (map JStr (rr_tasks r))),
          (''poisoned'', JList (map JStr (rr_poisoned r)))])"

section \<open>Zombies\<close>

definition connect_pinned :: "string \<Rightarrow> db \<Rightarrow> bool" where
  "connect_pinned aid db =
     list_ex (\<lambda>t. t_state t = ''CONNECTING'' \<and> pinned_orbits_for_task (t_task_id t) db \<noteq> [])
       (tasks_for_agent aid db)"

fun reclaim_stale ::
  "config \<Rightarrow> rat \<Rightarrow> bool \<Rightarrow> agent list \<Rightarrow> db \<Rightarrow> (core_error, string list \<times> db) result" where
  "reclaim_stale g now promote [] db = Inr ([], db)"
| "reclaim_stale g now promote (a # as) db =
     (if connect_pinned (a_agent_id a) db then reclaim_stale g now promote as db
      else bind_res (reclaim_agent g now False promote (a_agent_id a) db) (\<lambda>(_, db).
        bind_res (reclaim_stale g now promote as db) (\<lambda>(out, db). Inr (a_agent_id a # out, db))))"

definition ttl_off :: "rat option \<Rightarrow> bool" where
  "ttl_off t \<longleftrightarrow> t = None \<or> t = Some 0"

definition reclaim_zombies_inline ::
  "config \<Rightarrow> rat \<Rightarrow> bool \<Rightarrow> db \<Rightarrow> (core_error, string list \<times> db) result" where
  "reclaim_zombies_inline g now promote db =
     (if ttl_off (g_agent_ttl g) then Inr ([], db)
      else reclaim_stale g now promote (stale_agents now (g_agent_ttl g) db) db)"

definition reconcile_admission :: "config \<Rightarrow> rat \<Rightarrow> db \<Rightarrow> (core_error, db) result" where
  "reconcile_admission g now db =
     bind_res (expire_due g now db) (\<lambda>db.
     bind_res (reclaim_zombies_inline g now False db) (\<lambda>(_, db). settle_queue g now db))"

section \<open>The sweep\<close>

definition expire_permits :: "config \<Rightarrow> rat \<Rightarrow> db \<Rightarrow> (core_error, db) result" where
  "expire_permits g now db =
     (let permits = due_sem_permits now db in
      bind_res (for_rows (\<lambda>o'. close_lease g (released now) (orbit_id o')) permits db) (\<lambda>db.
        Inr (promote_sems g now (sems_of permits) db)))"

definition collect_idem :: "config \<Rightarrow> rat \<Rightarrow> db \<Rightarrow> db" where
  "collect_idem g now db =
     (case g_idem_ttl g of None \<Rightarrow> db | Some t \<Rightarrow> if t = 0 then db else snd (gc_idem (now - t) db))"

definition collect_terminal :: "config \<Rightarrow> rat \<Rightarrow> db \<Rightarrow> db" where
  "collect_terminal g now db =
     (case g_terminal_retention g of None \<Rightarrow> db | Some t \<Rightarrow> if t = 0 then db else gc_terminal now t db)"

definition sweep_inline :: "config \<Rightarrow> rat \<Rightarrow> db \<Rightarrow> (core_error, db) result" where
  "sweep_inline g now db =
     bind_res (reconcile_admission g now db) (\<lambda>db.
     bind_res (for_rows (reclaim_flag_lease g no_set) (due_flag_leases now db) db) (\<lambda>db.
     bind_res (expire_permits g now db) (\<lambda>db.
     bind_res (for_rows (\<lambda>b. evaluate_barrier g now (b_barrier_id b)) (all_barriers [''ARMED''] db) db) (\<lambda>db.
       Inr (collect_terminal g now (collect_idem g now db))))))"

section \<open>Verbs\<close>

definition reclaim_zombies :: "config \<Rightarrow> rat \<Rightarrow> db \<Rightarrow> (core_error, json \<times> db) result" where
  "reclaim_zombies g now db =
     bind_res (reclaim_zombies_inline g now True db) (\<lambda>(out, db).
       Inr (JDict [(''reclaimed'', JList (map JStr out))], db))"

text \<open>The critical section of \<open>bail\<close>, once it owns the connect effect and has recovered.\<close>

definition bail_body :: "config \<Rightarrow> rat \<Rightarrow> string \<Rightarrow> db \<Rightarrow> (core_error, slot \<times> db) result" where
  "bail_body g now aid db =
     bind_res (reclaim_agent g now True True aid db) (\<lambda>(report, db).
       Inr (slot_set (reclaim_response aid True report), db))"

definition bail :: "config \<Rightarrow> rat \<Rightarrow> string \<Rightarrow> string option \<Rightarrow> db \<Rightarrow> (core_error, json option \<times> db) result" where
  "bail g now aid request db =
     with_idem (g_sha g) now request (Some aid) ''bail'' (JList [JStr aid]) (bail_body g now aid) db"

text \<open>The critical section of \<open>sweep\<close>: the orbits that were HELD before it and are not after it.\<close>

definition sweep_report :: "config \<Rightarrow> rat \<Rightarrow> db \<Rightarrow> (core_error, json \<times> db) result" where
  "sweep_report g now db =
     bind_res (sweep_inline g now db) (\<lambda>db'.
       Inr (JDict [(''expired'', JList (map JStr (sort (remdups (filter
              (\<lambda>i. i \<notin> orbit_id ` set (held_orbits db')) (map orbit_id (held_orbits db)))))))], db'))"

end
