(* ===== verification/Claim.thy ===== *)
theory Claim
  imports Reclaim
begin

text \<open>
  Acquiring an orbit (\<open>omd_server/core.py\<close>): \<open>claim\<close> with its validation, the replay of an overload
  receipt, the task gate, the two deduplications, the decision and its three outcomes. Responses carry
  the keys of the code; the time stamps and the text of a
  validation error are those of the model.
\<close>

record claim_call =
  cc_agent :: string
  cc_paths :: "string list"
  cc_mode :: string
  cc_ttl :: "pyfloat option"
  cc_task :: "string option"
  cc_reason :: string
  cc_priority :: int
  cc_request :: "string option"
  cc_bail_epoch :: "int option"

text \<open>\<open>cc_ttl\<close> is what \<open>float(ttl)\<close> gives, \<open>None\<close> if it raises.\<close>

section \<open>Before the decision\<close>

definition rejected :: "string \<Rightarrow> dict \<Rightarrow> json" where
  "rejected why extra =
     JDict ([(''ok'', JBool False), (''state'', JStr ''REJECTED''), (''reason'', JStr why)] @ extra)"

fun adm_error_text :: "adm_error \<Rightarrow> string" where
  "adm_error_text (ValueError s) = s"
| "adm_error_text (TypeError s) = s"
| "adm_error_text JsonDecodeError = ''json''"
| "adm_error_text OverflowError = ''overflow''"

definition validate_claim :: "claim_call \<Rightarrow> (adm_error, string list \<times> rat) result" where
  "validate_claim c =
     bind_res (normalize_pathspec (cc_paths c)) (\<lambda>ps.
       case Option.bind (cc_ttl c) finite_float of
         None \<Rightarrow> Inl (ValueError ''ttl must be finite and positive'')
       | Some ttl \<Rightarrow>
           if ttl \<le> 0 then Inl (ValueError ''ttl must be finite and positive'')
           else bind_res (build_request ps (cc_mode c) (cc_priority c) 0 None static_policy_version None)
             (\<lambda>_. Inr (ps, ttl)))"

definition claim_args_json :: "claim_call \<Rightarrow> string list \<Rightarrow> rat \<Rightarrow> json" where
  "claim_args_json c ps ttl =
     JList [JStr (cc_agent c), JList (map JStr ps), JStr (cc_mode c), opt_str (cc_task c), JFloat (Fin ttl),
       JInt (cc_priority c), JStr (cc_reason c), opt_int (cc_bail_epoch c)]"

definition replay_terminal_claim_overload ::
  "config \<Rightarrow> string option \<Rightarrow> string \<Rightarrow> json \<Rightarrow> db \<Rightarrow> json option" where
  "replay_terminal_claim_overload g request aid args db =
     (case Option.bind request (\<lambda>rid. get_idem rid db) of
        None \<Rightarrow> None
      | Some i \<Rightarrow>
          if i_status i \<noteq> ''DONE'' \<or> i_agent_id i \<noteq> Some aid \<or> i_verb i \<noteq> ''claim'' \<or>
             i_arg_hash i \<noteq> arg_hash (g_sha g) ''claim'' args then None
          else (case i_response i of
              Some (JDict kvs) \<Rightarrow>
                if pget ''state'' kvs = JStr ''REJECTED'' \<and> pget ''code'' kvs = JStr ''QUEUE_FULL'' \<and>
                   pget ''reason'' kvs = JStr ''queue_full'' then Some (replayed (JDict kvs)) else None
            | _ \<Rightarrow> None))"

definition task_admission_states :: "string list" where
  "task_admission_states = [''PENDING'', ''BLOCKED'', ''READY'']"

definition task_gate :: "string option \<Rightarrow> db \<Rightarrow> json option" where
  "task_gate task db =
     (case task of
        None \<Rightarrow> None
      | Some tid \<Rightarrow>
          (case get_task tid db of
             None \<Rightarrow> Some (rejected ''no such task'' [(''task_id'', JStr tid)])
           | Some t \<Rightarrow>
               if t_state t \<in> set task_admission_states then None
               else Some (rejected ''task_not_admission_eligible''
                 [(''task_id'', JStr tid), (''task_state'', JStr (t_state t))])))"

definition intent_key :: "config \<Rightarrow> claim_call \<Rightarrow> string list \<Rightarrow> string" where
  "intent_key g c ps =
     arg_hash (g_sha g) ''claim'' (JList [JStr (cc_agent c), JList (map JStr (sort ps)), JStr (cc_mode c), opt_str (cc_task c)])"

section \<open>Deduplication\<close>

definition dup_response :: "orbit \<Rightarrow> json" where
  "dup_response o' =
     JDict [(''orbit_id'', JStr (orbit_id o')), (''request_id'', opt_str (o_request_id o')),
       (''request_generation'', JInt (o_request_generation o')), (''bail_epoch'', JInt (o_bail_epoch o')),
       (''state'', JStr (o_state o')), (''fence'', opt_int (fence o')), (''queue_seq'', opt_int (queue_seq o')),
       (''conflicts'', JList (map JStr (o_blocker_ids o'))), (''decision_id'', opt_str (o_decision_id o')),
       (''dedup'', JBool True)]"

definition ttl_or_600 :: "rat option \<Rightarrow> rat" where
  "ttl_or_600 t = (case t of None \<Rightarrow> 600 | Some t \<Rightarrow> if t = 0 then 600 else t)"

definition same_claim ::
  "claim_call \<Rightarrow> string list \<Rightarrow> rat \<Rightarrow> int \<Rightarrow> orbit \<Rightarrow> (core_error, bool) result" where
  "same_claim c ps ttl epoch o' =
     (if agent_id o' \<noteq> cc_agent c \<or> mode o' \<noteq> cc_mode c then Inr False
      else bind_res (lift_adm (bind_res (row_strings o') normalize_pathspec)) (\<lambda>qs.
        Inr (qs = ps \<and> o_task_id o' = cc_task c \<and> base_priority o' = cc_priority c \<and>
             ttl_or_600 (o_requested_ttl o') = ttl \<and> o_bail_epoch o' = epoch \<and> o_reason o' = cc_reason c)))"

definition max_request_generation :: int where
  "max_request_generation = 2 ^ 63 - 1"

definition policy_denied :: "orbit \<Rightarrow> bool" where
  "policy_denied o' \<longleftrightarrow> o_state o' = ''DENIED'' \<and>
     (o_decision_type o' = Some ''ADMISSION_DENIED'' \<or> o_decision_type o' = Some ''PROMOTION_DENIED'')"

text \<open>The request id: either the claim is answered from the row it already has, or it goes on under a
  generation. \<open>roll\<close> is the generation \<open>rollover_claim\<close> has authorised.\<close>

datatype request_dup = Answered json | Generation int

definition claim_request_dup ::
  "claim_call \<Rightarrow> string list \<Rightarrow> rat \<Rightarrow> int \<Rightarrow> int option \<Rightarrow> db \<Rightarrow> (core_error, request_dup) result" where
  "claim_request_dup c ps ttl epoch roll db =
     (case (roll, latest_orbit_by_request (cc_request c) db) of
        (Some gen, None) \<Rightarrow> Inl (RuntimeError ''authorized rollover predecessor disappeared'')
      | (Some gen, Some _) \<Rightarrow>
          if gen \<noteq> next_request_generation (cc_request c) db
          then Inl (RuntimeError ''authorized rollover generation lost authority'')
          else Inr (Generation gen)
      | (None, None) \<Rightarrow> Inr (Generation 0)
      | (None, Some dup) \<Rightarrow>
          bind_res (same_claim c ps ttl epoch dup) (\<lambda>same.
            if \<not> same then Inr (Answered (ok_false ''idempotency_conflict''
              [(''request_id'', opt_str (cc_request c)), (''original_orbit'', JStr (orbit_id dup))]))
            else if policy_denied dup then
              (if o_request_generation dup \<ge> max_request_generation then
                 Inr (Answered (rejected ''request_generation_exhausted''
                   [(''request_id'', opt_str (cc_request c)), (''request_generation'', JInt (o_request_generation dup))]))
               else Inr (Generation (next_request_generation (cc_request c) db)))
            else Inr (Answered (dup_response dup))))"

definition intent_dup :: "config \<Rightarrow> claim_call \<Rightarrow> string list \<Rightarrow> db \<Rightarrow> json option" where
  "intent_dup g c ps db =
     (case orbit_by_intent (Some (intent_key g c ps)) db of
        None \<Rightarrow> None
      | Some dup \<Rightarrow>
          if agent_id dup \<noteq> cc_agent c then None
          else if cc_request c \<noteq> None \<and> o_request_id dup \<noteq> cc_request c then
            Some (ok_false ''idempotency_conflict'' [(''request_id'', opt_str (cc_request c)),
              (''original_orbit'', JStr (orbit_id dup)), (''original_request_id'', opt_str (o_request_id dup))])
          else Some (dup_response dup))"

section \<open>The outcomes\<close>

text \<open>What the outcomes share: the row under construction (its columns are the arguments of
  \<open>add_orbit\<close>), its identity, the decision and the snapshot hash.\<close>

record claim_cut =
  ct_row :: orbit
  ct_identity :: dict
  ct_decision :: admission_decision
  ct_hash :: string

definition claim_row ::
  "config \<Rightarrow> claim_call \<Rightarrow> string list \<Rightarrow> rat \<Rightarrow> int \<Rightarrow> int \<Rightarrow> string \<Rightarrow> int \<Rightarrow> string \<Rightarrow> orbit" where
  "claim_row g c ps ttl gen epoch oid seq digest =
     (orbit_args (cc_task c) (cc_agent c) ps (cc_mode c) ''PENDING'')\<lparr>
       orbit_id := oid, priority := Some (cc_priority c), queue_seq := Some seq,
       policy_version := Some (current_version (g_sha g) (g_policy g)), o_reason := cc_reason c,
       o_intent_key := Some (intent_key g c ps), o_requested_ttl := Some ttl, o_pathspec_digest := Some digest,
       o_request_id := Some (case cc_request c of None \<Rightarrow> ''internal:'' @ oid | Some r \<Rightarrow> r),
       o_request_generation := gen, o_bail_epoch := epoch\<rparr>"

definition decided_row :: "string \<Rightarrow> dict \<Rightarrow> string list \<Rightarrow> claim_cut \<Rightarrow> orbit" where
  "decided_row ev payload blockers k =
     (ct_row k)\<lparr>o_authority_snapshot_hash := Some (ct_hash k),
       o_decision_id := Some (str_of (pget ''decision_id'' payload)), o_decision_type := Some ev,
       o_decision_schema := Some ''admission_decision/v2'',
       o_decision_observed_at := Some (dec_observed_at (ct_decision k)),
       o_decision_effective_priority := Some (dec_effective_priority (ct_decision k)), o_blocker_ids := blockers\<rparr>"

definition claim_response :: "claim_cut \<Rightarrow> string \<Rightarrow> dict \<Rightarrow> dict \<Rightarrow> json" where
  "claim_response k st payload extra =
     JDict ([(''orbit_id'', JStr (orbit_id (ct_row k))), (''request_id'', opt_str (o_request_id (ct_row k))),
       (''request_generation'', JInt (o_request_generation (ct_row k))),
       (''bail_epoch'', JInt (o_bail_epoch (ct_row k))), (''state'', JStr st),
       (''queue_seq'', opt_int (queue_seq (ct_row k)))] @ extra @ decision_fields (ct_decision k) @
      [(''conflicts'', JList (map JStr (blocker_ids (ct_decision k)))),
       (''decision_id'', pget ''decision_id'' payload)])"

definition blocker_fields :: "admission_decision \<Rightarrow> dict" where
  "blocker_fields d = [(''held_conflicts'', JList (map JStr (dec_held_blockers d))),
     (''pending_predecessors'', JList (map JStr (dec_pending_predecessors d)))]"

definition requested_context :: "claim_cut \<Rightarrow> dict" where
  "requested_context k = dict_put ''state'' (JStr ''REQUESTED'') (ct_identity k)"

definition claim_overload ::
  "config \<Rightarrow> rat \<Rightarrow> claim_call \<Rightarrow> claim_cut \<Rightarrow> bool \<Rightarrow> db \<Rightarrow> (core_error, slot \<times> db) result" where
  "claim_overload g now c k cache_terminal db =
     (let (depth, earliest) = pending_queue_stats db;
          retry_at = (case earliest of
              None \<Rightarrow> now + min 1 (g_wait_timeout g)
            | Some t \<Rightarrow> if t \<le> now then now + min 1 (g_wait_timeout g) else t);
          facts = [(''queue_depth'', JInt (int depth)), (''queue_capacity'', JInt (g_queue_capacity g)),
                   (''retry_after_at'', JFloat (Fin retry_at))] @ decision_fields (ct_decision k)
      in bind_res (admission_payload g ''ADMISSION_REJECTED'' (ct_identity k) (ct_hash k)
           ((''reason'', JStr ''queue_full'') # facts) db) (\<lambda>(payload, db).
         bind_res (assert_admission_projection g now (requested_context k) ''ADMISSION_REJECTED'' payload
           (ct_hash k) None db) (\<lambda>(_, db).
           let r = rejected ''queue_full'' ([(''code'', JStr ''QUEUE_FULL''), (''retry'', JBool True),
                 (''retry_requires_new_request_id'', JBool (cc_request c \<noteq> None))] @ facts @ ct_identity k @
                 [(''authority_snapshot_hash'', JStr (ct_hash k)), (''decision_id'', pget ''decision_id'' payload),
                  (''actor'', pget ''actor'' payload), (''event_id'', pget ''event_id'' payload)])
           in Inr (if cache_terminal then (slot_set r)\<lparr>sl_terminal := True\<rparr> else slot_set r, db))))"

definition take_ticket :: "int \<Rightarrow> db \<Rightarrow> (core_error, db) result" where
  "take_ticket seq db =
     (let (n, db) = next_seq db in
      if n \<noteq> seq then Inl (RuntimeError ''admission queue ticket changed inside authority transaction'') else Inr db)"

definition claim_deny ::
  "config \<Rightarrow> rat \<Rightarrow> claim_cut \<Rightarrow> db \<Rightarrow> (core_error, slot \<times> db) result" where
  "claim_deny g now k db =
     bind_res (snapshot_hash g (Some now) db) (\<lambda>h.
     bind_res (admission_payload g ''PROMOTION_DENIED'' (ct_identity k) h
         ([(''queue_seq'', opt_int (queue_seq (ct_row k))), (''reason'', JStr ''reservation_cycle'')] @
          decision_fields (ct_decision k)) db) (\<lambda>(payload, db).
     bind_res (assert_admission_projection g now
         (queue_context (ct_identity k) (ct_row k) (decision_fields (ct_decision k)))
         ''PROMOTION_DENIED'' payload h (Some ''DENIED'') db) (\<lambda>(_, db).
     bind_res (step_state g ''orbit'' ''PENDING'' ''deny'') (\<lambda>st.
       Inr (slot_set (claim_response k ''DENIED'' payload
              ([(''deadlock'', JBool True), (''reason'', JStr ''reservation_cycle'')] @ blocker_fields (ct_decision k))),
            set_orbit (orbit_id (ct_row k)) (no_set\<lparr>u_state := Some st, u_authority_snapshot_hash := Some (Some h),
              u_decision_id := Some (Some (str_of (pget ''decision_id'' payload))),
              u_decision_type := Some (Some ''PROMOTION_DENIED''),
              u_decision_schema := Some (Some ''admission_decision/v2''),
              u_decision_observed_at := Some (Some (dec_observed_at (ct_decision k))),
              u_decision_effective_priority := Some (Some (dec_effective_priority (ct_decision k))),
              u_terminal_reason := Some (Some ''reservation_cycle'')\<rparr>) db)))))"

definition queued_row :: "config \<Rightarrow> rat \<Rightarrow> dict \<Rightarrow> claim_cut \<Rightarrow> orbit" where
  "queued_row g now payload k =
     (decided_row ''ADMISSION_QUEUED'' payload (blocker_ids (ct_decision k)) k)\<lparr>
       o_state := ''PENDING'', enqueued_at := Some (Fin now), o_wait_deadline := Some (now + g_wait_timeout g)\<rparr>"

definition claim_queue ::
  "config \<Rightarrow> rat \<Rightarrow> claim_cut \<Rightarrow> int \<Rightarrow> nat \<Rightarrow> db \<Rightarrow> (core_error, slot \<times> db) result" where
  "claim_queue g now k seq depth db =
     bind_res (take_ticket seq db) (\<lambda>db.
     bind_res (admission_payload g ''ADMISSION_QUEUED'' (ct_identity k) (ct_hash k)
         ([(''queue_seq'', JInt seq), (''enqueued_at'', JFloat (Fin now)),
           (''wait_deadline'', JFloat (Fin (now + g_wait_timeout g)))] @ decision_fields (ct_decision k)) db) (\<lambda>(payload, db).
     bind_res (assert_admission_projection g now (requested_context k) ''ADMISSION_QUEUED'' payload (ct_hash k)
         (Some ''PENDING'') db) (\<lambda>(_, db).
       let (oid, db) = add_orbit now (Some (orbit_id (ct_row k))) (queued_row g now payload k) db in
       bind_res (cycle_with g (agent_id (ct_row k)) now db) (\<lambda>cyclic.
         if cyclic then claim_deny g now k db
         else Inr (slot_set (claim_response k ''PENDING'' payload
           ([(''wait_deadline'', JFloat (Fin (now + g_wait_timeout g))), (''queue_depth'', JInt (int depth)),
             (''queue_capacity'', JInt (g_queue_capacity g))] @ blocker_fields (ct_decision k))), db)))))"

definition granted_row :: "rat \<Rightarrow> rat \<Rightarrow> int \<Rightarrow> int option \<Rightarrow> dict \<Rightarrow> claim_cut \<Rightarrow> orbit" where
  "granted_row now ttl fn rg payload k =
     (decided_row ''ADMISSION_GRANTED'' payload [] k)\<lparr>
       o_state := ''HELD'', fence := Some fn, o_expires_at := Some (now + ttl), o_read_gen := rg\<rparr>"

definition sync_read_task :: "claim_call \<Rightarrow> int option \<Rightarrow> db \<Rightarrow> db" where
  "sync_read_task c rg db =
     (case (cc_task c, rg) of
        (Some tid, Some gen) \<Rightarrow>
          (case get_task tid db of
             None \<Rightarrow> db
           | Some t \<Rightarrow> if (case t_read_synced_gen t of None \<Rightarrow> True | Some p \<Rightarrow> gen < p)
               then set_task tid (\<lambda>t. t\<lparr>t_read_synced_gen := Some gen\<rparr>) db else db)
      | _ \<Rightarrow> db)"

definition claim_grant ::
  "config \<Rightarrow> rat \<Rightarrow> claim_call \<Rightarrow> rat \<Rightarrow> claim_cut \<Rightarrow> int \<Rightarrow> db \<Rightarrow> (core_error, slot \<times> db) result" where
  "claim_grant g now c ttl k seq db =
     bind_res (take_ticket seq db) (\<lambda>db.
       let (fn, db) = next_fence db in
       bind_res (admission_payload g ''ADMISSION_GRANTED'' (ct_identity k) (ct_hash k)
           ([(''fence'', JInt fn), (''lease_deadline'', JFloat (Fin (now + ttl)))] @ decision_fields (ct_decision k)) db)
         (\<lambda>(payload, db).
       bind_res (assert_admission_projection g now (requested_context k) ''ADMISSION_GRANTED'' payload (ct_hash k)
           (Some ''HELD'') db) (\<lambda>(_, db).
         let rg = (if cc_mode c = ''read'' then Some (integration_gen db) else None);
             (oid, db) = add_orbit now (Some (orbit_id (ct_row k))) (granted_row now ttl fn rg payload k) db
         in bind_res (deny_reservation_cycles g now ''reservation_cycle_after_grant'' db) (\<lambda>db.
              Inr (slot_set (claim_response k ''HELD'' payload [(''fence'', JInt fn)]), sync_read_task c rg db)))))"

section \<open>The verb\<close>

definition claim_cut_of ::
  "config \<Rightarrow> rat \<Rightarrow> claim_call \<Rightarrow> string list \<Rightarrow> rat \<Rightarrow> int \<Rightarrow> int \<Rightarrow> string \<Rightarrow> int \<Rightarrow> db \<Rightarrow>
   (core_error, claim_cut) result" where
  "claim_cut_of g now c ps ttl gen epoch oid seq db =
     bind_res (admission_decision_now g now
         (build_request ps (cc_mode c) (cc_priority c) seq (Some oid) (current_version (g_sha g) (g_policy g))
           (Some (Fin now))) db) (\<lambda>(d, h).
     bind_res (lift_adm (pathspec_digest (g_sha g) ps)) (\<lambda>digest.
     let row = claim_row g c ps ttl gen epoch oid seq digest in
     bind_res (admission_identity g row) (\<lambda>identity.
       Inr \<lparr>ct_row = row, ct_identity = identity, ct_decision = d, ct_hash = h\<rparr>)))"

definition claim_decide ::
  "config \<Rightarrow> rat \<Rightarrow> claim_call \<Rightarrow> string list \<Rightarrow> rat \<Rightarrow> int \<Rightarrow> int \<Rightarrow> bool \<Rightarrow> db \<Rightarrow>
   (core_error, slot \<times> db) result" where
  "claim_decide g now c ps ttl gen epoch cache_terminal db =
     (let seq = current_seq db + 1; (u, db) = fresh_uuid db; oid = ''orb-'' @ u in
      bind_res (claim_cut_of g now c ps ttl gen epoch oid seq db) (\<lambda>k.
        if grantable (ct_decision k) then claim_grant g now c ttl k seq db
        else if int (fst (pending_queue_stats db)) \<ge> g_queue_capacity g then claim_overload g now c k cache_terminal db
        else claim_queue g now k seq (fst (pending_queue_stats db)) db))"

definition claim_body ::
  "config \<Rightarrow> rat \<Rightarrow> bool \<Rightarrow> int option \<Rightarrow> claim_call \<Rightarrow> string list \<Rightarrow> rat \<Rightarrow> db \<Rightarrow>
   (core_error, slot \<times> db) result" where
  "claim_body g now swept roll c ps ttl db =
     bind_res (if swept then Inr db else sweep_inline g now db) (\<lambda>db.
       case check_alive (Some (cc_agent c)) (cc_bail_epoch c) db of
         Some dead \<Rightarrow> Inr (slot_set dead, db)
       | None \<Rightarrow>
           let db = upsert_agent (cc_agent c) None ''WORKING'' now db;
               epoch = (case get_agent (cc_agent c) db of None \<Rightarrow> 0 | Some a \<Rightarrow> a_bail_epoch a)
           in bind_res (claim_request_dup c ps ttl epoch roll db) (\<lambda>dup.
             case dup of
               Answered r \<Rightarrow> Inr (slot_set r, db)
             | Generation gen \<Rightarrow>
                 (case intent_dup g c ps db of
                    Some r \<Rightarrow> Inr (slot_set r, db)
                  | None \<Rightarrow>
                      if \<not> accepts_base_priority (g_sha g) (g_policy g) (cc_priority c) None then
                        Inr (slot_set (rejected ''invalid_admission_request''
                          [(''detail'', JStr ''priority must leave signed-64-bit headroom for max_age_boost'')]), db)
                      else claim_decide g now c ps ttl gen epoch (roll = None) db)))"

definition reply_of :: "json option \<times> db \<Rightarrow> json \<times> db" where
  "reply_of r = (case fst r of None \<Rightarrow> JNull | Some j \<Rightarrow> j, snd r)"

text \<open>\<open>swept\<close>: the caller passes an observation time for which it has swept already.\<close>

definition claim ::
  "config \<Rightarrow> rat \<Rightarrow> bool \<Rightarrow> int option \<Rightarrow> claim_call \<Rightarrow> db \<Rightarrow> (core_error, json \<times> db) result" where
  "claim g now swept roll c db =
     (if (case roll of None \<Rightarrow> False | Some n \<Rightarrow> n < 1 \<or> n > max_request_generation)
      then Inl (RuntimeError ''invalid authorized request generation'')
      else if cc_agent c = [] then Inr (rejected ''invalid_agent_id'' [], db)
      else if cc_request c = Some [] then Inr (rejected ''invalid_request_id'' [], db)
      else case validate_claim c of
          Inl e \<Rightarrow> Inr (rejected ''invalid_admission_request'' [(''detail'', JStr (adm_error_text e))], db)
        | Inr (ps, ttl) \<Rightarrow>
            let args = claim_args_json c ps ttl in
            (case replay_terminal_claim_overload g (cc_request c) (cc_agent c) args db of
               Some r \<Rightarrow> Inr (r, db)
             | None \<Rightarrow>
                 (case task_gate (cc_task c) db of
                    Some r \<Rightarrow> Inr (r, db)
                  | None \<Rightarrow>
                      bind_res (with_idem (g_sha g) now (cc_request c) (Some (cc_agent c)) ''claim'' args
                        (claim_body g now swept roll c ps ttl) db) (\<lambda>r. Inr (reply_of r)))))"

end
