(* ===== verification/LeaseVerbs.thy ===== *)
theory LeaseVerbs
  imports Claim
begin

text \<open>
  The other verbs on orbits (\<open>omd_server/core.py\<close>): \<open>rollover_claim\<close>, \<open>cancel_wait\<close>, \<open>renew\<close>, \<open>release\<close>,
  \<open>heartbeat\<close>, \<open>next_task\<close> and \<open>start\<close>. In \<open>start\<close> the worktree is a git call; its path and branch are
  arguments (\<open>None\<close> without a repository).
\<close>

section \<open>Rolling over\<close>

definition supported_terminals :: "(string \<times> string) list" where
  "supported_terminals = [(''RELEASED'', ''RELEASE''), (''EXPIRED'', ''LEASE_EXPIRED''), (''DENIED'', ''CANCEL''),
     (''DENIED'', ''WAIT_TIMEOUT'')]"

definition fenced :: "dict" where
  "fenced = [(''fenced_out'', JBool True)]"

text \<open>The guards on the predecessor row, in the order of the code; the answer is the refusal.\<close>

definition rollover_predecessor_guard :: "string \<Rightarrow> int \<Rightarrow> orbit \<Rightarrow> db \<Rightarrow> json option" where
  "rollover_predecessor_guard aid gen o' db =
     (if agent_id o' \<noteq> aid then Some (rejected ''not owner'' ((''owner'', JStr (agent_id o')) # fenced))
      else if o_request_generation o' \<noteq> gen then
        Some (rejected ''stale request_generation''
          ([(''current'', JInt (o_request_generation o')), (''yours'', JInt gen)] @ fenced))
      else
        let latest = map_option orbit_id (latest_orbit_by_request (o_request_id o') db) in
        if latest \<noteq> Some (orbit_id o') then
          Some (rejected ''stale rollover predecessor''
            ([(''prior_orbit_id'', JStr (orbit_id o')), (''latest_orbit_id'', opt_str latest)] @ fenced))
        else if \<not> (case o_decision_type o' of None \<Rightarrow> False
            | Some ty \<Rightarrow> (o_state o', ty) \<in> set supported_terminals) then
          Some (rejected ''rollover_predecessor_not_supported''
            [(''prior_state'', JStr (o_state o')), (''prior_decision_type'', opt_str (o_decision_type o'))])
        else if gen \<ge> max_request_generation then
          Some (rejected ''request_generation_exhausted'' [(''request_generation'', JInt gen)])
        else None)"

definition rollover_agent_guard :: "string \<Rightarrow> int \<Rightarrow> db \<Rightarrow> json option" where
  "rollover_agent_guard aid epoch db =
     (case check_alive (Some aid) (Some epoch) db of
        Some dead \<Rightarrow> Some dead
      | None \<Rightarrow>
          (case get_agent aid db of
             None \<Rightarrow> None
           | Some a \<Rightarrow>
               if a_bail_epoch a \<noteq> epoch then
                 Some (rejected ''stale bail_epoch''
                   ([(''current'', JInt (a_bail_epoch a)), (''yours'', JInt epoch)] @ fenced))
               else None))"

definition rollover_guard :: "string \<Rightarrow> int \<Rightarrow> int \<Rightarrow> orbit \<Rightarrow> db \<Rightarrow> json option" where
  "rollover_guard aid gen epoch o' db =
     (case rollover_predecessor_guard aid gen o' db of
        Some r \<Rightarrow> Some r
      | None \<Rightarrow>
          (case rollover_agent_guard aid epoch db of
             Some r \<Rightarrow> Some r
           | None \<Rightarrow>
               (case task_gate (o_task_id o') db of
                  Some r \<Rightarrow> Some r
                | None \<Rightarrow>
                    let nxt = next_request_generation (o_request_id o') db in
                    if nxt \<noteq> gen + 1 then
                      Some (rejected ''stale rollover predecessor''
                        ([(''expected_next_generation'', JInt (gen + 1)), (''current_next_generation'', JInt nxt)] @ fenced))
                    else None)))"

definition rollover_call :: "string \<Rightarrow> int \<Rightarrow> string \<Rightarrow> string list \<Rightarrow> orbit \<Rightarrow> claim_call" where
  "rollover_call aid epoch rid ps o' =
     \<lparr>cc_agent = aid, cc_paths = ps, cc_mode = mode o', cc_ttl = Some (Fin (ttl_or_600 (o_requested_ttl o'))),
      cc_task = o_task_id o', cc_reason = o_reason o', cc_priority = base_priority o', cc_request = Some rid,
      cc_bail_epoch = Some epoch\<rparr>"

fun dict_of :: "json \<Rightarrow> dict" where
  "dict_of (JDict kvs) = kvs"
| "dict_of _ = []"

definition rollover_result :: "string \<Rightarrow> string \<Rightarrow> string \<Rightarrow> int \<Rightarrow> json \<Rightarrow> (core_error, slot) result" where
  "rollover_result request oid rid gen admission =
     (let kvs = dict_of admission in
      if pget ''state'' kvs = JStr ''REJECTED'' \<or> pget ''ok'' kvs = JBool False then
        Inr (slot_set (rejected ''rollover_admission_rejected''
          [(''retry'', JBool (truthy (Some (pget ''retry'' kvs)))), (''admission'', admission),
           (''prior_orbit_id'', JStr oid), (''request_id'', JStr rid), (''operation_request_id'', JStr request)]))
      else if pget ''request_generation'' kvs \<noteq> JInt gen then
        Inl (RuntimeError ''rollover result did not bind the authorized generation'')
      else Inr ((slot_set (JDict (put_all [(''ok'', JBool True), (''rollover'', JBool True),
          (''prior_orbit_id'', JStr oid), (''operation_request_id'', JStr request)] kvs)))\<lparr>sl_terminal := True\<rparr>))"

definition rollover_body ::
  "config \<Rightarrow> rat \<Rightarrow> string \<Rightarrow> string \<Rightarrow> int \<Rightarrow> int \<Rightarrow> string \<Rightarrow> db \<Rightarrow> (core_error, slot \<times> db) result" where
  "rollover_body g now oid aid gen epoch request db =
     bind_res (sweep_inline g now db) (\<lambda>db.
       case get_orbit oid db of
         None \<Rightarrow> Inr (slot_set (rejected ''no such orbit'' [(''prior_orbit_id'', JStr oid)]), db)
       | Some o' \<Rightarrow>
           if o_kind o' \<noteq> ''orbit'' then Inr (slot_set (rejected ''no such orbit'' [(''prior_orbit_id'', JStr oid)]), db)
           else if o_request_id o' = None \<or> o_request_id o' = Some [] then
             Inr (slot_set (rejected ''rollover_requires_explicit_claim_id'' [(''prior_orbit_id'', JStr oid)]), db)
           else (case rollover_guard aid gen epoch o' db of
               Some r \<Rightarrow> Inr (slot_set r, db)
             | None \<Rightarrow>
                 let rid = the (o_request_id o') in
                 bind_res (lift_adm (row_strings o')) (\<lambda>ps.
                 bind_res (claim g now True (Some (gen + 1)) (rollover_call aid epoch rid ps o') (clear_idem rid db))
                   (\<lambda>(admission, db).
                 bind_res (rollover_result request oid rid (gen + 1) admission) (\<lambda>sl. Inr (sl, db))))))"

definition rollover_claim ::
  "config \<Rightarrow> rat \<Rightarrow> string \<Rightarrow> string \<Rightarrow> int \<Rightarrow> int \<Rightarrow> string \<Rightarrow> db \<Rightarrow> (core_error, json \<times> db) result" where
  "rollover_claim g now oid aid gen epoch request db =
     (if oid = [] then Inr (rejected ''invalid_prior_orbit_id'' [], db)
      else if aid = [] then Inr (rejected ''invalid_agent_id'' [], db)
      else if gen < 0 \<or> gen > max_request_generation then Inr (rejected ''invalid_request_generation'' [], db)
      else if epoch < 0 then Inr (rejected ''invalid_bail_epoch'' [], db)
      else if request = [] then Inr (rejected ''invalid_request_id'' [], db)
      else case get_orbit oid db of
          None \<Rightarrow> Inr (rejected ''no such orbit'' [(''prior_orbit_id'', JStr oid)], db)
        | Some o' \<Rightarrow>
            if o_request_id o' = Some request then
              Inr (rejected ''rollover_request_id_must_be_distinct'' [(''request_id'', JStr request)], db)
            else bind_res (with_idem (g_sha g) now (Some request) (Some aid) ''rollover_claim''
                (JList [JStr oid, JInt gen, JInt epoch]) (rollover_body g now oid aid gen epoch request) db)
              (\<lambda>r. Inr (reply_of r)))"

section \<open>Cancelling a wait\<close>

definition cancelled_response :: "orbit \<Rightarrow> string \<Rightarrow> string option \<Rightarrow> bool \<Rightarrow> json" where
  "cancelled_response o' why request noop =
     JDict ([(''ok'', JBool True), (''orbit_id'', JStr (orbit_id o')), (''request_id'', opt_str (o_request_id o')),
       (''cancel_request_id'', opt_str request), (''request_generation'', JInt (o_request_generation o')),
       (''bail_epoch'', JInt (o_bail_epoch o')), (''state'', JStr ''CANCELLED''), (''legacy_state'', JStr ''DENIED''),
       (''terminal_reason'', JStr why)] @ (if noop then [(''noop'', JBool True)] else []))"

definition cancel_guard :: "string \<Rightarrow> int \<Rightarrow> int \<Rightarrow> orbit \<Rightarrow> db \<Rightarrow> json option" where
  "cancel_guard aid gen epoch o' db =
     (if o_kind o' \<noteq> ''orbit'' then
        Some (ok_false ''resource is not a cancellable orbit'' [(''orbit_id'', JStr (orbit_id o'))])
      else if agent_id o' \<noteq> aid then Some (ok_false ''not owner'' [(''owner'', JStr (agent_id o'))])
      else if o_request_generation o' \<noteq> gen then
        Some (ok_false ''stale request_generation''
          (fenced @ [(''current'', JInt (o_request_generation o')), (''yours'', JInt gen)]))
      else if o_bail_epoch o' \<noteq> epoch then
        Some (ok_false ''stale bail_epoch'' (fenced @ [(''current'', JInt (o_bail_epoch o')), (''yours'', JInt epoch)]))
      else if get_agent aid db = None then Some (ok_false ''agent not registered'' fenced)
      else check_alive (Some aid) (Some epoch) db)"

definition cancel_pending :: "config \<Rightarrow> rat \<Rightarrow> orbit \<Rightarrow> db \<Rightarrow> (core_error, db) result" where
  "cancel_pending g now o' db =
     bind_res (snapshot_hash g None db) (\<lambda>h.
     bind_res (admission_identity g o') (\<lambda>identity.
       let (i, db) = fresh_event_id db;
           payload = map (\<lambda>f. (f, pget f identity)) request_fields @
             [(''actor'', JStr (g_coordinator_id g)), (''owner_agent'', pget ''owner_agent'' identity),
              (''bail_epoch'', pget ''bail_epoch'' identity), (''authority_snapshot_hash'', JStr h), (''event_id'', JStr i)]
       in bind_res (assert_admission_projection g now (dict_put ''state'' (JStr ''PENDING'') identity) ''CANCEL''
            payload h (Some ''DENIED'') db) (\<lambda>(r, db).
          if pget ''state'' (sr_context r) \<noteq> JStr ''CANCELLED'' then
            Inl (RuntimeError ''admission cancellation did not reach semantic CANCELLED'')
          else bind_res (step_state g ''orbit'' ''PENDING'' ''deny'') (\<lambda>st.
            Inr (set_orbit (orbit_id o') (no_set\<lparr>u_state := Some st, u_released_at := Some (Some now),
              u_authority_snapshot_hash := Some (Some h), u_decision_id := Some None,
              u_decision_type := Some (Some ''CANCEL''), u_blocker_ids := Some [],
              u_terminal_reason := Some (Some ''cancelled'')\<rparr>) db)))))"

definition cancel_wait_body ::
  "config \<Rightarrow> rat \<Rightarrow> string \<Rightarrow> string \<Rightarrow> int \<Rightarrow> int \<Rightarrow> string option \<Rightarrow> db \<Rightarrow> (core_error, slot \<times> db) result" where
  "cancel_wait_body g now oid aid gen epoch request db =
     (case get_orbit oid db of
        None \<Rightarrow> Inr (slot_set (ok_false ''no such orbit'' []), db)
      | Some o' \<Rightarrow>
          (case cancel_guard aid gen epoch o' db of
             Some r \<Rightarrow> Inr (slot_set r, db)
           | None \<Rightarrow>
               let db = upsert_agent aid None ''WORKING'' now db in
               if o_state o' = ''DENIED'' \<and> o_decision_type o' = Some ''CANCEL'' then
                 Inr (slot_set (cancelled_response o'
                   (case o_terminal_reason o' of None \<Rightarrow> ''cancelled'' | Some s \<Rightarrow> if s = [] then ''cancelled'' else s)
                   request True), db)
               else if o_state o' \<noteq> ''PENDING'' then
                 Inr (slot_set (ok_false (''not PENDING: '' @ o_state o') [(''state'', JStr (o_state o'))]), db)
               else bind_res (cancel_pending g now o' db) (\<lambda>db.
                 bind_res (reconcile_admission g now db) (\<lambda>db.
                   Inr (slot_set (cancelled_response o' ''cancelled'' request False), db)))))"

definition cancel_wait ::
  "config \<Rightarrow> rat \<Rightarrow> string \<Rightarrow> string \<Rightarrow> int \<Rightarrow> int \<Rightarrow> string option \<Rightarrow> db \<Rightarrow> (core_error, json \<times> db) result" where
  "cancel_wait g now oid aid gen epoch request db =
     (if oid = [] then Inr (rejected ''invalid_orbit_id'' [], db)
      else if aid = [] then Inr (rejected ''invalid_agent_id'' [], db)
      else if request = Some [] then Inr (rejected ''invalid_request_id'' [], db)
      else if gen < 0 then Inr (rejected ''invalid_request_generation'' [], db)
      else if epoch < 0 then Inr (rejected ''invalid_bail_epoch'' [], db)
      else bind_res (with_idem (g_sha g) now request (Some aid) ''cancel_wait'' (JList [JStr oid, JInt gen, JInt epoch])
          (cancel_wait_body g now oid aid gen epoch request) db) (\<lambda>r. Inr (reply_of r)))"

section \<open>Renewing and releasing\<close>

definition renew_body ::
  "config \<Rightarrow> rat \<Rightarrow> string \<Rightarrow> string \<Rightarrow> int option \<Rightarrow> rat \<Rightarrow> int option \<Rightarrow> db \<Rightarrow> (core_error, slot \<times> db) result" where
  "renew_body g now oid aid fn ttl epoch db =
     (case check_alive (Some aid) epoch db of
        Some dead \<Rightarrow> Inr (slot_set dead, db)
      | None \<Rightarrow>
          let db = upsert_agent aid None ''WORKING'' now db in
          (case get_orbit oid db of
             None \<Rightarrow> Inr (slot_set (ok_false ''no such orbit'' []), db)
           | Some o' \<Rightarrow>
               if o_state o' \<noteq> ''HELD'' then Inr (slot_set (ok_false (''not HELD: '' @ o_state o') fenced), db)
               else (case check_owner o' aid fn of
                   Some bad \<Rightarrow> Inr (slot_set bad, db)
                 | None \<Rightarrow>
                     bind_res (reduce_orbit_lifecycle g now o' ''RENEW''
                         [(''lease_deadline'', JFloat (Fin (now + ttl)))] db) (\<lambda>(h, _, db).
                     bind_res (step_state g ''orbit'' ''HELD'' ''renew'') (\<lambda>st.
                       Inr (slot_set (JDict [(''ok'', JBool True), (''expires_in'', JFloat (Fin ttl))]),
                         set_orbit oid (no_set\<lparr>u_state := Some st, u_expires_at := Some (Some (now + ttl)),
                           u_authority_snapshot_hash := Some (Some h), u_decision_id := Some None,
                           u_decision_type := Some (Some ''RENEW'')\<rparr>) db))))))"

definition renew ::
  "config \<Rightarrow> rat \<Rightarrow> string \<Rightarrow> string \<Rightarrow> int option \<Rightarrow> pyfloat option \<Rightarrow> string option \<Rightarrow> int option \<Rightarrow> db \<Rightarrow>
   (core_error, json \<times> db) result" where
  "renew g now oid aid fn ttl request epoch db =
     (case Option.bind ttl finite_float of
        None \<Rightarrow> Inr (ok_false ''invalid ttl'' [], db)
      | Some t \<Rightarrow>
          if t \<le> 0 then Inr (ok_false ''invalid ttl'' [], db)
          else bind_res (with_idem (g_sha g) now request (Some aid) ''renew''
              (JList [JStr oid, opt_int fn, JFloat (Fin t)]) (renew_body g now oid aid fn t epoch) db)
            (\<lambda>r. Inr (reply_of r)))"

definition release_body ::
  "config \<Rightarrow> rat \<Rightarrow> string \<Rightarrow> string \<Rightarrow> int option \<Rightarrow> int option \<Rightarrow> db \<Rightarrow> (core_error, slot \<times> db) result" where
  "release_body g now oid aid fn epoch db =
     (case check_alive (Some aid) epoch db of
        Some dead \<Rightarrow> Inr (slot_set dead, db)
      | None \<Rightarrow>
          let db = upsert_agent aid None ''WORKING'' now db in
          (case get_orbit oid db of
             None \<Rightarrow> Inr (slot_set (ok_false ''no such orbit'' []), db)
           | Some o' \<Rightarrow>
               if o_kind o' \<noteq> ''orbit'' then
                 Inr (slot_set (ok_false (''resource is not a releasable orbit: '' @ o_kind o')
                   [(''orbit_id'', JStr oid)]), db)
               else if o_state o' \<in> {''RELEASED'', ''EXPIRED'', ''DENIED''} then
                 Inr (slot_set (JDict [(''ok'', JBool True), (''noop'', JBool True), (''state'', JStr (o_state o'))]), db)
               else if o_state o' \<noteq> ''HELD'' then Inr (slot_set (ok_false (''not HELD: '' @ o_state o') []), db)
               else if o_merging o' then
                 Inr (slot_set (ok_false ''connect_effect_in_progress''
                   [(''retry'', JBool True), (''orbit_id'', JStr oid)]), db)
               else (case check_owner o' aid fn of
                   Some bad \<Rightarrow> Inr (slot_set bad, db)
                 | None \<Rightarrow>
                     bind_res (reduce_orbit_lifecycle g now o' ''RELEASE'' [] db) (\<lambda>(h, _, db).
                     bind_res (step_state g ''orbit'' ''HELD'' ''release'') (\<lambda>st.
                     bind_res (reconcile_admission g now
                         (set_orbit oid (no_set\<lparr>u_state := Some st, u_released_at := Some (Some now),
                           u_authority_snapshot_hash := Some (Some h), u_decision_id := Some None,
                           u_decision_type := Some (Some ''RELEASE'')\<rparr>) db)) (\<lambda>db.
                       Inr (slot_set (JDict [(''ok'', JBool True)]), db)))))))"

definition release ::
  "config \<Rightarrow> rat \<Rightarrow> string \<Rightarrow> string \<Rightarrow> int option \<Rightarrow> string option \<Rightarrow> int option \<Rightarrow> db \<Rightarrow>
   (core_error, json \<times> db) result" where
  "release g now oid aid fn request epoch db =
     bind_res (with_idem (g_sha g) now request (Some aid) ''release'' (JList [JStr oid, opt_int fn])
         (release_body g now oid aid fn epoch) db) (\<lambda>r. Inr (reply_of r))"

section \<open>Liveness\<close>

text \<open>The new deadline of a lease: its whole length so far, measured from its creation, from now on.\<close>

definition extended_deadline :: "config \<Rightarrow> rat \<Rightarrow> orbit \<Rightarrow> rat \<Rightarrow> rat" where
  "extended_deadline g now o' deadline =
     (let base = deadline - o_created_at o' in
      now + (if o_created_at o' \<noteq> 0 \<and> base > 0 then base else agent_ttl_or_default g))"

definition extend_lease :: "config \<Rightarrow> rat \<Rightarrow> orbit \<Rightarrow> nat \<times> db \<Rightarrow> nat \<times> db" where
  "extend_lease g now o' r =
     (case o_expires_at o' of
        None \<Rightarrow> r
      | Some deadline \<Rightarrow>
          (Suc (fst r), set_orbit (orbit_id o')
             (no_set\<lparr>u_expires_at := Some (Some (extended_deadline g now o' deadline))\<rparr>) (snd r)))"

definition heartbeat :: "config \<Rightarrow> rat \<Rightarrow> string \<Rightarrow> pyfloat option option \<Rightarrow> db \<Rightarrow> json \<times> db" where
  "heartbeat g now aid ttl db =
     (let pace = Option.bind ttl (\<lambda>t. Option.bind t finite_float) in
      if ttl \<noteq> None \<and> (case pace of None \<Rightarrow> True | Some t \<Rightarrow> t \<le> 0) then (ok_false ''invalid_liveness_ttl'' [], db)
      else
        let gone = (case get_agent aid db of None \<Rightarrow> None | Some a \<Rightarrow> if a_state a = ''RETIRED'' then Some a else None) in
        case gone of
          Some a \<Rightarrow>
            (JDict [(''ok'', JBool False), (''fenced_out'', JBool True), (''reason'', JStr ''agent reclaimed''),
               (''bail_epoch'', JInt (a_bail_epoch a))], db)
        | None \<Rightarrow>
            let db = upsert_agent aid None ''WORKING'' now db;
                db = (case pace of None \<Rightarrow> db | Some t \<Rightarrow> set_agent_liveness_ttl aid (Some t) db);
                (nf, db) = fold (extend_lease g now) (flag_leases_owned_by aid db) (0, db);
                (np, db) = fold (extend_lease g now) (sem_permits_owned_by aid db) (0, db)
            in (JDict [(''ok'', JBool True),
                  (''bail_epoch'', JInt (case get_agent aid db of None \<Rightarrow> 0 | Some a \<Rightarrow> a_bail_epoch a)),
                  (''flag_leases_renewed'', JInt (int nf)), (''sem_permits_renewed'', JInt (int np))], db))"

section \<open>Handing out and starting tasks\<close>

definition task_ready :: "(string list \<times> string) list \<Rightarrow> db \<Rightarrow> task \<Rightarrow> bool" where
  "task_ready held db t \<longleftrightarrow>
     list_all (merged_task db) (t_deps t) \<and>
     list_all (\<lambda>(spec, m). \<not> sets_overlap (t_writes t) spec) held \<and>
     list_all (\<lambda>(spec, m). m = ''shared'' \<or> \<not> sets_overlap (t_shared t) spec) held"

definition next_task :: "config \<Rightarrow> rat \<Rightarrow> db \<Rightarrow> (core_error, task option \<times> db) result" where
  "next_task g now db =
     bind_res (sweep_inline g now db) (\<lambda>db.
     bind_res (lift_adm (map_res (\<lambda>o'. bind_res (row_strings o') (\<lambda>ps. Inr (ps, mode o'))) (held_orbits db))) (\<lambda>held.
       case List.find (task_ready held db) (tasks_by_state [''PENDING'', ''READY'', ''BLOCKED''] db) of
         None \<Rightarrow> Inr (None, db)
       | Some t \<Rightarrow>
           bind_res (if t_state t = ''READY'' then Inr db
               else bind_res (step_state g ''task'' (t_state t) ''ready'') (\<lambda>st.
                 Inr (set_task (t_task_id t) (\<lambda>t. t\<lparr>t_state := st\<rparr>) db))) (\<lambda>db.
             Inr (get_task (t_task_id t) db, db))))"

definition started_response :: "task \<Rightarrow> string \<Rightarrow> string option \<Rightarrow> string option \<Rightarrow> dict \<Rightarrow> json" where
  "started_response t st worktree branch extra =
     JDict ([(''task_id'', JStr (t_task_id t)), (''state'', JStr st), (''worktree'', opt_str worktree),
       (''branch'', opt_str branch)] @ extra)"

definition start_body ::
  "config \<Rightarrow> rat \<Rightarrow> string \<Rightarrow> string \<Rightarrow> int option \<Rightarrow> (string \<times> string) option \<Rightarrow> db \<Rightarrow>
   (core_error, slot \<times> db) result" where
  "start_body g now tid aid epoch tree db =
     (case check_alive (Some aid) epoch db of
        Some dead \<Rightarrow> Inr (slot_set dead, db)
      | None \<Rightarrow>
          (case get_task tid db of
             None \<Rightarrow> Inl (RuntimeError ''task row is None'')
           | Some t \<Rightarrow>
               if t_state t \<in> {''IN_ORBIT'', ''DONE'', ''CONNECTING'', ''MERGED''} \<and> t_agent_id t = Some aid then
                 Inr (slot_set (started_response t (t_state t) (t_worktree t) (t_branch t) [(''dedup'', JBool True)]), db)
               else
                 bind_res (if t_state t = ''READY'' then step_state g ''task'' (t_state t) ''claim'' else Inr (t_state t)) (\<lambda>st.
                 bind_res (step_state g ''task'' st ''start'') (\<lambda>st.
                   Inr (slot_set (started_response t st (map_option snd tree) (map_option fst tree) []),
                     set_task tid (\<lambda>t. case tree of
                           None \<Rightarrow> t\<lparr>t_state := st, t_agent_id := Some aid\<rparr>
                         | Some (br, wt) \<Rightarrow>
                             t\<lparr>t_state := st, t_agent_id := Some aid, t_worktree := Some wt, t_branch := Some br\<rparr>)
                       (upsert_agent aid None ''WORKING'' now db))))))"

definition start_task ::
  "config \<Rightarrow> rat \<Rightarrow> string \<Rightarrow> string \<Rightarrow> string option \<Rightarrow> int option \<Rightarrow> (string \<times> string) option \<Rightarrow> db \<Rightarrow>
   (core_error, json \<times> db) result" where
  "start_task g now tid aid request epoch tree db =
     bind_res (with_idem (g_sha g) now request (Some aid) ''start'' (JList [JStr tid])
         (start_body g now tid aid epoch tree) db) (\<lambda>r. Inr (reply_of r))"

end
