(* ===== verification/Coherence.thy ===== *)
theory Coherence
  imports LeaseVerbs
begin

text \<open>
  The read coherence of \<open>omd_server/core.py\<close> and the verbs that end a task without a merge: the write
  globs a merge brings in, the reads it makes stale, \<open>read_refresh\<close>, the merge token, \<open>finish\<close> and
  \<open>cancel\<close>. The clock of the token, \<open>time.monotonic\<close>, is an argument of its own.
\<close>

section \<open>Write globs\<close>

definition write_orbits :: "string \<Rightarrow> db \<Rightarrow> orbit list" where
  "write_orbits tid db = filter (\<lambda>o'. mode o' \<in> set write_modes) (orbits_for_task tid db)"

fun claimed_write_globs :: "orbit list \<Rightarrow> (core_error, string list) result" where
  "claimed_write_globs [] = Inr []"
| "claimed_write_globs (o' # os) =
     bind_res (lift_adm (row_strings o')) (\<lambda>ps. bind_res (claimed_write_globs os) (\<lambda>qs. Inr (ps @ qs)))"

text \<open>\<open>list(dict.fromkeys(xs))\<close> keeps the first occurrence of each element.\<close>

definition first_occurrences :: "'a list \<Rightarrow> 'a list" where
  "first_occurrences xs = rev (remdups (rev xs))"

definition merged_write_globs :: "string \<Rightarrow> db \<Rightarrow> (core_error, string list) result" where
  "merged_write_globs tid db =
     bind_res (claimed_write_globs (write_orbits tid db)) (\<lambda>ps.
       Inr (first_occurrences ((case get_task tid db of None \<Rightarrow> [] | Some t \<Rightarrow> t_writes t @ t_shared t) @ ps)))"

section \<open>Stale reads\<close>

definition signal_stale :: "rat \<Rightarrow> string \<Rightarrow> int \<Rightarrow> orbit \<Rightarrow> db \<Rightarrow> db" where
  "signal_stale now tid gen r db =
     (let db = set_orbit (orbit_id r) (no_set\<lparr>u_stale := Some True\<rparr>) db;
          key = read_stale_key (orbit_id r);
          epoch = (case get_flag_row key db of None \<Rightarrow> 0 | Some f \<Rightarrow> f_epoch f + 1)
      in wake_flag_waiters key (upsert_flag now
           \<lparr>f_key = key, f_value = Some (int_text gen), f_set_by = Some tid, f_set_at = now, f_type = ''LATCH'',
            f_epoch = epoch, f_rank = 0, f_status = ''LIVE'', f_owner_agent = None, f_lease_id = None\<rparr> db))"

definition overtaken_read :: "string \<Rightarrow> int \<Rightarrow> orbit \<Rightarrow> bool" where
  "overtaken_read tid gen r \<longleftrightarrow> o_task_id r \<noteq> Some tid \<and> \<not> o_stale r \<and>
     (case o_read_gen r of None \<Rightarrow> True | Some rg \<Rightarrow> rg < gen)"

fun mark_stale_rows ::
  "rat \<Rightarrow> string \<Rightarrow> int \<Rightarrow> string list \<Rightarrow> orbit list \<Rightarrow> db \<Rightarrow> (core_error, string list \<times> db) result" where
  "mark_stale_rows now tid gen globs [] db = Inr ([], db)"
| "mark_stale_rows now tid gen globs (r # rs) db =
     (if \<not> overtaken_read tid gen r then mark_stale_rows now tid gen globs rs db
      else bind_res (lift_adm (row_strings r)) (\<lambda>ps.
        if sets_overlap ps globs then
          bind_res (mark_stale_rows now tid gen globs rs (signal_stale now tid gen r db)) (\<lambda>(ids, db).
            Inr (orbit_id r # ids, db))
        else mark_stale_rows now tid gen globs rs db))"

definition mark_stale_reads ::
  "rat \<Rightarrow> string \<Rightarrow> int \<Rightarrow> string list \<Rightarrow> db \<Rightarrow> (core_error, string list \<times> db) result" where
  "mark_stale_reads now tid gen globs db =
     (if globs = [] then Inr ([], db) else mark_stale_rows now tid gen globs (live_read_orbits db) db)"

definition ghosts_of :: "task \<Rightarrow> merge_entry \<Rightarrow> string list" where
  "ghosts_of t m =
     (if m_task_id m = t_task_id t \<or> \<not> sets_overlap (t_reads t) (m_globs m) then []
      else filter (\<lambda>gl. sets_overlap (t_reads t) [gl]) (m_globs m))"

definition ghost_reads :: "task \<Rightarrow> db \<Rightarrow> string list" where
  "ghost_reads t db =
     (case t_read_synced_gen t of
        None \<Rightarrow> []
      | Some synced \<Rightarrow>
          if t_reads t = [] then []
          else first_occurrences (concat (map (ghosts_of t) (merges_since synced db))))"

definition refresh_row :: "int \<Rightarrow> orbit \<Rightarrow> db \<Rightarrow> db" where
  "refresh_row gen o' db =
     (if mode o' = ''read'' \<and> o_state o' = ''HELD''
      then clear_read_stale_signal (orbit_id o')
        (set_orbit (orbit_id o') (no_set\<lparr>u_read_gen := Some (Some gen), u_stale := Some False\<rparr>) db)
      else db)"

definition read_refresh_body ::
  "config \<Rightarrow> string \<Rightarrow> string option \<Rightarrow> int option \<Rightarrow> int option \<Rightarrow> db \<Rightarrow> (core_error, slot \<times> db) result" where
  "read_refresh_body g tid aid fn epoch db =
     (case check_alive aid epoch db of
        Some dead \<Rightarrow> Inr (slot_set dead, db)
      | None \<Rightarrow>
          if get_task tid db = None then Inr (slot_set (ok_false ''no such task'' []), db)
          else
            let live = filter (\<lambda>o'. o_state o' = ''HELD'') (write_orbits tid db) in
            if live = [] then Inr (slot_set (ok_false ''no held write orbit for task'' fenced), db)
            else if aid \<noteq> None \<and> list_ex (\<lambda>o'. Some (agent_id o') \<noteq> aid) live
            then Inr (slot_set (ok_false ''not owner'' fenced), db)
            else if fn \<noteq> None \<and> list_all (\<lambda>o'. fence o' \<noteq> fn) live
            then Inr (slot_set (ok_false ''stale fence'' fenced), db)
            else
              let gen = integration_gen db;
                  db = set_task tid (\<lambda>t. t\<lparr>t_read_synced_gen := Some gen\<rparr>) db;
                  db = fold (refresh_row gen) (orbits_for_task tid db) db
              in Inr (slot_set (JDict [(''ok'', JBool True), (''task_id'', JStr tid), (''read_gen'', JInt gen),
                   (''stale'', JBool False)]), db))"

definition read_refresh ::
  "config \<Rightarrow> rat \<Rightarrow> string \<Rightarrow> string option \<Rightarrow> int option \<Rightarrow> string option \<Rightarrow> int option \<Rightarrow> db \<Rightarrow>
   (core_error, json \<times> db) result" where
  "read_refresh g now tid aid fn request epoch db =
     bind_res (with_idem (g_sha g) now request aid ''read_refresh'' (JList [JStr tid, opt_int fn])
         (read_refresh_body g tid aid fn epoch) db) (\<lambda>r. Inr (reply_of r))"

section \<open>The merge token\<close>

definition acquire_merge_token ::
  "config \<Rightarrow> rat \<Rightarrow> rat \<Rightarrow> string \<Rightarrow> string \<Rightarrow> int \<Rightarrow> db \<Rightarrow> string option \<times> db" where
  "acquire_merge_token g now tick owner op gen db =
     (case held_merge_token (g_merge_resource g) db of
        Some _ \<Rightarrow> (None, db)
      | None \<Rightarrow>
          let (fn, db) = next_fence db;
              (tok, db) = add_orbit now None ((orbit_args None owner [] ''write'' ''HELD'')\<lparr>fence := Some fn,
                o_reason := ''merge_token'', o_kind := ''merge_token'',
                o_resource_key := Some (g_merge_resource g)\<rparr>) db
          in (Some tok, set_orbit tok (no_set\<lparr>u_merge_started_mono := Some (Some tick),
                u_operation_id := Some (Some op), u_owner_instance := Some (Some (g_instance_id g)),
                u_owner_generation := Some (Some gen)\<rparr>) db))"

definition release_merge_token :: "config \<Rightarrow> rat \<Rightarrow> string \<Rightarrow> db \<Rightarrow> (core_error, db) result" where
  "release_merge_token g now tok db =
     (case get_orbit tok db of
        None \<Rightarrow> Inr db
      | Some o' \<Rightarrow>
          if o_state o' = ''HELD'' then
            bind_res (step_state g ''orbit'' ''HELD'' ''release'') (\<lambda>st.
              Inr (set_orbit tok (no_set\<lparr>u_state := Some st, u_released_at := Some (Some now)\<rparr>) db))
          else Inr db)"

definition release_write_orbit :: "config \<Rightarrow> rat \<Rightarrow> orbit \<Rightarrow> db \<Rightarrow> (core_error, db) result" where
  "release_write_orbit g now o' db =
     (if mode o' \<in> set write_modes \<and> o_state o' = ''HELD'' then
        bind_res (reduce_orbit_lifecycle g now o' ''RELEASE'' [] db) (\<lambda>(h, _, db).
        bind_res (step_state g ''orbit'' ''HELD'' ''release'') (\<lambda>st.
          Inr (set_orbit (orbit_id o') (no_set\<lparr>u_state := Some st, u_released_at := Some (Some now),
            u_merging := Some False, u_merge_deadline := Some None,
            u_authority_snapshot_hash := Some (Some h), u_decision_id := Some None,
            u_decision_type := Some (Some ''RELEASE'')\<rparr>) db)))
      else Inr db)"

definition release_task_write_orbits :: "config \<Rightarrow> rat \<Rightarrow> string \<Rightarrow> db \<Rightarrow> (core_error, db) result" where
  "release_task_write_orbits g now tid db = for_rows (release_write_orbit g now) (orbits_for_task tid db) db"

section \<open>Finishing and cancelling a task\<close>

definition touch_agent :: "rat \<Rightarrow> string option \<Rightarrow> db \<Rightarrow> db" where
  "touch_agent now aid db =
     (case aid of None \<Rightarrow> db | Some a \<Rightarrow> if a = [] then db else upsert_agent a None ''WORKING'' now db)"

definition finish_body ::
  "config \<Rightarrow> rat \<Rightarrow> string \<Rightarrow> string option \<Rightarrow> int option \<Rightarrow> int option \<Rightarrow> db \<Rightarrow> (core_error, slot \<times> db) result" where
  "finish_body g now tid aid fn epoch db =
     (case check_alive aid epoch db of
        Some dead \<Rightarrow> Inr (slot_set dead, db)
      | None \<Rightarrow>
          let db = touch_agent now aid db in
          (case check_task_write_fence tid aid fn db of
             Some bad \<Rightarrow> Inr (slot_set bad, db)
           | None \<Rightarrow>
               (case get_task tid db of
                  None \<Rightarrow> Inl (RuntimeError ''task row is None'')
                | Some t \<Rightarrow>
                    if t_state t \<in> {''DONE'', ''CONNECTING'', ''MERGED''} then
                      Inr (slot_set (JDict [(''task_id'', JStr tid), (''state'', JStr (t_state t)), (''noop'', JBool True)]), db)
                    else bind_res (step_state g ''task'' (t_state t) ''finish'') (\<lambda>st.
                      Inr (slot_set (JDict [(''task_id'', JStr tid), (''state'', JStr ''DONE'')]),
                        set_flag now tid (Some ''done'') (t_agent_id t)
                          (set_task tid (\<lambda>t. t\<lparr>t_state := st\<rparr>) db))))))"

definition finish ::
  "config \<Rightarrow> rat \<Rightarrow> string \<Rightarrow> string option \<Rightarrow> int option \<Rightarrow> string option \<Rightarrow> int option \<Rightarrow> db \<Rightarrow>
   (core_error, json \<times> db) result" where
  "finish g now tid aid fn request epoch db =
     bind_res (with_idem (g_sha g) now request aid ''finish'' (JList [JStr tid, opt_int fn])
         (finish_body g now tid aid fn epoch) db) (\<lambda>r. Inr (reply_of r))"

definition cancelled_columns :: "rat \<Rightarrow> string \<Rightarrow> string \<Rightarrow> string \<Rightarrow> orbit_set" where
  "cancelled_columns now st h ty = no_set\<lparr>u_state := Some st, u_released_at := Some (Some now),
     u_merging := Some False, u_merge_deadline := Some None, u_authority_snapshot_hash := Some (Some h),
     u_decision_id := Some None, u_decision_type := Some (Some ty), u_blocker_ids := Some [],
     u_terminal_reason := Some (Some ''task_cancelled'')\<rparr>"

text \<open>One row of \<open>_terminalize_cancelled_task_orbits\<close>; the answer tells if it was closed.\<close>

definition terminalize_orbit :: "config \<Rightarrow> rat \<Rightarrow> orbit \<Rightarrow> db \<Rightarrow> (core_error, bool \<times> db) result" where
  "terminalize_orbit g now o' db =
     (let db = (case o_request_id o' of None \<Rightarrow> db | Some r \<Rightarrow> clear_idem r db) in
      if o_state o' \<notin> {''PENDING'', ''HELD''} then Inr (False, db)
      else
        bind_res (snapshot_hash g None db) (\<lambda>h.
        bind_res (admission_identity g o') (\<lambda>identity.
        let (i, db) = fresh_event_id db;
            payload = map (\<lambda>f. (f, pget f identity)) request_fields @
              [(''actor'', JStr (g_coordinator_id g)), (''owner_agent'', pget ''owner_agent'' identity),
               (''bail_epoch'', pget ''bail_epoch'' identity), (''authority_snapshot_hash'', JStr h), (''event_id'', JStr i)];
            ctx = dict_put ''state'' (JStr (o_state o')) identity;
            held = (o_state o' = ''HELD'');
            ev = (if held then ''RELEASE'' else ''CANCEL'')
        in bind_res (assert_admission_projection g now
              (if held then dict_put ''fence'' (opt_int (fence o')) ctx else ctx) ev
              (if held then dict_put ''fence'' (opt_int (fence o')) payload else payload) h
              (Some (if held then ''RELEASED'' else ''DENIED'')) db) (\<lambda>(r, db).
           bind_res (step_state g ''orbit'' (o_state o') (if held then ''release'' else ''deny'')) (\<lambda>st.
             let db = set_orbit (orbit_id o') (cancelled_columns now st h ev) db
             in Inr (True, if mode o' = ''read'' then clear_read_stale_signal (orbit_id o') db else db))))))"

fun terminalize_orbits :: "config \<Rightarrow> rat \<Rightarrow> orbit list \<Rightarrow> db \<Rightarrow> (core_error, string list \<times> db) result" where
  "terminalize_orbits g now [] db = Inr ([], db)"
| "terminalize_orbits g now (o' # os) db =
     bind_res (terminalize_orbit g now o' db) (\<lambda>(closed, db).
     bind_res (terminalize_orbits g now os db) (\<lambda>(ids, db).
       Inr (if closed then orbit_id o' # ids else ids, db)))"

definition terminalize_cancelled_task_orbits ::
  "config \<Rightarrow> rat \<Rightarrow> string \<Rightarrow> db \<Rightarrow> (core_error, string list \<times> db) result" where
  "terminalize_cancelled_task_orbits g now tid db =
     terminalize_orbits g now (sort_key orbit_id (orbits_for_task tid db)) db"

text \<open>The refusals are returned without setting the slot, so they are not cached; the Korean text of the
  second is left out after the state.\<close>

definition cancel_body :: "config \<Rightarrow> rat \<Rightarrow> string \<Rightarrow> string \<Rightarrow> db \<Rightarrow> (core_error, slot \<times> db) result" where
  "cancel_body g now tid reason db =
     (case get_task tid db of
        None \<Rightarrow> Inr (slot_return (ok_false ''no such task'' []), db)
      | Some t \<Rightarrow>
          if t_state t = ''ABORTED'' then
            bind_res (terminalize_cancelled_task_orbits g now tid db) (\<lambda>(ids, db).
            bind_res (reconcile_admission g now db) (\<lambda>db.
              Inr (slot_set (JDict [(''ok'', JBool True), (''already'', JBool True), (''state'', JStr ''ABORTED''),
                (''orbits'', JList (map JStr ids))]), db)))
          else if t_state t \<notin> {''PENDING'', ''READY'', ''BLOCKED''} then
            Inr (slot_return (ok_false (''cancel: state='' @ t_state t) []), db)
          else
            bind_res (step_state g ''task'' (t_state t) ''abort'') (\<lambda>st.
            bind_res (terminalize_cancelled_task_orbits g now tid (set_task tid (\<lambda>t. t\<lparr>t_state := st\<rparr>) db)) (\<lambda>(ids, db).
            bind_res (reconcile_admission g now db) (\<lambda>db.
              Inr (slot_set (JDict [(''ok'', JBool True), (''state'', JStr st), (''reason'', JStr reason),
                (''orbits'', JList (map JStr ids))]), db)))))"


definition cancel :: "config \<Rightarrow> rat \<Rightarrow> string \<Rightarrow> string \<Rightarrow> string option \<Rightarrow> db \<Rightarrow> (core_error, json \<times> db) result" where
  "cancel g now tid reason request db =
     bind_res (with_idem (g_sha g) now request (Some tid) ''cancel'' (JList [JStr tid])
         (cancel_body g now tid reason) db) (\<lambda>r. Inr (reply_of r))"

end
