(* ===== verification/BypassAudit.thy ===== *)
theory BypassAudit
  imports Gitio Globs "HOL-Library.Product_Lexorder"
begin


text \<open>
  \<open>omd_server/bypass_audit.py\<close>, the gate that looks for commits on the integration branch that did not
  come through a connect, the history query of \<open>gitio.py\<close> that feeds the conflict diagnosis, and the
  count of hot files of \<open>omd_server/hot_files.py\<close>. What \<open>git log\<close> prints is the host's; its parsing,
  the classification and the verdicts are here. Printed reports are left out, and so is the exit of the
  gates on an error that is not a Git error.
\<close>

section \<open>Classification\<close>

datatype kind = OMD_CONNECT | DIRECT_COMMIT | FOREIGN_MERGE | FORGED_TRAILER | FORGED_MERGE | ROOT

fun kind_value :: "kind \<Rightarrow> string" where
  "kind_value OMD_CONNECT = ''omd_connect''"
| "kind_value DIRECT_COMMIT = ''direct_commit''"
| "kind_value FOREIGN_MERGE = ''foreign_merge''"
| "kind_value FORGED_TRAILER = ''forged_trailer''"
| "kind_value FORGED_MERGE = ''forged_merge''"
| "kind_value ROOT = ''root''"

record commit =
  c_sha :: string
  c_parents :: "string list"
  c_trailers :: "string list"
  c_author :: string
  c_subject :: string

definition is_merge :: "commit \<Rightarrow> bool" where
  "is_merge c \<longleftrightarrow> 2 \<le> length (c_parents c)"

definition has_trailer :: "commit \<Rightarrow> bool" where
  "has_trailer c \<longleftrightarrow> list_ex (\<lambda>v. py_strip v \<noteq> []) (c_trailers c)"

definition omd_author :: string where
  "omd_author = ''omd''"

definition classify :: "commit \<Rightarrow> kind" where
  "classify c =
     (if c_parents c = [] then ROOT
      else if has_trailer c then
        (if \<not> is_merge c then FORGED_TRAILER
         else if c_author c \<noteq> omd_author then FORGED_MERGE
         else OMD_CONNECT)
      else if is_merge c then FOREIGN_MERGE else DIRECT_COMMIT)"

record audit_report =
  ar_omd_connect :: "commit list"
  ar_bypass :: "(commit \<times> kind) list"
  ar_classified :: nat

definition audit_commits :: "commit list \<Rightarrow> audit_report" where
  "audit_commits cs =
     (let counted = filter (\<lambda>c. classify c \<noteq> ROOT) cs
      in \<lparr>ar_omd_connect = filter (\<lambda>c. classify c = OMD_CONNECT) counted,
          ar_bypass = map (\<lambda>c. (c, classify c)) (filter (\<lambda>c. classify c \<noteq> OMD_CONNECT) counted),
          ar_classified = length counted\<rparr>)"

definition adoption_ratio :: "audit_report \<Rightarrow> rat" where
  "adoption_ratio r =
     (let n = length (ar_omd_connect r) + length (ar_bypass r)
      in if n = 0 then 1 else of_nat (length (ar_omd_connect r)) / of_nat n)"

definition clean_report :: "audit_report \<Rightarrow> bool" where
  "clean_report r \<longleftrightarrow> ar_bypass r = []"

section \<open>Reading the log\<close>

definition separator :: char where
  "separator = CHR 0x1F"

definition record_mark :: char where
  "record_mark = CHR 0x1E"

definition strip_newlines :: "string \<Rightarrow> string" where
  "strip_newlines s = rstrip_by (\<lambda>c. c = CHR 0x0A) (dropWhile (\<lambda>c. c = CHR 0x0A) s)"

text \<open>\<open>s.split()\<close>: the maximal runs of characters that are not white space.\<close>

fun words_from :: "string \<Rightarrow> string \<Rightarrow> string list" where
  "words_from acc [] = (if acc = [] then [] else [rev acc])"
| "words_from acc (c # s) =
     (if is_py_space c then (if acc = [] then words_from [] s else rev acc # words_from [] s)
      else words_from (c # acc) s)"

definition words :: "string \<Rightarrow> string list" where
  "words s = words_from [] s"

definition records_of :: "string \<Rightarrow> string list" where
  "records_of out = filter (\<lambda>r. py_strip r \<noteq> []) (map strip_newlines (split_on record_mark out))"

text \<open>A record with fewer than five parts is skipped; the subject is all that follows the fourth separator.\<close>

fun log_commit :: "string list \<Rightarrow> commit option" where
  "log_commit (sha # parents # trailers # author # s # ss) =
     Some \<lparr>c_sha = sha, c_parents = words parents,
       c_trailers = filter (\<lambda>t. py_strip t \<noteq> []) (split_on (CHR '','') trailers),
       c_author = author, c_subject = join_with separator (s # ss)\<rparr>"
| "log_commit _ = None"

definition log_first_parent :: "'w host \<Rightarrow> string \<Rightarrow> ('w, commit list) io" where
  "log_first_parent h rng =
     io_bind (git h [''log'', ''--first-parent'', ''--no-color'',
         ''--format=%H'' @ [separator] @ ''%P'' @ [separator] @
         ''%(trailers:key=OMD-Connect,valueonly=true,separator=%x2c)'' @ [separator] @ ''%an'' @ [separator] @
         ''%s'' @ [record_mark], rng])
       (\<lambda>out. io_return (List.map_filter (\<lambda>r. log_commit (split_on separator r)) (records_of out)))"

definition range_since :: "string option \<Rightarrow> string \<Rightarrow> string" where
  "range_since since tip = (case since of None \<Rightarrow> tip | Some s \<Rightarrow> if s = [] then tip else s @ ''..'' @ tip)"

definition bypass_audit :: "'w host \<Rightarrow> string \<Rightarrow> string option \<Rightarrow> ('w, audit_report) io" where
  "bypass_audit h integration since =
     io_bind (log_first_parent h (range_since since integration)) (\<lambda>cs. io_return (audit_commits cs))"

definition bypass_verdict :: "rat \<Rightarrow> bool \<Rightarrow> audit_report \<Rightarrow> nat" where
  "bypass_verdict min_adoption warn_only r =
     (if (clean_report r \<and> adoption_ratio r \<ge> min_adoption) \<or> warn_only then 0 else 1)"

definition bypass_gate :: "'w host \<Rightarrow> string \<Rightarrow> string option \<Rightarrow> rat \<Rightarrow> bool \<Rightarrow> 'w \<Rightarrow> nat \<times> 'w" where
  "bypass_gate h integration since min_adoption warn_only w =
     (case bypass_audit h integration since w of
        (Inl e, w) \<Rightarrow> (if warn_only then 0 else 2, w)
      | (Inr r, w) \<Rightarrow> (bypass_verdict min_adoption warn_only r, w))"

definition zero_sha :: string where
  "zero_sha = replicate 40 (CHR ''0'')"

text \<open>The check of the push hook: the pushed range of one ref.\<close>

definition hook_check :: "'w host \<Rightarrow> string \<Rightarrow> string \<Rightarrow> bool \<Rightarrow> 'w \<Rightarrow> nat \<times> 'w" where
  "hook_check h base local_sha warn_only =
     bypass_gate h local_sha (if base \<noteq> [] \<and> base \<noteq> zero_sha then Some base else None) 1 warn_only"

section \<open>Conflict diagnosis\<close>

text \<open>\<open>(rec.split("\x1f") + [""] * 5)[:5]\<close>: missing parts are empty, further ones dropped.\<close>

definition touching_commit :: "string list \<Rightarrow> commit" where
  "touching_commit ps = (let p = (\<lambda>i. if i < length ps then ps ! i else [])
     in \<lparr>c_sha = p 0, c_parents = words (p 1), c_trailers = filter (\<lambda>v. py_strip v \<noteq> []) (splitlines (p 4)),
         c_author = p 2, c_subject = p 3\<rparr>)"

definition commits_touching :: "'w host \<Rightarrow> string \<Rightarrow> string list \<Rightarrow> ('w, commit list) io" where
  "commits_touching h rng paths =
     io_bind (git h ([''log'', ''--first-parent'', ''--diff-merges=first-parent'',
         ''--format='' @ [record_mark] @ ''%H'' @ [separator] @ ''%P'' @ [separator] @ ''%an'' @ [separator] @ ''%s'' @
         [separator] @ ''%(trailers:key=OMD-Connect,valueonly)'', rng, ''--''] @ paths))
       (\<lambda>out. io_return (map (\<lambda>r. touching_commit (split_on separator r)) (records_of out)))"

section \<open>Hot files\<close>

record hot_file =
  hf_path :: string
  hf_commits :: nat
  hf_authors :: nat

text \<open>One commit of the log: its author and the files it touched; without a separator the author is unknown.\<close>

definition touch_of :: "string \<Rightarrow> string \<times> string list" where
  "touch_of r =
     (let ls = split_on (CHR 0x0A) r; parts = split_on separator (hd ls)
      in (if length parts < 2 then ''?'' else parts ! 1, filter (\<lambda>l. py_strip l \<noteq> []) (tl ls)))"

text \<open>The counter and the authors of a file, in the order the files first appear.\<close>

definition hot_file_of :: "(string \<times> string list) list \<Rightarrow> string \<Rightarrow> hot_file" where
  "hot_file_of touches p =
     \<lparr>hf_path = p, hf_commits = count_list (concat (map snd touches)) p,
      hf_authors = length (remdups (map fst (filter (\<lambda>(a, fs). p \<in> set fs) touches)))\<rparr>"

definition hot_files :: "(string \<times> string list) list \<Rightarrow> nat \<Rightarrow> nat \<Rightarrow> hot_file list" where
  "hot_files touches threshold top_n =
     (let paths = rev (remdups (rev (concat (map snd touches))));
          hot = filter (\<lambda>f. threshold \<le> hf_commits f) (map (hot_file_of touches) paths)
      in take top_n (sort_key (\<lambda>f. (- int (hf_commits f), - int (hf_authors f), hf_path f)) hot))"

text \<open>\<open>suggest_shared_for_writes\<close>.\<close>

definition hot_file_audit :: "'w host \<Rightarrow> string option \<Rightarrow> nat \<Rightarrow> nat \<Rightarrow> ('w, hot_file list) io" where
  "hot_file_audit h since threshold top_n =
     io_bind (git h [''log'', ''--no-merges'', ''--no-color'', ''--format='' @ [record_mark] @ ''%H'' @ [separator] @ ''%an'',
         ''--name-only'', range_since since ''HEAD''])
       (\<lambda>out. io_return (hot_files (map touch_of (records_of out)) threshold top_n))"

definition suggest_shared_for_writes :: "'w host \<Rightarrow> string list \<Rightarrow> string option \<Rightarrow> nat \<Rightarrow> nat \<Rightarrow> ('w, string list) io" where
  "suggest_shared_for_writes h writes since threshold top_n =
     io_bind (hot_file_audit h since threshold top_n) (\<lambda>hot.
       io_return (filter (\<lambda>p. path_in_globs p writes) (map hf_path hot)))"

definition hot_gate :: "'w host \<Rightarrow> string option \<Rightarrow> nat \<Rightarrow> nat option \<Rightarrow> 'w \<Rightarrow> nat \<times> 'w" where
  "hot_gate h since threshold max_hot w =
     (case hot_file_audit h since threshold 30 w of
        (Inl e, w) \<Rightarrow> (2, w)
      | (Inr hot, w) \<Rightarrow> (if (case max_hot of None \<Rightarrow> False | Some m \<Rightarrow> length hot > m) then 1 else 0, w))"

section \<open>What the gate decides\<close>

lemma classify_omd: "classify c = OMD_CONNECT \<longleftrightarrow> is_merge c \<and> has_trailer c \<and> c_author c = omd_author"
  by (auto simp: classify_def is_merge_def)

lemma classify_root: "classify c = ROOT \<longleftrightarrow> c_parents c = []"
  by (auto simp: classify_def is_merge_def)

definition connected :: "commit \<Rightarrow> bool" where
  "connected c \<longleftrightarrow> c_parents c = [] \<or> is_merge c \<and> has_trailer c \<and> c_author c = omd_author"

text \<open>The gate lets a history pass exactly if every commit of it is a root or a merge by the coordinator with a
  trailer: one commit that came another way is enough for a refusal.\<close>

theorem gate_passes_iff_connected:
  "bypass_verdict 1 False (audit_commits cs) = 0 \<longleftrightarrow> list_all connected cs"
proof -
  have clean: "clean_report (audit_commits cs) \<longleftrightarrow> list_all connected cs"
    by (auto simp: clean_report_def audit_commits_def Let_def list_all_iff filter_empty_conv connected_def
      classify_omd classify_root)
  have "adoption_ratio (audit_commits cs) = 1" if "clean_report (audit_commits cs)"
    using that by (auto simp: adoption_ratio_def clean_report_def Let_def)
  then show ?thesis using clean by (auto simp: bypass_verdict_def)
qed

text \<open>The commit a connect makes of an empty merge has one parent.\<close>

definition evidence_commit :: "string \<Rightarrow> string \<Rightarrow> string \<Rightarrow> string \<Rightarrow> commit" where
  "evidence_commit sha parent tid subject =
     \<lparr>c_sha = sha, c_parents = [parent], c_trailers = [tid], c_author = omd_author, c_subject = subject\<rparr>"



section \<open>A commit without a subject\<close>

definition plain_text :: "string \<Rightarrow> bool" where
  "plain_text s \<longleftrightarrow> s \<noteq> [] \<and> list_all (\<lambda>c. \<not> is_py_space c) s"

lemma separator_space: "is_py_space separator" "is_py_space record_mark" "is_py_space (CHR 0x0A)"
  by code_simp+

lemma plain_no_mark: "plain_text s \<Longrightarrow> is_py_space c \<Longrightarrow> c \<notin> set s"
  by (auto simp: plain_text_def list_all_iff)

lemma plain_ends:
  assumes "plain_text s" and "plain_text t"
  shows "py_strip (s @ m @ t @ filter is_py_space v) = s @ m @ t"
proof -
  obtain a s' where s: "s = a # s'" "\<not> is_py_space a" using assms(1) by (cases s) (auto simp: plain_text_def)
  obtain t' b where t: "t = t' @ [b]" "\<not> is_py_space b"
    using assms(2) by (cases t rule: rev_cases) (auto simp: plain_text_def)
  have "dropWhile is_py_space (rev (filter is_py_space v) @ b # rs) = b # rs" for rs
    using t(2) by (simp add: dropWhile_append3 rev_filter)
  then show ?thesis using s t by (simp add: py_strip_def rstrip_by_def)
qed

lemma strip_newlines_plain:
  assumes "plain_text s" and "plain_text t"
  shows "strip_newlines (s @ m @ t) = s @ m @ t"
proof -
  have "CHR 0x0A \<notin> set s" "CHR 0x0A \<notin> set t" using assms plain_no_mark separator_space by blast+
  moreover have "s \<noteq> []" "t \<noteq> []" using assms by (simp_all add: plain_text_def)
  ultimately show ?thesis
    by (cases s; cases t rule: rev_cases) (auto simp: strip_newlines_def rstrip_by_def)
qed


definition sample_log_host :: "nat host" where
  "sample_log_host = \<lparr>run_git = (\<lambda>args t w. (Exited 0 (''b2'' @ [separator] @ ''a1'' @ [separator, separator] @ ''eve'' @
      [separator, record_mark, CHR 0x0A]) [], w)),
     path_exists = (\<lambda>p w. False), run_check = (\<lambda>argv t limit w. (CheckNotStarted [], w))\<rparr>"


end
