(* ===== verification/Connect.thy ===== *)
theory Connect
  imports Coherence Gc BypassAudit
begin

text \<open>
  CLOUD CONNECT (\<open>omd_server/core.py\<close>): the audit of a candidate against the claimed write set, the three
  phases of a connect and the loop around them. Phase A and Phase C change the store under the lock and
  are functions on it; Phase B merges outside the lock and is a computation on the host's world. The
  repository is an argument; \<open>g_repo_bound\<close> says if the coordinator has one. Worktrees are removed by a
  Git call whose result is ignored, which is left out, like the events of the telemetry; the hints of the
  refusals, which are fixed texts, are left out of the responses.
\<close>

section \<open>The repository of a coordinator\<close>

record 'w repo =
  r_host :: "'w host"
  r_integration_branch :: string
  r_worktree :: string
  r_check :: "string list option"
  r_check_timeout :: pyfloat
  r_check_limit :: int
  r_auto_push :: "string option"

definition merge_pin_grace :: rat where
  "merge_pin_grace = 60"

section \<open>The write-set audit\<close>

datatype writeset_verdict = CLEAN | VIOLATION | AUDIT_ERROR | SKIPPED_NO_REPO

record writeset_audit =
  wa_verdict :: writeset_verdict
  wa_offending :: "string list"
  wa_error :: "string option"

definition audit_blocks :: "writeset_audit \<Rightarrow> bool" where
  "audit_blocks a \<longleftrightarrow> wa_verdict a = VIOLATION \<or> wa_verdict a = AUDIT_ERROR"

definition audit_reason :: "writeset_audit \<Rightarrow> string" where
  "audit_reason a = (if wa_verdict a = VIOLATION then ''writeset_violation'' else ''writeset_audit_error'')"

definition audit_failed :: "string \<Rightarrow> writeset_audit" where
  "audit_failed s = \<lparr>wa_verdict = AUDIT_ERROR, wa_offending = [], wa_error = Some s\<rparr>"

definition no_repo_audit :: writeset_audit where
  "no_repo_audit = \<lparr>wa_verdict = SKIPPED_NO_REPO, wa_offending = [], wa_error = None\<rparr>"

text \<open>A missing or empty reference is an error of the audit.\<close>

definition present :: "string option \<Rightarrow> bool" where
  "present s \<longleftrightarrow> s \<noteq> None \<and> s \<noteq> Some []"

definition writeset_audit_of ::
  "bool \<Rightarrow> 'w repo \<Rightarrow> string \<Rightarrow> string option \<Rightarrow> string list \<Rightarrow> string option \<Rightarrow> ('w, writeset_audit) io" where
  "writeset_audit_of bound R tid candidate globs base =
     (if \<not> bound then io_return no_repo_audit
      else if \<not> present candidate \<or> \<not> present base then
        io_return (audit_failed (''write-set audit refs unavailable for '' @ tid))
      else io_catch
        (io_bind (changed_paths (r_host R) (the candidate) (the base)) (\<lambda>changed.
           let offending = filter (\<lambda>p. \<not> path_in_globs p globs) changed in
           io_return \<lparr>wa_verdict = (if offending = [] then CLEAN else VIOLATION), wa_offending = offending, wa_error = None\<rparr>))
        (\<lambda>e. io_return (audit_failed (''git diff failed: '' @ error_text e))))"

text \<open>The tip of the branch, the base and the audit. A failure to resolve the two is an error of the audit.\<close>

definition snapshot_connect_candidate ::
  "bool \<Rightarrow> 'w repo \<Rightarrow> string \<Rightarrow> string option \<Rightarrow> string list \<Rightarrow> ('w, string option \<times> string option \<times> writeset_audit) io" where
  "snapshot_connect_candidate bound R tid branch globs =
     (if \<not> bound then io_return (None, None, no_repo_audit)
      else if \<not> present branch then
        io_bind (writeset_audit_of bound R tid None globs None) (\<lambda>a. io_return (None, None, a))
      else
        io_bind (io_catch
          (io_bind (branch_tip (r_host R) (the branch) True) (\<lambda>tip.
           io_bind (branch_tip (r_host R) (r_integration_branch R) True) (\<lambda>base. io_return (Inr (tip, base)))))
          (\<lambda>e. io_return (Inl e))) (\<lambda>refs.
        case refs of
          Inl e \<Rightarrow> io_return (None, None, audit_failed (''git ref resolution failed: '' @ error_text e))
        | Inr (tip, base) \<Rightarrow>
            io_bind (writeset_audit_of bound R tid tip globs base) (\<lambda>a. io_return (tip, base, a))))"

section \<open>Phase A\<close>

record intent =
  it_task_id :: string
  it_branch :: "string option"
  it_worktree :: "string option"
  it_writes :: "string list"
  it_branch_tip_sha :: "string option"
  it_integration_base_sha :: "string option"
  it_attempt_id :: string
  it_owner_instance :: string
  it_owner_generation :: int
  it_token_id :: string
  it_token_agent :: string
  it_request_id :: "string option"
  it_request_agent :: "string option"
  it_request_arg_hash :: "string option"
  it_repo_bound :: bool

text \<open>The answer of Phase A: a response (a refusal, or the no-op of a merged task) or an attempt.\<close>

datatype phase_a_answer = Answered json | Attempt intent

text \<open>A response, or the guards passed with the task and its write orbits.\<close>

definition stale_response :: "string list \<Rightarrow> json" where
  "stale_response stale = JDict [(''ok'', JBool False), (''fenced_out'', JBool True),
     (''reason'', JStr ''stale fence: lease expired/released during work''), (''stale'', JList (map JStr stale))]"

definition connect_guards ::
  "string \<Rightarrow> string option \<Rightarrow> int option \<Rightarrow> int option \<Rightarrow> db \<Rightarrow> json + task \<times> orbit list" where
  "connect_guards tid aid fn epoch db =
     (case check_alive aid epoch db of
        Some dead \<Rightarrow> Inl dead
      | None \<Rightarrow>
          (case get_task tid db of
             None \<Rightarrow> Inl (ok_false ''no such task'' [])
           | Some t \<Rightarrow>
               if t_state t = ''MERGED'' then
                 Inl (JDict [(''ok'', JBool True), (''noop'', JBool True), (''task_id'', JStr tid),
                   (''state'', JStr ''MERGED''), (''merge_sha'', opt_str (t_merge_sha t))])
               else if t_state t = ''CONNECTING'' then
                 Inl (ok_false ''connect_attempt_unresolved''
                   [(''task_id'', JStr tid), (''state'', JStr ''CONNECTING''), (''recovery_required'', JBool True)])
               else
                 let writes = write_orbits tid db; stale = stale_writes writes aid fn in
                 if writes = [] then Inl (ok_false ''no write orbit for task'' [])
                 else if stale \<noteq> [] then Inl (stale_response stale)
                 else Inr (t, writes)))"

definition audit_response :: "string \<Rightarrow> string list \<Rightarrow> writeset_audit \<Rightarrow> json" where
  "audit_response tid globs a =
     ok_false (audit_reason a) ([(''offending'', JList (map JStr (wa_offending a))), (''claimed'', JList (map JStr globs)),
       (''task_id'', JStr tid)] @ (case wa_error a of None \<Rightarrow> [] | Some e \<Rightarrow> [(''audit_error'', JStr e)]))"

definition merge_owner :: "string option \<Rightarrow> task \<Rightarrow> string" where
  "merge_owner aid t =
     (if present aid then the aid
      else if present (t_agent_id t) then the (t_agent_id t) else ''connect:'' @ t_task_id t)"

text \<open>The state from which a task goes to \<open>CONNECTING\<close>: an \<open>IN_ORBIT\<close> one is finished first.\<close>

definition connecting_state :: "config \<Rightarrow> string \<Rightarrow> (core_error, string option) result" where
  "connecting_state g st =
     bind_res (if st = ''IN_ORBIT'' then step_state g ''task'' st ''finish'' else Inr st) (\<lambda>st.
     if st = ''DONE'' then bind_res (step_state g ''task'' st ''connect'') (\<lambda>st. Inr (Some st)) else Inr None)"

definition pin_orbit :: "rat \<Rightarrow> orbit \<Rightarrow> db \<Rightarrow> db" where
  "pin_orbit deadline o' db =
     set_orbit (orbit_id o') (no_set\<lparr>u_merging := Some True, u_merge_deadline := Some (Some deadline)\<rparr>) db"

definition merge_deadline :: "config \<Rightarrow> rat \<Rightarrow> rat" where
  "merge_deadline g now = now + max (g_merge_timeout g) 5 + g_check_budget g + merge_pin_grace"

definition intent_columns ::
  "config \<Rightarrow> rat \<Rightarrow> string \<Rightarrow> int option \<Rightarrow> intent \<Rightarrow> task \<Rightarrow> task" where
  "intent_columns g now st fn it t = t\<lparr>t_state := st, t_connect_fence := fn, t_connect_intent_at := Some now,
     t_branch_tip_sha := it_branch_tip_sha it, t_integration_base_sha := it_integration_base_sha it,
     t_connect_attempt_id := Some (it_attempt_id it), t_connect_owner_instance := Some (it_owner_instance it),
     t_connect_owner_generation := it_owner_generation it, t_connect_token_id := Some (it_token_id it),
     t_connect_request_id := it_request_id it, t_connect_arg_hash := it_request_arg_hash it,
     t_connect_repo_bound := it_repo_bound it\<rparr>"

text \<open>With the token in hand: the state, the intent, the binding of the request and the pins.\<close>

definition start_attempt ::
  "config \<Rightarrow> rat \<Rightarrow> task \<Rightarrow> orbit list \<Rightarrow> intent \<Rightarrow> db \<Rightarrow> (core_error, phase_a_answer \<times> db) result" where
  "start_attempt g now t writes it db =
     bind_res (connecting_state g (t_state t)) (\<lambda>st.
     case st of
       None \<Rightarrow> bind_res (release_merge_token g now (it_token_id it) db) (\<lambda>db.
         Inr (Answered (ok_false (''task not connectable: '' @ t_state t) []), db))
     | Some st \<Rightarrow>
         let db = set_task (it_task_id it) (intent_columns g now st (max_fence writes) it) db;
             (bound, db) = (case it_request_id it of
                 None \<Rightarrow> (True, db)
               | Some r \<Rightarrow> bind_idem_operation_exact r (it_request_agent it) ''connect'' (the (it_request_arg_hash it))
                   (it_attempt_id it) (Some (it_owner_instance it)) (Some (it_owner_generation it)) db)
         in if \<not> bound then Inl (RuntimeError ''idempotency operation bind lost for connect'')
            else Inr (Attempt it, fold (pin_orbit (merge_deadline g now)) writes db))"

text \<open>The second half of Phase A, after the audit: coherence and token.\<close>

definition connect_admit ::
  "config \<Rightarrow> rat \<Rightarrow> rat \<Rightarrow> string option \<Rightarrow> string option \<Rightarrow> string option \<Rightarrow> task \<Rightarrow> orbit list \<Rightarrow>
   string option \<times> string option \<times> writeset_audit \<Rightarrow> string list \<Rightarrow> db \<Rightarrow> (core_error, phase_a_answer \<times> db) result" where
  "connect_admit g now tick aid request arg_digest t writes snap globs db =
     (let (tip, base, audit) = snap; tid = t_task_id t in
      if audit_blocks audit then Inr (Answered (audit_response tid globs audit), db)
      else
        let ghost = ghost_reads t db; stale = map orbit_id (stale_read_orbits_for_task tid db) in
        if ghost \<noteq> [] \<or> stale \<noteq> [] then
          Inr (Answered (ok_false ''read_stale'' [(''task_id'', JStr tid), (''ghost_globs'', JList (map JStr ghost)),
            (''stale_reads'', JList (map JStr stale))]), db)
        else
          let (u, db) = fresh_uuid db; attempt = ''connect-'' @ u; owner = merge_owner aid t;
              gen = t_connect_owner_generation t + 1
          in case acquire_merge_token g now tick owner attempt gen db of
               (None, db) \<Rightarrow> Inr (Answered (ok_false ''merge in progress (token held)'' [(''retry'', JBool True)]), db)
             | (Some token, db) \<Rightarrow>
                 start_attempt g now t writes
                   \<lparr>it_task_id = tid, it_branch = t_branch t, it_worktree = t_worktree t,
                    it_writes = map orbit_id writes, it_branch_tip_sha = tip, it_integration_base_sha = base,
                    it_attempt_id = attempt, it_owner_instance = g_instance_id g, it_owner_generation = gen,
                    it_token_id = token, it_token_agent = owner, it_request_id = request,
                    it_request_agent = aid, it_request_arg_hash = arg_digest, it_repo_bound = g_repo_bound g\<rparr> db)"

definition connect_phase_a ::
  "config \<Rightarrow> 'w repo \<Rightarrow> rat \<Rightarrow> rat \<Rightarrow> string \<Rightarrow> string option \<Rightarrow> int option \<Rightarrow> int option \<Rightarrow> string option \<Rightarrow>
   string option \<Rightarrow> db \<Rightarrow> 'w \<Rightarrow> (core_error, phase_a_answer \<times> db) result \<times> 'w" where
  "connect_phase_a g R now tick tid aid fn epoch request arg_digest db w =
     (case sweep_inline g now db of
        Inl e \<Rightarrow> (Inl e, w)
      | Inr db \<Rightarrow>
          (case connect_guards tid aid fn epoch db of
             Inl answer \<Rightarrow> (Inr (Answered answer, db), w)
           | Inr (t, writes) \<Rightarrow>
               (case claimed_write_globs writes of
                  Inl e \<Rightarrow> (Inl e, w)
                | Inr globs \<Rightarrow>
                    (case snapshot_connect_candidate (g_repo_bound g) R tid (t_branch t) globs w of
                       (Inl e, w) \<Rightarrow> (Inr (Answered (ok_false ''writeset_audit_error'' [(''retryable'', JBool True),
                         (''audit_error'', JStr (error_text e)), (''task_id'', JStr tid)]), db), w)
                     | (Inr snap, w) \<Rightarrow>
                         (connect_admit g now tick aid request arg_digest t writes snap globs db, w)))))"

section \<open>Phase B\<close>

definition task_trailer :: "string \<Rightarrow> string" where
  "task_trailer tid = ''OMD-Connect: '' @ tid"

definition attempt_trailer :: "string \<Rightarrow> string" where
  "attempt_trailer attempt = ''OMD-Connect-Attempt: '' @ attempt"

definition line_feed :: string where
  "line_feed = [CHR 0x0A]"

definition merge_message :: "intent \<Rightarrow> string" where
  "merge_message it = ''CLOUD CONNECT '' @ it_task_id it @ line_feed @ line_feed @ task_trailer (it_task_id it) @ line_feed @
     attempt_trailer (it_attempt_id it)"

definition ensure_integration_wt :: "'w repo \<Rightarrow> ('w, unit) io" where
  "ensure_integration_wt R = (\<lambda>w.
     if path_exists (r_host R) (r_worktree R @ ''/.git'') w then (Inr (), w)
     else io_bind (git (r_host R) [''worktree'', ''prune'']) (\<lambda>_.
          io_bind (git (r_host R) [''worktree'', ''add'', r_worktree R, r_integration_branch R]) (\<lambda>_. io_return ())) w)"

text \<open>The merge of the audited commit and its evidence: the commit that carries the trailer of this attempt.\<close>

definition merge_audited :: "config \<Rightarrow> 'w repo \<Rightarrow> intent \<Rightarrow> string \<Rightarrow> ('w, string) io" where
  "merge_audited g R it candidate =
     io_bind (merge_into (r_host R) (r_integration_branch R) candidate (merge_message it) (Some (g_merge_timeout g))
         (r_check R) (r_check_timeout R) (r_check_limit R)) (\<lambda>sha.
     io_bind (branch_in_integration (r_host R) (r_integration_branch R) (attempt_trailer (it_attempt_id it)) True) (\<lambda>found.
     io_bind (if found \<noteq> Some sha then commit_empty_integration (r_host R) (merge_message it) else io_return sha) (\<lambda>sha.
     io_bind (assert_ancestor (r_host R) candidate sha) (\<lambda>_. io_return sha))))"

definition push_merged :: "config \<Rightarrow> 'w repo \<Rightarrow> string option \<Rightarrow> ('w, unit) io" where
  "push_merged g R push =
     (let remote = (case push of None \<Rightarrow> r_auto_push R | Some p \<Rightarrow> Some p) in
      if present remote
      then ignore_errors (push_integration (r_host R) (r_integration_branch R) (the remote) (Some (g_merge_timeout g)))
      else io_return ())"

text \<open>The commit that was merged, or the error; both are missing without a repository.\<close>

definition connect_phase_b ::
  "config \<Rightarrow> 'w repo \<Rightarrow> intent \<Rightarrow> string option \<Rightarrow> ('w, string option \<times> git_error option) io" where
  "connect_phase_b g R it push =
     (if \<not> g_repo_bound g then io_return (None, None)
      else io_catch
        (if \<not> present (it_branch_tip_sha it) then
           io_raise (GitError (''connect intent for '' @ it_task_id it @ '' has no audited branch tip''))
         else
           io_bind (branch_tip (r_host R) (r_integration_branch R) True) (\<lambda>current.
           if \<not> present (it_integration_base_sha it) \<or> current \<noteq> it_integration_base_sha it then
             io_raise (GitIntegrationPreconditionError (''integration branch drifted before connect '' @ it_task_id it))
           else
             io_bind (ensure_integration_wt R) (\<lambda>_.
             io_bind (merge_audited g R it (the (it_branch_tip_sha it))) (\<lambda>sha.
             io_bind (push_merged g R push) (\<lambda>_. io_return (Some sha, None))))))
        (\<lambda>e. io_return (None, Some e)))"

section \<open>Phase C: what Git proves\<close>

record merge_proof =
  mp_proven :: "string option"
  mp_problem :: "string option"
  mp_rolled_back :: bool
  mp_sha :: "string option"
  mp_error :: "git_error option"

fun is_precondition :: "git_error \<Rightarrow> bool" where
  "is_precondition (GitIntegrationPreconditionError _) = True"
| "is_precondition _ = False"

fun rollback_of :: "git_error \<Rightarrow> string list option" where
  "rollback_of (GitRollbackError _ ps) = Some ps"
| "rollback_of _ = None"

fun conflicts_of :: "git_error \<Rightarrow> string list option" where
  "conflicts_of (GitMergeConflict _ ps) = Some ps"
| "conflicts_of _ = None"

text \<open>The trailer of the attempt in the integration branch decides: found, with the audited commit among its
  ancestors, the merge happened whatever Phase B said; not found, an error other than a failed rollback
  and a precondition needs a verified rollback to the base of Phase A.\<close>

definition connect_proof :: "config \<Rightarrow> 'w repo \<Rightarrow> intent \<Rightarrow> string option \<Rightarrow> git_error option \<Rightarrow> ('w, merge_proof) io" where
  "connect_proof g R it sha err =
     (let start = \<lparr>mp_proven = None, mp_problem = None, mp_rolled_back = \<not> it_repo_bound it, mp_sha = sha, mp_error = err\<rparr> in
      if \<not> it_repo_bound it then io_return start
      else if \<not> g_repo_bound g then io_return (start\<lparr>mp_problem := Some ''repo_unavailable''\<rparr>)
      else io_catch
        (io_bind (ensure_integration_wt R) (\<lambda>_.
         io_bind (branch_in_integration (r_host R) (r_integration_branch R) (attempt_trailer (it_attempt_id it)) True) (\<lambda>found.
         case found of
           Some proven \<Rightarrow>
             if \<not> present (it_branch_tip_sha it) then io_raise (GitError ''missing audited branch tip'')
             else io_bind (assert_ancestor (r_host R) (the (it_branch_tip_sha it)) proven) (\<lambda>_.
               io_return (start\<lparr>mp_proven := Some proven, mp_sha := Some proven, mp_error := None\<rparr>))
         | None \<Rightarrow>
             (case err of
                None \<Rightarrow> io_return start
              | Some e \<Rightarrow>
                  if is_precondition e then io_return (start\<lparr>mp_rolled_back := True\<rparr>)
                  else if rollback_of e \<noteq> None then io_return start
                  else (case it_integration_base_sha it of
                      None \<Rightarrow> io_return (start\<lparr>mp_problem := Some ''missing_integration_base''\<rparr>)
                    | Some base \<Rightarrow> io_bind (abort_and_verify (r_host R) base) (\<lambda>_.
                        io_return (start\<lparr>mp_rolled_back := True\<rparr>)))))))
        (\<lambda>e. io_return (start\<lparr>mp_problem := Some (''git_reconciliation_unavailable:'' @ error_text e)\<rparr>)))"

definition culprit_of :: "commit \<Rightarrow> json" where
  "culprit_of c = JDict [(''sha'', JStr (c_sha c)), (''kind'', JStr (kind_value (classify c))),
     (''author'', JStr (c_author c)), (''subject'', JStr (c_subject c))]"

definition diagnose_conflict :: "config \<Rightarrow> 'w repo \<Rightarrow> string option \<Rightarrow> string list \<Rightarrow> ('w, json list) io" where
  "diagnose_conflict g R branch files =
     (if \<not> g_repo_bound g \<or> \<not> present branch \<or> files = [] then io_return []
      else io_catch
        (io_bind (ensure_integration_wt R) (\<lambda>_.
         io_bind (git (r_host R) [''merge-base'', the branch, r_integration_branch R]) (\<lambda>mb.
         io_bind (commits_touching (r_host R) (mb @ ''..'' @ r_integration_branch R) files) (\<lambda>cs.
           io_return (map culprit_of cs)))))
        (\<lambda>_. io_return []))"

section \<open>Phase C: the store\<close>

definition idem_bound :: "intent \<Rightarrow> db \<Rightarrow> bool" where
  "idem_bound it db \<longleftrightarrow>
     (case it_request_id it of
        None \<Rightarrow> True
      | Some r \<Rightarrow>
          (case get_idem r db of
             None \<Rightarrow> False
           | Some i \<Rightarrow> i_status i = ''INFLIGHT'' \<and> i_agent_id i = it_request_agent it \<and> i_verb i = ''connect'' \<and>
               Some (i_arg_hash i) = it_request_arg_hash it \<and> i_operation_id i = Some (it_attempt_id it) \<and>
               i_owner_instance i = Some (it_owner_instance it) \<and>
               i_owner_generation i = Some (it_owner_generation it)))"

definition token_bound :: "config \<Rightarrow> intent \<Rightarrow> orbit \<Rightarrow> bool" where
  "token_bound g it k \<longleftrightarrow> o_state k = ''HELD'' \<and> o_kind k = ''merge_token'' \<and>
     o_resource_key k = Some (g_merge_resource g) \<and> agent_id k = it_token_agent it \<and>
     o_operation_id k = Some (it_attempt_id it) \<and> o_owner_instance k = Some (it_owner_instance it) \<and>
     o_owner_generation k = Some (it_owner_generation it)"

definition task_bound :: "intent \<Rightarrow> string \<Rightarrow> task \<Rightarrow> bool" where
  "task_bound it token t \<longleftrightarrow> t_state t = ''CONNECTING'' \<and> t_connect_attempt_id t = Some (it_attempt_id it) \<and>
     t_connect_owner_instance t = Some (it_owner_instance it) \<and>
     t_connect_owner_generation t = it_owner_generation it \<and> t_connect_token_id t = Some token"

definition pinned_write :: "string \<Rightarrow> string \<Rightarrow> db \<Rightarrow> bool" where
  "pinned_write tid oid db \<longleftrightarrow>
     (case get_orbit oid db of None \<Rightarrow> False | Some o' \<Rightarrow> o_task_id o' = Some tid \<and> o_state o' = ''HELD'' \<and> o_merging o')"

definition attempt_owned :: "config \<Rightarrow> intent \<Rightarrow> db \<Rightarrow> bool" where
  "attempt_owned g it db \<longleftrightarrow>
     (case (get_task (it_task_id it) db, get_orbit (it_token_id it) db) of
        (Some t, Some k) \<Rightarrow> task_bound it (it_token_id it) t \<and> token_bound g it k
      | _ \<Rightarrow> False) \<and>
     list_all (\<lambda>oid. pinned_write (it_task_id it) oid db) (it_writes it) \<and> idem_bound it db"

text \<open>A response with the flag by which the caller keeps the request in flight.\<close>

definition preserved :: "dict \<Rightarrow> json" where
  "preserved kvs = JDict ((''ok'', JBool False) # kvs @ [(''_preserve_idempotency'', JBool True)])"

definition fence_response :: "intent \<Rightarrow> json" where
  "fence_response it = preserved [(''task_id'', JStr (it_task_id it)), (''fenced_out'', JBool True),
     (''reason'', JStr ''connect attempt ownership lost'')]"

definition stopped :: "intent \<Rightarrow> string \<Rightarrow> dict \<Rightarrow> json" where
  "stopped it reason kvs = preserved ([(''task_id'', JStr (it_task_id it)), (''state'', JStr ''CONNECTING''),
     (''retryable'', JBool False), (''reason'', JStr reason)] @ kvs)"

text \<open>The pins lose their deadline and stay.\<close>

definition hold_pins :: "string list \<Rightarrow> db \<Rightarrow> db" where
  "hold_pins ids db = fold (\<lambda>i. set_orbit i (no_set\<lparr>u_merge_deadline := Some None\<rparr>)) ids db"

text \<open>The four cases in which the attempt stops where it is.\<close>

definition connect_stop :: "intent \<Rightarrow> merge_proof \<Rightarrow> db \<Rightarrow> (json \<times> db) option" where
  "connect_stop it p db =
     (case mp_problem p of
        Some s \<Rightarrow> Some (stopped it ''git_reconciliation_unavailable'' [(''error'', JStr s)], hold_pins (it_writes it) db)
      | None \<Rightarrow>
          (case mp_error p of
             None \<Rightarrow>
               if it_repo_bound it \<and> (\<not> present (mp_sha p) \<or> mp_proven p \<noteq> mp_sha p) then
                 Some (stopped it ''missing_exact_git_proof'' [(''merge_sha'', opt_str (mp_sha p)), (''proven_sha'', opt_str (mp_proven p))],
                   hold_pins (it_writes it) db)
               else None
           | Some e \<Rightarrow>
               (case rollback_of e of
                  Some ps \<Rightarrow> Some (stopped it ''integration_rollback_failed''
                      [(''error'', JStr (error_text e)), (''problems'', JList (map JStr ps))],
                    hold_pins (map orbit_id (pinned_orbits_for_task (it_task_id it) db)) db)
                | None \<Rightarrow> if it_repo_bound it \<and> \<not> mp_rolled_back p then Some (stopped it ''rollback_unproven'' [], db) else None)))"

definition unpin_orbit :: "orbit \<Rightarrow> db \<Rightarrow> db" where
  "unpin_orbit o' db = set_orbit (orbit_id o') (no_set\<lparr>u_merging := Some False, u_merge_deadline := Some None\<rparr>) db"

definition detached :: "string \<Rightarrow> task \<Rightarrow> task" where
  "detached st t = t\<lparr>t_state := st, t_connect_intent_at := None, t_integration_base_sha := None,
     t_connect_attempt_id := None, t_connect_owner_instance := None, t_connect_token_id := None,
     t_connect_request_id := None, t_connect_arg_hash := None, t_connect_repo_bound := False\<rparr>"

fun failure_reason :: "git_error \<Rightarrow> string" where
  "failure_reason (GitIntegrationCheckTimeout _ _) = ''integration_check_timeout''"
| "failure_reason (GitIntegrationMutation _ _ _) = ''integration_check_mutation''"
| "failure_reason (GitIntegrationCheckFailed _ _) = ''integration_check_failed''"
| "failure_reason (GitIntegrationPreconditionError _) = ''integration_precondition_failed''"
| "failure_reason e = (if is_timeout e then ''merge timeout'' else ''merge conflict'')"

definition report_fields :: "git_error \<Rightarrow> dict" where
  "report_fields e = (case check_report_of e of
      None \<Rightarrow> []
    | Some r \<Rightarrow> [(''check_returncode'', opt_int (cr_returncode r)), (''check_stdout'', JStr (cr_stdout r)),
        (''check_stderr'', JStr (cr_stderr r))] @
        (case e of GitIntegrationMutation _ _ ms \<Rightarrow> [(''mutations'', JList (map JStr ms))] | _ \<Rightarrow> []))"

definition resolve_task_id :: "string \<Rightarrow> string" where
  "resolve_task_id tid = ''resolve::'' @ tid"

definition promote_resolve_task :: "rat \<Rightarrow> string \<Rightarrow> string list \<Rightarrow> db \<Rightarrow> string \<times> db" where
  "promote_resolve_task now tid files db =
     (let rid = resolve_task_id tid in
      if (case get_task rid db of None \<Rightarrow> False | Some t \<Rightarrow> \<not> terminal_task t) then (rid, db)
      else (rid, add_task now rid (''resolve conflict for '' @ tid) [] [] [] ''PENDING'' 0 [] (Some tid) (Some files) db))"

text \<open>The failure of Phase B: the attempt is undone and the task is \<open>DONE\<close> again. A conflict adds its files, the
  commits that caused it and a task that stands for its resolution.\<close>

definition connect_roll_back ::
  "config \<Rightarrow> rat \<Rightarrow> intent \<Rightarrow> git_error \<Rightarrow> json list \<Rightarrow> db \<Rightarrow> (core_error, json \<times> db) result" where
  "connect_roll_back g now it e culprits db =
     (let tid = it_task_id it; db = fold unpin_orbit (pinned_orbits_for_task tid db) db in
      bind_res (step_state g ''task'' ''CONNECTING'' ''rollback'') (\<lambda>st.
      bind_res (release_merge_token g now (it_token_id it) (set_task tid (detached st) db)) (\<lambda>db.
      bind_res (reconcile_admission g now db) (\<lambda>db.
        let (extra, db) = (case conflicts_of e of
                None \<Rightarrow> ([], db)
              | Some files \<Rightarrow> let (rid, db) = promote_resolve_task now tid files db in
                  ([(''conflict_files'', JList (map JStr files)), (''culprits'', JList culprits), (''resolve_task_id'', JStr rid)], db));
            shared = list_ex (\<lambda>o'. mode o' = ''shared'') (orbits_for_task tid db);
            reason = (if failure_reason e = ''merge conflict'' \<and> shared then ''shared_conflict'' else failure_reason e);
            verdict = (if take 12 reason = ''integration_'' then [(''reason'', JStr reason), (''error'', JStr (error_text e))]
              else [(''reason'', JStr (reason @ '': '' @ error_text e))])
        in Inr (JDict ([(''ok'', JBool False), (''task_id'', JStr tid), (''state'', JStr ''DONE''), (''retryable'', JBool True)] @
             report_fields e @ extra @ verdict), db)))))"

text \<open>The success: the commit is recorded first, then the state, the generation with its log and the reads it
  makes stale, and last the leases and the token are given back.\<close>

definition connect_commit :: "config \<Rightarrow> rat \<Rightarrow> intent \<Rightarrow> string option \<Rightarrow> db \<Rightarrow> (core_error, json \<times> db) result" where
  "connect_commit g now it sha db =
     (let tid = it_task_id it; db = set_task tid (\<lambda>t. t\<lparr>t_merge_sha := sha, t_merged_at := Some now\<rparr>) db in
      bind_res (step_state g ''task'' ''CONNECTING'' ''merged'') (\<lambda>st.
      let db = set_task tid (\<lambda>t. t\<lparr>t_state := st, t_connect_intent_at := None, t_integration_base_sha := None\<rparr>) db;
          (gen, db) = bump_integration_gen db
      in bind_res (merged_write_globs tid db) (\<lambda>globs.
         bind_res (mark_stale_reads now tid gen globs (append_merge_log now gen tid globs db)) (\<lambda>(stale, db).
         bind_res (release_task_write_orbits g now tid db) (\<lambda>db.
         bind_res (release_merge_token g now (it_token_id it) db) (\<lambda>db.
         bind_res (reconcile_admission g now (set_flag now tid (Some ''merged'') None db)) (\<lambda>db.
           Inr (JDict [(''ok'', JBool True), (''task_id'', JStr tid), (''state'', JStr ''MERGED''), (''merge_sha'', opt_str sha),
             (''gen'', JInt gen), (''stale_reads'', JList (map JStr stale))], db))))))))"

definition connect_phase_c ::
  "config \<Rightarrow> 'w repo \<Rightarrow> rat \<Rightarrow> intent \<Rightarrow> string option \<Rightarrow> git_error option \<Rightarrow> db \<Rightarrow> 'w \<Rightarrow>
   (core_error, json \<times> db) result \<times> 'w" where
  "connect_phase_c g R now it sha err db w =
     (case connect_proof g R it sha err w of
        (Inl e, w) \<Rightarrow> (Inl (RaisedGit e), w)
      | (Inr p, w) \<Rightarrow>
          if \<not> attempt_owned g it db then (Inr (fence_response it, db), w)
          else (case connect_stop it p db of
              Some r \<Rightarrow> (Inr r, w)
            | None \<Rightarrow>
                (case mp_error p of
                   None \<Rightarrow> (connect_commit g now it (mp_sha p) db, w)
                 | Some e \<Rightarrow>
                     (case diagnose_conflict g R (if present (it_branch_tip_sha it) then it_branch_tip_sha it else it_branch it)
                          (case conflicts_of e of None \<Rightarrow> [] | Some ps \<Rightarrow> ps) w of
                        (Inl f, w) \<Rightarrow> (Inl (RaisedGit f), w)
                      | (Inr culprits, w) \<Rightarrow> (connect_roll_back g now it e culprits db, w)))))"

end
