(* ===== verification/Recovery.thy ===== *)
theory Recovery
  imports Connect
begin

text \<open>
  The recovery of interrupted connects (\<open>Coordinator._recover_under_effect\<close> of \<open>omd_server/core.py\<close>). It runs
  when a coordinator starts and before every connect, under the lock that excludes a live peer, in one
  critical section: each task found \<open>CONNECTING\<close> is checked against its token and its request, taken over
  and reconciled with what Git says; tokens nobody owns expire; barriers caught in a trip are resolved;
  and the requests left in flight are answered, reopened or kept. A task is of the old kind (legacy) when
  it has no attempt identity; the identity the code makes up for it in its telemetry is left out.
\<close>

section \<open>The binding of an interrupted attempt\<close>

abbreviation legacy_attempt :: "task \<Rightarrow> bool" where
  "legacy_attempt t \<equiv> t_connect_attempt_id t = None"

definition token_agents :: "task \<Rightarrow> string list" where
  "token_agents t = (case t_agent_id t of None \<Rightarrow> [] | Some a \<Rightarrow> [a]) @ [''connect:'' @ t_task_id t, ''barrier:'' @ t_task_id t]"

text \<open>A HELD merge token of this resource that one of the task's names owns.\<close>

definition token_of_task :: "config \<Rightarrow> task \<Rightarrow> orbit \<Rightarrow> bool" where
  "token_of_task g t k \<longleftrightarrow> o_state k = ''HELD'' \<and> o_kind k = ''merge_token'' \<and>
     o_resource_key k = Some (g_merge_resource g) \<and> agent_id k \<in> set (token_agents t)"

definition unbound_token :: "config \<Rightarrow> task \<Rightarrow> orbit \<Rightarrow> bool" where
  "unbound_token g t k \<longleftrightarrow> token_of_task g t k \<and> o_operation_id k = None \<and> o_owner_instance k = None \<and>
     o_owner_generation k = None"

definition adopted_token :: "config \<Rightarrow> task \<Rightarrow> db \<Rightarrow> orbit option" where
  "adopted_token g t db =
     (case filter (\<lambda>k. o_resource_key k = Some (g_merge_resource g)) (all_held_merge_tokens db) of
        [k] \<Rightarrow> if unbound_token g t k then Some k else None
      | _ \<Rightarrow> None)"

definition recorded_token :: "task \<Rightarrow> db \<Rightarrow> orbit option" where
  "recorded_token t db = (if present (t_connect_token_id t) then get_orbit (the (t_connect_token_id t)) db else None)"

text \<open>The token row, and the token id that is released or protected, which may name no row.\<close>

definition stranded_token :: "config \<Rightarrow> task \<Rightarrow> db \<Rightarrow> orbit option \<times> string option" where
  "stranded_token g t db =
     (case recorded_token t db of
        Some k \<Rightarrow> (Some k, t_connect_token_id t)
      | None \<Rightarrow>
          (case if legacy_attempt t then adopted_token g t db else None of
             Some k \<Rightarrow> (Some k, Some (orbit_id k))
           | None \<Rightarrow> (None, t_connect_token_id t)))"

definition attempt_fault :: "task \<Rightarrow> string option" where
  "attempt_fault t =
     (if legacy_attempt t then
        if t_connect_owner_instance t \<noteq> None \<or> t_connect_owner_generation t \<noteq> 0
        then Some ''legacy_attempt_binding_mismatch'' else None
      else
        if \<not> present (t_connect_attempt_id t) \<or> \<not> present (t_connect_owner_instance t) \<or> t_connect_owner_generation t \<le> 0
        then Some ''modern_attempt_binding_invalid'' else None)"

definition generation_of :: "int option \<Rightarrow> int" where
  "generation_of gen = (case gen of None \<Rightarrow> 0 | Some n \<Rightarrow> n)"

definition token_fault :: "config \<Rightarrow> task \<Rightarrow> orbit option \<Rightarrow> string option" where
  "token_fault g t tok =
     (case tok of
        None \<Rightarrow> if legacy_attempt t then None else Some ''modern_token_missing''
      | Some k \<Rightarrow>
          if legacy_attempt t then if unbound_token g t k then None else Some ''legacy_token_binding_mismatch''
          else if token_of_task g t k \<and> o_operation_id k = t_connect_attempt_id t \<and>
              o_owner_instance k = t_connect_owner_instance t \<and>
              generation_of (o_owner_generation k) = t_connect_owner_generation t
            then None else Some ''modern_token_binding_mismatch'')"

definition has_request :: "task \<Rightarrow> bool" where
  "has_request t \<longleftrightarrow> t_connect_request_id t \<noteq> None \<or> t_connect_arg_hash t \<noteq> None"

definition request_fault :: "task \<Rightarrow> db \<Rightarrow> string option" where
  "request_fault t db =
     (if \<not> has_request t then None
      else if \<not> present (t_connect_request_id t) \<or> \<not> present (t_connect_arg_hash t) then Some ''invalid_request_binding''
      else (case get_idem (the (t_connect_request_id t)) db of
          None \<Rightarrow> Some ''idempotency_binding_missing''
        | Some i \<Rightarrow>
            if i_status i \<noteq> ''INFLIGHT'' \<or> i_verb i \<noteq> ''connect'' \<or> Some (i_arg_hash i) \<noteq> t_connect_arg_hash t
            then Some ''idempotency_binding_missing''
            else if legacy_attempt t then
              if i_operation_id i \<noteq> None \<or> i_owner_instance i \<noteq> None \<or> i_owner_generation i \<noteq> None
              then Some ''legacy_idempotency_binding_mismatch'' else None
            else if i_operation_id i = t_connect_attempt_id t \<and> i_owner_instance i = t_connect_owner_instance t \<and>
                generation_of (i_owner_generation i) = t_connect_owner_generation t
              then None else Some ''modern_idempotency_binding_mismatch''))"

definition binding_error :: "config \<Rightarrow> task \<Rightarrow> db \<Rightarrow> string option" where
  "binding_error g t db =
     (case token_fault g t (fst (stranded_token g t db)) of
        Some why \<Rightarrow> Some why
      | None \<Rightarrow> (case attempt_fault t of Some why \<Rightarrow> Some why | None \<Rightarrow> request_fault t db))"

section \<open>Taking over\<close>

text \<open>The attempt keeps its identity and gets the recovering instance as its owner, one generation later.\<close>

definition take_over :: "config \<Rightarrow> task \<Rightarrow> string \<Rightarrow> db \<Rightarrow> (core_error, db) result" where
  "take_over g t tok db =
     (let gen = t_connect_owner_generation t + 1;
          db = set_task (t_task_id t) (\<lambda>x. x\<lparr>t_connect_attempt_id := t_connect_attempt_id t,
            t_connect_owner_instance := Some (g_instance_id g), t_connect_owner_generation := gen,
            t_connect_token_id := Some tok\<rparr>) db;
          db = set_orbit tok (no_set\<lparr>u_operation_id := Some (t_connect_attempt_id t),
            u_owner_instance := Some (Some (g_instance_id g)), u_owner_generation := Some (Some gen)\<rparr>) db
      in if \<not> has_request t then Inr db
         else (case get_idem (the (t_connect_request_id t)) db of
             None \<Rightarrow> Inl (RuntimeError ''connect recovery ownership CAS lost'')
           | Some i \<Rightarrow>
               (case takeover_idem_operation_exact (i_request_id i) (i_agent_id i) ''connect'' (the (t_connect_arg_hash t))
                    (the (t_connect_attempt_id t)) (t_connect_owner_instance t) (Some (t_connect_owner_generation t))
                    (Some (g_instance_id g)) (Some gen) db of (bound, db) \<Rightarrow>
                  if bound then Inr db else Inl (RuntimeError ''connect recovery ownership CAS lost''))))"

section \<open>What Git says\<close>

text \<open>The verdict on one attempt: undecided, with the pins held without a deadline or left alone; merged, with the
  commit; or not merged, with the worktree rolled back.\<close>

datatype recovery_verdict = Undecided bool | FoundMerged string | NotMerged

definition attempt :: "('w, 'a) io \<Rightarrow> ('w, git_error + 'a) io" where
  "attempt m = io_catch (io_bind m (\<lambda>x. io_return (Inr x))) (\<lambda>e. io_return (Inl e))"

definition recovery_trailer :: "task \<Rightarrow> string" where
  "recovery_trailer t = (case t_connect_attempt_id t of None \<Rightarrow> task_trailer (t_task_id t) | Some a \<Rightarrow> attempt_trailer a)"

definition undo_unmerged :: "'w repo \<Rightarrow> task \<Rightarrow> ('w, recovery_verdict) io" where
  "undo_unmerged R t =
     (if \<not> present (t_integration_base_sha t) then io_return (Undecided False)
      else io_bind (attempt (abort_and_verify (r_host R) (the (t_integration_base_sha t)))) (\<lambda>r.
        case r of
          Inr _ \<Rightarrow> io_return NotMerged
        | Inl e \<Rightarrow> if rollback_of e \<noteq> None then io_raise e else io_return (Undecided True)))"

definition confirm_merged :: "'w repo \<Rightarrow> task \<Rightarrow> string \<Rightarrow> ('w, recovery_verdict) io" where
  "confirm_merged R t sha =
     (if legacy_attempt t then io_return (FoundMerged sha)
      else io_bind (attempt
          (if \<not> present (t_branch_tip_sha t) then io_raise (GitError ''missing audited branch tip'')
           else assert_ancestor (r_host R) (the (t_branch_tip_sha t)) sha)) (\<lambda>r.
        io_return (case r of Inr _ \<Rightarrow> FoundMerged sha | Inl _ \<Rightarrow> Undecided True)))"

definition git_verdict :: "config \<Rightarrow> 'w repo \<Rightarrow> bool \<Rightarrow> task \<Rightarrow> ('w, recovery_verdict) io" where
  "git_verdict g R wt t =
     (if \<not> t_connect_repo_bound t then io_return NotMerged
      else if \<not> g_repo_bound g \<or> \<not> wt then io_return (Undecided True)
      else io_bind (attempt (branch_in_integration (r_host R) (r_integration_branch R) (recovery_trailer t) True)) (\<lambda>r.
        case r of
          Inl _ \<Rightarrow> io_return (Undecided True)
        | Inr (Some sha) \<Rightarrow> confirm_merged R t sha
        | Inr None \<Rightarrow> undo_unmerged R t))"

section \<open>One task\<close>

record recovery =
  rv_db :: db
  rv_protected :: "string list"
  rv_unresolved :: bool

definition release_stranded :: "config \<Rightarrow> rat \<Rightarrow> string option \<Rightarrow> db \<Rightarrow> (core_error, db) result" where
  "release_stranded g now tok db = (case tok of None \<Rightarrow> Inr db | Some i \<Rightarrow> release_merge_token g now i db)"

definition complete_merged :: "config \<Rightarrow> rat \<Rightarrow> string \<Rightarrow> string option \<Rightarrow> string \<Rightarrow> db \<Rightarrow> (core_error, db) result" where
  "complete_merged g now tid tok sha db =
     (let (gen, db) = bump_integration_gen (set_task tid (\<lambda>t. t\<lparr>t_merge_sha := Some sha, t_merged_at := Some now\<rparr>) db)
      in bind_res (merged_write_globs tid db) (\<lambda>globs.
         bind_res (mark_stale_reads now tid gen globs (append_merge_log now gen tid globs db)) (\<lambda>(_, db).
         bind_res (release_task_write_orbits g now tid db) (\<lambda>db.
         bind_res (step_state g ''task'' ''CONNECTING'' ''merged'') (\<lambda>st.
         bind_res (release_stranded g now tok (set_task tid
             (\<lambda>t. t\<lparr>t_state := st, t_connect_intent_at := None, t_integration_base_sha := None\<rparr>) db)) (\<lambda>db.
           Inr (set_flag now tid (Some ''merged'') None db)))))))"

definition undo_attempt :: "config \<Rightarrow> rat \<Rightarrow> string \<Rightarrow> string option \<Rightarrow> db \<Rightarrow> (core_error, db) result" where
  "undo_attempt g now tid tok db =
     bind_res (step_state g ''task'' ''CONNECTING'' ''rollback'') (\<lambda>st.
       release_stranded g now tok
         (set_task tid (detached st) (fold unpin_orbit (pinned_orbits_for_task tid db) db)))"

definition hold_task_pins :: "string \<Rightarrow> db \<Rightarrow> db" where
  "hold_task_pins tid db = hold_pins (map orbit_id (pinned_orbits_for_task tid db)) db"

definition apply_verdict ::
  "config \<Rightarrow> rat \<Rightarrow> string \<Rightarrow> string option \<Rightarrow> recovery_verdict \<Rightarrow> recovery \<Rightarrow> (core_error, recovery) result" where
  "apply_verdict g now tid tok verdict rv =
     (case verdict of
        Undecided hold \<Rightarrow> Inr (rv\<lparr>rv_db := (if hold then hold_task_pins tid (rv_db rv) else rv_db rv),
          rv_protected := (case tok of None \<Rightarrow> [] | Some i \<Rightarrow> [i]) @ rv_protected rv, rv_unresolved := True\<rparr>)
      | FoundMerged sha \<Rightarrow> bind_res (complete_merged g now tid tok sha (rv_db rv)) (\<lambda>db. Inr (rv\<lparr>rv_db := db\<rparr>))
      | NotMerged \<Rightarrow> bind_res (undo_attempt g now tid tok (rv_db rv)) (\<lambda>db. Inr (rv\<lparr>rv_db := db\<rparr>)))"

definition recover_task ::
  "config \<Rightarrow> 'w repo \<Rightarrow> rat \<Rightarrow> bool \<Rightarrow> task \<Rightarrow> recovery \<Rightarrow> 'w \<Rightarrow> (core_error, recovery) result \<times> 'w" where
  "recover_task g R now wt t rv w =
     (let db = rv_db rv; (token, tok) = stranded_token g t db in
      if binding_error g t db \<noteq> None then
        (Inr (rv\<lparr>rv_db := hold_task_pins (t_task_id t) db,
           rv_protected := map orbit_id (all_held_merge_tokens db) @ rv_protected rv, rv_unresolved := True\<rparr>), w)
      else (case if legacy_attempt t then Inr db else take_over g t (the tok) db of
          Inl e \<Rightarrow> (Inl e, w)
        | Inr db \<Rightarrow>
            (case get_task (t_task_id t) db of
               None \<Rightarrow> (Inl (RuntimeError ''task row is None''), w)
             | Some t \<Rightarrow>
                 (case git_verdict g R wt t w of
                    (Inl e, w) \<Rightarrow> (Inl (RaisedGit e), w)
                  | (Inr verdict, w) \<Rightarrow> (apply_verdict g now (t_task_id t) tok verdict (rv\<lparr>rv_db := db\<rparr>), w)))))"

fun recover_tasks ::
  "config \<Rightarrow> 'w repo \<Rightarrow> rat \<Rightarrow> bool \<Rightarrow> task list \<Rightarrow> recovery \<Rightarrow> 'w \<Rightarrow> (core_error, recovery) result \<times> 'w" where
  "recover_tasks g R now wt [] rv w = (Inr rv, w)"
| "recover_tasks g R now wt (t # ts) rv w =
     (case recover_task g R now wt t rv w of
        (Inl e, w) \<Rightarrow> (Inl e, w)
      | (Inr rv, w) \<Rightarrow> recover_tasks g R now wt ts rv w)"

section \<open>Tokens nobody owns\<close>

text \<open>An expired token also ends a merge that its holder left behind in the worktree.\<close>

definition expire_token :: "config \<Rightarrow> rat \<Rightarrow> string list \<Rightarrow> orbit \<Rightarrow> db \<Rightarrow> (core_error, db) result" where
  "expire_token g now protected k db =
     (if orbit_id k \<in> set protected then Inr db
      else bind_res (step_state g ''orbit'' ''HELD'' ''expire'') (\<lambda>st.
        Inr (set_orbit (orbit_id k) (no_set\<lparr>u_state := Some st, u_released_at := Some (Some now)\<rparr>) db)))"

definition expire_tokens :: "config \<Rightarrow> rat \<Rightarrow> string list \<Rightarrow> db \<Rightarrow> (core_error, db) result" where
  "expire_tokens g now protected db = for_rows (expire_token g now protected) (all_held_merge_tokens db) db"

definition abort_dangling :: "config \<Rightarrow> 'w repo \<Rightarrow> ('w, unit) io" where
  "abort_dangling g R = (\<lambda>w.
     if g_repo_bound g \<and> path_exists (r_host R) (r_worktree R) w then abort_merge (r_host R) w else (Inr (), w))"

fun abort_each :: "config \<Rightarrow> 'w repo \<Rightarrow> string list \<Rightarrow> orbit list \<Rightarrow> ('w, unit) io" where
  "abort_each g R protected [] = io_return ()"
| "abort_each g R protected (k # ks) =
     (if orbit_id k \<in> set protected then abort_each g R protected ks
      else io_bind (abort_dangling g R) (\<lambda>_. abort_each g R protected ks))"

section \<open>Barriers caught in a trip\<close>

text \<open>The proof that a merged task was merged: an attempt without a repository needs none.\<close>

definition merge_evidence :: "'w repo \<Rightarrow> task \<Rightarrow> ('w, string option) io" where
  "merge_evidence R t =
     io_bind (attempt (io_bind (ensure_integration_wt R) (\<lambda>_.
         branch_in_integration (r_host R) (r_integration_branch R)
           (if present (t_connect_attempt_id t) then attempt_trailer (the (t_connect_attempt_id t)) else task_trailer (t_task_id t)) True)))
       (\<lambda>r. case r of
          Inl e \<Rightarrow> io_return (Some (''git_proof_unavailable:'' @ error_text e))
        | Inr proven \<Rightarrow>
            if proven \<noteq> t_merge_sha t then io_return (Some ''trailer_sha_mismatch'')
            else if \<not> present (t_connect_attempt_id t) then io_return None
            else if \<not> present (t_branch_tip_sha t) then io_return (Some ''candidate_sha_missing'')
            else io_bind (attempt (assert_ancestor (r_host R) (the (t_branch_tip_sha t)) (the proven))) (\<lambda>r.
              io_return (case r of Inl e \<Rightarrow> Some (''candidate_ancestry_unproven:'' @ error_text e) | Inr _ \<Rightarrow> None)))"

text \<open>No reason means proven.\<close>

definition merged_task_effect_proven :: "config \<Rightarrow> 'w repo \<Rightarrow> task option \<Rightarrow> ('w, string option) io" where
  "merged_task_effect_proven g R task =
     (case task of
        None \<Rightarrow> io_return (Some ''task_not_merged'')
      | Some t \<Rightarrow>
          if t_state t \<noteq> ''MERGED'' then io_return (Some ''task_not_merged'')
          else if \<not> t_connect_repo_bound t then io_return None
          else if \<not> g_repo_bound g then io_return (Some ''repo_unavailable'')
          else if \<not> present (t_merge_sha t) then io_return (Some ''merge_sha_missing'')
          else merge_evidence R t)"

fun all_proven :: "config \<Rightarrow> 'w repo \<Rightarrow> task option list \<Rightarrow> ('w, bool) io" where
  "all_proven g R [] = io_return True"
| "all_proven g R (t # ts) =
     io_bind (merged_task_effect_proven g R t) (\<lambda>why. io_bind (all_proven g R ts) (\<lambda>rest. io_return (why = None \<and> rest)))"

definition recover_barrier :: "config \<Rightarrow> 'w repo \<Rightarrow> barrier \<Rightarrow> db \<Rightarrow> 'w \<Rightarrow> (core_error, db) result \<times> 'w" where
  "recover_barrier g R b db w =
     (let parts = map p_task_id (parties_of (b_barrier_id b) (b_generation b) db) in
      if parts \<noteq> [] \<and> list_all (merged_task db) parts then
        (case all_proven g R (map (\<lambda>tid. get_task tid db) parts) w of
           (Inl e, w) \<Rightarrow> (Inl (RaisedGit e), w)
         | (Inr False, w) \<Rightarrow> (Inr db, w)
         | (Inr True, w) \<Rightarrow> (bind_res (step_state g ''barrier'' ''TRIPPING'' ''trip'') (\<lambda>st.
             Inr (set_barrier (b_barrier_id b) (\<lambda>b. b\<lparr>b_state := st\<rparr>) db)), w))
      else (break_barrier g b ''coordinator_crash_partial_trip'' db, w))"

fun recover_barriers :: "config \<Rightarrow> 'w repo \<Rightarrow> barrier list \<Rightarrow> db \<Rightarrow> 'w \<Rightarrow> (core_error, db) result \<times> 'w" where
  "recover_barriers g R [] db w = (Inr db, w)"
| "recover_barriers g R (b # bs) db w =
     (case recover_barrier g R b db w of
        (Inl e, w) \<Rightarrow> (Inl e, w)
      | (Inr db, w) \<Rightarrow> recover_barriers g R bs db w)"

section \<open>Requests left in flight\<close>

text \<open>What becomes of a request: it is answered, it may be tried again, or it stays in flight.\<close>

datatype settlement = Answer json | Reopen | Keep

fun arg_text :: "json \<Rightarrow> string option" where
  "arg_text (JStr s) = Some s"
| "arg_text _ = None"

definition same_binding :: "task \<Rightarrow> idem_row \<Rightarrow> bool" where
  "same_binding t i \<longleftrightarrow>
     (t_connect_attempt_id t \<noteq> None \<and> t_connect_request_id t = Some (i_request_id i) \<and>
      t_connect_arg_hash t = Some (i_arg_hash i) \<and> t_connect_attempt_id t = i_operation_id i \<and>
      t_connect_owner_instance t = i_owner_instance i \<and>
      t_connect_owner_generation t = generation_of (i_owner_generation i)) \<or>
     (t_connect_attempt_id t = None \<and> t_connect_request_id t = None \<and> t_connect_arg_hash t = None \<and>
      i_operation_id i = None \<and> i_owner_instance i = None \<and> i_owner_generation i = None)"

definition settle_connect :: "config \<Rightarrow> 'w repo \<Rightarrow> idem_row \<Rightarrow> json \<Rightarrow> db \<Rightarrow> ('w, settlement) io" where
  "settle_connect g R i tid db =
     (case Option.bind (arg_text tid) (\<lambda>s. get_task s db) of
        None \<Rightarrow> io_return Reopen
      | Some t \<Rightarrow>
          if t_state t = ''MERGED'' then
            if same_binding t i then
              io_bind (merged_task_effect_proven g R (Some t)) (\<lambda>why. io_return
                (if why = None then Answer (JDict [(''ok'', JBool True), (''task_id'', tid), (''state'', JStr ''MERGED''),
                   (''merge_sha'', opt_str (t_merge_sha t)), (''recovered'', JBool True)])
                 else Keep))
            else io_return Keep
          else io_return (if t_state t = ''CONNECTING'' then Keep else Reopen))"

definition recovered_trip :: "barrier \<Rightarrow> json \<Rightarrow> dict \<Rightarrow> json" where
  "recovered_trip b ok rest = JDict ([(''ok'', ok), (''state'', JStr (b_state b)), (''name'', JStr (b_name b)),
     (''generation'', JInt (b_generation b))] @ rest @ [(''recovered'', JBool True)])"

definition party_matches :: "party option \<Rightarrow> idem_row \<Rightarrow> json \<Rightarrow> bool" where
  "party_matches p i fn \<longleftrightarrow>
     (case p of
        None \<Rightarrow> False
      | Some p \<Rightarrow> p_arrived p \<and> p_agent_id p = i_agent_id i \<and>
          (fn = JNull \<or> (case p_arrive_fence p of None \<Rightarrow> False | Some f \<Rightarrow> fn = JInt f)))"

definition settle_arrival :: "config \<Rightarrow> 'w repo \<Rightarrow> idem_row \<Rightarrow> json \<Rightarrow> json \<Rightarrow> json \<Rightarrow> db \<Rightarrow> ('w, settlement) io" where
  "settle_arrival g R i nm tid fn db =
     (case Option.bind (arg_text nm) (\<lambda>s. barrier_by_name s db) of
        None \<Rightarrow> io_return Keep
      | Some b \<Rightarrow>
          let party = Option.bind (arg_text tid) (\<lambda>s. get_barrier_party (b_barrier_id b) (b_generation b) s db);
              parts = map p_task_id (parties_of (b_barrier_id b) (b_generation b) db)
          in if \<not> party_matches party i fn then io_return Keep
             else if b_state b = ''TRIPPED'' \<or> b_state b = ''CONSUMED'' then
               io_bind (all_proven g R (map (\<lambda>s. get_task s db) parts)) (\<lambda>ok. io_return
                 (if parts = [] \<or> \<not> ok then Keep
                  else Answer (recovered_trip b (JBool True)
                    [(''merged'', JList (map JStr (filter (merged_task db) parts)))])))
             else if b_state b = ''BROKEN'' then
               io_return (Answer (recovered_trip b (JBool False)
                 [(''reason'', JStr (case b_break_reason b of None \<Rightarrow> ''broken'' | Some s \<Rightarrow> if s = [] then ''broken'' else s))]))
             else io_return Keep)"

definition settle_request :: "config \<Rightarrow> 'w repo \<Rightarrow> idem_row \<Rightarrow> db \<Rightarrow> ('w, settlement) io" where
  "settle_request g R i db =
     (case i_args i of
        Some (JList args) \<Rightarrow>
          if arg_hash (g_sha g) (i_verb i) (JList args) \<noteq> i_arg_hash i then io_return Keep
          else if i_verb i = ''connect'' \<and> length args = 5 \<and> args ! 1 = opt_str (i_agent_id i)
          then settle_connect g R i (args ! 0) db
          else if i_verb i = ''barrier_arrive'' \<and> length args = 4
          then settle_arrival g R i (args ! 0) (args ! 1) (args ! 2) db
          else io_return Keep
      | _ \<Rightarrow> io_return Keep)"

definition settle :: "rat \<Rightarrow> idem_row \<Rightarrow> settlement \<Rightarrow> db \<Rightarrow> (core_error, db) result" where
  "settle now i s db =
     (let checked = (\<lambda>(done, db). if done then Inr db else Inl (RuntimeError ''idempotency ownership lost during recovery'')) in
      case s of
        Answer r \<Rightarrow> checked (finish_idem_exact now (i_request_id i) (i_agent_id i) (i_verb i) (i_arg_hash i) r db)
      | Reopen \<Rightarrow> checked (mark_idem_retryable_exact (i_request_id i) (i_agent_id i) (i_verb i) (i_arg_hash i) db)
      | Keep \<Rightarrow> Inr db)"

fun settle_requests :: "config \<Rightarrow> 'w repo \<Rightarrow> rat \<Rightarrow> idem_row list \<Rightarrow> db \<Rightarrow> 'w \<Rightarrow> (core_error, db) result \<times> 'w" where
  "settle_requests g R now [] db w = (Inr db, w)"
| "settle_requests g R now (i # is) db w =
     (case settle_request g R i db w of
        (Inl e, w) \<Rightarrow> (Inl (RaisedGit e), w)
      | (Inr s, w) \<Rightarrow>
          (case settle now i s db of
             Inl e \<Rightarrow> (Inl e, w)
           | Inr db \<Rightarrow> settle_requests g R now is db w))"

section \<open>The recovery\<close>

definition repair_aborted :: "config \<Rightarrow> rat \<Rightarrow> db \<Rightarrow> (core_error, db) result" where
  "repair_aborted g now db =
     for_rows (\<lambda>t db. bind_res (terminalize_cancelled_task_orbits g now (t_task_id t) db) (\<lambda>(_, db). Inr db))
       (tasks_by_state [''ABORTED''] db) db"

definition recover_worktree :: "config \<Rightarrow> 'w repo \<Rightarrow> ('w, bool) io" where
  "recover_worktree g R =
     (if \<not> g_repo_bound g then io_return False
      else io_bind (attempt (ensure_integration_wt R)) (\<lambda>r. io_return (case r of Inl _ \<Rightarrow> False | Inr _ \<Rightarrow> True)))"

text \<open>What comes after the tasks.\<close>

definition recover_rest :: "config \<Rightarrow> 'w repo \<Rightarrow> rat \<Rightarrow> recovery \<Rightarrow> 'w \<Rightarrow> (core_error, db) result \<times> 'w" where
  "recover_rest g R now rv w =
     (case abort_each g R (rv_protected rv) (all_held_merge_tokens (rv_db rv)) w of
        (Inl e, w) \<Rightarrow> (Inl (RaisedGit e), w)
      | (Inr _, w) \<Rightarrow>
          (case expire_tokens g now (rv_protected rv) (rv_db rv) of
             Inl e \<Rightarrow> (Inl e, w)
           | Inr db \<Rightarrow>
               (case if rv_unresolved rv then (Inr db, w) else recover_barriers g R (all_barriers [''TRIPPING''] db) db w of
                  (Inl e, w) \<Rightarrow> (Inl e, w)
                | (Inr db, w) \<Rightarrow>
                    (case bind_res (repair_aborted g now db) (reconcile_admission g now) of
                       Inl e \<Rightarrow> (Inl e, w)
                     | Inr db \<Rightarrow> settle_requests g R now (inflight_idem db) db w))))"

definition recover :: "config \<Rightarrow> 'w repo \<Rightarrow> rat \<Rightarrow> db \<Rightarrow> 'w \<Rightarrow> (core_error, db) result \<times> 'w" where
  "recover g R now db w =
     (case recover_worktree g R w of
        (Inl e, w) \<Rightarrow> (Inl (RaisedGit e), w)
      | (Inr wt, w) \<Rightarrow>
          (case recover_tasks g R now wt (tasks_by_state [''CONNECTING''] db)
               \<lparr>rv_db = db, rv_protected = [], rv_unresolved = False\<rparr> w of
             (Inl e, w) \<Rightarrow> (Inl e, w)
           | (Inr rv, w) \<Rightarrow> recover_rest g R now rv w))"

end
