(* ===== verification/Exclusion.thy ===== *)
theory Exclusion
  imports LeaseVerbs
begin

text \<open>
  The authority invariant of the store under every verb on orbits: the live exclusive leases never
  conflict, row ids are never reused, no two rows carry the same fence, and a resource has at most one
  live merge token.
\<close>

section \<open>The invariant\<close>

definition held_orbit :: "orbit \<Rightarrow> bool" where
  "held_orbit o' \<longleftrightarrow> o_state o' = ''HELD'' \<and> o_kind o' = ''orbit''"

definition held_token :: "orbit \<Rightarrow> bool" where
  "held_token o' \<longleftrightarrow> o_state o' = ''HELD'' \<and> o_kind o' = ''merge_token''"

definition clash :: "orbit \<Rightarrow> orbit \<Rightarrow> bool" where
  "clash a b \<longleftrightarrow> conflicts (paths_of (adm a)) (mode a) (adm b)"

lemma clash_commute: "clash a b = clash b a"
  using conflicts_commute [of "adm a" "adm b"] by (simp add: clash_def)

definition row_name :: "nat \<Rightarrow> string" where
  "row_name k = ''orb-'' @ nat_text k"

lemma row_name_inj [simp]: "row_name j = row_name k \<longleftrightarrow> j = k"
  by (auto simp: row_name_def dest: nat_text_inj)

text \<open>A row is typed if its state is one of the machine's and a live lease carries a fence.\<close>

definition row_typed :: "orbit \<Rightarrow> bool" where
  "row_typed o' \<longleftrightarrow> o_state o' \<in> set orbit_states \<and> (o_state o' = ''HELD'' \<longrightarrow> fence o' \<noteq> None)"

definition rows_ok :: "orbit list \<Rightarrow> nat \<Rightarrow> int \<Rightarrow> bool" where
  "rows_ok os n fc \<longleftrightarrow>
     distinct (map orbit_id os) \<and>
     (\<forall>a\<in>set os. \<exists>k<n. orbit_id a = row_name k) \<and>
     (\<forall>a\<in>set os. o_kind a = ''orbit'' \<longrightarrow> sound_row (adm a)) \<and>
     (\<forall>a\<in>set os. \<forall>b\<in>set os. held_orbit a \<longrightarrow> held_orbit b \<longrightarrow> orbit_id a \<noteq> orbit_id b \<longrightarrow> \<not> clash a b) \<and>
     (\<forall>a\<in>set os. fence a \<noteq> None \<longrightarrow> the (fence a) \<le> fc) \<and>
     (\<forall>a\<in>set os. \<forall>b\<in>set os. fence a \<noteq> None \<longrightarrow> fence a = fence b \<longrightarrow> orbit_id a = orbit_id b) \<and>
     (\<forall>a\<in>set os. row_typed a) \<and>
     (\<forall>a\<in>set os. \<forall>b\<in>set os. held_token a \<longrightarrow> held_token b \<longrightarrow> o_resource_key a = o_resource_key b \<longrightarrow>
        orbit_id a = orbit_id b)"

definition store_inv :: "db \<Rightarrow> bool" where
  "store_inv db \<longleftrightarrow> rows_ok (orbits db) (uuids db) (fence_counter db)"

lemma rows_okI:
  assumes "distinct (map orbit_id os)"
    and "\<And>a. a \<in> set os \<Longrightarrow> \<exists>k<n. orbit_id a = row_name k"
    and "\<And>a. a \<in> set os \<Longrightarrow> o_kind a = ''orbit'' \<Longrightarrow> sound_row (adm a)"
    and "\<And>a b. a \<in> set os \<Longrightarrow> b \<in> set os \<Longrightarrow> held_orbit a \<Longrightarrow> held_orbit b \<Longrightarrow> orbit_id a \<noteq> orbit_id b \<Longrightarrow>
      \<not> clash a b"
    and "\<And>a f. a \<in> set os \<Longrightarrow> fence a = Some f \<Longrightarrow> f \<le> fc"
    and "\<And>a b f. a \<in> set os \<Longrightarrow> b \<in> set os \<Longrightarrow> fence a = Some f \<Longrightarrow> fence b = Some f \<Longrightarrow> orbit_id a = orbit_id b"
    and "\<And>a. a \<in> set os \<Longrightarrow> row_typed a"
    and "\<And>a b. a \<in> set os \<Longrightarrow> b \<in> set os \<Longrightarrow> held_token a \<Longrightarrow> held_token b \<Longrightarrow>
      o_resource_key a = o_resource_key b \<Longrightarrow> orbit_id a = orbit_id b"
  shows "rows_ok os n fc"
  unfolding rows_ok_def
proof (intro conjI ballI impI)
  show "the (fence a) \<le> fc" if a: "a \<in> set os" "fence a \<noteq> None" for a
    using assms(5) [OF a(1), of "the (fence a)"] a(2) by simp
  show "orbit_id a = orbit_id b" if a: "a \<in> set os" "b \<in> set os" "fence a \<noteq> None" "fence a = fence b" for a b
    by (rule assms(6) [OF a(1,2), of "the (fence a)"]) (use a(3,4) in auto)
qed (rule assms; assumption)+

lemma rows_okD:
  assumes "rows_ok os n fc"
  shows "distinct (map orbit_id os)"
    and "\<And>a. a \<in> set os \<Longrightarrow> \<exists>k<n. orbit_id a = row_name k"
    and "\<And>a. a \<in> set os \<Longrightarrow> o_kind a = ''orbit'' \<Longrightarrow> sound_row (adm a)"
    and "\<And>a b. a \<in> set os \<Longrightarrow> b \<in> set os \<Longrightarrow> held_orbit a \<Longrightarrow> held_orbit b \<Longrightarrow> orbit_id a \<noteq> orbit_id b \<Longrightarrow>
      \<not> clash a b"
    and "\<And>a f. a \<in> set os \<Longrightarrow> fence a = Some f \<Longrightarrow> f \<le> fc"
    and "\<And>a b f. a \<in> set os \<Longrightarrow> b \<in> set os \<Longrightarrow> fence a = Some f \<Longrightarrow> fence b = Some f \<Longrightarrow> orbit_id a = orbit_id b"
    and "\<And>a. a \<in> set os \<Longrightarrow> row_typed a"
    and "\<And>a b. a \<in> set os \<Longrightarrow> b \<in> set os \<Longrightarrow> held_token a \<Longrightarrow> held_token b \<Longrightarrow>
      o_resource_key a = o_resource_key b \<Longrightarrow> orbit_id a = orbit_id b"
proof -
  note ok = assms [unfolded rows_ok_def]
  show "distinct (map orbit_id os)" by (rule ok [THEN conjunct1])
  show "\<And>a. a \<in> set os \<Longrightarrow> \<exists>k<n. orbit_id a = row_name k"
    by (rule ok [THEN conjunct2, THEN conjunct1, rule_format])
  show "\<And>a. a \<in> set os \<Longrightarrow> o_kind a = ''orbit'' \<Longrightarrow> sound_row (adm a)"
    by (rule ok [THEN conjunct2, THEN conjunct2, THEN conjunct1, rule_format])
  show "\<And>a b. a \<in> set os \<Longrightarrow> b \<in> set os \<Longrightarrow> held_orbit a \<Longrightarrow> held_orbit b \<Longrightarrow> orbit_id a \<noteq> orbit_id b \<Longrightarrow>
      \<not> clash a b"
    by (rule ok [THEN conjunct2, THEN conjunct2, THEN conjunct2, THEN conjunct1, rule_format])
  show "f \<le> fc" if "a \<in> set os" "fence a = Some f" for a f
    using ok [THEN conjunct2, THEN conjunct2, THEN conjunct2, THEN conjunct2, THEN conjunct1, rule_format, of a] that
    by simp
  show "orbit_id a = orbit_id b" if "a \<in> set os" "b \<in> set os" "fence a = Some f" "fence b = Some f" for a b f
    using ok [THEN conjunct2, THEN conjunct2, THEN conjunct2, THEN conjunct2, THEN conjunct2, THEN conjunct1, rule_format, of a b] that
    by simp
  show "\<And>a. a \<in> set os \<Longrightarrow> row_typed a"
    by (rule ok [THEN conjunct2, THEN conjunct2, THEN conjunct2, THEN conjunct2, THEN conjunct2, THEN conjunct2, THEN conjunct1, rule_format])
  show "\<And>a b. a \<in> set os \<Longrightarrow> b \<in> set os \<Longrightarrow> held_token a \<Longrightarrow> held_token b \<Longrightarrow>
      o_resource_key a = o_resource_key b \<Longrightarrow> orbit_id a = orbit_id b"
    by (rule ok [THEN conjunct2, THEN conjunct2, THEN conjunct2, THEN conjunct2, THEN conjunct2, THEN conjunct2, THEN conjunct2, rule_format])
qed

lemma rows_ok_same:
  "rows_ok os n fc \<Longrightarrow> a \<in> set os \<Longrightarrow> b \<in> set os \<Longrightarrow> orbit_id a = orbit_id b \<Longrightarrow> a = b"
  using rows_okD(1) by (auto simp: distinct_map inj_on_def)

text \<open>Operations that leave the orbit rows alone and only draw from the counters.\<close>

definition grows :: "db \<Rightarrow> db \<Rightarrow> bool" where
  "grows db db' \<longleftrightarrow> orbits db' = orbits db \<and> uuids db \<le> uuids db' \<and> fence_counter db \<le> fence_counter db'"

named_theorems grows_intros \<open>operations that leave the orbit rows alone\<close>

lemma grows_refl [grows_intros]: "grows db db"
  by (simp add: grows_def)

lemma grows_trans: "grows a b \<Longrightarrow> grows b c \<Longrightarrow> grows a c"
  by (auto simp: grows_def)

lemma rows_ok_mono:
  assumes "rows_ok os n fc" and "n \<le> n'" and "fc \<le> fc'"
  shows "rows_ok os n' fc'"
proof (rule rows_okI)
  show "\<exists>k<n'. orbit_id a = row_name k" if "a \<in> set os" for a
    using rows_okD(2) [OF assms(1) that] assms(2) by (meson order_less_le_trans)
  show "f \<le> fc'" if "a \<in> set os" "fence a = Some f" for a f
    using rows_okD(5) [OF assms(1) that] assms(3) by simp
qed (use rows_okD [OF assms(1)] in blast)+

lemma store_inv_grows: "store_inv db \<Longrightarrow> grows db db' \<Longrightarrow> store_inv db'"
  using rows_ok_mono by (auto simp: store_inv_def grows_def)

section \<open>Changing rows\<close>

lemma clash_cong:
  "mode a = mode a' \<Longrightarrow> pathspec a = pathspec a' \<Longrightarrow> mode b = mode b' \<Longrightarrow> pathspec b = pathspec b' \<Longrightarrow>
     clash a b = clash a' b'"
  by (simp add: clash_def conflicts_def paths_of_def)

lemma sound_cong: "mode a = mode a' \<Longrightarrow> pathspec a = pathspec a' \<Longrightarrow> sound_row (adm a) = sound_row (adm a')"
  by (simp add: sound_row_def)

lemma rows_ok_map:
  assumes "rows_ok os n fc"
    and same: "\<And>a. a \<in> set os \<Longrightarrow> orbit_id (f a) = orbit_id a \<and> mode (f a) = mode a \<and> pathspec (f a) = pathspec a \<and>
      o_kind (f a) = o_kind a \<and> o_resource_key (f a) = o_resource_key a"
    and fences: "\<And>a. a \<in> set os \<Longrightarrow> fence (f a) = fence a"
    and live: "\<And>a. a \<in> set os \<Longrightarrow> o_state (f a) = ''HELD'' \<Longrightarrow> o_state a = ''HELD''"
    and states: "\<And>a. a \<in> set os \<Longrightarrow> o_state (f a) \<in> set orbit_states"
  shows "rows_ok (map f os) n fc"
proof (rule rows_okI)
  have held: "held_orbit a" if "a \<in> set os" "held_orbit (f a)" for a
    using live [OF that(1)] same [OF that(1)] that(2) by (simp add: held_orbit_def)
  have ids: "map orbit_id (map f os) = map orbit_id os" using same by simp
  show "distinct (map orbit_id (map f os))" unfolding ids by (rule rows_okD(1) [OF assms(1)])
  fix a assume "a \<in> set (map f os)"
  then obtain x where x: "x \<in> set os" "a = f x" by auto
  show "\<exists>k<n. orbit_id a = row_name k" using rows_okD(2) [OF assms(1) x(1)] same x by simp
  show "sound_row (adm a)" if "o_kind a = ''orbit''"
    using rows_okD(3) [OF assms(1) x(1)] same x that sound_cong [of a x] by simp
  show "i \<le> fc" if "fence a = Some i" for i
    using rows_okD(5) [OF assms(1) x(1)] fences x that by simp
  show "row_typed a"
    using rows_okD(7) [OF assms(1) x(1)] live [OF x(1)] states [OF x(1)] fences [OF x(1)] x(2) by (simp add: row_typed_def)
  fix b assume "b \<in> set (map f os)"
  then obtain y where y: "y \<in> set os" "b = f y" by auto
  show "\<not> clash a b" if "held_orbit a" "held_orbit b" "orbit_id a \<noteq> orbit_id b"
    using rows_okD(4) [OF assms(1) x(1) y(1)] held x y same that clash_cong [of a x b y] by simp
  show "orbit_id a = orbit_id b" if "fence a = Some i" "fence b = Some i" for i
    using rows_okD(6) [OF assms(1) x(1) y(1)] fences same x y that by simp
  show "orbit_id a = orbit_id b" if "held_token a" "held_token b" "o_resource_key a = o_resource_key b"
    using rows_okD(8) [OF assms(1) x(1) y(1)] live [OF x(1)] live [OF y(1)] same x y that by (simp add: held_token_def)
qed

lemma rows_ok_filter:
  assumes "rows_ok os n fc"
  shows "rows_ok (filter p os) n fc"
  by (rule rows_okI) (use rows_okD [OF assms] in \<open>auto simp: distinct_map_filter\<close>)

lemma rows_ok_grant:
  assumes "rows_ok os n fc" and "r \<in> set os" and "orbit_id r = oid" and granted: "u_state u = Some ''HELD''"
    and lease: "o_kind r \<noteq> ''merge_token''"
    and free: "\<And>a. a \<in> set os \<Longrightarrow> held_orbit a \<Longrightarrow> orbit_id a \<noteq> oid \<Longrightarrow> \<not> clash r a"
    and u: "u_fence u = Some (Some f)" and fresh: "\<And>a x. a \<in> set os \<Longrightarrow> fence a = Some x \<Longrightarrow> x < f" and "f \<le> fc"
  shows "rows_ok (update_where (\<lambda>a. orbit_id a = oid) (apply_set (clear_evidence u)) os) n fc"
  unfolding update_where_def
proof (rule rows_okI)
  define F where "F a = (if orbit_id a = oid then apply_set (clear_evidence u) a else a)" for a
  have F: "(\<lambda>a. if orbit_id a = oid then apply_set (clear_evidence u) a else a) = F"
    by (simp add: F_def fun_eq_iff)
  have same [simp]: "orbit_id (F a) = orbit_id a" "mode (F a) = mode a" "pathspec (F a) = pathspec a"
    "o_kind (F a) = o_kind a" "o_resource_key (F a) = o_resource_key a" for a
    by (simp_all add: F_def)
  have fence: "fence (F a) = (if orbit_id a = oid then Some f else fence a)" for a
    using u by (simp add: F_def)
  have held: "held_orbit a" if "held_orbit (F a)" "orbit_id a \<noteq> oid" for a
    using that by (simp add: F_def)
  have only: "a = r" if "a \<in> set os" "orbit_id a = oid" for a
    using rows_ok_same [OF assms(1) that(1) assms(2)] that(2) assms(3) by simp
  have ids: "map orbit_id (map F os) = map orbit_id os" by simp
  show "distinct (map orbit_id (map (\<lambda>a. if orbit_id a = oid then apply_set (clear_evidence u) a else a) os))"
    unfolding F ids by (rule rows_okD(1) [OF assms(1)])
  fix a assume "a \<in> set (map (\<lambda>a. if orbit_id a = oid then apply_set (clear_evidence u) a else a) os)"
  then obtain x where x: "x \<in> set os" "a = F x" unfolding F by auto
  show "\<exists>k<n. orbit_id a = row_name k" using rows_okD(2) [OF assms(1) x(1)] x by simp
  show "sound_row (adm a)" if "o_kind a = ''orbit''"
    using rows_okD(3) [OF assms(1) x(1)] x that sound_cong [of a x] by simp
  show "i \<le> fc" if "fence a = Some i" for i
    using rows_okD(5) [OF assms(1) x(1)] x that assms(9) by (simp add: fence split: if_splits)
  show "row_typed a"
    using rows_okD(7) [OF assms(1) x(1)] x(2) granted
    by (cases "orbit_id x = oid") (simp_all add: F_def row_typed_def fence [unfolded F_def] orbit_states_def u)
  fix b assume "b \<in> set (map (\<lambda>a. if orbit_id a = oid then apply_set (clear_evidence u) a else a) os)"
  then obtain y where y: "y \<in> set os" "b = F y" unfolding F by auto
  show "\<not> clash a b" if h: "held_orbit a" "held_orbit b" "orbit_id a \<noteq> orbit_id b"
  proof -
    have "clash a b = clash x y" using x y by (intro clash_cong) simp_all
    moreover have "\<not> clash x y"
    proof (cases "orbit_id x = oid")
      case True
      then show ?thesis using free [OF y(1)] only [OF x(1)] held [of y] h x y by simp
    next
      case False
      show ?thesis
      proof (cases "orbit_id y = oid")
        case True
        then show ?thesis using free [OF x(1)] only [OF y(1)] held [of x] h x y False clash_commute by simp
      next
        case yF: False
        then show ?thesis using rows_okD(4) [OF assms(1) x(1) y(1)] held h x y False by simp
      qed
    qed
    ultimately show ?thesis by simp
  qed
  show "orbit_id a = orbit_id b" if "fence a = Some i" "fence b = Some i" for i
  proof (cases "orbit_id x = oid \<longleftrightarrow> orbit_id y = oid")
    case True
    then show ?thesis using rows_okD(6) [OF assms(1) x(1) y(1)] x y that by (auto simp: fence split: if_splits)
  next
    case False
    then show ?thesis using fresh [OF x(1)] fresh [OF y(1)] x y that by (auto simp: fence split: if_splits)
  qed
  have token: "held_token z" if "z \<in> set os" "held_token (F z)" for z
    using that only [OF that(1)] lease by (auto simp: held_token_def F_def split: if_splits)
  show "orbit_id a = orbit_id b" if "held_token a" "held_token b" "o_resource_key a = o_resource_key b"
    using rows_okD(8) [OF assms(1) x(1) y(1)] token x y that by simp
qed

lemma rows_ok_add:
  assumes "rows_ok os n fc" and "orbit_id r = row_name k" and "n \<le> k" and "k < n'"
    and "o_kind r = ''orbit'' \<Longrightarrow> sound_row (adm r)"
    and "\<And>a. a \<in> set os \<Longrightarrow> held_orbit a \<Longrightarrow> held_orbit r \<Longrightarrow> \<not> clash r a"
    and "fc \<le> fc'" and "\<And>f. fence r = Some f \<Longrightarrow> fc < f \<and> f \<le> fc'" and "row_typed r"
    and "\<And>a. a \<in> set os \<Longrightarrow> held_token a \<Longrightarrow> held_token r \<Longrightarrow> o_resource_key a \<noteq> o_resource_key r"
  shows "rows_ok (os @ [r]) n' fc'"
proof (rule rows_okI)
  have new: "orbit_id a \<noteq> orbit_id r" if "a \<in> set os" for a
    using rows_okD(2) [OF assms(1) that] assms(2,3) by auto
  have newf: "fence r \<noteq> Some f" if "a \<in> set os" "fence a = Some f" for a f
    using rows_okD(5) [OF assms(1) that] assms(8) [of f] by auto
  show "distinct (map orbit_id (os @ [r]))" using rows_okD(1) [OF assms(1)] new by fastforce
  fix a assume a: "a \<in> set (os @ [r])"
  show "\<exists>k<n'. orbit_id a = row_name k"
  proof (cases "a = r")
    case False
    then have "a \<in> set os" using a by simp
    then obtain j where "j < n" "orbit_id a = row_name j" using rows_okD(2) [OF assms(1)] by blast
    then show ?thesis using assms(3,4) by (intro exI [of _ j]) simp
  qed (use assms(2,4) in auto)
  show "sound_row (adm a)" if "o_kind a = ''orbit''"
    using rows_okD(3) [OF assms(1)] a that assms(5) by auto
  show "i \<le> fc'" if "fence a = Some i" for i
  proof (cases "a = r")
    case False
    then show ?thesis using rows_okD(5) [OF assms(1) _ that] a assms(7) by simp
  qed (use assms(8) that in auto)
  show "row_typed a" using rows_okD(7) [OF assms(1)] a assms(9) by auto
  fix b assume b: "b \<in> set (os @ [r])"
  have cases: "a \<in> set os \<and> b \<in> set os \<or> a = r \<and> b = r \<or> a = r \<and> b \<in> set os \<or> a \<in> set os \<and> b = r"
    using a b by auto
  show "\<not> clash a b" if h: "held_orbit a" "held_orbit b" "orbit_id a \<noteq> orbit_id b"
    using cases
  proof (elim disjE conjE)
    assume "a \<in> set os" "b \<in> set os"
    then show ?thesis using rows_okD(4) [OF assms(1)] h by simp
  next
    assume "a = r" "b \<in> set os"
    then show ?thesis using assms(6) [of b] h by simp
  next
    assume "a \<in> set os" "b = r"
    then show ?thesis using assms(6) [of a] h clash_commute by simp
  qed (use h in simp)
  show "orbit_id a = orbit_id b" if i: "fence a = Some i" "fence b = Some i" for i
    using cases
  proof (elim disjE conjE)
    assume "a \<in> set os" "b \<in> set os"
    then show ?thesis by (rule rows_okD(6) [OF assms(1) _ _ i])
  next
    assume "a = r" "b \<in> set os"
    then show ?thesis using newf [of b i] i by simp
  next
    assume "a \<in> set os" "b = r"
    then show ?thesis using newf [of a i] i by simp
  qed simp
  show "orbit_id a = orbit_id b" if t: "held_token a" "held_token b" "o_resource_key a = o_resource_key b"
    using cases
  proof (elim disjE conjE)
    assume "a \<in> set os" "b \<in> set os"
    then show ?thesis by (rule rows_okD(8) [OF assms(1) _ _ t])
  next
    assume "a = r" "b \<in> set os"
    then show ?thesis using assms(10) [of b] t by simp
  next
    assume "a \<in> set os" "b = r"
    then show ?thesis using assms(10) [of a] t by simp
  qed simp
qed

section \<open>Operations that leave the rows alone\<close>

lemma grows_fold: "(\<And>x d. grows d (f x d)) \<Longrightarrow> grows db (fold f xs db)"
  by (induction xs arbitrary: db) (auto intro: grows_refl grows_trans)

lemma grows_for_rows:
  "for_rows f xs db = Inr db' \<Longrightarrow> (\<And>x d d'. f x d = Inr d' \<Longrightarrow> grows d d') \<Longrightarrow> grows db db'"
proof (induction xs arbitrary: db)
  case (Cons x xs)
  then obtain d where "f x db = Inr d" "for_rows f xs d = Inr db'" by (auto simp: bind_res_Inr_iff)
  then show ?case using Cons grows_trans by blast
qed (simp add: grows_refl)

lemma grows_tables [grows_intros]:
  "grows db (set_agent_state aid st db)" "grows db (bump_bail_epoch aid db)" "grows db (upsert_agent aid nm st now db)"
  "grows db (set_task tid f db)" "grows db (set_agent_liveness_ttl aid t db)"
  "grows db (set_flag_status key st ep v ow l db)" "grows db (set_flag_waiter wid s w db)"
  "grows db (set_sem_waiter wid s p db)" "grows db (set_barrier bid h db)" "grows db (del_barrier_party bid gen tid db)"
  "grows db (clear_idem rid db)" "grows db (db\<lparr>idempotency := xs\<rparr>)" "grows db (snd (fresh_uuid db))"
  "grows db (snd (next_fence db))" "grows db (snd (next_seq db))" "grows db (snd (fresh_event_id db))"
  "grows db (snd (gc_idem cutoff db))"
  by (simp_all add: grows_def set_agent_state_def bump_bail_epoch_def upsert_agent_def set_task_def
      set_agent_liveness_ttl_def set_flag_status_def set_flag_waiter_def set_sem_waiter_def set_barrier_def
      del_barrier_party_def clear_idem_def fresh_uuid_def next_fence_def next_seq_def Let_def fresh_event_id_def gc_idem_def)

lemma grows_snd: "f db = (x, d) \<Longrightarrow> grows db (snd (f db)) \<Longrightarrow> grows db d"
  by simp

lemma grows_wake_one [grows_intros]: "grows db (wake_flag_waiter frow w db)"
  by (simp add: wake_flag_waiter_def grows_intros)

lemma grows_wake [grows_intros]: "grows db (wake_flag_waiters key db)"
  unfolding wake_flag_waiters_def by (intro grows_fold grows_intros)

lemma grows_break [grows_intros]: "grows db (break_ephemeral_flags_for_lease lease db)"
  unfolding break_ephemeral_flags_for_lease_def
  by (intro grows_fold grows_trans [OF grows_tables(6) grows_wake])

lemma grows_clear_stale [grows_intros]: "grows db (clear_read_stale_signal oid db)"
  unfolding clear_read_stale_signal_def
  by (auto split: option.split intro: grows_refl grows_trans [OF grows_tables(6) grows_wake])

lemma grows_cancel_waits [grows_intros]: "grows db (cancel_sem_waits aid db)"
  unfolding cancel_sem_waits_def by (intro grows_fold grows_intros)

lemma grows_enqueue: "enqueue_admission_outbox row preds db = Inr (x, db') \<Longrightarrow> grows db db'"
  by (auto simp: enqueue_admission_outbox_def Let_def insert_outbox_def grows_def split: option.splits if_splits)

lemma grows_notification: "enqueue_notification g now ev payload ctx preds db = Inr db' \<Longrightarrow> grows db db'"
  by (auto simp: enqueue_notification_def Let_def bind_res_Inr_iff split: option.splits if_splits
      intro: grows_refl grows_enqueue)

lemma grows_payload: "admission_payload g ev identity h variant db = Inr (p, db') \<Longrightarrow> grows db db'"
  using grows_tables(16) [of db]
  by (auto simp: admission_payload_def Let_def split: prod.splits sum.splits)

lemma grows_projection:
  "assert_admission_projection g now ctx ev payload h expected db = Inr (r, db') \<Longrightarrow> grows db db'"
  by (auto simp: assert_admission_projection_def Let_def bind_res_Inr_iff split: if_splits sum.splits
      dest: grows_notification)

lemma grows_lifecycle: "reduce_orbit_lifecycle g now o' ev variant db = Inr (h, i, db') \<Longrightarrow> grows db db'"
proof -
  obtain e d where e: "fresh_event_id db = (e, d)" by (cases "fresh_event_id db")
  then have "grows db d" using grows_tables(16) [of db] by simp
  moreover assume "reduce_orbit_lifecycle g now o' ev variant db = Inr (h, i, db')"
  then have "grows d db'"
    by (auto simp: reduce_orbit_lifecycle_def Let_def bind_res_Inr_iff e split: option.splits if_splits
        dest!: grows_projection)
  ultimately show ?thesis by (rule grows_trans)
qed

lemma grows_barrier: "barrier_eval g now bid can_trip db = Inr (plan, db') \<Longrightarrow> grows db db'"
proof -
  have brk: "break_barrier g b why d = Inr d' \<Longrightarrow> grows d d'" for b why d d'
    by (auto simp: break_barrier_def bind_res_Inr_iff split: if_splits intro: grows_intros)
  have settle: "settle_barrier g now b live can_trip d = Inr (p, d') \<Longrightarrow> grows d d'" for b live d p d'
    by (auto simp: settle_barrier_def bind_res_Inr_iff Let_def split: if_splits intro: grows_intros dest: brk)
  have shrink: "grows d (shrink_barrier b dead n d)" for b dead n d
    unfolding shrink_barrier_def by (intro grows_trans [OF grows_fold grows_tables(9)] grows_intros)
  assume "barrier_eval g now bid can_trip db = Inr (plan, db')"
  then show ?thesis
    by (auto simp: barrier_eval_def bind_res_Inr_iff Let_def split: if_splits option.splits prod.splits
        intro: grows_refl dest!: brk settle intro: grows_trans [OF shrink])
qed

lemma grows_evaluate: "evaluate_barrier g now bid db = Inr db' \<Longrightarrow> grows db db'"
  by (auto simp: evaluate_barrier_def bind_res_Inr_iff dest: grows_barrier)

lemma grows_reclaim_task: "reclaim_task g t db = Inr (l, db') \<Longrightarrow> grows db db'"
  by (auto simp: reclaim_task_def bind_res_Inr_iff Let_def split: if_splits intro: grows_intros)

lemma grows_reclaim_tasks: "reclaim_tasks g ts db = Inr (l, db') \<Longrightarrow> grows db db'"
proof (induction ts arbitrary: db l)
  case (Cons t ts)
  then show ?case by (auto simp: bind_res_Inr_iff dest!: grows_reclaim_task intro: grows_trans)
qed (auto intro: grows_refl)

lemma grows_reclaimed:
  "enqueue_agent_reclaimed g now aid final v n m p evs db = Inr db' \<Longrightarrow> grows db db'"
proof -
  obtain e d where e: "fresh_event_id db = (e, d)" by (cases "fresh_event_id db")
  then have "grows db d" using grows_tables(16) [of db] by simp
  moreover assume "enqueue_agent_reclaimed g now aid final v n m p evs db = Inr db'"
  then have "grows d db'"
    by (auto simp: enqueue_agent_reclaimed_def Let_def bind_res_Inr_iff e dest!: grows_notification)
  ultimately show ?thesis by (rule grows_trans)
qed

lemma grows_collect_idem [grows_intros]: "grows db (collect_idem g now db)"
  by (auto simp: collect_idem_def split: option.split intro: grows_intros)

section \<open>Leaving, renewing, collecting\<close>

lemma store_inv_set:
  assumes "store_inv db" and "u_fence u = None"
    and "\<And>a. a \<in> set (orbits db) \<Longrightarrow> orbit_id a = oid \<Longrightarrow> u_state u = Some ''HELD'' \<Longrightarrow> o_state a = ''HELD''"
    and "\<And>s. u_state u = Some s \<Longrightarrow> s \<in> set orbit_states"
  shows "store_inv (set_orbit oid u db)"
proof -
  have "rows_ok (map (\<lambda>a. if orbit_id a = oid then apply_set (clear_evidence u) a else a) (orbits db))
      (uuids db) (fence_counter db)"
  proof (rule rows_ok_map)
    show "rows_ok (orbits db) (uuids db) (fence_counter db)" using assms(1) by (simp add: store_inv_def)
    show "o_state a = ''HELD''" if "a \<in> set (orbits db)"
      and "o_state (if orbit_id a = oid then apply_set (clear_evidence u) a else a) = ''HELD''" for a
      using that assms(3) [of a] by (cases "u_state u") (auto split: if_splits)
    show "o_state (if orbit_id a = oid then apply_set (clear_evidence u) a else a) \<in> set orbit_states"
      if "a \<in> set (orbits db)" for a
      using rows_okD(7) [OF assms(1) [unfolded store_inv_def] that] assms(4)
      by (cases "u_state u") (auto simp: row_typed_def)
  qed (use assms(2) in auto)
  then show ?thesis by (simp add: store_inv_def set_orbit_def update_where_def)
qed

definition closed_states :: "string set" where
  "closed_states = {''RELEASED'', ''EXPIRED'', ''DENIED''}"

lemma store_inv_leave:
  assumes "store_inv db" and "u_fence u = None" and "\<And>s. u_state u = Some s \<Longrightarrow> s \<in> closed_states"
  shows "store_inv (set_orbit oid u db)"
  by (rule store_inv_set [OF assms(1,2)]) (use assms(3) in \<open>auto simp: closed_states_def orbit_states_def\<close>)

lemma decided_columns_simps [simp]:
  "u_state (decided_columns ev h p d bs u) = u_state u" "u_fence (decided_columns ev h p d bs u) = u_fence u"
  by (simp_all add: decided_columns_def)

lemma store_inv_gc: "store_inv db \<Longrightarrow> store_inv (gc_terminal now t db)"
  unfolding store_inv_def gc_orbits gc_tables
  by (simp add: gc_terminal_def archive_orbits_def archive_tasks_def stamp_terminal_def)
    (intro rows_ok_filter rows_ok_map; auto dest: rows_okD(7) simp: row_typed_def)

lemma closed_target:
  assumes "lawful g" and "step_state g ''orbit'' st trig = Inr s" and "trig \<in> {''expire'', ''deny'', ''release''}"
  shows "s \<in> closed_states"
  using assms(2,3) unfolding step_state_Inr [OF assms(1)]
  by (auto simp: table_defs first_match_def closed_states_def split: if_splits)

text \<open>A lease-ending update: the state comes from the machine.\<close>

lemma store_inv_close:
  assumes "lawful g" and "store_inv db" and "step_state g ''orbit'' st trig = Inr s"
    and "trig \<in> {''expire'', ''deny'', ''release''}" and "u_state u = Some s" and "u_fence u = None"
  shows "store_inv (set_orbit oid u db)"
  using assms closed_target by (intro store_inv_leave) auto

lemma for_rows_inv:
  "for_rows f xs db = Inr db' \<Longrightarrow> P db \<Longrightarrow> (\<And>x d d'. x \<in> set xs \<Longrightarrow> f x d = Inr d' \<Longrightarrow> P d \<Longrightarrow> P d') \<Longrightarrow> P db'"
proof (induction xs arbitrary: db)
  case (Cons x xs)
  from Cons.prems(1) obtain d where d: "f x db = Inr d" "for_rows f xs d = Inr db'" by (auto simp: bind_res_Inr_iff)
  show ?case by (rule Cons.IH [OF d(2)]) (use Cons.prems(2,3) d(1) in auto)
qed simp

lemma inv_expire_orbit:
  assumes "lawful g" and "expire_orbit g now o' db = Inr db'" and "store_inv db"
  shows "store_inv db'"
proof -
  obtain h i d st where d: "reduce_orbit_lifecycle g now o' ''LEASE_EXPIRED'' [(''observed_at'', JFloat (Fin now))] db = Inr (h, i, d)"
    and st: "step_state g ''orbit'' ''HELD'' ''expire'' = Inr st"
    and db': "db' = set_orbit (orbit_id o') (no_set\<lparr>u_state := Some st, u_released_at := Some (Some now),
         u_authority_snapshot_hash := Some (Some h), u_decision_id := Some None,
         u_decision_type := Some (Some ''LEASE_EXPIRED''), u_terminal_reason := Some (Some ''lease_expired'')\<rparr>) d"
    using assms(2) by (auto simp: expire_orbit_def bind_res_Inr_iff)
  have "store_inv d" using store_inv_grows [OF assms(3) grows_lifecycle [OF d]] .
  then show ?thesis unfolding db' by (rule store_inv_close [OF assms(1) _ st]) simp_all
qed

lemma inv_expire_due: "lawful g \<Longrightarrow> expire_due g now db = Inr db' \<Longrightarrow> store_inv db \<Longrightarrow> store_inv db'"
  unfolding expire_due_def by (erule for_rows_inv) (auto intro: inv_expire_orbit)

lemma inv_timeout_orbit:
  assumes "lawful g" and "timeout_orbit g now o' db = Inr db'" and "store_inv db"
  shows "store_inv db'"
proof -
  obtain e d0 where e: "fresh_event_id db = (e, d0)" by (cases "fresh_event_id db")
  have "grows db d0" using grows_tables(16) [of db] e by simp
  obtain ctx payload h r d st u where d: "assert_admission_projection g now ctx ''WAIT_TIMEOUT'' payload h (Some ''DENIED'') d0 = Inr (r, d)"
    and st: "step_state g ''orbit'' ''PENDING'' ''deny'' = Inr st"
    and db': "db' = set_orbit (orbit_id o') u d" "u_state u = Some st" "u_fence u = None"
    using assms(2) by (auto simp: timeout_orbit_def bind_res_Inr_iff e)
  have "store_inv d"
    using store_inv_grows [OF assms(3)] grows_trans [OF \<open>grows db d0\<close> grows_projection [OF d]] by blast
  then show ?thesis unfolding db'(1) by (rule store_inv_close [OF assms(1) _ st]) (simp_all add: db')
qed

lemma inv_timeout_pending: "lawful g \<Longrightarrow> timeout_pending g now db = Inr db' \<Longrightarrow> store_inv db \<Longrightarrow> store_inv db'"
  unfolding timeout_pending_def by (erule for_rows_inv) (auto intro: inv_timeout_orbit)

lemma inv_deny_victim:
  assumes "lawful g" and "deny_victim g now why o' db = Inr db'" and "store_inv db"
  shows "store_inv db'"
proof -
  obtain identity h variant payload d1 ctx r d st u where
    d1: "admission_payload g ''PROMOTION_DENIED'' identity h variant db = Inr (payload, d1)"
    and d: "assert_admission_projection g now ctx ''PROMOTION_DENIED'' payload h (Some ''DENIED'') d1 = Inr (r, d)"
    and st: "step_state g ''orbit'' ''PENDING'' ''deny'' = Inr st"
    and db': "db' = set_orbit (orbit_id o') u d" "u_state u = Some st" "u_fence u = None"
    using assms(2) by (auto simp: deny_victim_def bind_res_Inr_iff)
  have "store_inv d"
    using store_inv_grows [OF assms(3)] grows_trans [OF grows_payload [OF d1] grows_projection [OF d]] by blast
  then show ?thesis unfolding db'(1) by (rule store_inv_close [OF assms(1) _ st]) (simp_all add: db')
qed

lemma inv_deny_loop:
  "lawful g \<Longrightarrow> deny_cycles_loop g now why fuel db = Some (Inr db') \<Longrightarrow> store_inv db \<Longrightarrow> store_inv db'"
proof (induction fuel arbitrary: db)
  case (Suc fuel)
  then show ?case
    by (auto split: sum.splits option.splits intro: inv_deny_victim)
qed simp

lemma inv_deny_cycles:
  "lawful g \<Longrightarrow> deny_reservation_cycles g now why db = Inr db' \<Longrightarrow> store_inv db \<Longrightarrow> store_inv db'"
  unfolding deny_reservation_cycles_def
  by (cases "deny_cycles_loop g now why (Suc (length (pending_orbits db))) db")
    (simp_all del: deny_cycles_loop.simps add: inv_deny_loop)

section \<open>Granting\<close>

lemma build_request_Inr:
  "build_request ps m p n oid v enq = Inr req \<Longrightarrow>
     List.member admission_modes m \<and> req_mode req = m \<and> req_orbit_id req = oid \<and>
     normalize_pathspec ps = Inr (req_pathspec req)"
  by (auto simp: build_request_def bind_res_Inr_iff split: if_splits)

lemma normalize_set: "normalize_pathspec ps = Inr qs \<Longrightarrow> set qs = set ps \<and> ps \<noteq> [] \<and> list_all (\<lambda>p. p \<noteq> []) ps"
  by (auto simp: normalize_pathspec_def Let_def list_all_iff split: if_splits)

lemma row_request_Inr:
  assumes "row_request sha pol row = Inr req" and "sound_row row"
  shows "List.member admission_modes (req_mode req) \<and> req_mode req = mode row \<and>
    req_orbit_id req = Some (orbit_id row) \<and> set (req_pathspec req) = set (paths_of row)"
proof -
  obtain ps where ps: "index_pathspec (pathspec row) = Inr ps" using assms(2) by (auto simp: sound_row_def)
  then obtain p n v enq where "build_request ps (mode row) p n (Some (orbit_id row)) v enq = Inr req"
    using assms(1) by (auto simp: row_request_def request_with_def row_paths_sound split: option.splits)
  from build_request_Inr [OF this] show ?thesis
    using normalize_set [of ps] ps by (auto simp: paths_of_def)
qed

text \<open>A grant over the store is free of clashes with every other live exclusive lease.\<close>

lemma granted_free:
  assumes "store_inv db" and "decide_now g now req db = Inr d" and "grantable d"
    and "List.member admission_modes (req_mode req)" and "a \<in> set (orbits db)" and "held_orbit a"
    and "Some (orbit_id a) \<noteq> req_orbit_id req"
  shows "\<not> conflicts (req_pathspec req) (req_mode req) (adm a)"
proof -
  note ok = assms(1) [unfolded store_inv_def]
  have "decide_admission (g_sha g) (g_policy g) (Fin now) True req
      (map adm (held_orbits db)) (map adm (pending_orbits db)) = Inr d"
    using assms(2) by (simp add: decide_now_def)
  moreover have "\<forall>r\<in>set (map adm (held_orbits db)) \<union> set (map adm (pending_orbits db)). sound_row r"
    using rows_okD(3) [OF ok] by (auto simp: held_orbits_def pending_orbits_def)
  ultimately have "\<forall>r\<in>set (map adm (held_orbits db)). Some (orbit_id r) \<noteq> req_orbit_id req \<longrightarrow>
      \<not> conflicts (req_pathspec req) (req_mode req) r"
    using decision_exact assms(3,4) by blast
  moreover have "adm a \<in> set (map adm (held_orbits db))"
    using assms(5,6) by (auto simp: held_orbits_def held_orbit_def)
  moreover have "Some (orbit_id (adm a)) \<noteq> req_orbit_id req" using assms(7) by simp
  ultimately show ?thesis by blast
qed

lemma conflicts_cong: "set ps = set qs \<Longrightarrow> conflicts ps m r = conflicts qs m r"
  using sets_overlap_set_cong [of ps qs "paths_of r"] by (simp add: conflicts_def)

text \<open>What an orbit row never changes while it is in the table.\<close>

definition same_row :: "orbit \<Rightarrow> orbit \<Rightarrow> bool" where
  "same_row a b \<longleftrightarrow> mode a = mode b \<and> pathspec a = pathspec b \<and> o_kind a = o_kind b"

definition known_row :: "db \<Rightarrow> orbit \<Rightarrow> bool" where
  "known_row db o' \<longleftrightarrow> (\<forall>a\<in>set (orbits db). orbit_id a = orbit_id o' \<longrightarrow> same_row a o')"

lemma known_row_grows: "grows db db' \<Longrightarrow> known_row db' o' = known_row db o'"
  by (simp add: grows_def known_row_def)

lemma known_row_set [simp]: "known_row (set_orbit oid u db) o' = known_row db o'"
proof -
  define F where "F a = (if orbit_id a = oid then apply_set (clear_evidence u) a else a)" for a
  have "orbits (set_orbit oid u db) = map F (orbits db)"
    by (simp add: set_orbit_def update_where_def F_def [abs_def])
  moreover have "orbit_id (F a) = orbit_id a" "same_row (F a) o' = same_row a o'" for a
    by (simp_all add: F_def same_row_def)
  ultimately show ?thesis by (simp add: known_row_def)
qed

lemma known_row_mem: "store_inv db \<Longrightarrow> o' \<in> set (orbits db) \<Longrightarrow> known_row db o'"
  unfolding known_row_def store_inv_def same_row_def by (metis rows_ok_same)

lemma inv_grant_set:
  assumes "store_inv db" and "known_row d o'" and "\<And>a. a \<in> set (orbits db) \<Longrightarrow> held_orbit a \<Longrightarrow>
      orbit_id a \<noteq> orbit_id o' \<Longrightarrow> \<not> clash o' a" and "o_kind o' = ''orbit''"
    and grow: "grows db d" and "u_state u = Some ''HELD''" and "u_fence u = Some (Some f)" and "fence_counter db < f" and "f \<le> fence_counter d"
  shows "store_inv (set_orbit (orbit_id o') u d)"
proof (cases "\<exists>r\<in>set (orbits d). orbit_id r = orbit_id o'")
  case True
  then obtain r where r: "r \<in> set (orbits d)" "orbit_id r = orbit_id o'" by blast
  have os: "orbits d = orbits db" using grow by (simp add: grows_def)
  have ok: "rows_ok (orbits d) (uuids d) (fence_counter d)"
    using store_inv_grows [OF assms(1) grow] by (simp add: store_inv_def)
  have "rows_ok (update_where (\<lambda>a. orbit_id a = orbit_id o') (apply_set (clear_evidence u)) (orbits d))
      (uuids d) (fence_counter d)"
  proof (rule rows_ok_grant [OF ok r])
    show "\<not> clash r a" if "a \<in> set (orbits d)" "held_orbit a" "orbit_id a \<noteq> orbit_id o'" for a
      using assms(2,3) that r clash_cong [of r o' a a] unfolding known_row_def same_row_def os by auto
    show "x < f" if "a \<in> set (orbits d)" "fence a = Some x" for a x
      using rows_okD(5) [of "orbits db" "uuids db" "fence_counter db" a x] assms(1,8) that
      by (simp add: store_inv_def os)
    show "o_kind r \<noteq> ''merge_token''"
      using assms(2,4) r unfolding known_row_def same_row_def by auto
  qed (use assms in auto)
  then show ?thesis by (simp add: store_inv_def set_orbit_def)
next
  case False
  then have "set_orbit (orbit_id o') u d = d"
    by (simp add: set_orbit_def update_where_none)
  then show ?thesis using store_inv_grows [OF assms(1) grow] by simp
qed

lemma next_fence_step: "next_fence db = (f, d) \<Longrightarrow> grows db d \<and> fence_counter db < f \<and> f = fence_counter d"
  by (auto simp: next_fence_def grows_def)

lemma inv_promote_orbit:
  assumes "lawful g" and "promote_orbit g now o' db = Inr db'" and "store_inv db" and "known_row db o'"
    and "o_kind o' = ''orbit''" and "sound_row (adm o')"
  shows "store_inv db' \<and> (\<forall>a. known_row db' a = known_row db a)"
proof (cases "due (o_wait_deadline o') now \<or> \<not> pending_owner_fresh g now o' db \<or>
    ro_effective_priority (rank_observation g o' now) = None")
  case True
  then show ?thesis using assms(2,3) by (auto simp: promote_orbit_def split: if_splits)
next
  case False
  then obtain d h identity where
    dec: "admission_decision_now g now (row_request (g_sha g) (g_policy g) (adm o')) db = Inr (d, h)"
    and out: "(if grantable d then grant_pending g now o' d h identity db
          else block_pending g now o' d h identity db) = Inr db'"
    using assms(2) by (auto simp: promote_orbit_def bind_res_Inr_iff simp del: if_split)
  show ?thesis
  proof (cases "grantable d")
    case True
    obtain f d0 where f: "next_fence db = (f, d0)" by (cases "next_fence db")
    obtain payload d1 r d2 st u where
      d1: "admission_payload g ''PROMOTION_GRANTED'' identity h
           ([(''queue_seq'', opt_int (queue_seq o')), (''fence'', JInt f),
             (''lease_deadline'', JFloat (Fin (now + (case o_requested_ttl o' of None \<Rightarrow> 600 | Some t \<Rightarrow> t))))] @
            decision_fields d) d0 = Inr (payload, d1)"
      and d2: "assert_admission_projection g now
             (queue_context identity o' (rank_fields (rank_observation g o' now)))
             ''PROMOTION_GRANTED'' payload h (Some ''HELD'') d1 = Inr (r, d2)"
      and db': "db' = set_orbit (orbit_id o') u d2" "u_state u = Some ''HELD''" "u_fence u = Some (Some f)"
      using out True by (auto simp: grant_pending_def bind_res_Inr_iff Let_def f transition_results [OF assms(1)])
    note fence = next_fence_step [OF f]
    have grow1: "grows d0 d2" using grows_trans [OF grows_payload [OF d1] grows_projection [OF d2]] .
    then have grow: "grows db d2" using fence grows_trans by blast
    have free: "\<not> clash o' a" if a: "a \<in> set (orbits db)" "held_orbit a" "orbit_id a \<noteq> orbit_id o'" for a
    proof -
      obtain req where req: "row_request (g_sha g) (g_policy g) (adm o') = Inr req" "decide_now g now req db = Inr d"
        using dec by (auto simp: admission_decision_now_def bind_res_Inr_iff)
      note facts = row_request_Inr [OF req(1) assms(6)]
      have "\<not> conflicts (req_pathspec req) (req_mode req) (adm a)"
        by (rule granted_free [OF assms(3) req(2) True _ a(1,2)]) (use facts a(3) in auto)
      then show ?thesis using facts conflicts_cong [of "req_pathspec req" "paths_of (adm o')"] by (simp add: clash_def)
    qed
    have "store_inv db'"
      unfolding db'(1)
    proof (rule inv_grant_set [OF assms(3) _ free assms(5) grow db'(2,3)])
      show "known_row d2 o'" using known_row_grows [OF grow] assms(4) by simp
      show "fence_counter db < f" "f \<le> fence_counter d2" using fence grow1 by (auto simp: grows_def)
    qed
    then show ?thesis using known_row_grows [OF grow] by (simp add: db'(1))
  next
    case False
    obtain variant payload d1 ctx r d2 u where
      d1: "admission_payload g ''PROMOTION_BLOCKED'' identity h variant db = Inr (payload, d1)"
      and d2: "assert_admission_projection g now ctx ''PROMOTION_BLOCKED'' payload h (Some ''PENDING'') d1 = Inr (r, d2)"
      and db': "db' = set_orbit (orbit_id o') u d2" "u_fence u = None" "u_state u = None"
      using out False by (auto simp: block_pending_def bind_res_Inr_iff)
    have grow: "grows db d2" using grows_trans [OF grows_payload [OF d1] grows_projection [OF d2]] .
    have "store_inv db'"
      unfolding db'(1) by (rule store_inv_leave [OF store_inv_grows [OF assms(3) grow]]) (simp_all add: db')
    then show ?thesis using known_row_grows [OF grow] by (simp add: db'(1))
  qed
qed

lemma inv_promote_pending:
  assumes "lawful g" and "promote_pending g now db = Inr db'" and "store_inv db"
  shows "store_inv db'"
proof -
  let ?rows = "ordered_pending g now db"
  have rows: "o' \<in> set (orbits db) \<and> o_kind o' = ''orbit''" if "o' \<in> set ?rows" for o'
    using that by (auto simp: ordered_pending_def pending_orbits_def)
  have start: "\<forall>o'\<in>set ?rows. known_row db o' \<and> o_kind o' = ''orbit'' \<and> sound_row (adm o')"
    using rows known_row_mem [OF assms(3)] rows_okD(3) assms(3) unfolding store_inv_def by blast
  have "store_inv db' \<and> (\<forall>o'\<in>set ?rows. known_row db' o')"
    using assms(2) unfolding promote_pending_def
  proof (rule for_rows_inv)
    show "store_inv db \<and> (\<forall>o'\<in>set ?rows. known_row db o')" using assms(3) start by blast
    show "store_inv d' \<and> (\<forall>o'\<in>set ?rows. known_row d' o')"
      if "x \<in> set ?rows" "promote_orbit g now x d = Inr d'" "store_inv d \<and> (\<forall>o'\<in>set ?rows. known_row d o')" for x d d'
      using inv_promote_orbit [OF assms(1) that(2)] that start by blast
  qed
  then show ?thesis by blast
qed

lemma inv_settle_queue: "lawful g \<Longrightarrow> settle_queue g now db = Inr db' \<Longrightarrow> store_inv db \<Longrightarrow> store_inv db'"
  unfolding settle_queue_def bind_res_Inr_iff
  by (elim exE conjE) (rule inv_promote_pending, assumption+, rule inv_deny_cycles, assumption+, rule inv_timeout_pending)

lemma inv_reconcile_no_reclaim: "lawful g \<Longrightarrow> reconcile_no_reclaim g now db = Inr db' \<Longrightarrow> store_inv db \<Longrightarrow> store_inv db'"
  unfolding reconcile_no_reclaim_def bind_res_Inr_iff
  by (elim exE conjE) (rule inv_settle_queue, assumption+, rule inv_expire_due)

section \<open>Reclaiming and sweeping\<close>

lemma inv_close_lease: "lawful g \<Longrightarrow> close_lease g u oid db = Inr db' \<Longrightarrow> u_fence u = None \<Longrightarrow> store_inv db \<Longrightarrow> store_inv db'"
  by (auto simp: close_lease_def bind_res_Inr_iff intro: store_inv_close)

lemma released_fence [simp]: "u_fence (released now) = None"
  by (simp add: released_def)

lemma inv_close_leases:
  "lawful g \<Longrightarrow> for_rows (\<lambda>o'. close_lease g (released now) (orbit_id o')) os db = Inr db' \<Longrightarrow> store_inv db \<Longrightarrow> store_inv db'"
  by (erule for_rows_inv) (auto intro: inv_close_lease)

lemma inv_flag_leases:
  "lawful g \<Longrightarrow> for_rows (reclaim_flag_lease g u) os db = Inr db' \<Longrightarrow> u_fence u = None \<Longrightarrow> store_inv db \<Longrightarrow> store_inv db'"
  by (erule for_rows_inv)
    (auto simp: reclaim_flag_lease_def intro: inv_close_lease store_inv_grows [OF _ grows_break])

lemma inv_reclaim_orbit:
  assumes "lawful g" and "reclaim_orbit g now v o' db = Inr (ev, db')" and "store_inv db"
  shows "store_inv db'"
proof -
  obtain trig kind variant h d st u where
    d: "reduce_orbit_lifecycle g now o' kind variant db = Inr (h, ev, d)"
    and st: "step_state g ''orbit'' (o_state o') trig = Inr st" "trig \<in> {''expire'', ''deny'', ''release''}"
    and db': "db' = (if mode o' = ''read'' then clear_read_stale_signal (orbit_id o') (set_orbit (orbit_id o') u d)
        else set_orbit (orbit_id o') u d)" "u_state u = Some st" "u_fence u = None"
  proof (cases "o_state o' = ''HELD''")
    case True
    then show ?thesis
      using assms(2) that [where trig = "''expire''"]
      by (auto simp: reclaim_orbit_def Let_def bind_res_Inr_iff simp del: if_split)
  next
    case False
    then show ?thesis
      using assms(2) that [where trig = "''deny''"]
      by (auto simp: reclaim_orbit_def Let_def bind_res_Inr_iff simp del: if_split)
  qed
  have "store_inv d" using store_inv_grows [OF assms(3) grows_lifecycle [OF d]] .
  then have "store_inv (set_orbit (orbit_id o') u d)"
    by (rule store_inv_close [OF assms(1) _ st]) (simp_all add: db')
  then show ?thesis using store_inv_grows [OF _ grows_clear_stale] by (simp add: db'(1))
qed

lemma inv_reclaim_orbits:
  "lawful g \<Longrightarrow> reclaim_orbits g now v os db = Inr (evs, db') \<Longrightarrow> store_inv db \<Longrightarrow> store_inv db'"
proof (induction os arbitrary: db evs)
  case (Cons o' os)
  then show ?case by (auto simp: bind_res_Inr_iff dest: inv_reclaim_orbit)
qed simp

lemma inv_add_lease:
  assumes "store_inv db" and "next_fence db = (f, d)" and "add_orbit now None row d = (oid, db')"
    and "o_kind row \<noteq> ''orbit''" and "fence row = Some f" and "o_state row = ''HELD''"
    and "\<And>a. a \<in> set (orbits db) \<Longrightarrow> held_token a \<Longrightarrow> o_kind row = ''merge_token'' \<Longrightarrow>
      o_resource_key a \<noteq> o_resource_key row"
  shows "store_inv db'"
proof -
  note fence = next_fence_step [OF assms(2)]
  let ?r = "row\<lparr>orbit_id := oid, o_created_at := now, o_released_at := None, o_merging := False,
     o_merge_deadline := None, o_merge_started_mono := None, o_operation_id := None,
     o_owner_instance := None, o_owner_generation := None, o_stale := False, o_terminal_at := None\<rparr>"
  have new: "orbits db' = orbits d @ [?r]" "oid = row_name (uuids d)" "uuids db' = Suc (uuids d)"
    "fence_counter db' = fence_counter d"
    using assms(3) by (auto simp: add_orbit_def fresh_uuid_def Let_def row_name_def)
  have "rows_ok (orbits d @ [?r]) (Suc (uuids d)) (fence_counter d)"
  proof (rule rows_ok_add [where n = "uuids db" and fc = "fence_counter db"])
    show "rows_ok (orbits d) (uuids db) (fence_counter db)"
      using assms(1) fence by (simp add: store_inv_def grows_def)
    show "row_typed ?r" using assms(5,6) by (simp add: row_typed_def orbit_states_def)
    show "o_resource_key a \<noteq> o_resource_key ?r" if "a \<in> set (orbits d)" "held_token a" "held_token ?r" for a
      using assms(7) [of a] that fence by (simp add: held_token_def grows_def)
  qed (use assms(4,5) fence new(2) in \<open>auto simp: grows_def held_orbit_def\<close>)
  then show ?thesis by (simp add: store_inv_def new)
qed

lemma inv_grant_permit: "grant_permit g now aid sem ttl db = (r, pid, db') \<Longrightarrow> store_inv db \<Longrightarrow> store_inv db'"
proof -
  obtain f d where f: "next_fence db = (f, d)" by (cases "next_fence db")
  assume "grant_permit g now aid sem ttl db = (r, pid, db')" and "store_inv db"
  then show ?thesis
    by (auto simp: grant_permit_def f Let_def orbit_args_def split: prod.splits intro: inv_add_lease [OF _ f])
qed

lemma inv_promote_loop: "store_inv db \<Longrightarrow> store_inv (promote_loop g now sem n ws db)"
proof (induction ws arbitrary: db)
  case (Cons w ws)
  have waiter: "store_inv (set_sem_waiter i s p d)" if "store_inv d" for i s p d
    by (rule store_inv_grows [OF that grows_tables(8)])
  show ?case
  proof (cases "active_permit_for sem (sw_agent_id w) db")
    case None
    obtain r pid d where "grant_permit g now (sw_agent_id w) sem (sw_ttl w) db = (r, pid, d)"
      by (metis prod.exhaust)
    then show ?thesis using Cons None inv_grant_permit waiter by simp
  next
    case (Some p)
    then show ?thesis using Cons waiter by simp
  qed
qed simp

lemma inv_promote_sem: "store_inv db \<Longrightarrow> store_inv (promote_sem_waiters g now sem db)"
  by (auto simp: promote_sem_waiters_def split: option.split intro: inv_promote_loop)

lemma inv_promote_sems: "store_inv db \<Longrightarrow> store_inv (promote_sems g now sems db)"
  unfolding promote_sems_def by (induction sems arbitrary: db) (auto intro: inv_promote_sem)

lemma inv_holdings:
  assumes "lawful g" and "reclaim_holdings g now v aid db = Inr (sems, freed, evs, db')" and "store_inv db"
  shows "store_inv db'"
proof -
  obtain d1 d2 d3 where d1: "for_rows (\<lambda>o'. close_lease g (released now) (orbit_id o')) (merge_tokens_owned_by aid db) db = Inr d1"
    and d2: "for_rows (reclaim_flag_lease g (released now)) (flag_leases_owned_by aid d1) d1 = Inr d2"
    and d3: "for_rows (\<lambda>o'. close_lease g (released now) (orbit_id o')) (sem_permits_owned_by aid d2) d2 = Inr d3"
    and d4: "reclaim_orbits g now v (orbits_owned_by_agent aid (cancel_sem_waits aid d3)) (cancel_sem_waits aid d3) = Inr (evs, db')"
    using assms(2) by (auto simp: reclaim_holdings_def bind_res_Inr_iff Let_def)
  have "store_inv d1" by (rule inv_close_leases [OF assms(1) d1 assms(3)])
  then have "store_inv d2" by (rule inv_flag_leases [OF assms(1) d2 released_fence])
  then have "store_inv d3" by (rule inv_close_leases [OF assms(1) d3])
  then have "store_inv (cancel_sem_waits aid d3)" by (rule store_inv_grows [OF _ grows_cancel_waits])
  then show ?thesis by (rule inv_reclaim_orbits [OF assms(1) d4])
qed

lemma reclaim_core_steps:
  assumes "reclaim_agent_core g now v aid db = Inr (rep, db')" and a: "get_agent aid db = Some a" "a_state a \<noteq> ''RETIRED''"
  shows "\<exists>sems freed evs d1 log d2 d3 d4 final n m p.
    reclaim_holdings g now v aid (bump_bail_epoch aid (set_agent_state aid (if v then ''BAILING'' else ''ZOMBIE'') db)) =
      Inr (sems, freed, evs, d1) \<and>
    reclaim_tasks g (tasks_for_agent aid d1) d1 = Inr (log, d2) \<and>
    for_rows (evaluate_barrier g now) (affected_barriers (tasks_for_agent aid d1) d1) d2 = Inr d3 \<and>
    enqueue_agent_reclaimed g now aid final v n m p evs (set_agent_state aid ''RETIRED'' d3) = Inr d4 \<and>
    promote_sems g now sems d4 = db'"
proof -
  note run = assms(1) [unfolded reclaim_agent_core_def a(1) option.case if_not_P [OF a(2)] Let_def bind_res_Inr_iff
        split_paired_Ex prod.case]
  show ?thesis using run
    by (elim exE conjE, intro exI conjI) (assumption, assumption, assumption, assumption, drule sum.inject(2) [THEN iffD1], simp)
qed

lemma inv_reclaim_core:
  assumes "lawful g" and "reclaim_agent_core g now v aid db = Inr (rep, db')" and "store_inv db"
  shows "store_inv db'"
proof (cases "\<exists>a. get_agent aid db = Some a \<and> a_state a \<noteq> ''RETIRED''")
  case True
  then obtain a where a: "get_agent aid db = Some a" "a_state a \<noteq> ''RETIRED''" by blast
  define d0 where "d0 = bump_bail_epoch aid (set_agent_state aid (if v then ''BAILING'' else ''ZOMBIE'') db)"
  obtain sems freed evs d1 log d2 d3 final n m p d4 where
    d1: "reclaim_holdings g now v aid d0 = Inr (sems, freed, evs, d1)"
    and d2: "reclaim_tasks g (tasks_for_agent aid d1) d1 = Inr (log, d2)"
    and d3: "for_rows (evaluate_barrier g now) (affected_barriers (tasks_for_agent aid d1) d1) d2 = Inr d3"
    and d4: "enqueue_agent_reclaimed g now aid final v n m p evs (set_agent_state aid ''RETIRED'' d3) = Inr d4"
    and db': "promote_sems g now sems d4 = db'"
    using reclaim_core_steps [OF assms(2) a, folded d0_def] by (elim exE conjE) (rule that)
  have "store_inv d0"
    unfolding d0_def by (rule store_inv_grows [OF store_inv_grows [OF assms(3) grows_tables(1)] grows_tables(2)])
  then have "store_inv d1" by (rule inv_holdings [OF assms(1) d1])
  moreover have "grows d1 d4"
    by (rule grows_trans [OF grows_reclaim_tasks [OF d2]], rule grows_trans [OF grows_for_rows [OF d3]],
        erule grows_evaluate, rule grows_trans [OF grows_tables(1)], rule grows_reclaimed [OF d4])
  ultimately show ?thesis unfolding db' [symmetric] by - (rule inv_promote_sems, rule store_inv_grows)
next
  case False
  have "db' = db"
  proof (cases "get_agent aid db")
    case None
    then show ?thesis using assms(2) by (simp add: reclaim_agent_core_def)
  next
    case (Some a)
    then have "a_state a = ''RETIRED''" using False by simp
    then show ?thesis using assms(2) Some by (simp add: reclaim_agent_core_def)
  qed
  then show ?thesis using assms(3) by simp
qed

lemma inv_reclaim_agent:
  assumes "lawful g" and "reclaim_agent g now v pr aid db = Inr (rep, db')" and "store_inv db"
  shows "store_inv db'"
proof -
  obtain rep' d where d: "reclaim_agent_core g now v aid db = Inr (rep', d)"
    and rest: "db' = d \<or> reconcile_no_reclaim g now d = Inr db'"
    using assms(2) unfolding reclaim_agent_def bind_res_Inr_iff by (auto simp: bind_res_Inr_iff split: if_splits)
  have "store_inv d" by (rule inv_reclaim_core [OF assms(1) d assms(3)])
  then show ?thesis using rest inv_reconcile_no_reclaim [OF assms(1)] by blast
qed

lemma inv_reclaim_stale:
  "lawful g \<Longrightarrow> reclaim_stale g now pr as db = Inr (out, db') \<Longrightarrow> store_inv db \<Longrightarrow> store_inv db'"
proof (induction as arbitrary: db out)
  case (Cons a as)
  then show ?case by (auto simp: bind_res_Inr_iff split: if_splits dest: inv_reclaim_agent)
qed simp

lemma inv_zombies:
  "lawful g \<Longrightarrow> reclaim_zombies_inline g now pr db = Inr (out, db') \<Longrightarrow> store_inv db \<Longrightarrow> store_inv db'"
  by (auto simp: reclaim_zombies_inline_def split: if_splits intro: inv_reclaim_stale)

lemma inv_reconcile:
  assumes "lawful g" and "reconcile_admission g now db = Inr db'" and "store_inv db"
  shows "store_inv db'"
proof -
  obtain d1 out d2 where d1: "expire_due g now db = Inr d1" and d2: "reclaim_zombies_inline g now False d1 = Inr (out, d2)"
    and db': "settle_queue g now d2 = Inr db'"
    using assms(2) by (auto simp: reconcile_admission_def bind_res_Inr_iff)
  have "store_inv d1" by (rule inv_expire_due [OF assms(1) d1 assms(3)])
  then have "store_inv d2" by (rule inv_zombies [OF assms(1) d2])
  then show ?thesis by (rule inv_settle_queue [OF assms(1) db'])
qed

lemma inv_sweep:
  assumes "lawful g" and "sweep_inline g now db = Inr db'" and "store_inv db"
  shows "store_inv db'"
proof -
  obtain d1 d2 d3 d4 where d1: "reconcile_admission g now db = Inr d1"
    and d2: "for_rows (reclaim_flag_lease g no_set) (due_flag_leases now d1) d1 = Inr d2"
    and d3: "expire_permits g now d2 = Inr d3"
    and d4: "for_rows (\<lambda>b. evaluate_barrier g now (b_barrier_id b)) (all_barriers [''ARMED''] d3) d3 = Inr d4"
    and db': "db' = collect_terminal g now (collect_idem g now d4)"
    using assms(2) by (auto simp: sweep_inline_def bind_res_Inr_iff)
  have "store_inv d1" by (rule inv_reconcile [OF assms(1) d1 assms(3)])
  then have "store_inv d2" by (rule inv_flag_leases [OF assms(1) d2 no_set_simps(4)])
  then have "store_inv d3"
    using d3 by (auto simp: expire_permits_def bind_res_Inr_iff Let_def intro: inv_promote_sems inv_close_leases [OF assms(1)])
  moreover have "grows d3 d4" by (rule grows_for_rows [OF d4]) (erule grows_evaluate)
  ultimately have "store_inv d4" by (rule store_inv_grows)
  then have "store_inv (collect_idem g now d4)" by (rule store_inv_grows [OF _ grows_collect_idem])
  then show ?thesis by (auto simp: db' collect_terminal_def split: option.split intro: store_inv_gc)
qed

end
