(* ===== verification/Authority.thy ===== *)
theory Authority
  imports Exclusion
begin

text \<open>
  The authority of the engine over its whole life. \<open>Exclusion\<close> carries the invariant of the orbit rows
  through the maintenance of the queue; here it goes through the verbs of agents, is put together in
  one step relation over the store, and gives what the leases promise: two leases that are live at the
  same time never conflict, and a fence is handed out once.
\<close>

section \<open>Granting a new claim\<close>

lemma bind_resE: "bind_res r f = Inr x \<Longrightarrow> (\<And>y. r = Inr y \<Longrightarrow> f y = Inr x \<Longrightarrow> P) \<Longrightarrow> P"
  by (auto simp: bind_res_Inr_iff)

lemma inv_with_idem:
  assumes "with_idem sha now request aid verb args body db = Inr (r, db')" and "store_inv db"
    and "\<And>d sl d'. body d = Inr (sl, d') \<Longrightarrow> store_inv d \<Longrightarrow> store_inv d'"
  shows "store_inv db'"
proof (rule with_idem_preserves [where P = store_inv, OF assms(1,2)])
  show "store_inv (d\<lparr>idempotency := xs\<rparr>)" if "store_inv d" for d xs
    by (rule store_inv_grows [OF that grows_tables(12)])
qed (rule assms(3))

lemma index_own_paths:
  "ps \<noteq> [] \<Longrightarrow> list_all (\<lambda>p. p \<noteq> []) ps \<Longrightarrow> index_pathspec (Text (Some (JList (map JStr ps)))) = Inr ps"
  by simp

lemma claim_cut_Inr:
  assumes "claim_cut_of g now c ps ttl gen epoch oid seq db = Inr k"
  obtains req digest where
    "build_request ps (cc_mode c) (cc_priority c) seq (Some oid) (current_version (g_sha g) (g_policy g))
        (Some (Fin now)) = Inr req"
    "decide_now g now req db = Inr (ct_decision k)"
    "ct_row k = claim_row g c ps ttl gen epoch oid seq digest"
  using assms by (auto simp: claim_cut_of_def admission_decision_now_def bind_res_Inr_iff lift_adm_def Let_def split: sum.splits)

lemma claim_row_simps [simp]:
  "orbit_id (claim_row g c ps ttl gen epoch oid seq digest) = oid"
  "mode (claim_row g c ps ttl gen epoch oid seq digest) = cc_mode c"
  "pathspec (claim_row g c ps ttl gen epoch oid seq digest) = Text (Some (JList (map JStr ps)))"
  "o_kind (claim_row g c ps ttl gen epoch oid seq digest) = ''orbit''"
  "o_state (claim_row g c ps ttl gen epoch oid seq digest) = ''PENDING''"
  "fence (claim_row g c ps ttl gen epoch oid seq digest) = None"
  by (simp_all add: claim_row_def orbit_args_def)

lemma claim_rows_simps [simp]:
  "mode (queued_row g now p k) = mode (ct_row k)" "pathspec (queued_row g now p k) = pathspec (ct_row k)"
  "o_kind (queued_row g now p k) = o_kind (ct_row k)" "o_state (queued_row g now p k) = ''PENDING''"
  "fence (queued_row g now p k) = fence (ct_row k)"
  "mode (granted_row now ttl fn rg p k) = mode (ct_row k)"
  "pathspec (granted_row now ttl fn rg p k) = pathspec (ct_row k)"
  "o_kind (granted_row now ttl fn rg p k) = o_kind (ct_row k)" "o_state (granted_row now ttl fn rg p k) = ''HELD''"
  "fence (granted_row now ttl fn rg p k) = Some fn"
  by (simp_all add: queued_row_def granted_row_def decided_row_def)

text \<open>Adding a row under a name drawn before: \<open>db\<close> is the store the name was drawn from, \<open>d\<close> the one
  the row goes into.\<close>

lemma inv_add_row:
  assumes "store_inv db" and "grows (snd (fresh_uuid db)) d"
    and "add_orbit now (Some (row_name (uuids db))) row d = (oid, db')"
    and "sound_row (adm row)"
    and "\<And>a. a \<in> set (orbits db) \<Longrightarrow> held_orbit a \<Longrightarrow> o_state row = ''HELD'' \<Longrightarrow> \<not> clash row a"
    and "\<And>f. fence row = Some f \<Longrightarrow> fence_counter db < f \<and> f \<le> fence_counter d"
    and "row_typed row" and "o_kind row = ''orbit''"
  shows "store_inv db'"
proof -
  let ?r = "row\<lparr>orbit_id := row_name (uuids db), o_created_at := now, o_released_at := None, o_merging := False,
     o_merge_deadline := None, o_merge_started_mono := None, o_operation_id := None,
     o_owner_instance := None, o_owner_generation := None, o_stale := False, o_terminal_at := None\<rparr>"
  have new: "orbits db' = orbits d @ [?r]" "uuids db' = uuids d" "fence_counter db' = fence_counter d"
    using assms(3) by (auto simp: add_orbit_def Let_def row_name_def)
  have grow: "orbits d = orbits db" "Suc (uuids db) \<le> uuids d" "fence_counter db \<le> fence_counter d"
    using assms(2) by (auto simp: grows_def fresh_uuid_def)
  have "rows_ok (orbits db @ [?r]) (uuids d) (fence_counter d)"
  proof (rule rows_ok_add [where n = "uuids db" and fc = "fence_counter db" and k = "uuids db"])
    show "rows_ok (orbits db) (uuids db) (fence_counter db)" using assms(1) by (simp add: store_inv_def)
    show "sound_row (adm ?r)" using assms(4) sound_cong [of ?r row] by simp
    show "row_typed ?r" using assms(7) by (simp add: row_typed_def)
    show "\<not> clash ?r a" if "a \<in> set (orbits db)" "held_orbit a" "held_orbit ?r" for a
      using assms(5) [OF that(1,2)] that(3) clash_cong [of ?r row a a] by (simp add: held_orbit_def)
  qed (use grow assms(6,8) in \<open>auto simp: held_token_def\<close>)
  then show ?thesis by (simp add: store_inv_def new grow(1))
qed

lemma grows_ticket: "take_ticket seq db = Inr db' \<Longrightarrow> grows db db'"
  using grows_tables(15) [of db] by (auto simp: take_ticket_def split: prod.splits if_splits)

lemma grows_sync [grows_intros]: "grows db (sync_read_task c rg db)"
  by (auto simp: sync_read_task_def split: option.split intro: grows_intros)

lemma case_add_orbit:
  "(case add_orbit now i row db of (x, d) \<Rightarrow> f x d) = f (fst (add_orbit now i row db)) (snd (add_orbit now i row db))"
  by (rule split_beta)

lemma claim_cut_row:
  assumes "claim_cut_of g now c ps ttl gen epoch oid seq db = Inr k"
  shows "sound_row (adm (ct_row k)) \<and> orbit_id (ct_row k) = oid \<and> mode (ct_row k) = cc_mode c \<and>
    fence (ct_row k) = None \<and> o_kind (ct_row k) = ''orbit''"
proof -
  obtain req digest where req: "build_request ps (cc_mode c) (cc_priority c) seq (Some oid)
      (current_version (g_sha g) (g_policy g)) (Some (Fin now)) = Inr req"
    and row: "ct_row k = claim_row g c ps ttl gen epoch oid seq digest"
    by (rule claim_cut_Inr [OF assms])
  note facts = build_request_Inr [OF req]
  have "index_pathspec (Text (Some (JList (map JStr ps)))) = Inr ps"
    by (rule index_own_paths) (use normalize_set facts in blast)+
  then show ?thesis using facts by (simp add: sound_row_def row del: index_pathspec.simps)
qed

lemma claim_cut_free:
  assumes cut: "claim_cut_of g now c ps ttl gen epoch (row_name (uuids db)) seq (snd (fresh_uuid db)) = Inr k"
    and "store_inv db" and "grantable (ct_decision k)" and "a \<in> set (orbits db)" and "held_orbit a"
  shows "\<not> clash (ct_row k) a"
proof -
  obtain req digest where req: "build_request ps (cc_mode c) (cc_priority c) seq (Some (row_name (uuids db)))
      (current_version (g_sha g) (g_policy g)) (Some (Fin now)) = Inr req"
    and dec: "decide_now g now req (snd (fresh_uuid db)) = Inr (ct_decision k)"
    and row: "ct_row k = claim_row g c ps ttl gen epoch (row_name (uuids db)) seq digest"
    by (rule claim_cut_Inr [OF cut])
  note facts = build_request_Inr [OF req]
  have inv: "store_inv (snd (fresh_uuid db))" by (rule store_inv_grows [OF assms(2) grows_tables(13)])
  have mem: "a \<in> set (orbits (snd (fresh_uuid db)))" using assms(4) by (simp add: fresh_uuid_def)
  have "orbit_id a \<noteq> row_name (uuids db)"
    using rows_okD(2) [of "orbits db" "uuids db" "fence_counter db" a] assms(2,4) by (auto simp: store_inv_def)
  then have "\<not> conflicts (req_pathspec req) (req_mode req) (adm a)"
    by (intro granted_free [OF inv dec assms(3) _ mem assms(5)]) (use facts in auto)
  moreover have "set (req_pathspec req) = set ps" using facts normalize_set by blast
  moreover have "paths_of (adm (ct_row k)) = ps"
    using index_own_paths [of ps] normalize_set facts by (simp add: row paths_of_def del: index_pathspec.simps)
  ultimately show ?thesis
    using facts conflicts_cong [of "req_pathspec req" ps] by (simp add: clash_def row)
qed

lemma inv_claim_grant:
  assumes "lawful g" and "store_inv db"
    and cut: "claim_cut_of g now c ps ttl gen epoch (row_name (uuids db)) seq (snd (fresh_uuid db)) = Inr k"
    and "grantable (ct_decision k)" and "claim_grant g now c ttl k seq (snd (fresh_uuid db)) = Inr (sl, db')"
  shows "store_inv db'"
proof -
  note row = claim_cut_row [OF cut]
  obtain d1 where d1: "take_ticket seq (snd (fresh_uuid db)) = Inr d1"
    using assms(5) by (auto simp: claim_grant_def bind_res_Inr_iff)
  obtain f d2 where f: "next_fence d1 = (f, d2)" by (cases "next_fence d1")
  obtain variant payload d3 r d4 rg d5 d6 where
    d3: "admission_payload g ''ADMISSION_GRANTED'' (ct_identity k) (ct_hash k) variant d2 = Inr (payload, d3)"
    and d4: "assert_admission_projection g now (requested_context k) ''ADMISSION_GRANTED'' payload (ct_hash k)
      (Some ''HELD'') d3 = Inr (r, d4)"
    and d5: "d5 = snd (add_orbit now (Some (orbit_id (ct_row k))) (granted_row now ttl f rg payload k) d4)"
    and d6: "deny_reservation_cycles g now ''reservation_cycle_after_grant'' d5 = Inr d6"
    and db': "db' = sync_read_task c rg d6"
  proof -
    define rg where "rg = (if cc_mode c = ''read'' then (\<lambda>d. Some (integration_gen d)) else (\<lambda>_. None))"
    have rg: "(if cc_mode c = ''read'' then Some (integration_gen d) else None) = rg d" for d
      by (simp add: rg_def)
    show ?thesis
      using assms(5) that
      by (auto simp: claim_grant_def bind_res_Inr_iff Let_def d1 f rg case_add_orbit simp del: if_split)
  qed
  note fence = next_fence_step [OF f]
  have late: "grows d2 d4" by (rule grows_trans [OF grows_payload [OF d3] grows_projection [OF d4]])
  have early: "grows (snd (fresh_uuid db)) d1" by (rule grows_ticket [OF d1])
  have "store_inv d5"
  proof (rule inv_add_row [OF assms(2)])
    show "grows (snd (fresh_uuid db)) d4" using early late fence grows_trans by blast
    show "add_orbit now (Some (row_name (uuids db))) (granted_row now ttl f rg payload k) d4 =
        (fst (add_orbit now (Some (row_name (uuids db))) (granted_row now ttl f rg payload k) d4), d5)"
      using d5 row by simp
    show "sound_row (adm (granted_row now ttl f rg payload k))"
      using row sound_cong [of "granted_row now ttl f rg payload k" "ct_row k"] by simp
    show "\<not> clash (granted_row now ttl f rg payload k) a" if "a \<in> set (orbits db)" "held_orbit a" for a
      using claim_cut_free [OF cut assms(2,4) that] clash_cong [of "granted_row now ttl f rg payload k" "ct_row k" a a]
      by simp
    show "fence_counter db < i \<and> i \<le> fence_counter d4"
      if "fence (granted_row now ttl f rg payload k) = Some i" for i
      using that fence late early by (auto simp: grows_def fresh_uuid_def)
    show "row_typed (granted_row now ttl f rg payload k)" by (simp add: row_typed_def orbit_states_def)
  qed (use row in simp)
  then have "store_inv d6" by (rule inv_deny_cycles [OF assms(1) d6])
  then show ?thesis unfolding db' by (rule store_inv_grows [OF _ grows_sync])
qed

lemma inv_claim_deny:
  assumes "lawful g" and "store_inv db" and "claim_deny g now k db = Inr (sl, db')"
  shows "store_inv db'"
proof -
  obtain h variant payload d1 ctx r d2 st u where
    d1: "admission_payload g ''PROMOTION_DENIED'' (ct_identity k) h variant db = Inr (payload, d1)"
    and d2: "assert_admission_projection g now ctx ''PROMOTION_DENIED'' payload h (Some ''DENIED'') d1 = Inr (r, d2)"
    and st: "step_state g ''orbit'' ''PENDING'' ''deny'' = Inr st"
    and db': "db' = set_orbit (orbit_id (ct_row k)) u d2" "u_state u = Some st" "u_fence u = None"
    using assms(3) by (auto simp: claim_deny_def bind_res_Inr_iff)
  have "store_inv d2"
    using store_inv_grows [OF assms(2)] grows_trans [OF grows_payload [OF d1] grows_projection [OF d2]] by blast
  then show ?thesis unfolding db'(1) by (rule store_inv_close [OF assms(1) _ st]) (simp_all add: db')
qed

lemma inv_claim_queue:
  assumes "lawful g" and "store_inv db"
    and cut: "claim_cut_of g now c ps ttl gen epoch (row_name (uuids db)) seq (snd (fresh_uuid db)) = Inr k"
    and "claim_queue g now k seq depth (snd (fresh_uuid db)) = Inr (sl, db')"
  shows "store_inv db'"
proof -
  note row = claim_cut_row [OF cut]
  obtain d1 variant payload d3 r d4 d5 where
    d1: "take_ticket seq (snd (fresh_uuid db)) = Inr d1"
    and d3: "admission_payload g ''ADMISSION_QUEUED'' (ct_identity k) (ct_hash k) variant d1 = Inr (payload, d3)"
    and d4: "assert_admission_projection g now (requested_context k) ''ADMISSION_QUEUED'' payload (ct_hash k)
      (Some ''PENDING'') d3 = Inr (r, d4)"
    and d5: "d5 = snd (add_orbit now (Some (orbit_id (ct_row k))) (queued_row g now payload k) d4)"
    and db': "db' = d5 \<or> claim_deny g now k d5 = Inr (sl, db')"
    using assms(4) by (auto simp: claim_queue_def bind_res_Inr_iff Let_def case_add_orbit split: if_splits)
  have "store_inv d5"
  proof (rule inv_add_row [OF assms(2)])
    show "grows (snd (fresh_uuid db)) d4"
      using grows_ticket [OF d1] grows_payload [OF d3] grows_projection [OF d4] grows_trans by blast
    show "add_orbit now (Some (row_name (uuids db))) (queued_row g now payload k) d4 =
        (fst (add_orbit now (Some (row_name (uuids db))) (queued_row g now payload k) d4), d5)"
      using d5 row by simp
    show "sound_row (adm (queued_row g now payload k))"
      using row sound_cong [of "queued_row g now payload k" "ct_row k"] by simp
  qed (use row in \<open>simp_all add: row_typed_def orbit_states_def\<close>)
  then show ?thesis using db' inv_claim_deny [OF assms(1)] by blast
qed

lemma inv_claim_overload: "claim_overload g now c k cache db = Inr (sl, db') \<Longrightarrow> store_inv db \<Longrightarrow> store_inv db'"
  by (auto simp: claim_overload_def bind_res_Inr_iff Let_def split: prod.splits
      dest!: grows_payload grows_projection intro: store_inv_grows [OF store_inv_grows])

lemma inv_claim_decide:
  assumes "lawful g" and "store_inv db" and "claim_decide g now c ps ttl gen epoch cache db = Inr (sl, db')"
  shows "store_inv db'"
proof -
  have name: "''orb-'' @ fst (fresh_uuid db) = row_name (uuids db)" by (simp add: fresh_uuid_def row_name_def)
  have fresh: "store_inv (snd (fresh_uuid db))" by (rule store_inv_grows [OF assms(2) grows_tables(13)])
  obtain k where cut: "claim_cut_of g now c ps ttl gen epoch (row_name (uuids db)) (current_seq db + 1)
      (snd (fresh_uuid db)) = Inr k"
    and out: "(if grantable (ct_decision k) then claim_grant g now c ttl k (current_seq db + 1) (snd (fresh_uuid db))
        else if int (fst (pending_queue_stats (snd (fresh_uuid db)))) \<ge> g_queue_capacity g
        then claim_overload g now c k cache (snd (fresh_uuid db))
        else claim_queue g now k (current_seq db + 1) (fst (pending_queue_stats (snd (fresh_uuid db))))
          (snd (fresh_uuid db))) = Inr (sl, db')"
    using assms(3) by (auto simp: claim_decide_def Let_def split_beta bind_res_Inr_iff name [simplified] simp del: if_split)
  show ?thesis
    using out inv_claim_grant [OF assms(1,2) cut] inv_claim_overload [OF _ fresh] inv_claim_queue [OF assms(1,2) cut]
    by (auto split: if_splits)
qed

lemma claim_body_cases:
  assumes "claim_body g now swept roll c ps ttl db = Inr (sl, db')"
  obtains d where "(if swept then Inr db else sweep_inline g now db) = Inr d"
    "db' = d \<or> db' = upsert_agent (cc_agent c) None ''WORKING'' now d \<or>
      (\<exists>gen epoch. claim_decide g now c ps ttl gen epoch (roll = None) (upsert_agent (cc_agent c) None ''WORKING'' now d) =
        Inr (sl, db'))"
proof -
  obtain d where d: "(if swept then Inr db else sweep_inline g now db) = Inr d"
    and rest: "(case check_alive (Some (cc_agent c)) (cc_bail_epoch c) d of
         Some dead \<Rightarrow> Inr (slot_set dead, d)
       | None \<Rightarrow>
           let db = upsert_agent (cc_agent c) None ''WORKING'' now d;
               epoch = (case get_agent (cc_agent c) db of None \<Rightarrow> 0 | Some a \<Rightarrow> a_bail_epoch a)
           in bind_res (claim_request_dup c ps ttl epoch roll db) (\<lambda>dup.
             case dup of
               Answered r \<Rightarrow> Inr (slot_set r, db)
             | Generation gen \<Rightarrow>
                 (case intent_dup g c ps db of
                    Some r \<Rightarrow> Inr (slot_set r, db)
                  | None \<Rightarrow>
                      if \<not> accepts_base_priority (g_sha g) (g_policy g) (cc_priority c) None then
                        Inr (slot_set (rejected ''invalid_admission_request''
                          [(''detail'', JStr ''priority must leave signed-64-bit headroom for max_age_boost'')]), db)
                      else claim_decide g now c ps ttl gen epoch (roll = None) db))) = Inr (sl, db')"
    using assms unfolding claim_body_def bind_res_Inr_iff by blast
  define e where "e = upsert_agent (cc_agent c) None ''WORKING'' now d"
  define ep where "ep = (case get_agent (cc_agent c) e of None \<Rightarrow> 0 | Some a \<Rightarrow> a_bail_epoch a)"
  have "db' = d \<or> db' = e \<or> (\<exists>gen epoch. claim_decide g now c ps ttl gen epoch (roll = None) e = Inr (sl, db'))"
  proof (cases "check_alive (Some (cc_agent c)) (cc_bail_epoch c) d")
    case None
    then obtain dup where "claim_request_dup c ps ttl ep roll e = Inr dup"
      and "(case dup of Answered r \<Rightarrow> Inr (slot_set r, e)
         | Generation gen \<Rightarrow> (case intent_dup g c ps e of
              Some r \<Rightarrow> Inr (slot_set r, e)
            | None \<Rightarrow>
                if \<not> accepts_base_priority (g_sha g) (g_policy g) (cc_priority c) None then
                  Inr (slot_set (rejected ''invalid_admission_request''
                    [(''detail'', JStr ''priority must leave signed-64-bit headroom for max_age_boost'')]), e)
                else claim_decide g now c ps ttl gen ep (roll = None) e)) = Inr (sl, db')"
      using rest unfolding None option.case Let_def e_def [symmetric] ep_def [symmetric] bind_res_Inr_iff by blast
    then show ?thesis by (auto split: request_dup.splits option.splits if_splits)
  qed (use rest in simp)
  then show ?thesis using that [OF d] by (simp add: e_def)
qed

lemma inv_claim_body:
  assumes "lawful g" and "claim_body g now swept roll c ps ttl db = Inr (sl, db')" and "store_inv db"
  shows "store_inv db'"
proof -
  obtain d where d: "(if swept then Inr db else sweep_inline g now db) = Inr d"
    and rest: "db' = d \<or> db' = upsert_agent (cc_agent c) None ''WORKING'' now d \<or>
      (\<exists>gen epoch. claim_decide g now c ps ttl gen epoch (roll = None) (upsert_agent (cc_agent c) None ''WORKING'' now d) =
        Inr (sl, db'))"
    by (rule claim_body_cases [OF assms(2)])
  have inv: "store_inv d" using d inv_sweep [OF assms(1) _ assms(3)] assms(3) by (auto split: if_splits)
  have inv_e: "store_inv (upsert_agent (cc_agent c) None ''WORKING'' now d)" by (rule store_inv_grows [OF inv grows_tables(3)])
  show ?thesis using rest inv inv_e inv_claim_decide [OF assms(1) inv_e] by blast
qed

lemma claim_run_cases:
  assumes "claim g now swept roll c db = Inr (r, db')"
  shows "db' = db \<or> (\<exists>request aid args ps ttl x. with_idem (g_sha g) now request aid ''claim'' args
      (claim_body g now swept roll c ps ttl) db = Inr (x, db'))"
  using assms by (auto simp: claim_def Let_def bind_res_Inr_iff reply_of_def split: option.splits sum.splits if_splits)

lemma inv_claim:
  assumes "lawful g" and "claim g now swept roll c db = Inr (r, db')" and "store_inv db"
  shows "store_inv db'"
  using claim_run_cases [OF assms(2)] assms(3) inv_with_idem [OF _ assms(3)] inv_claim_body [OF assms(1)] by blast

section \<open>The other verbs\<close>

lemma rollover_body_cases:
  "rollover_body g now oid aid gen epoch request db = Inr (sl, db') \<Longrightarrow> \<exists>d. sweep_inline g now db = Inr d \<and>
      (db' = d \<or> (\<exists>rid c r. claim g now True (Some (gen + 1)) c (clear_idem rid d) = Inr (r, db')))"
  by (auto simp: rollover_body_def Let_def elim!: bind_resE split: option.splits if_splits)

lemma rollover_cases:
  "rollover_claim g now oid aid gen epoch request db = Inr (r, db') \<Longrightarrow> db' = db \<or>
     (\<exists>ag verb args x. with_idem (g_sha g) now (Some request) ag verb args
      (rollover_body g now oid aid gen epoch request) db = Inr (x, db'))"
  by (auto simp: rollover_claim_def Let_def bind_res_Inr_iff reply_of_def split: option.splits if_splits)

lemma inv_rollover_body:
  assumes "lawful g" and "rollover_body g now oid aid gen epoch request db = Inr (sl, db')" and "store_inv db"
  shows "store_inv db'"
proof -
  obtain d where d: "sweep_inline g now db = Inr d"
    and rest: "db' = d \<or> (\<exists>rid c r. claim g now True (Some (gen + 1)) c (clear_idem rid d) = Inr (r, db'))"
    using rollover_body_cases [OF assms(2)] by blast
  have inv: "store_inv d" by (rule inv_sweep [OF assms(1) d assms(3)])
  then show ?thesis using rest inv_claim [OF assms(1)] store_inv_grows [OF inv grows_tables(11)] by blast
qed

lemma inv_rollover:
  assumes "lawful g" and "rollover_claim g now oid aid gen epoch request db = Inr (r, db')" and "store_inv db"
  shows "store_inv db'"
  using rollover_cases [OF assms(2)] assms(3) inv_with_idem [OF _ assms(3)] inv_rollover_body [OF assms(1)] by blast

lemma inv_cancel_pending:
  assumes "lawful g" and "cancel_pending g now o' db = Inr db'" and "store_inv db"
  shows "store_inv db'"
proof -
  obtain e d0 where e: "fresh_event_id db = (e, d0)" by (cases "fresh_event_id db")
  have "grows db d0" using grows_tables(16) [of db] e by simp
  obtain ctx payload h r d st u where
    d: "assert_admission_projection g now ctx ''CANCEL'' payload h (Some ''DENIED'') d0 = Inr (r, d)"
    and st: "step_state g ''orbit'' ''PENDING'' ''deny'' = Inr st"
    and db': "db' = set_orbit (orbit_id o') u d" "u_state u = Some st" "u_fence u = None"
    using assms(2) by (auto simp: cancel_pending_def bind_res_Inr_iff Let_def e split: if_splits)
  have "store_inv d"
    using store_inv_grows [OF assms(3)] grows_trans [OF \<open>grows db d0\<close> grows_projection [OF d]] by blast
  then show ?thesis unfolding db'(1) by (rule store_inv_close [OF assms(1) _ st]) (simp_all add: db')
qed

lemma cancel_body_cases:
  assumes "cancel_wait_body g now oid aid gen epoch request db = Inr (sl, db')"
  defines "e \<equiv> upsert_agent aid None ''WORKING'' now db"
  shows "db' = db \<or> db' = e \<or> (\<exists>o' d. cancel_pending g now o' e = Inr d \<and> reconcile_admission g now d = Inr db')"
  using assms(1) unfolding cancel_wait_body_def Let_def e_def [symmetric]
  by (auto elim!: bind_resE split: option.splits if_splits)

lemma cancel_wait_cases:
  "cancel_wait g now oid aid gen epoch request db = Inr (r, db') \<Longrightarrow> db' = db \<or>
     (\<exists>ag verb args x. with_idem (g_sha g) now request ag verb args
      (cancel_wait_body g now oid aid gen epoch request) db = Inr (x, db'))"
  by (auto simp: cancel_wait_def Let_def bind_res_Inr_iff reply_of_def split: if_splits)

lemma inv_cancel_body:
  assumes "lawful g" and "cancel_wait_body g now oid aid gen epoch request db = Inr (sl, db')" and "store_inv db"
  shows "store_inv db'"
proof -
  have inv_e: "store_inv (upsert_agent aid None ''WORKING'' now db)" by (rule store_inv_grows [OF assms(3) grows_tables(3)])
  show ?thesis
    using cancel_body_cases [OF assms(2)] assms(3) inv_e inv_cancel_pending [OF assms(1) _ inv_e] inv_reconcile [OF assms(1)] by blast
qed

lemma inv_cancel_wait:
  assumes "lawful g" and "cancel_wait g now oid aid gen epoch request db = Inr (r, db')" and "store_inv db"
  shows "store_inv db'"
  using cancel_wait_cases [OF assms(2)] assms(3) inv_with_idem [OF _ assms(3)] inv_cancel_body [OF assms(1)] by blast

lemma get_orbit_state: "store_inv db \<Longrightarrow> get_orbit oid db = Some o' \<Longrightarrow> a \<in> set (orbits db) \<Longrightarrow> orbit_id a = oid \<Longrightarrow> a = o'"
  using rows_ok_same [of "orbits db" "uuids db" "fence_counter db" a o']
    fetchone_filter_Some [of "\<lambda>o'. orbit_id o' = oid" "orbits db" o']
  by (simp add: store_inv_def get_orbit_def)

lemma inv_renew_set:
  assumes "reduce_orbit_lifecycle g now o' ev variant db = Inr (h, i, d)" and "get_orbit oid db = Some o'"
    and "o_state o' = ''HELD''" and "store_inv db" and "u_fence u = None" and "u_state u = Some s" and "s \<in> set orbit_states"
  shows "store_inv (set_orbit oid u d)"
proof (rule store_inv_set [OF store_inv_grows [OF assms(4)] assms(5)])
  show "t \<in> set orbit_states" if "u_state u = Some t" for t using that assms(6,7) by simp
  note grow = grows_lifecycle [OF assms(1)]
  show "grows db d" by (rule grow)
  show "o_state a = ''HELD''" if "a \<in> set (orbits d)" "orbit_id a = oid" for a
    using get_orbit_state [OF assms(4,2), of a] that assms(3) grow by (simp add: grows_def)
qed

lemma inv_renew_body:
  assumes "lawful g" and "renew_body g now oid aid fn ttl epoch db = Inr (sl, db')" and "store_inv db"
  shows "store_inv db'"
proof -
  define e where "e = upsert_agent aid None ''WORKING'' now db"
  have inv_e: "store_inv e" unfolding e_def by (rule store_inv_grows [OF assms(3) grows_tables(3)])
  show ?thesis
    using assms(2,3) inv_e
    by (auto simp: renew_body_def Let_def transition_results [OF assms(1)] simp flip: e_def elim!: bind_resE
        split: option.splits if_splits intro: inv_renew_set simp: orbit_states_def)
qed

lemma renew_cases:
  "renew g now oid aid fn ttl request epoch db = Inr (r, db') \<Longrightarrow> db' = db \<or>
     (\<exists>t ag verb args x. with_idem (g_sha g) now request ag verb args (renew_body g now oid aid fn t epoch) db = Inr (x, db'))"
  by (auto simp: renew_def Let_def bind_res_Inr_iff reply_of_def split: option.splits if_splits)

lemma inv_renew:
  assumes "lawful g" and "renew g now oid aid fn ttl request epoch db = Inr (r, db')" and "store_inv db"
  shows "store_inv db'"
  using renew_cases [OF assms(2)] assms(3) inv_with_idem [OF _ assms(3)] inv_renew_body [OF assms(1)] by blast

lemma inv_release_set:
  assumes "reconcile_admission g now (set_orbit oid u d) = Inr db'" and "lawful g"
    and "reduce_orbit_lifecycle g now o' ev variant db = Inr (h, i, d)"
    and "step_state g ''orbit'' st ''release'' = Inr s" and "store_inv db" and "u_state u = Some s" and "u_fence u = None"
  shows "store_inv db'"
proof -
  have "store_inv d" by (rule store_inv_grows [OF assms(5) grows_lifecycle [OF assms(3)]])
  then have "store_inv (set_orbit oid u d)" by (rule store_inv_close [OF assms(2) _ assms(4)]) (simp_all add: assms)
  then show ?thesis by (rule inv_reconcile [OF assms(2,1)])
qed

lemma inv_release_body:
  assumes "lawful g" and "release_body g now oid aid fn epoch db = Inr (sl, db')" and "store_inv db"
  shows "store_inv db'"
proof -
  define e where "e = upsert_agent aid None ''WORKING'' now db"
  have inv_e: "store_inv e" unfolding e_def by (rule store_inv_grows [OF assms(3) grows_tables(3)])
  show ?thesis
    using assms(2,3) inv_e
    by (auto simp: release_body_def Let_def simp flip: e_def elim!: bind_resE
        split: option.splits if_splits intro: inv_release_set [OF _ assms(1) _ _ inv_e])
qed

lemma inv_release:
  assumes "lawful g" and "release g now oid aid fn request epoch db = Inr (r, db')" and "store_inv db"
  shows "store_inv db'"
proof -
  have "\<exists>ag verb args x. with_idem (g_sha g) now request ag verb args
      (release_body g now oid aid fn epoch) db = Inr (x, db')"
    using assms(2) by (auto simp: release_def bind_res_Inr_iff reply_of_def)
  then show ?thesis using inv_with_idem [OF _ assms(3)] inv_release_body [OF assms(1)] by blast
qed

lemma store_inv_extend: "store_inv (snd r) \<Longrightarrow> store_inv (snd (extend_lease g now o' r))"
  by (auto simp: extend_lease_def split: option.split intro: store_inv_leave)

lemma store_inv_extends: "store_inv (snd r) \<Longrightarrow> store_inv (snd (fold (extend_lease g now) os r))"
proof (induction os arbitrary: r)
  case (Cons o' os)
  then show ?case using store_inv_extend [of r g now o'] by simp
qed simp

lemma inv_heartbeat: "store_inv db \<Longrightarrow> store_inv (snd (heartbeat g now aid ttl db))"
  by (auto simp: heartbeat_def Let_def split_beta split: option.split
      intro!: store_inv_extends store_inv_grows [OF _ grows_tables(3)] store_inv_grows [OF _ grows_tables(5)])

lemma inv_next_task:
  assumes "lawful g" and "next_task g now db = Inr (r, db')" and "store_inv db"
  shows "store_inv db'"
  using assms(2) unfolding next_task_def
proof (rule bind_resE)
  fix d
  assume "sweep_inline g now db = Inr d"
  then have "store_inv d" by (rule inv_sweep [OF assms(1) _ assms(3)])
  then show "(bind_res (lift_adm (map_res (\<lambda>o'. bind_res (row_strings o') (\<lambda>ps. Inr (ps, mode o'))) (held_orbits d))) (\<lambda>held.
       case List.find (task_ready held d) (tasks_by_state [''PENDING'', ''READY'', ''BLOCKED''] d) of
         None \<Rightarrow> Inr (None, d)
       | Some t \<Rightarrow>
           bind_res (if t_state t = ''READY'' then Inr d
               else bind_res (step_state g ''task'' (t_state t) ''ready'') (\<lambda>st.
                 Inr (set_task (t_task_id t) (\<lambda>t. t\<lparr>t_state := st\<rparr>) d))) (\<lambda>db.
             Inr (get_task (t_task_id t) db, db)))) = Inr (r, db') \<Longrightarrow> store_inv db'"
    by (auto elim!: bind_resE split: option.splits if_splits intro: store_inv_grows [OF _ grows_tables(4)])
qed

lemma inv_start:
  assumes "start_task g now tid aid request epoch tree db = Inr (r, db')" and "store_inv db"
  shows "store_inv db'"
proof -
  have body: "store_inv d'" if "start_body g now tid aid epoch tree d = Inr (sl, d')" "store_inv d" for d sl d'
    using that
    by (auto simp: start_body_def elim!: bind_resE split: option.splits if_splits
        intro!: store_inv_grows [OF _ grows_tables(4)] store_inv_grows [OF _ grows_tables(3)])
  have "\<exists>ag verb args x. with_idem (g_sha g) now request ag verb args
      (start_body g now tid aid epoch tree) db = Inr (x, db')"
    using assms(1) by (auto simp: start_task_def bind_res_Inr_iff reply_of_def)
  then show ?thesis using inv_with_idem [OF _ assms(2)] body by blast
qed

lemma inv_bail:
  assumes "lawful g" and "bail g now aid request db = Inr (r, db')" and "store_inv db"
  shows "store_inv db'"
proof (rule inv_with_idem [OF assms(2) [unfolded bail_def] assms(3)])
  show "store_inv d'" if "bail_body g now aid d = Inr (sl, d')" "store_inv d" for d sl d'
    using that by (auto simp: bail_body_def elim!: bind_resE intro: inv_reclaim_agent [OF assms(1)])
qed

section \<open>Permits and flags\<close>

lemma grows_flag_tables [grows_intros]:
  "grows db (upsert_flag now row db)" "grows db (add_semaphore now sem n db)"
  "grows db (snd (add_sem_waiter now sem aid ttl prio tick deadline db))"
  "grows db (snd (add_flag_waiter now agent key want observed deadline db))"
  by (simp_all add: grows_def upsert_flag_def add_semaphore_def add_sem_waiter_def add_flag_waiter_def fresh_uuid_def
      Let_def)

lemma inv_sem_declare: "store_inv db \<Longrightarrow> store_inv (snd (sem_declare g now sem n db))"
  by (auto simp: sem_declare_def intro: inv_promote_sem store_inv_grows [OF _ grows_flag_tables(2)])

lemma inv_acquire:
  assumes "acquire_after_sweep g now aid sem ttl nw prio epoch db = (r, db')" and "store_inv db"
  shows "store_inv db'"
proof -
  define e where "e = upsert_agent aid None ''WORKING'' now db"
  have inv_e: "store_inv e" unfolding e_def by (rule store_inv_grows [OF assms(2) grows_tables(3)])
  have "store_inv d" if "next_seq e = (tick, d')" "add_sem_waiter now sem aid ttl prio tick (now + ttl_or_default g ttl) d' = (w, d)"
    for tick d' w d
    using store_inv_grows [OF store_inv_grows [OF inv_e grows_tables(15)] grows_flag_tables(3)] that by (metis snd_conv)
  then show ?thesis
    using assms inv_e
    by (auto simp: acquire_after_sweep_def Let_def simp flip: e_def
        split: option.splits if_splits prod.splits intro: inv_grant_permit)
qed

lemma inv_sem_release:
  assumes "lawful g" and "sem_release g now pid aid fn request epoch db = Inr (r, db')" and "store_inv db"
  shows "store_inv db'"
proof (rule inv_with_idem [OF assms(2) [unfolded sem_release_def] assms(3)])
  show "store_inv d'" if "sem_release_body g now pid aid fn epoch d = Inr (sl, d')" and inv: "store_inv d" for d sl d'
  proof -
    have close: "store_inv (set_orbit pid (no_set\<lparr>u_state := Some st, u_released_at := t\<rparr>) d)"
      if "step_state g ''orbit'' ''HELD'' ''release'' = Inr st" for st t
      by (rule store_inv_close [OF assms(1) inv that]) simp_all
    show ?thesis
      using that by (auto simp: sem_release_body_def Let_def elim!: bind_resE split: option.splits if_splits
          intro!: inv_promote_sem) (rule close, assumption)+
  qed
qed

lemma inv_ephemeral_lease:
  assumes "ephemeral_lease g now key aid ttl db = (l, db')" and "store_inv db"
  shows "store_inv db'"
proof -
  obtain f d where f: "next_fence db = (f, d)" by (cases "next_fence db")
  show ?thesis
    using assms(1) by (auto simp: ephemeral_lease_def f orbit_args_def intro: inv_add_lease [OF assms(2) f])
qed

lemma inv_flag_set_body:
  assumes "flag_set_body g now key val agent ftype ttl epoch db = Inr (sl, db')" and "store_inv db"
  shows "store_inv db'"
proof -
  have upsert: "store_inv (wake_flag_waiters key (upsert_flag now row d))" if "store_inv d" for row d
    by (rule store_inv_grows [OF store_inv_grows [OF that grows_flag_tables(1)] grows_wake])
  have agent: "store_inv (upsert_agent aid None ''WORKING'' now db)" for aid
    by (rule store_inv_grows [OF assms(2) grows_tables(3)])
  have expires: "store_inv (set_orbit l (no_set\<lparr>u_expires_at := t\<rparr>) d)" if "store_inv d" for l t d
    by (rule store_inv_leave [OF that]) simp_all
  show ?thesis
    using assms
    by (auto simp: flag_set_body_def flag_set_ephemeral_def flag_set_latch_def Let_def
        split: option.splits if_splits prod.splits intro!: upsert intro: agent expires inv_ephemeral_lease)
qed

lemma inv_flag_set:
  assumes "flag_set g now key val agent ftype ttl request epoch db = Inr (r, db')" and "store_inv db"
  shows "store_inv db'"
  by (rule inv_with_idem [OF assms(1) [unfolded flag_set_def Let_def] assms(2)]) (rule inv_flag_set_body)

lemma inv_flag_clear:
  assumes "lawful g" and "flag_clear g now key agent request epoch db = Inr (r, db')" and "store_inv db"
  shows "store_inv db'"
proof (rule inv_with_idem [OF assms(2) [unfolded flag_clear_def] assms(3)])
  show "store_inv d'" if "flag_clear_body g now key agent epoch d = Inr (sl, d')" and inv: "store_inv d" for d sl d'
  proof -
    have lease: "store_inv e" if "flag_clear_lease g now l d = Inr e" for l e
      using that inv
      by (auto simp: flag_clear_lease_def elim!: bind_resE split: option.splits if_splits
          intro: store_inv_close [OF assms(1) inv])
    show ?thesis
      using that by (auto simp: flag_clear_body_def Let_def elim!: bind_resE split: option.splits if_splits
          intro: store_inv_grows [OF store_inv_grows [OF lease grows_tables(6)] grows_wake])
  qed
qed

end
