(* ===== verification/MergeSafe.thy ===== *)
theory MergeSafe
  imports Authority Connect
begin

text \<open>
  The verbs that end a task keep the authority invariant of the store: \<open>finish\<close>, \<open>cancel\<close>, \<open>read_refresh\<close>
  and the phases of a connect.
\<close>

section \<open>Coherence, finishing and cancelling\<close>

lemma inv_with_idem_reply:
  assumes "bind_res (with_idem sha now request aid verb args body db) (\<lambda>r. Inr (reply_of r)) = Inr (r, db')"
    and "store_inv db" and "\<And>d sl d'. body d = Inr (sl, d') \<Longrightarrow> store_inv d \<Longrightarrow> store_inv d'"
  shows "store_inv db'"
proof -
  obtain x where "with_idem sha now request aid verb args body db = Inr (x, db')"
    using assms(1) by (auto simp: bind_res_Inr_iff reply_of_def)
  then show ?thesis using inv_with_idem assms(2,3) by blast
qed

lemma inv_signal_stale: "store_inv db \<Longrightarrow> store_inv (signal_stale now tid gen r db)"
  unfolding signal_stale_def Let_def
  by (rule store_inv_grows [OF store_inv_leave grows_trans [OF grows_flag_tables(1) grows_wake]]) simp_all

lemma inv_mark_rows: "mark_stale_rows now tid gen globs rs db = Inr (ids, db') \<Longrightarrow> store_inv db \<Longrightarrow> store_inv db'"
proof (induction rs arbitrary: db ids)
  case (Cons r rs)
  obtain d ids' where "mark_stale_rows now tid gen globs rs d = Inr (ids', db')" "d = db \<or> d = signal_stale now tid gen r db"
    using Cons.prems(1) that [of db] that [of "signal_stale now tid gen r db"] by (auto elim!: bind_resE split: if_splits)
  then show ?case using Cons.IH Cons.prems(2) inv_signal_stale by blast
qed simp

lemma inv_mark_stale: "mark_stale_reads now tid gen globs db = Inr (ids, db') \<Longrightarrow> store_inv db \<Longrightarrow> store_inv db'"
  by (auto simp: mark_stale_reads_def split: if_splits intro: inv_mark_rows)

lemma inv_refresh_row: "store_inv db \<Longrightarrow> store_inv (refresh_row gen o' db)"
  unfolding refresh_row_def
  by (auto intro!: store_inv_grows [OF store_inv_leave grows_clear_stale])

lemma inv_read_refresh:
  assumes "read_refresh g now tid aid fn request epoch db = Inr (r, db')" and "store_inv db"
  shows "store_inv db'"
proof (rule inv_with_idem_reply [OF assms(1) [unfolded read_refresh_def] assms(2)])
  fix d sl d' assume body: "read_refresh_body g tid aid fn epoch d = Inr (sl, d')" and inv: "store_inv d"
  have "d' = d \<or> d' = fold (refresh_row (integration_gen d)) (orbits_for_task tid
      (set_task tid (\<lambda>t. t\<lparr>t_read_synced_gen := Some (integration_gen d)\<rparr>) d)) (set_task tid (\<lambda>t. t\<lparr>t_read_synced_gen := Some (integration_gen d)\<rparr>) d)"
    using body by (auto simp: read_refresh_body_def Let_def split: option.splits if_splits)
  then show "store_inv d'"
    using inv store_inv_grows [OF inv grows_tables(4)] by (auto intro: fold_keeps [where P = store_inv] inv_refresh_row)
qed

lemma held_token_none:
  assumes "held_merge_token key db = None" and "a \<in> set (orbits db)" and "held_token a"
  shows "o_resource_key a \<noteq> Some key"
  using assms by (auto simp: held_merge_token_def held_token_def filter_empty_conv)

lemma inv_acquire_token:
  assumes "acquire_merge_token g now tick owner op gen db = (tok, db')" and "store_inv db"
  shows "store_inv db'"
proof (cases "held_merge_token (g_merge_resource g) db")
  case None
  obtain f d where f: "next_fence db = (f, d)" by (cases "next_fence db")
  let ?row = "(orbit_args None owner [] ''write'' ''HELD'')\<lparr>fence := Some f, o_reason := ''merge_token'',
     o_kind := ''merge_token'', o_resource_key := Some (g_merge_resource g)\<rparr>"
  obtain i d2 where d2: "add_orbit now None ?row d = (i, d2)" by (cases "add_orbit now None ?row d")
  have "store_inv d2"
    by (rule inv_add_lease [OF assms(2) f d2])
      (simp_all add: orbit_args_def held_token_none [OF None])
  then show ?thesis
    using assms(1) by (auto simp: acquire_merge_token_def None f d2 Let_def intro!: store_inv_leave)
next
  case (Some k)
  then show ?thesis using assms by (simp add: acquire_merge_token_def)
qed

lemma inv_release_token:
  "lawful g \<Longrightarrow> release_merge_token g now tok db = Inr db' \<Longrightarrow> store_inv db \<Longrightarrow> store_inv db'"
  by (auto simp: release_merge_token_def elim!: bind_resE split: option.splits if_splits intro: store_inv_close)

lemma inv_release_write:
  assumes "lawful g" and "release_write_orbit g now o' db = Inr db'" and "store_inv db"
  shows "store_inv db'"
  using assms(2,3)
  by (auto simp: release_write_orbit_def elim!: bind_resE split: if_splits
      intro: store_inv_close [OF assms(1) store_inv_grows [OF assms(3) grows_lifecycle]])

lemma inv_release_writes:
  "lawful g \<Longrightarrow> release_task_write_orbits g now tid db = Inr db' \<Longrightarrow> store_inv db \<Longrightarrow> store_inv db'"
  unfolding release_task_write_orbits_def by (erule for_rows_inv) (auto intro: inv_release_write)

lemma grows_touch [grows_intros]: "grows db (touch_agent now aid db)"
  by (auto simp: touch_agent_def split: option.split intro: grows_intros)

lemma grows_set_flag [grows_intros]: "grows db (set_flag now key val by db)"
  by (simp add: grows_def set_flag_def)

lemma inv_finish:
  assumes "finish g now tid aid fn request epoch db = Inr (r, db')" and "store_inv db"
  shows "store_inv db'"
proof (rule inv_with_idem_reply [OF assms(1) [unfolded finish_def] assms(2)])
  fix d sl d' assume "finish_body g now tid aid fn epoch d = Inr (sl, d')" and inv: "store_inv d"
  moreover have "store_inv (touch_agent now aid d)" by (rule store_inv_grows [OF inv grows_touch])
  ultimately show "store_inv d'"
    by (auto simp: finish_body_def Let_def elim!: bind_resE split: option.splits if_splits
        intro!: store_inv_grows [OF _ grows_set_flag] store_inv_grows [OF _ grows_tables(4)])
qed

lemma inv_terminalize_orbit:
  assumes "lawful g" and "terminalize_orbit g now o' db = Inr (b, db')" and "store_inv db"
  shows "store_inv db'"
proof -
  define d0 where "d0 = (case o_request_id o' of None \<Rightarrow> db | Some r \<Rightarrow> clear_idem r db)"
  have inv: "store_inv d0"
    unfolding d0_def using assms(3) by (auto split: option.split intro: store_inv_grows [OF _ grows_tables(11)])
  show ?thesis
  proof (cases "o_state o' \<in> {''PENDING'', ''HELD''}")
    case False
    then show ?thesis using assms(2) inv by (simp add: terminalize_orbit_def d0_def Let_def)
  next
    case True
    obtain e d1 where e: "fresh_event_id d0 = (e, d1)" by (cases "fresh_event_id d0")
    have g1: "grows d0 d1" using grows_tables(16) [of d0] e by simp
    have "\<exists>ctx ev payload h x r d st trig u. assert_admission_projection g now ctx ev payload h x d1 = Inr (r, d) \<and>
        step_state g ''orbit'' (o_state o') trig = Inr st \<and> trig \<in> {''release'', ''deny''} \<and> u_state u = Some st \<and>
        u_fence u = None \<and>
        (db' = set_orbit (orbit_id o') u d \<or> db' = clear_read_stale_signal (orbit_id o') (set_orbit (orbit_id o') u d))"
    proof -
      obtain ctx ev payload h x r d st trig where
        p: "assert_admission_projection g now ctx ev payload h x d1 = Inr (r, d)"
        and st: "step_state g ''orbit'' (o_state o') trig = Inr st" "trig \<in> {''release'', ''deny''}"
        and db': "db' = set_orbit (orbit_id o') (cancelled_columns now st h ev) d \<or>
          db' = clear_read_stale_signal (orbit_id o') (set_orbit (orbit_id o') (cancelled_columns now st h ev) d)"
        using assms(2) True
        by (cases "o_state o' = ''HELD''"; cases "mode o' = ''read''";
            auto simp: terminalize_orbit_def Let_def e simp flip: d0_def elim!: bind_resE)
      have u: "u_state (cancelled_columns now st h ev) = Some st" "u_fence (cancelled_columns now st h ev) = None"
        by (simp_all add: cancelled_columns_def)
      show ?thesis using p st db' u by blast
    qed
    then obtain ctx ev payload h x r d st trig u where
      p: "assert_admission_projection g now ctx ev payload h x d1 = Inr (r, d)"
      and st: "step_state g ''orbit'' (o_state o') trig = Inr st" "trig \<in> {''release'', ''deny''}"
      and u: "u_state u = Some st" "u_fence u = None"
      and db': "db' = set_orbit (orbit_id o') u d \<or> db' = clear_read_stale_signal (orbit_id o') (set_orbit (orbit_id o') u d)"
      by blast
    have "store_inv d" by (rule store_inv_grows [OF inv grows_trans [OF g1 grows_projection [OF p]]])
    then have "store_inv (set_orbit (orbit_id o') u d)"
      by (rule store_inv_close [OF assms(1) _ st(1)]) (use st u in auto)
    then show ?thesis using db' store_inv_grows [OF _ grows_clear_stale] by auto
  qed
qed

lemma inv_terminalize_orbits:
  "lawful g \<Longrightarrow> terminalize_orbits g now os db = Inr (ids, db') \<Longrightarrow> store_inv db \<Longrightarrow> store_inv db'"
proof (induction os arbitrary: db ids)
  case (Cons o' os)
  from Cons.prems(2) obtain b d ids' where d: "terminalize_orbit g now o' db = Inr (b, d)"
    "terminalize_orbits g now os d = Inr (ids', db')" by (auto elim!: bind_resE)
  show ?case by (rule Cons.IH [OF Cons.prems(1) d(2) inv_terminalize_orbit [OF Cons.prems(1) d(1) Cons.prems(3)]])
qed simp

lemma inv_cancel:
  assumes "lawful g" and "cancel g now tid reason request db = Inr (r, db')" and "store_inv db"
  shows "store_inv db'"
proof (rule inv_with_idem_reply [OF assms(2) [unfolded cancel_def] assms(3)])
  fix d sl d' assume body: "cancel_body g now tid reason d = Inr (sl, d')" and inv: "store_inv d"
  have step: "store_inv e2" if "terminalize_cancelled_task_orbits g now tid e = Inr (ids, e1)" "reconcile_admission g now e1 = Inr e2"
    "store_inv e" for e ids e1 e2
    using that inv_terminalize_orbits [OF assms(1)] inv_reconcile [OF assms(1)]
    unfolding terminalize_cancelled_task_orbits_def by blast
  show "store_inv d'"
    using body inv step store_inv_grows [OF inv grows_tables(4)]
    by (auto simp: cancel_body_def elim!: bind_resE split: option.splits if_splits)
qed

section \<open>The phases of a connect\<close>

lemma inv_hold_pins: "store_inv db \<Longrightarrow> store_inv (hold_pins ids db)"
  unfolding hold_pins_def by (rule fold_keeps [where P = store_inv]) (auto intro: store_inv_leave)

lemma inv_pins: "store_inv db \<Longrightarrow> store_inv (fold (pin_orbit t) os db)"
  by (rule fold_keeps [where P = store_inv]) (auto simp: pin_orbit_def intro: store_inv_leave)

lemma inv_unpins: "store_inv db \<Longrightarrow> store_inv (fold unpin_orbit os db)"
  by (rule fold_keeps [where P = store_inv]) (auto simp: unpin_orbit_def intro: store_inv_leave)

lemma grows_bind_exact [grows_intros]:
  "grows db (snd (bind_idem_operation_exact r aid verb digest op inst gen db))"
  by (simp add: grows_def bind_idem_operation_exact_def update_exact_def Let_def)

lemma inv_start_attempt:
  assumes "lawful g" and "start_attempt g now t writes it db = Inr (a, db')" and "store_inv db"
  shows "store_inv db'"
proof -
  obtain st where st: "connecting_state g (t_state t) = Inr st" using assms(2) by (auto simp: start_attempt_def elim!: bind_resE)
  show ?thesis
  proof (cases st)
    case None
    then show ?thesis
      using assms(2) st inv_release_token [OF assms(1) _ assms(3)] by (auto simp: start_attempt_def elim!: bind_resE)
  next
    case (Some s)
    define d where "d = set_task (it_task_id it) (intent_columns g now s (max_fence writes) it) db"
    have inv: "store_inv d" unfolding d_def by (rule store_inv_grows [OF assms(3) grows_tables(4)])
    have bound: "store_inv e" if "bind_idem_operation_exact r ag v h op i n d = (b, e)" for r ag v h op i n b e
      using store_inv_grows [OF inv grows_bind_exact [of d r ag v h op i n]] that by simp
    show ?thesis
      using assms(2) st Some inv
      by (auto simp: start_attempt_def Let_def simp flip: d_def split: option.splits prod.splits if_splits
          intro: inv_pins bound)
  qed
qed

lemma inv_connect_admit:
  assumes "lawful g" and "connect_admit g now tick aid request digest t writes snap globs db = Inr (a, db')" and "store_inv db"
  shows "store_inv db'"
proof -
  obtain u d1 where u: "fresh_uuid db = (u, d1)" by (cases "fresh_uuid db")
  have d1: "store_inv d1" using store_inv_grows [OF assms(3) grows_tables(13)] u by simp
  show ?thesis
    using assms(2,3)
    by (auto simp: connect_admit_def Let_def u split: prod.splits if_splits option.splits
        intro: inv_acquire_token [OF _ d1] inv_start_attempt [OF assms(1) _ inv_acquire_token [OF _ d1]])
qed

lemma inv_phase_a:
  assumes "lawful g" and "connect_phase_a g R now tick tid aid fn epoch request digest db w = (Inr (a, db'), w')" and "store_inv db"
  shows "store_inv db'"
proof -
  obtain d where d: "sweep_inline g now db = Inr d" using assms(2) by (auto simp: connect_phase_a_def split: sum.splits)
  have inv: "store_inv d" by (rule inv_sweep [OF assms(1) d assms(3)])
  have "db' = d \<or> (\<exists>t writes snap globs. connect_admit g now tick aid request digest t writes snap globs d = Inr (a, db'))"
    using assms(2) d by (auto simp: connect_phase_a_def split: sum.splits prod.splits) 
  then show ?thesis using inv inv_connect_admit [OF assms(1)] by blast
qed

lemma inv_connect_commit:
  assumes "lawful g" and "connect_commit g now it sha db = Inr (r, db')" and "store_inv db"
  shows "store_inv db'"
proof -
  define tid where "tid = it_task_id it"
  obtain st where st: "step_state g ''task'' ''CONNECTING'' ''merged'' = Inr st"
    using assms(2) by (auto simp: connect_commit_def Let_def elim!: bind_resE)
  define d0 where "d0 = set_task tid (\<lambda>t. t\<lparr>t_state := st, t_connect_intent_at := None, t_integration_base_sha := None\<rparr>)
    (set_task tid (\<lambda>t. t\<lparr>t_merge_sha := sha, t_merged_at := Some now\<rparr>) db)"
  obtain gen d1 where gen: "bump_integration_gen d0 = (gen, d1)" by (cases "bump_integration_gen d0")
  obtain globs ids d2 d3 d4 where
    d2: "mark_stale_reads now tid gen globs (append_merge_log now gen tid globs d1) = Inr (ids, d2)"
    and d3: "release_task_write_orbits g now tid d2 = Inr d3"
    and d4: "release_merge_token g now (it_token_id it) d3 = Inr d4"
    and db': "reconcile_admission g now (set_flag now tid (Some ''merged'') None d4) = Inr db'"
    using assms(2) by (auto simp: connect_commit_def Let_def st gen simp flip: tid_def d0_def elim!: bind_resE)
  have "grows db d0" unfolding d0_def by (rule grows_trans [OF grows_tables(4) grows_tables(4)])
  moreover have "grows d0 (append_merge_log now gen tid globs d1)"
    using gen by (auto simp: grows_def bump_integration_gen_def append_merge_log_def Let_def)
  ultimately have "store_inv (append_merge_log now gen tid globs d1)" using store_inv_grows [OF assms(3)] grows_trans by blast
  then have "store_inv d2" by (rule inv_mark_stale [OF d2])
  then have "store_inv d3" by (rule inv_release_writes [OF assms(1) d3])
  then have "store_inv d4" by (rule inv_release_token [OF assms(1) d4])
  then show ?thesis by (intro inv_reconcile [OF assms(1) db'] store_inv_grows [OF _ grows_set_flag])
qed

lemma grows_add_task [grows_intros]: "grows db (add_task now tid nm ws rs ds st p sh rf fs db)"
  by (simp add: grows_def add_task_def)

lemma inv_connect_roll_back:
  assumes "lawful g" and "connect_roll_back g now it e culprits db = Inr (r, db')" and "store_inv db"
  shows "store_inv db'"
proof -
  define d0 where "d0 = fold unpin_orbit (pinned_orbits_for_task (it_task_id it) db) db"
  have "store_inv d0" unfolding d0_def by (rule inv_unpins [OF assms(3)])
  then have chain: "store_inv d2"
    if "release_merge_token g now k (set_task tid f d0) = Inr d1" and "reconcile_admission g now d1 = Inr d2" for k tid f d1 d2
    using inv_release_token [OF assms(1) that(1) store_inv_grows [OF _ grows_tables(4)]] inv_reconcile [OF assms(1) that(2)]
    by blast
  have resolve: "store_inv d'" if "promote_resolve_task now tid fs d = (x, d')" and "store_inv d" for tid fs d x d'
    using that by (auto simp: promote_resolve_task_def Let_def split: if_splits intro: store_inv_grows [OF _ grows_add_task])
  show ?thesis
    using assms(2)
    by (auto simp: connect_roll_back_def Let_def simp flip: d0_def elim!: bind_resE split: prod.splits option.splits
        intro: chain resolve [OF _ chain])
qed

lemma inv_connect_stop: "connect_stop it p db = Some (r, db') \<Longrightarrow> store_inv db \<Longrightarrow> store_inv db'"
  by (auto simp: connect_stop_def split: option.splits if_splits intro: inv_hold_pins)

lemma inv_phase_c:
  assumes "lawful g" and "connect_phase_c g R now it sha err db w = (Inr (r, db'), w')" and "store_inv db"
  shows "store_inv db'"
proof -
  have "db' = db \<or> (\<exists>p. connect_stop it p db = Some (r, db')) \<or> (\<exists>s. connect_commit g now it s db = Inr (r, db')) \<or>
      (\<exists>e cs. connect_roll_back g now it e cs db = Inr (r, db'))"
    using assms(2) by (auto simp: connect_phase_c_def split: sum.splits prod.splits if_splits option.splits)
  then show ?thesis
    using assms(3) inv_connect_stop inv_connect_commit [OF assms(1)] inv_connect_roll_back [OF assms(1)] by blast
qed

section \<open>A small repository\<close>

text \<open>A repository whose branches stand at two commits, with one changed file, and a store with the finished
  task of that branch.\<close>

definition sample_lease_row :: "nat \<Rightarrow> string \<Rightarrow> string \<Rightarrow> orbit" where
  "sample_lease_row k aid path = (orbit_args None aid [path] ''write'' ''HELD'')\<lparr>orbit_id := row_name k,
     fence := Some (int k + 1), o_expires_at := Some 600\<rparr>"

lemma sample_lease_simps [simp]:
  "orbit_id (sample_lease_row k aid path) = row_name k" "mode (sample_lease_row k aid path) = ''write''"
  "o_state (sample_lease_row k aid path) = ''HELD''" "o_kind (sample_lease_row k aid path) = ''orbit''"
  "fence (sample_lease_row k aid path) = Some (int k + 1)"
  "pathspec (sample_lease_row k aid path) = Text (Some (JList [JStr path]))"
  by (simp_all add: sample_lease_row_def orbit_args_def)

definition merged_git :: "string list \<Rightarrow> rat option \<Rightarrow> unit \<Rightarrow> process_outcome \<times> unit" where
  "merged_git args t w =
     (if hd args = ''rev-parse'' then (Exited 0 ''c0'' [], w)
      else if hd args = ''-c'' then (Exited 0 ''src/a/x'' [], w)
      else if hd args = ''log'' then (Exited 0 ''c1'' [], w)
      else (Exited 0 [] [], w))"

definition sample_merge_repo :: "unit repo" where
  "sample_merge_repo = \<lparr>r_host = \<lparr>run_git = merged_git, path_exists = (\<lambda>p w. True),
       run_check = (\<lambda>argv t limit w. (CheckRan (Some 0) [] [] False, w))\<rparr>,
     r_integration_branch = ''main'', r_worktree = ''wt'', r_check = None, r_check_timeout = Fin 60, r_check_limit = 10,
     r_auto_push = None\<rparr>"

definition finished_store :: db where
  "finished_store = empty_db\<lparr>orbits := [(sample_lease_row 0 ''a'' ''src/a/**'')\<lparr>o_task_id := Some ''T''\<rparr>],
     tasks := [(new_task 1 ''T'' ''work'' [''src/a/**''] [] [] ''DONE'' 0 [] None None)\<lparr>t_branch := Some ''omd/T'',
       t_agent_id := Some ''a''\<rparr>], uuids := 1, fence_counter := 1\<rparr>"

text \<open>The digest has the shape of a SHA-256, which the admission contract demands.\<close>

definition digest_config :: config where
  "digest_config = sample_config\<lparr>g_sha := (\<lambda>_. replicate 64 (CHR ''a''))\<rparr>"

lemma finished_store_inv: "store_inv finished_store"
  unfolding store_inv_def finished_store_def
  by (intro rows_okI) (auto simp: row_typed_def orbit_states_def held_token_def empty_db_def sound_row_def admission_modes_def)

lemma digest_config_lawful: "lawful digest_config"
  using sample_config_lawful by (simp add: lawful_def digest_config_def)

definition sample_phase_a :: "(core_error, phase_a_answer \<times> db) result" where
  "sample_phase_a = fst (connect_phase_a digest_config sample_merge_repo 2 2 ''T'' (Some ''a'') (Some 1) None None None finished_store ())"

lemma sample_phase_a_attempt:
  "case sample_phase_a of Inr (Attempt it, db') \<Rightarrow> it_branch_tip_sha it = Some ''c0'' \<and> it_repo_bound it | _ \<Rightarrow> False"
  by code_simp

definition sample_phase_c :: "db \<Rightarrow> intent \<Rightarrow> (core_error, json \<times> db) result" where
  "sample_phase_c db it = fst (connect_phase_c digest_config sample_merge_repo 3 it (Some ''c1'') None db ())"

lemma sample_phase_c_merges:
  "case sample_phase_a of Inr (Attempt it, db) \<Rightarrow> (case sample_phase_c db it of Inr (r, db') \<Rightarrow> is_success r | _ \<Rightarrow> False) | _ \<Rightarrow> False"
  by code_simp

lemma sample_phase_c_lost:
  "case sample_phase_a of Inr (Attempt it, db) \<Rightarrow> \<not> attempt_owned digest_config it finished_store \<and>
     (case sample_phase_c finished_store it of Inr r \<Rightarrow> True | _ \<Rightarrow> False) | _ \<Rightarrow> False"
  by code_simp

lemma sample_attempt:
  obtains it db where "sample_phase_a = Inr (Attempt it, db)" "it_branch_tip_sha it = Some ''c0''" "it_repo_bound it"
  using sample_phase_a_attempt by (auto split: sum.splits prod.splits phase_a_answer.splits)

section \<open>What a merge needs\<close>

text \<open>C14. Read coherence: when the ghost check of a connect passes, no path that the task declares to read
  has been written, as far as the write globs of the merge log tell, by a merge of another task since
  the task last synchronised its reads.\<close>

theorem unghosted_reads_are_current:
  assumes "t_read_synced_gen t = Some synced" and "ghost_reads t db = []"
    and "m \<in> set (merge_log db)" and "synced < m_gen m" and "m_task_id m \<noteq> t_task_id t"
  shows "\<not> (path_in_globs p (t_reads t) \<and> path_in_globs p (m_globs m))"
proof
  assume p: "path_in_globs p (t_reads t) \<and> path_in_globs p (m_globs m)"
  then obtain gl where gl: "gl \<in> set (m_globs m)" "path_in_globs p [gl]"
    by (auto simp: path_in_globs_def list_ex_iff)
  have "sets_overlap (t_reads t) (m_globs m)" "sets_overlap (t_reads t) [gl]"
    using p gl overlap_of_shared_path by blast+
  then have "gl \<in> set (ghosts_of t m)" using gl assms(5) by (simp add: ghosts_of_def)
  moreover have "m \<in> set (merges_since synced db)" using assms(3,4) by (simp add: merges_since_def)
  moreover have "t_reads t \<noteq> []" using p by (auto simp: path_in_globs_def)
  ultimately have "gl \<in> set (ghost_reads t db)"
    using assms(1) by (auto simp: ghost_reads_def first_occurrences_def)
  then show False using assms(2) by simp
qed

lemma unghosted_reads_are_current_witness:
  "\<not> (path_in_globs ''src/a'' [''src/**''] \<and> path_in_globs ''src/a'' [''docs/**''])"
proof -
  let ?t = "(new_task 1 ''T'' ''work'' [] [''src/**''] [] ''IN_ORBIT'' 0 [] None None)\<lparr>t_read_synced_gen := Some 1\<rparr>"
  let ?m = "\<lparr>m_gen = 2, m_task_id = ''U'', m_globs = [''docs/**''], m_merged_at = 5\<rparr>"
  have "ghost_reads ?t (empty_db\<lparr>merge_log := [?m]\<rparr>) = []" by code_simp
  from unghosted_reads_are_current [OF _ this, of 1 ?m "''src/a''"] show ?thesis by (simp add: new_task_def)
qed

lemma write_guards:
  assumes "connect_guards tid aid fn epoch db = Inr (t, writes)"
  shows "get_task tid db = Some t" and "writes = write_orbits tid db" and "writes \<noteq> []" and "stale_writes writes aid fn = []"
  using assms by (auto simp: connect_guards_def Let_def split: option.splits if_splits)

lemma both_empty: "(if c then xs @ ys else xs) = [] \<Longrightarrow> xs = []" "(if c then xs @ ys else xs) = [] \<Longrightarrow> c \<Longrightarrow> ys = []"
  by (simp_all split: if_split_asm)

lemma no_stale_writes:
  assumes "stale_writes writes aid fn = []" and "writes \<noteq> []"
  shows "(\<forall>o'\<in>set writes. o_state o' = ''HELD'' \<and> (aid \<noteq> None \<longrightarrow> aid = Some (agent_id o'))) \<and>
    (fn \<noteq> None \<longrightarrow> fn = max_fence writes)"
proof -
  define foreign where "foreign = filter (\<lambda>o'. aid \<noteq> None \<and> Some (agent_id o') \<noteq> aid) writes"
  have held: "filter (\<lambda>o'. o_state o' \<noteq> ''HELD'') writes = []"
    using assms(1) unfolding stale_writes_def Let_def by (simp split: if_split_asm)
  have "(if fn \<noteq> None \<and> fn \<noteq> max_fence writes
      then map orbit_id foreign @ map orbit_id (filter (\<lambda>o'. orbit_id o' \<notin> set (map orbit_id foreign)) writes)
      else map orbit_id foreign) = []"
    using assms(1) unfolding stale_writes_def Let_def held foreign_def by simp
  then have parts: "map orbit_id foreign = []" "fn \<noteq> None \<and> fn \<noteq> max_fence writes \<Longrightarrow>
      map orbit_id (filter (\<lambda>o'. orbit_id o' \<notin> set (map orbit_id foreign)) writes) = []"
    by (rule both_empty)+
  have "foreign = []" using parts(1) by simp
  then have fence: "fn \<noteq> None \<longrightarrow> fn = max_fence writes" using parts(2) assms(2) by auto
  from \<open>foreign = []\<close> have "\<forall>o'\<in>set writes. aid \<noteq> None \<longrightarrow> aid = Some (agent_id o')" unfolding foreign_def filter_empty_conv by auto
  moreover have "\<forall>o'\<in>set writes. o_state o' = ''HELD''" using held unfolding filter_empty_conv by simp
  ultimately show ?thesis using fence by simp
qed

lemma get_task_id: "get_task tid db = Some t \<Longrightarrow> t_task_id t = tid"
  using fetchone_filter_Some [of "\<lambda>t. t_task_id t = tid" "tasks db" t] by (simp add: get_task_def)

lemma io_catch_Inr:
  "io_catch m h w = (Inr x, w') \<longleftrightarrow> m w = (Inr x, w') \<or> (\<exists>e v. m w = (Inl e, v) \<and> is_git_error e \<and> h e v = (Inr x, w'))"
  by (auto simp: io_catch_def split: prod.splits sum.splits if_splits)

lemma clean_audit:
  assumes "writeset_audit_of True R tid candidate globs base w = (Inr a, w')" and "\<not> audit_blocks a"
  shows "\<exists>tip b v changed. candidate = Some tip \<and> base = Some b \<and> changed_paths (r_host R) tip b w = (Inr changed, v) \<and>
    list_all (\<lambda>p. path_in_globs p globs) changed"
  using assms
  by (auto simp: writeset_audit_of_def io_catch_Inr io_bind_Inr Let_def audit_blocks_def audit_failed_def present_def
      filter_empty_conv list_all_iff split: if_splits)

lemma clean_snapshot:
  assumes "snapshot_connect_candidate True R tid branch globs w = (Inr (tip, base, a), w')" and "\<not> audit_blocks a"
  shows "\<exists>x y v changed v'. tip = Some x \<and> base = Some y \<and> changed_paths (r_host R) x y v = (Inr changed, v') \<and>
    list_all (\<lambda>p. path_in_globs p globs) changed"
proof -
  have "\<exists>v v'. writeset_audit_of True R tid tip globs base v = (Inr a, v')"
  proof (cases "present branch")
    case False
    then show ?thesis using assms by (auto simp: snapshot_connect_candidate_def io_bind_Inr)
  next
    case True
    then obtain refs v v' where
      "(case refs of Inl e \<Rightarrow> io_return (None, None, audit_failed (''git ref resolution failed: '' @ error_text e))
        | Inr (tip, base) \<Rightarrow> io_bind (writeset_audit_of True R tid tip globs base) (\<lambda>a. io_return (tip, base, a))) v =
       (Inr (tip, base, a), v')"
      using assms(1) by (simp only: snapshot_connect_candidate_def io_bind_Inr simp_thms if_False) (elim exE conjE, rule that)
    then show ?thesis
      using assms(2) by (cases refs) (auto simp: audit_failed_def audit_blocks_def io_bind_Inr split: prod.splits)
  qed
  then show ?thesis using clean_audit [OF _ assms(2)] by fast
qed

lemma admitted:
  assumes "connect_admit g now tick aid request digest t writes snap globs db = Inr (Attempt it, db')"
  shows "\<not> audit_blocks (snd (snd snap)) \<and> ghost_reads t db = [] \<and> stale_read_orbits_for_task (t_task_id t) db = [] \<and>
    held_merge_token (g_merge_resource g) db = None \<and> it_branch_tip_sha it = fst snap \<and>
    it_integration_base_sha it = fst (snd snap)"
proof -
  have it: "x = y" if "start_attempt g now t writes x d = Inr (Attempt y, d')" for x y d d'
    using that by (auto simp: start_attempt_def Let_def elim!: bind_resE split: option.splits prod.splits if_splits)
  have free: "held_merge_token k d = None" if "acquire_merge_token g now tick ow op n d = (Some tok, d')" "k = g_merge_resource g"
    for k d ow op n tok d'
    using that by (auto simp: acquire_merge_token_def split: option.splits)
  have draw: "held_merge_token k d' = held_merge_token k d" if "fresh_uuid d = (u, d')" for k d u d'
    using that by (auto simp: fresh_uuid_def held_merge_token_def)
  show ?thesis
    using assms
    by (auto simp: connect_admit_def Let_def draw split: prod.splits if_splits option.splits dest!: it free)
qed

text \<open>C10. An attempt starts from current work only: when Phase A answers with an attempt, in the swept store
  every write orbit of the task is HELD and belongs to the caller, a fence that was given is the task's, no
  read of the task is stale or was overtaken by a merge, no other merge holds the token, and with a
  repository every path the audited commit changes is covered by the claimed write set.\<close>

theorem attempt_is_current:
  assumes "connect_phase_a g R now tick tid aid fn epoch request digest db w = (Inr (Attempt it, db'), w')"
  shows "\<exists>d t globs. sweep_inline g now db = Inr d \<and> get_task tid d = Some t \<and> write_orbits tid d \<noteq> [] \<and>
    claimed_write_globs (write_orbits tid d) = Inr globs \<and>
    (\<forall>o'\<in>set (write_orbits tid d). o_state o' = ''HELD'' \<and> (aid \<noteq> None \<longrightarrow> aid = Some (agent_id o'))) \<and>
    (fn \<noteq> None \<longrightarrow> fn = max_fence (write_orbits tid d)) \<and>
    ghost_reads t d = [] \<and> stale_read_orbits_for_task tid d = [] \<and> held_merge_token (g_merge_resource g) d = None \<and>
    (g_repo_bound g \<longrightarrow> (\<exists>tip base v changed v'. it_branch_tip_sha it = Some tip \<and> it_integration_base_sha it = Some base \<and>
       changed_paths (r_host R) tip base v = (Inr changed, v') \<and> list_all (\<lambda>p. path_in_globs p globs) changed))"
proof -
  obtain d t writes globs snap v where d: "sweep_inline g now db = Inr d"
    and guards: "connect_guards tid aid fn epoch d = Inr (t, writes)" and globs: "claimed_write_globs writes = Inr globs"
    and snap: "snapshot_connect_candidate (g_repo_bound g) R tid (t_branch t) globs w = (Inr snap, v)"
    and admit: "connect_admit g now tick aid request digest t writes snap globs d = Inr (Attempt it, db')"
    using assms by (auto simp: connect_phase_a_def split: sum.splits prod.splits)
  note g = write_guards [OF guards]
  have "\<exists>tip base v changed v'. it_branch_tip_sha it = Some tip \<and> it_integration_base_sha it = Some base \<and>
      changed_paths (r_host R) tip base v = (Inr changed, v') \<and> list_all (\<lambda>p. path_in_globs p globs) changed" if "g_repo_bound g"
    using clean_snapshot [of R tid "t_branch t" globs w "fst snap" "fst (snd snap)" "snd (snd snap)" v]
      snap that admitted [OF admit] by simp
  then show ?thesis
    using d g globs admitted [OF admit] no_stale_writes [OF g(4,3)] get_task_id [OF g(1)] by blast
qed

lemma attempt_is_current_witness:
  "\<exists>it db d. sample_phase_a = Inr (Attempt it, db) \<and> sweep_inline digest_config 2 finished_store = Inr d \<and>
     stale_read_orbits_for_task ''T'' d = [] \<and> held_merge_token ''repo'' d = None"
proof -
  obtain it db where a: "sample_phase_a = Inr (Attempt it, db)" by (rule sample_attempt)
  then have "connect_phase_a digest_config sample_merge_repo 2 2 ''T'' (Some ''a'') (Some 1) None None None finished_store () =
      (Inr (Attempt it, db), ())"
    by (simp add: sample_phase_a_def prod_eq_iff)
  from attempt_is_current [OF this] a show ?thesis by (auto simp: digest_config_def sample_config_def)
qed

lemma owned_token:
  assumes "attempt_owned g it db"
  obtains k where "k \<in> set (orbits db)" "orbit_id k = it_token_id it" "token_bound g it k"
proof -
  obtain k where k: "get_orbit (it_token_id it) db = Some k" "token_bound g it k"
    using assms by (auto simp: attempt_owned_def split: option.splits)
  then have "k \<in> set (orbits db) \<and> orbit_id k = it_token_id it"
    using fetchone_filter_Some [of "\<lambda>o'. orbit_id o' = it_token_id it" "orbits db" k] by (simp add: get_orbit_def)
  then show ?thesis using that k(2) by blast
qed

lemma stop_fails: "connect_stop it p db = Some (r, db') \<Longrightarrow> \<not> is_success r"
  by (auto simp: connect_stop_def stopped_def preserved_def split: option.splits if_splits)

lemma roll_back_fails: "connect_roll_back g now it e culprits db = Inr (r, db') \<Longrightarrow> \<not> is_success r"
  by (auto simp: connect_roll_back_def Let_def elim!: bind_resE split: prod.splits)

lemma commit_records:
  "connect_commit g now it sha db = Inr (r, db') \<Longrightarrow> dict_get ''merge_sha'' r = Some (opt_str sha)"
  by (auto simp: connect_commit_def Let_def elim!: bind_resE split: prod.splits)

lemma fence_fails [simp]: "\<not> is_success (fence_response it)"
  by (simp add: fence_response_def preserved_def)

lemma catch_after:
  assumes "io_catch (io_bind m (\<lambda>_. io_bind n f)) h w = (Inr p, w')"
  shows "(\<exists>x v v'. n v = (Inr x, v') \<and> f x v' = (Inr p, w')) \<or> (\<exists>e v. h e v = (Inr p, w'))"
  using assms unfolding io_catch_Inr io_bind_Inr by blast

lemma proof_of_merge:
  assumes "connect_proof g R it sha err w = (Inr p, w')" and "it_repo_bound it" and "connect_stop it p db = None"
    and "mp_error p = None"
  shows "\<exists>proven v v' v''. mp_sha p = Some proven \<and>
    branch_in_integration (r_host R) (r_integration_branch R) (attempt_trailer (it_attempt_id it)) True v = (Inr (Some proven), v') \<and>
    assert_ancestor (r_host R) (the (it_branch_tip_sha it)) proven v' = (Inr (), v'')"
proof -
  have problem: "mp_problem p = None" and sha: "mp_proven p = mp_sha p" "mp_sha p \<noteq> None"
    using assms(2-4) by (auto simp: connect_stop_def present_def split: option.splits if_splits)
  then have "g_repo_bound g" using assms(1,2) by (cases "g_repo_bound g") (auto simp: connect_proof_def Let_def)
  with assms(1,2) show ?thesis
    apply (simp only: connect_proof_def Let_def simp_thms if_False)
    apply (drule catch_after)
    apply (elim disjE exE conjE)
    subgoal for found v v' using problem sha by (cases found) (fastforce simp: io_bind_Inr split: if_splits option.splits)+
    subgoal using problem by auto
    done
qed

text \<open>Nothing is merged on a claim: Phase C reports success only to the attempt that still owns its task,
  token, pins and request, and, with a repository, only with a commit of the integration branch that
  carries this attempt's trailer and descends from the audited commit; that commit is the one it records.\<close>

theorem success_is_proved:
  assumes "connect_phase_c g R now it sha err db w = (Inr (r, db'), w')" and "is_success r"
  shows "attempt_owned g it db \<and> (it_repo_bound it \<longrightarrow> (\<exists>proven v v' v''.
    branch_in_integration (r_host R) (r_integration_branch R) (attempt_trailer (it_attempt_id it)) True v = (Inr (Some proven), v') \<and>
    assert_ancestor (r_host R) (the (it_branch_tip_sha it)) proven v' = (Inr (), v'') \<and>
    dict_get ''merge_sha'' r = Some (JStr proven)))"
proof -
  obtain p v where p: "connect_proof g R it sha err w = (Inr p, v)"
    using assms(1) by (auto simp: connect_phase_c_def split: prod.splits sum.splits)
  have owned: "attempt_owned g it db" and go: "connect_stop it p db = None" and ok: "mp_error p = None"
    and commit: "connect_commit g now it (mp_sha p) db = Inr (r, db')"
    using assms p by (auto simp: connect_phase_c_def split: prod.splits sum.splits if_splits option.splits
        dest: stop_fails roll_back_fails)
  then show ?thesis using proof_of_merge [OF p _ go ok] commit_records [OF commit] by (fastforce simp: opt_str_def)
qed

lemma success_is_proved_witness:
  "\<exists>it db proven v v' v''. sample_phase_a = Inr (Attempt it, db) \<and> attempt_owned digest_config it db \<and>
     branch_in_integration (r_host sample_merge_repo) ''main'' (attempt_trailer (it_attempt_id it)) True v = (Inr (Some proven), v') \<and>
     assert_ancestor (r_host sample_merge_repo) ''c0'' proven v' = (Inr (), v'')"
proof -
  obtain it db where a: "sample_phase_a = Inr (Attempt it, db)" and tip: "it_branch_tip_sha it = Some ''c0''" and bound: "it_repo_bound it"
    by (rule sample_attempt)
  obtain r db' where "sample_phase_c db it = Inr (r, db')" and r: "is_success r"
    using sample_phase_c_merges [unfolded a] by (cases "sample_phase_c db it") auto
  then have "connect_phase_c digest_config sample_merge_repo 3 it (Some ''c1'') None db () = (Inr (r, db'), ())"
    by (simp add: sample_phase_c_def prod_eq_iff)
  from success_is_proved [OF this r] a tip bound show ?thesis by (auto simp: sample_merge_repo_def)
qed

text \<open>A lost attempt is fenced: an attempt that no longer owns its task, token, pins and request leaves the
  store as it is, and its answer keeps the request in flight for the recovery.\<close>

theorem lost_attempt_is_inert:
  assumes "connect_phase_c g R now it sha err db w = (Inr (r, db'), w')" and "\<not> attempt_owned g it db"
  shows "db' = db \<and> r = fence_response it"
  using assms by (auto simp: connect_phase_c_def split: prod.splits sum.splits)

lemma lost_attempt_is_inert_witness:
  "\<exists>it db. sample_phase_a = Inr (Attempt it, db) \<and> sample_phase_c finished_store it = Inr (fence_response it, finished_store)"
proof -
  obtain it db where a: "sample_phase_a = Inr (Attempt it, db)" by (rule sample_attempt)
  obtain r db' where c: "sample_phase_c finished_store it = Inr (r, db')" and lost: "\<not> attempt_owned digest_config it finished_store"
    using sample_phase_c_lost [unfolded a] by (cases "sample_phase_c finished_store it") auto
  then have "connect_phase_c digest_config sample_merge_repo 3 it (Some ''c1'') None finished_store () = (Inr (r, db'), ())"
    by (simp add: sample_phase_c_def prod_eq_iff)
  from lost_attempt_is_inert [OF this lost] a c show ?thesis by auto
qed

text \<open>A resolution task is not opened again: once the task that stands for the conflicts of another one is
  terminal, a later conflict names it again but leaves it in its terminal state.\<close>

theorem resolve_task_stays_closed:
  assumes "get_task (resolve_task_id tid) db = Some t" and "terminal_task t"
  shows "fst (promote_resolve_task now tid files db) = resolve_task_id tid \<and>
    map_option t_state (get_task (resolve_task_id tid) (snd (promote_resolve_task now tid files db))) = Some (t_state t)"
  using assms by (simp add: promote_resolve_task_def Let_def add_task_def get_task_def fetchone_upsert_same new_task_def)

lemma resolve_task_stays_closed_witness:
  "\<exists>db. map_option t_state (get_task ''resolve::T'' (snd (promote_resolve_task 5 ''T'' [''src/a''] db))) = Some ''MERGED''"
proof -
  let ?db = "empty_db\<lparr>tasks := [new_task 1 ''resolve::T'' ''again'' [] [] [] ''MERGED'' 0 [] (Some ''T'') None]\<rparr>"
  have "get_task (resolve_task_id ''T'') ?db = Some (new_task 1 ''resolve::T'' ''again'' [] [] [] ''MERGED'' 0 [] (Some ''T'') None)"
    by (simp add: get_task_def resolve_task_id_def new_task_def)
  from resolve_task_stays_closed [OF this] show ?thesis
    by (intro exI [of _ ?db]) (simp add: terminal_task_def new_task_def resolve_task_id_def)
qed

end
