(* ===== verification/LeaseLife.thy ===== *)
theory LeaseLife
  imports LeaseVerbs Sems
begin

text \<open>
  Two things the model shows about the life of a lease that is not an orbit: heartbeats lengthen it ever
  more, and it cannot be renewed.
\<close>

section \<open>Heartbeats\<close>

lemma get_orbit_set:
  "get_orbit i (set_orbit oid u db) =
     (if i = oid then map_option (apply_set (clear_evidence u)) (get_orbit i db) else get_orbit i db)"
  by (auto simp: get_orbit_def set_orbit_def intro!: fetchone_update_same fetchone_update_other)

lemma get_orbit_extend_other:
  "orbit_id o' \<noteq> oid \<Longrightarrow> get_orbit oid (snd (extend_lease g now o' r)) = get_orbit oid (snd r)"
  by (simp add: extend_lease_def get_orbit_set split: option.split)

lemma get_orbit_extends_other:
  "oid \<notin> orbit_id ` set os \<Longrightarrow> get_orbit oid (snd (fold (extend_lease g now) os r)) = get_orbit oid (snd r)"
proof (induction os arbitrary: r)
  case (Cons o' os)
  then have "orbit_id o' \<noteq> oid" "oid \<notin> orbit_id ` set os" by auto
  then show ?case using Cons.IH get_orbit_extend_other [of o' oid g now r] by simp
qed simp

text \<open>The row a heartbeat leaves of a permit: its deadline moved, all else as it was.\<close>

definition extended_row :: "config \<Rightarrow> rat \<Rightarrow> orbit \<Rightarrow> rat \<Rightarrow> orbit" where
  "extended_row g now o' d = apply_set (clear_evidence
     (no_set\<lparr>u_expires_at := Some (Some (extended_deadline g now o' d))\<rparr>)) o'"

lemma extended_row_simps [simp]:
  "orbit_id (extended_row g now o' d) = orbit_id o'" "agent_id (extended_row g now o' d) = agent_id o'"
  "o_kind (extended_row g now o' d) = o_kind o'" "o_state (extended_row g now o' d) = o_state o'"
  "o_created_at (extended_row g now o' d) = o_created_at o'"
  "o_expires_at (extended_row g now o' d) = Some (extended_deadline g now o' d)"
  by (simp_all add: extended_row_def)

lemma get_orbit_extends:
  assumes "distinct (map orbit_id os)" and "o' \<in> set os" and "o_expires_at o' = Some d"
    and "get_orbit (orbit_id o') (snd r) = Some o'"
  shows "get_orbit (orbit_id o') (snd (fold (extend_lease g now) os r)) = Some (extended_row g now o' d)"
proof -
  obtain ys zs where os: "os = ys @ o' # zs" using assms(2) by (meson split_list)
  have "orbit_id o' \<notin> orbit_id ` set ys" "orbit_id o' \<notin> orbit_id ` set zs" using assms(1) by (auto simp: os)
  then show ?thesis
    using assms(3,4) by (simp add: os get_orbit_extends_other extend_lease_def get_orbit_set extended_row_def)
qed

lemma row_of_id:
  assumes "distinct (map orbit_id xs)" and "x \<in> set xs" and "y \<in> set xs" and "orbit_id x = orbit_id y"
  shows "x = y"
  using assms inj_onD [of orbit_id "set xs" x y] by (simp add: distinct_map)

lemma get_orbit_mem:
  assumes "distinct (map orbit_id (orbits db))" and "o' \<in> set (orbits db)"
  shows "get_orbit (orbit_id o') db = Some o'"
proof (cases "get_orbit (orbit_id o') db")
  case None
  then show ?thesis using assms(2) by (auto simp: get_orbit_def filter_empty_conv)
next
  case (Some x)
  then have "x \<in> set (orbits db)" "orbit_id x = orbit_id o'"
    using fetchone_filter_Some [of "\<lambda>x. orbit_id x = orbit_id o'" "orbits db" x] by (simp_all add: get_orbit_def)
  then have "x = o'" using row_of_id assms by blast
  then show ?thesis using Some by simp
qed

lemma orbit_ids_extend: "map orbit_id (orbits (snd (extend_lease g now o' r))) = map orbit_id (orbits (snd r))"
  by (simp add: extend_lease_def set_orbit_def update_where_def comp_def split: option.split)

lemma orbit_ids_extends: "map orbit_id (orbits (snd (fold (extend_lease g now) os r))) = map orbit_id (orbits (snd r))"
  by (induction os arbitrary: r) (simp_all add: orbit_ids_extend)

definition live_agent :: "string \<Rightarrow> db \<Rightarrow> bool" where
  "live_agent aid db \<longleftrightarrow> (case get_agent aid db of None \<Rightarrow> True | Some a \<Rightarrow> a_state a \<noteq> ''RETIRED'')"

lemma agents_extends [simp]: "agents (snd (fold (extend_lease g now) os r)) = agents (snd r)"
  by (induction os arbitrary: r) (simp_all add: extend_lease_def set_orbit_def split: option.split)

definition after_flags :: "config \<Rightarrow> rat \<Rightarrow> string \<Rightarrow> db \<Rightarrow> db" where
  "after_flags g now aid db = (let d1 = upsert_agent aid None ''WORKING'' now db
     in snd (fold (extend_lease g now) (flag_leases_owned_by aid d1) (0, d1)))"

lemma heartbeat_db:
  "live_agent aid db \<Longrightarrow> snd (heartbeat g now aid None db) =
     (let d2 = after_flags g now aid db in snd (fold (extend_lease g now) (sem_permits_owned_by aid d2) (0, d2)))"
  by (simp add: heartbeat_def Let_def live_agent_def split_beta after_flags_def split: option.splits)

lemma heartbeat_live:
  assumes "live_agent aid db"
  shows "live_agent aid (snd (heartbeat g now aid None db))"
proof -
  have "agents (snd (heartbeat g now aid None db)) = agents (upsert_agent aid None ''WORKING'' now db)"
    by (simp add: heartbeat_db [OF assms] Let_def after_flags_def)
  then have "get_agent aid (snd (heartbeat g now aid None db)) = get_agent aid (upsert_agent aid None ''WORKING'' now db)"
    by (simp add: get_agent_def)
  then show ?thesis
    by (simp add: live_agent_def get_agent_def upsert_agent_def fetchone_upsert_same split: option.split)
qed

lemma orbit_ids_after_flags: "map orbit_id (orbits (after_flags g now aid db)) = map orbit_id (orbits db)"
  by (simp add: after_flags_def Let_def orbit_ids_extends upsert_agent_def)

lemma heartbeat_ids:
  "live_agent aid db \<Longrightarrow> map orbit_id (orbits (snd (heartbeat g now aid None db))) = map orbit_id (orbits db)"
  by (simp add: heartbeat_db Let_def orbit_ids_extends orbit_ids_after_flags)

lemma get_orbit_in: "get_orbit i db = Some o' \<Longrightarrow> o' \<in> set (orbits db) \<and> orbit_id o' = i"
  using fetchone_filter_Some [of "\<lambda>x. orbit_id x = i" "orbits db" o'] by (simp add: get_orbit_def)

lemma permit_after_flags:
  assumes ids: "distinct (map orbit_id (orbits db))" and permit: "o' \<in> set (sem_permits_owned_by aid db)"
  shows "get_orbit (orbit_id o') (after_flags g now aid db) = Some o'"
proof -
  define d1 where "d1 = upsert_agent aid None ''WORKING'' now db"
  have os: "orbits d1 = orbits db" by (simp add: d1_def upsert_agent_def)
  have mem: "o' \<in> set (orbits db)" "o_kind o' = ''sem_permit''" using permit by (auto simp: sem_permits_owned_by_def)
  have "orbit_id o' \<notin> orbit_id ` set (flag_leases_owned_by aid d1)"
  proof
    assume "orbit_id o' \<in> orbit_id ` set (flag_leases_owned_by aid d1)"
    then obtain x where x: "orbit_id o' = orbit_id x" "x \<in> set (flag_leases_owned_by aid d1)" by (rule imageE)
    then have "x \<in> set (orbits db)" "o_kind x \<noteq> ''sem_permit''" by (auto simp: flag_leases_owned_by_def os)
    then show False using row_of_id [OF ids mem(1)] mem(2) x(1) by metis
  qed
  then have "get_orbit (orbit_id o') (after_flags g now aid db) = get_orbit (orbit_id o') d1"
    by (simp add: after_flags_def Let_def d1_def get_orbit_extends_other)
  also have "\<dots> = Some o'" by (rule get_orbit_mem) (use ids mem os in simp_all)
  finally show ?thesis .
qed

lemma heartbeat_permit:
  assumes ids: "distinct (map orbit_id (orbits db))" and permit: "o' \<in> set (sem_permits_owned_by aid db)"
    and d: "o_expires_at o' = Some d" and live: "live_agent aid db"
  shows "get_orbit (orbit_id o') (snd (heartbeat g now aid None db)) = Some (extended_row g now o' d)"
    and "extended_row g now o' d \<in> set (sem_permits_owned_by aid (snd (heartbeat g now aid None db)))"
proof -
  define d2 where "d2 = after_flags g now aid db"
  have mem: "agent_id o' = aid" "o_kind o' = ''sem_permit''" "o_state o' = ''HELD''"
    using permit by (auto simp: sem_permits_owned_by_def)
  have row: "get_orbit (orbit_id o') d2 = Some o'" unfolding d2_def by (rule permit_after_flags [OF ids permit])
  have "o' \<in> set (sem_permits_owned_by aid d2)" using get_orbit_in [OF row] mem by (simp add: sem_permits_owned_by_def)
  moreover have "distinct (map orbit_id (sem_permits_owned_by aid d2))"
    unfolding sem_permits_owned_by_def d2_def using ids
    by (intro distinct_map_filter) (simp add: orbit_ids_after_flags)
  ultimately have "get_orbit (orbit_id o') (snd (fold (extend_lease g now) (sem_permits_owned_by aid d2) (0, d2))) =
      Some (extended_row g now o' d)"
    using get_orbit_extends [of "sem_permits_owned_by aid d2" o' d "(0, d2)" g now] d row by simp
  then show *: "get_orbit (orbit_id o') (snd (heartbeat g now aid None db)) = Some (extended_row g now o' d)"
    by (simp add: heartbeat_db [OF live] Let_def d2_def)
  show "extended_row g now o' d \<in> set (sem_permits_owned_by aid (snd (heartbeat g now aid None db)))"
    using get_orbit_in [OF *] mem by (simp add: sem_permits_owned_by_def)
qed

text \<open>Heartbeats of one agent at the given times.\<close>

definition heartbeats :: "config \<Rightarrow> string \<Rightarrow> rat list \<Rightarrow> db \<Rightarrow> db" where
  "heartbeats g aid ts db = fold (\<lambda>t db. snd (heartbeat g t aid None db)) ts db"

lemma extended_window:
  "o_created_at o' \<noteq> 0 \<Longrightarrow> o_created_at o' < d \<Longrightarrow>
     extended_deadline g now o' d = now + (d - o_created_at o')"
  by (simp add: extended_deadline_def Let_def)

text \<open>Heartbeats lengthen a permit more and more. A heartbeat measures the length of the lease from its
  creation to its present deadline, which already holds the extension of the heartbeat before; so after
  heartbeats at the times \<open>ts\<close> and \<open>t\<close> a permit of length \<open>d - created\<close> expires not that long after \<open>t\<close> but
  later by the age the permit had at every earlier heartbeat. A healthy holder that dies after many heartbeats
  keeps its slot for a time that grows with the square of its age.\<close>

theorem heartbeats_lengthen_permit:
  assumes "distinct (map orbit_id (orbits db))" and "o' \<in> set (sem_permits_owned_by aid db)"
    and "o_expires_at o' = Some d" and "o_created_at o' \<noteq> 0" and "o_created_at o' < d"
    and "list_all (\<lambda>u. o_created_at o' \<le> u) (ts @ [t])" and "live_agent aid db"
  shows "map_option o_expires_at (get_orbit (orbit_id o') (heartbeats g aid (ts @ [t]) db)) =
    Some (Some (t + (d - o_created_at o') + sum_list (map (\<lambda>u. u - o_created_at o') ts)))"
  using assms
proof (induction ts arbitrary: db o' d)
  case Nil
  then show ?case by (simp add: heartbeats_def heartbeat_permit(1) extended_window)
next
  case (Cons u us)
  let ?db = "snd (heartbeat g u aid None db)" and ?row = "extended_row g u o' d"
  have row: "o_expires_at ?row = Some (u + (d - o_created_at o'))" using Cons.prems(4,5) by (simp add: extended_window)
  have "map_option o_expires_at (get_orbit (orbit_id ?row) (heartbeats g aid (us @ [t]) ?db)) =
    Some (Some (t + (u + (d - o_created_at o') - o_created_at ?row) + sum_list (map (\<lambda>u. u - o_created_at ?row) us)))"
  proof (rule Cons.IH)
    show "distinct (map orbit_id (orbits ?db))" using Cons.prems by (simp add: heartbeat_ids)
    show "?row \<in> set (sem_permits_owned_by aid ?db)" by (rule heartbeat_permit(2)) (use Cons.prems in simp_all)
    show "live_agent aid ?db" by (rule heartbeat_live) (rule Cons.prems)
  qed (use Cons.prems row in simp_all)
  then show ?case by (simp add: heartbeats_def algebra_simps)
qed

definition sample_permit :: db where
  "sample_permit = (case grant_permit sample_config 2 ''c'' ''gpu'' (Some 300) empty_db of (_, _, db) \<Rightarrow> db)"

definition the_permit :: orbit where
  "the_permit = hd (orbits sample_permit)"

lemma the_permit_fields:
  "orbits sample_permit = [the_permit]" "orbit_id the_permit = ''orb-0''" "agent_id the_permit = ''c''"
  "o_kind the_permit = ''sem_permit''" "o_state the_permit = ''HELD''" "fence the_permit = Some 1"
  "o_expires_at the_permit = Some 302" "o_created_at the_permit = 2" "o_pathspec_digest the_permit = None"
  "pathspec the_permit = Text (Some (JList []))" "agents sample_permit = []"
  by code_simp+

lemma heartbeats_lengthen_permit_witness:
  "map_option o_expires_at (get_orbit ''orb-0'' (heartbeats sample_config ''c'' [100, 200, 300] sample_permit)) =
     Some (Some (300 + 300 + (98 + 198)))"
  using heartbeats_lengthen_permit [of sample_permit the_permit "''c''" 302 "[100, 200]" 300 sample_config]
  by (simp add: the_permit_fields sem_permits_owned_by_def live_agent_def get_agent_def)

section \<open>Renewals\<close>

lemma permit_has_no_digest:
  assumes "pathspec o' = Text (Some (JList []))" and "o_pathspec_digest o' = None"
  shows "\<exists>e. row_digest g o' = Inl e"
  using assms
  by (simp add: row_digest_def row_strings_def pathspec_digest_def normalize_pathspec_def lift_adm_def)

lemma reduce_without_digest:
  assumes "row_digest g o' = Inl e"
  shows "\<exists>e. reduce_orbit_lifecycle g now o' ''RENEW'' variant db = Inl e"
  using assms
  by (cases "snapshot_hash g None db") (simp_all add: reduce_orbit_lifecycle_def lifecycle_expected_def admission_identity_def)

text \<open>C38. A permit cannot be renewed. \<open>renew\<close> finds the row, its owner and its fence in order, but it computes the
  admission identity of every kind of row, and the digest of the empty write set of a permit (or of the lease
  of an ephemeral flag) is a \<open>ValueError\<close>: the call raises at any time, with any time to live, instead of
  extending the lease.\<close>

theorem renew_of_permit_raises:
  assumes "get_orbit oid db = Some o'" and "o_state o' = ''HELD''" and "agent_id o' = aid" and "fence o' = fn"
    and "pathspec o' = Text (Some (JList []))" and "o_pathspec_digest o' = None"
    and "check_alive (Some aid) epoch db = None" and "0 < t"
  shows "\<exists>e. renew g now oid aid fn (Some (Fin t)) None epoch db = Inl e"
proof -
  have row: "get_orbit oid (upsert_agent aid None ''WORKING'' now db) = Some o'"
    using assms(1) by (simp add: get_orbit_def upsert_agent_def)
  obtain e where "row_digest g o' = Inl e" using permit_has_no_digest assms(5,6) by blast
  then obtain e where "reduce_orbit_lifecycle g now o' ''RENEW'' [(''lease_deadline'', JFloat (Fin (now + t)))]
      (upsert_agent aid None ''WORKING'' now db) = Inl e" using reduce_without_digest by blast
  then show ?thesis
    using assms row by (simp add: renew_def renew_body_def with_idem_def check_owner_def Let_def)
qed

lemma renew_of_permit_raises_witness:
  "\<exists>e. renew sample_config 100 ''orb-0'' ''c'' (Some 1) (Some (Fin 300)) None None sample_permit = Inl e"
  by (rule renew_of_permit_raises [of _ _ the_permit])
    (simp_all add: the_permit_fields get_orbit_def check_alive_def get_agent_def)

end
