(* ===== verification/TaskFrames.thy ===== *)
theory TaskFrames
  imports Authority Connect
begin

text \<open>
  What most operations of the store and of the engine (\<open>omd_server/core.py\<close>) leave alone: they write
  orbits, flags, agents or the outbox, and no task row, no archived task, and of the waiters of a
  semaphore only the state and the permit. The facts are stated once for any function of these tables
  (locale \<open>onlooker\<close>).
\<close>

section \<open>What leaves the tables of the tasks alone\<close>

definition task_tables :: "db \<Rightarrow> task list \<times> (task \<times> rat) list" where
  "task_tables db = (tasks db, tasks_archive db)"

definition seats :: "db \<Rightarrow> (string \<times> string \<times> rat) list" where
  "seats db = map (\<lambda>w. (sw_waiter_id w, sw_sem_id w, sw_deadline w)) (sem_waiters db)"

lemma seats_set_sem_waiter [simp]: "seats (set_sem_waiter wid st p db) = seats db"
  by (simp add: seats_def set_sem_waiter_def map_update_where)

locale onlooker =
  fixes T :: "db \<Rightarrow> 'a"
  assumes frame: "task_tables db' = task_tables db \<Longrightarrow> seats db' = seats db \<Longrightarrow> T db' = T db"
begin

lemma tables_fold: "(\<And>x d. T (f x d) = T d) \<Longrightarrow> T (fold f xs db) = T db"
  by (induction xs arbitrary: db) auto

lemma tables_for_rows:
  "for_rows f xs db = Inr db' \<Longrightarrow> (\<And>x d d'. f x d = Inr d' \<Longrightarrow> T d' = T d) \<Longrightarrow>
     T db' = T db"
  by (erule for_rows_inv [where P = "\<lambda>d. T d = T db"]) auto

lemma tables_rows [simp]:
  "T (set_agent_state aid st db) = T db" "T (bump_bail_epoch aid db) = T db"
  "T (upsert_agent aid nm st now db) = T db" "T (set_agent_liveness_ttl aid t db) = T db"
  "T (set_flag_status key st ep v ow l db) = T db" "T (set_flag_waiter wid s w db) = T db"
  "T (set_sem_waiter wid s p db) = T db" "T (set_barrier bid h db) = T db"
  "T (del_barrier_party bid gen tid db) = T db" "T (clear_idem rid db) = T db"
  "T (db\<lparr>idempotency := xs\<rparr>) = T db" "T (set_orbit oid u db) = T db"
  "T (snd (gc_idem cutoff db)) = T db" "T (upsert_flag now row db) = T db"
  "T (add_semaphore now sem n db) = T db"
  by (rule frame, simp_all add: task_tables_def seats_def map_update_where set_agent_state_def bump_bail_epoch_def upsert_agent_def set_agent_liveness_ttl_def
      set_flag_status_def set_flag_waiter_def set_sem_waiter_def set_barrier_def del_barrier_party_def clear_idem_def
      set_orbit_def gc_idem_def upsert_flag_def add_semaphore_def Let_def)+

lemma tables_pairs [dest!]:
  "fresh_uuid db = (u, d) \<Longrightarrow> T d = T db" "next_fence db = (f, d) \<Longrightarrow> T d = T db"
  "next_seq db = (n, d) \<Longrightarrow> T d = T db" "fresh_event_id db = (u, d) \<Longrightarrow> T d = T db"
  "add_orbit now i row db = (oid, d) \<Longrightarrow> T d = T db"
  "add_flag_waiter now agent key want observed deadline db = (w, d) \<Longrightarrow> T d = T db"
  by (rule frame, auto simp: task_tables_def fresh_uuid_def next_fence_def next_seq_def fresh_event_id_def add_orbit_def
      add_flag_waiter_def Let_def seats_def split: option.splits prod.splits if_splits)+

lemma tables_wake [simp]:
  "T (wake_flag_waiter frow w db) = T db" "T (wake_flag_waiters key db) = T db"
  by (auto simp: wake_flag_waiter_def wake_flag_waiters_def intro!: tables_fold)

lemma tables_signals [simp]:
  "T (break_ephemeral_flags_for_lease lease db) = T db"
  "T (clear_read_stale_signal oid db) = T db" "T (cancel_sem_waits aid db) = T db"
  "T (collect_idem g now db) = T db"
  by (auto simp: break_ephemeral_flags_for_lease_def clear_read_stale_signal_def
      cancel_sem_waits_def collect_idem_def intro!: tables_fold split: option.split)

lemma tables_enqueue: "enqueue_admission_outbox row preds db = Inr (x, db') \<Longrightarrow> T db' = T db"
  by (rule frame) (auto simp: task_tables_def enqueue_admission_outbox_def Let_def insert_outbox_def seats_def split: option.splits if_splits)

lemma tables_notification: "enqueue_notification g now ev payload ctx preds db = Inr db' \<Longrightarrow> T db' = T db"
  by (auto simp: enqueue_notification_def Let_def bind_res_Inr_iff split: option.splits if_splits dest: tables_enqueue)

lemma tables_payload: "admission_payload g ev identity h variant db = Inr (p, db') \<Longrightarrow> T db' = T db"
  by (auto simp: admission_payload_def Let_def split: prod.splits sum.splits)

lemma tables_projection:
  "assert_admission_projection g now ctx ev payload h expected db = Inr (r, db') \<Longrightarrow> T db' = T db"
  by (auto simp: assert_admission_projection_def Let_def bind_res_Inr_iff split: if_splits sum.splits dest: tables_notification)

lemma tables_lifecycle: "reduce_orbit_lifecycle g now o' ev variant db = Inr (h, i, db') \<Longrightarrow> T db' = T db"
  by (cases "fresh_event_id db")
    (auto simp: reduce_orbit_lifecycle_def Let_def bind_res_Inr_iff split: option.splits if_splits dest!: tables_projection)

lemma tables_break: "break_barrier g b why d = Inr d' \<Longrightarrow> T d' = T d"
  by (auto simp: break_barrier_def bind_res_Inr_iff split: if_splits)

lemma tables_evaluate: "barrier_eval g now bid can_trip db = Inr (plan, db') \<Longrightarrow> T db' = T db"
proof -
  have settle: "settle_barrier g now b live can_trip d = Inr (p, d') \<Longrightarrow> T d' = T d" for b live d p d'
    by (auto simp: settle_barrier_def bind_res_Inr_iff Let_def split: if_splits dest: tables_break)
  have shrink: "T (shrink_barrier b dead n d) = T d" for b dead n d
    unfolding shrink_barrier_def by (simp add: tables_fold)
  assume "barrier_eval g now bid can_trip db = Inr (plan, db')"
  then show ?thesis
    by (auto simp: barrier_eval_def bind_res_Inr_iff Let_def shrink split: if_splits option.splits prod.splits
        dest!: tables_break settle)
qed

lemma tables_evaluate_barrier: "evaluate_barrier g now bid db = Inr db' \<Longrightarrow> T db' = T db"
  by (auto simp: evaluate_barrier_def bind_res_Inr_iff dest: tables_evaluate)

lemma tables_reclaimed: "enqueue_agent_reclaimed g now aid final v n m p evs db = Inr db' \<Longrightarrow> T db' = T db"
  by (cases "fresh_event_id db") (auto simp: enqueue_agent_reclaimed_def Let_def bind_res_Inr_iff dest!: tables_notification)

section \<open>The engine and the task tables\<close>

lemma tables_expire: "expire_due g now db = Inr db' \<Longrightarrow> T db' = T db"
  unfolding expire_due_def
  by (erule tables_for_rows) (auto simp: expire_orbit_def bind_res_Inr_iff dest!: tables_lifecycle)

lemma tables_timeout_orbit: "timeout_orbit g now o' db = Inr db' \<Longrightarrow> T db' = T db"
  by (cases "fresh_event_id db") (auto simp: timeout_orbit_def bind_res_Inr_iff dest!: tables_projection)

lemma tables_timeout: "timeout_pending g now db = Inr db' \<Longrightarrow> T db' = T db"
  unfolding timeout_pending_def
  by (erule tables_for_rows) (rule tables_timeout_orbit)

lemma tables_deny_victim: "deny_victim g now why o' db = Inr db' \<Longrightarrow> T db' = T db"
  by (auto simp: deny_victim_def bind_res_Inr_iff dest!: tables_projection tables_payload)

lemma tables_deny_loop: "deny_cycles_loop g now why fuel db = Some (Inr db') \<Longrightarrow> T db' = T db"
proof (induction fuel arbitrary: db)
  case (Suc fuel)
  then show ?case by (auto split: sum.splits option.splits dest: tables_deny_victim)
qed simp

lemma tables_deny_cycles: "deny_reservation_cycles g now why db = Inr db' \<Longrightarrow> T db' = T db"
  unfolding deny_reservation_cycles_def
  by (cases "deny_cycles_loop g now why (Suc (length (pending_orbits db))) db")
    (simp_all del: deny_cycles_loop.simps add: tables_deny_loop)

lemma tables_grant_pending: "grant_pending g now o' d h identity db = Inr db' \<Longrightarrow> T db' = T db"
  by (cases "next_fence db") (auto simp: grant_pending_def bind_res_Inr_iff Let_def dest!: tables_projection tables_payload)

lemma tables_block_pending: "block_pending g now o' d h identity db = Inr db' \<Longrightarrow> T db' = T db"
  by (auto simp: block_pending_def bind_res_Inr_iff Let_def dest!: tables_projection tables_payload)

lemma tables_promote: "promote_pending g now db = Inr db' \<Longrightarrow> T db' = T db"
  unfolding promote_pending_def
  by (erule tables_for_rows)
    (auto simp: promote_orbit_def bind_res_Inr_iff split: if_splits dest: tables_grant_pending tables_block_pending)

lemma tables_settle_queue: "settle_queue g now db = Inr db' \<Longrightarrow> T db' = T db"
  by (auto simp: settle_queue_def bind_res_Inr_iff dest!: tables_promote tables_deny_cycles tables_timeout)

lemma tables_no_reclaim: "reconcile_no_reclaim g now db = Inr db' \<Longrightarrow> T db' = T db"
  by (auto simp: reconcile_no_reclaim_def bind_res_Inr_iff dest!: tables_settle_queue tables_expire)

lemma tables_close_lease: "close_lease g u oid db = Inr db' \<Longrightarrow> T db' = T db"
  by (auto simp: close_lease_def bind_res_Inr_iff)

lemma tables_close_leases:
  "for_rows (\<lambda>o'. close_lease g u (orbit_id o')) os db = Inr db' \<Longrightarrow> T db' = T db"
  by (erule tables_for_rows) (rule tables_close_lease)

lemma tables_flag_leases: "for_rows (reclaim_flag_lease g u) os db = Inr db' \<Longrightarrow> T db' = T db"
  by (erule tables_for_rows) (auto simp: reclaim_flag_lease_def dest!: tables_close_lease)

lemma tables_reclaim_orbit: "reclaim_orbit g now v o' db = Inr (ev, db') \<Longrightarrow> T db' = T db"
  by (auto simp: reclaim_orbit_def Let_def bind_res_Inr_iff split: if_splits dest!: tables_lifecycle)

lemma tables_reclaim_orbits: "reclaim_orbits g now v os db = Inr (evs, db') \<Longrightarrow> T db' = T db"
proof (induction os arbitrary: db evs)
  case (Cons o' os)
  then show ?case by (fastforce simp: bind_res_Inr_iff dest: tables_reclaim_orbit)
qed simp

lemma tables_grant_permit: "grant_permit g now aid sem ttl db = (r, pid, db') \<Longrightarrow> T db' = T db"
  by (auto simp: grant_permit_def Let_def split: prod.splits)

lemma tables_promote_loop [simp]: "T (promote_loop g now sem n ws db) = T db"
proof (induction ws arbitrary: db)
  case (Cons w ws)
  then show ?case
    by (auto split: option.split prod.split dest!: tables_grant_permit)
qed simp

lemma tables_promote_sem [simp]: "T (promote_sem_waiters g now sem db) = T db"
  by (auto simp: promote_sem_waiters_def split: option.split)

lemma tables_promote_sems [simp]: "T (promote_sems g now sems db) = T db"
  unfolding promote_sems_def by (induction sems arbitrary: db) auto

lemma tables_holdings: "reclaim_holdings g now v aid db = Inr (sems, freed, evs, db') \<Longrightarrow> T db' = T db"
  by (auto simp: reclaim_holdings_def bind_res_Inr_iff Let_def
      dest!: tables_close_leases tables_flag_leases tables_reclaim_orbits)

lemma tables_expire_permits: "expire_permits g now db = Inr db' \<Longrightarrow> T db' = T db"
  by (auto simp: expire_permits_def bind_res_Inr_iff Let_def dest!: tables_close_leases)

section \<open>Coherence and connects\<close>

lemma tables_merge_rows [simp]:
  "T (set_flag now k v by db) = T db" "T (append_merge_log now gen tid globs db) = T db"
  "T (snd (bump_integration_gen db)) = T db"
  by (rule frame, simp_all add: task_tables_def set_flag_def append_merge_log_def bump_integration_gen_def Let_def seats_def upsert_flag_def)+

lemma tables_merge_marks [simp]:
  "T (touch_agent now aid db) = T db" "T (refresh_row gen o' db) = T db"
  "T (hold_pins ids db) = T db" "T (unpin_orbit o' db) = T db"
  "T (pin_orbit deadline o' db) = T db"
  by (auto simp: touch_agent_def refresh_row_def hold_pins_def unpin_orbit_def pin_orbit_def split: option.split
      intro: tables_fold)

lemma tables_pins [simp]:
  "T (fold unpin_orbit os db) = T db" "T (fold (pin_orbit deadline) os db) = T db"
  "T (fold (refresh_row gen) os db) = T db"
  by (rule tables_fold, simp)+

lemma tables_signal [simp]: "T (signal_stale now tid gen r db) = T db"
  by (simp add: signal_stale_def Let_def)

lemma tables_mark_rows: "mark_stale_rows now tid gen globs rs db = Inr (ids, db') \<Longrightarrow> T db' = T db"
proof (induction rs arbitrary: db ids)
  case (Cons r rs)
  obtain d ids' where "mark_stale_rows now tid gen globs rs d = Inr (ids', db')" "d = db \<or> d = signal_stale now tid gen r db"
    using Cons.prems that [of db] that [of "signal_stale now tid gen r db"] by (auto elim!: bind_resE split: if_splits)
  then show ?case using Cons.IH tables_signal by fastforce
qed simp

lemma tables_mark_stale: "mark_stale_reads now tid gen globs db = Inr (ids, db') \<Longrightarrow> T db' = T db"
  by (auto simp: mark_stale_reads_def split: if_splits intro: tables_mark_rows)

lemma tables_release_writes: "release_task_write_orbits g now tid db = Inr db' \<Longrightarrow> T db' = T db"
  unfolding release_task_write_orbits_def
  by (erule tables_for_rows) (auto simp: release_write_orbit_def elim!: bind_resE split: if_splits dest: tables_lifecycle)

lemma tables_release_token: "release_merge_token g now tok db = Inr db' \<Longrightarrow> T db' = T db"
  by (auto simp: release_merge_token_def elim!: bind_resE split: option.splits if_splits)

lemma tables_acquire_token: "acquire_merge_token g now tick owner op gen db = (tok, db') \<Longrightarrow> T db' = T db"
  by (auto simp: acquire_merge_token_def split: option.splits prod.splits)

lemma tables_terminalize_orbit: "terminalize_orbit g now o' db = Inr (shut, db') \<Longrightarrow> T db' = T db"
proof -
  define d where "d = (case o_request_id o' of None \<Rightarrow> db | Some r \<Rightarrow> clear_idem r db)"
  have d: "T db = T d" by (simp add: d_def split: option.split)
  assume "terminalize_orbit g now o' db = Inr (shut, db')"
  then show ?thesis
    unfolding terminalize_orbit_def Let_def d_def [symmetric]
    by (cases "fresh_event_id d") (auto simp: d elim!: bind_resE split: if_splits dest!: tables_projection)
qed

lemma tables_terminalize: "terminalize_cancelled_task_orbits g now tid db = Inr (ids, db') \<Longrightarrow> T db' = T db"
proof -
  have "terminalize_orbits g now os d = Inr (ids, d') \<Longrightarrow> T d' = T d" for os d ids d'
    by (induction os arbitrary: d ids) (auto elim!: bind_resE dest!: tables_terminalize_orbit)
  then show "terminalize_cancelled_task_orbits g now tid db = Inr (ids, db') \<Longrightarrow> ?thesis"
    by (simp add: terminalize_cancelled_task_orbits_def)
qed

end

interpretation task_rows?: onlooker task_tables
  by unfold_locales

lemma tables_add_sem_waiter [dest!]:
  "add_sem_waiter now sem aid ttl prio tick deadline db = (w, d) \<Longrightarrow> task_tables d = task_tables db"
  by (auto simp: task_tables_def add_sem_waiter_def fresh_uuid_def Let_def)

end
