(* ===== verification/RecoverySafe.thy ===== *)
theory RecoverySafe
  imports Recovery MergeSafe LeaseLife TaskFrames
begin

text \<open>
  What the recovery of \<open>omd_server/core.py\<close> guarantees: it keeps the authority invariant of the store; the
  state it leaves a task in is the one Git proves; an attempt that a crash cut off right after Phase A is
  taken over and undone, unless its token was taken under a name the recovery does not accept.
\<close>

section \<open>The authority survives a recovery\<close>

lemma grows_update_exact [grows_intros]: "grows db (snd (update_exact p f db))"
  by (simp add: grows_def update_exact_def)

lemma inv_take_over:
  assumes "take_over g t tok db = Inr db'" and "store_inv db"
  shows "store_inv db'"
proof -
  define d where "d = set_orbit tok (no_set\<lparr>u_operation_id := Some (t_connect_attempt_id t),
      u_owner_instance := Some (Some (g_instance_id g)), u_owner_generation := Some (Some (t_connect_owner_generation t + 1))\<rparr>)
    (set_task (t_task_id t) (\<lambda>x. x\<lparr>t_connect_attempt_id := t_connect_attempt_id t,
            t_connect_owner_instance := Some (g_instance_id g), t_connect_owner_generation := t_connect_owner_generation t + 1,
            t_connect_token_id := Some tok\<rparr>) db)"
  have inv: "store_inv d"
    unfolding d_def by (rule store_inv_leave [OF store_inv_grows [OF assms(2) grows_tables(4)]]) simp_all
  have bound: "store_inv e" if t: "takeover_idem_operation_exact r a v h op o' n o2 n2 d = (b, e)" for r a v h op o' n o2 n2 b e
  proof -
    have "e = snd (takeover_idem_operation_exact r a v h op o' n o2 n2 d)" using t by simp
    then show ?thesis using store_inv_grows [OF inv grows_update_exact] by (simp add: takeover_idem_operation_exact_def)
  qed
  have "take_over g t tok db = (if \<not> has_request t then Inr d
      else case get_idem (the (t_connect_request_id t)) d of
          None \<Rightarrow> Inl (RuntimeError ''connect recovery ownership CAS lost'')
        | Some i \<Rightarrow>
            (case takeover_idem_operation_exact (i_request_id i) (i_agent_id i) ''connect'' (the (t_connect_arg_hash t))
                 (the (t_connect_attempt_id t)) (t_connect_owner_instance t) (Some (t_connect_owner_generation t))
                 (Some (g_instance_id g)) (Some (t_connect_owner_generation t + 1)) d of (bound, db) \<Rightarrow>
               if bound then Inr db else Inl (RuntimeError ''connect recovery ownership CAS lost'')))"
    unfolding take_over_def Let_def d_def by (rule refl)
  then show ?thesis
    using assms(1) inv bound by (auto split: if_splits option.splits prod.splits)
qed

lemma inv_release_stranded:
  "lawful g \<Longrightarrow> release_stranded g now tok db = Inr db' \<Longrightarrow> store_inv db \<Longrightarrow> store_inv db'"
  by (auto simp: release_stranded_def split: option.splits intro: inv_release_token)

lemma inv_complete_merged:
  assumes "lawful g" and "complete_merged g now tid tok sha db = Inr db'" and "store_inv db"
  shows "store_inv db'"
proof -
  define d0 where "d0 = set_task tid (\<lambda>t. t\<lparr>t_merge_sha := Some sha, t_merged_at := Some now\<rparr>) db"
  obtain gen d1 where gen: "bump_integration_gen d0 = (gen, d1)" by (cases "bump_integration_gen d0")
  obtain globs ids st d2 d3 d4 where
    d2: "mark_stale_reads now tid gen globs (append_merge_log now gen tid globs d1) = Inr (ids, d2)"
    and d3: "release_task_write_orbits g now tid d2 = Inr d3"
    and d4: "release_stranded g now tok (set_task tid
        (\<lambda>t. t\<lparr>t_state := st, t_connect_intent_at := None, t_integration_base_sha := None\<rparr>) d3) = Inr d4"
    and db': "db' = set_flag now tid (Some ''merged'') None d4"
    using assms(2) by (auto simp: complete_merged_def Let_def gen simp flip: d0_def elim!: bind_resE)
  have "grows db d0" unfolding d0_def by (rule grows_tables(4))
  moreover have "grows d0 (append_merge_log now gen tid globs d1)"
    using gen by (auto simp: grows_def bump_integration_gen_def append_merge_log_def Let_def)
  ultimately have "store_inv (append_merge_log now gen tid globs d1)" using store_inv_grows [OF assms(3)] grows_trans by blast
  then have "store_inv d2" by (rule inv_mark_stale [OF d2])
  then have "store_inv d3" by (rule inv_release_writes [OF assms(1) d3])
  then have "store_inv d4" by (intro inv_release_stranded [OF assms(1) d4] store_inv_grows [OF _ grows_tables(4)])
  then show ?thesis unfolding db' by (rule store_inv_grows [OF _ grows_set_flag])
qed

lemma inv_undo_attempt:
  assumes "lawful g" and "undo_attempt g now tid tok db = Inr db'" and "store_inv db"
  shows "store_inv db'"
proof -
  obtain st where "release_stranded g now tok
      (set_task tid (detached st) (fold unpin_orbit (pinned_orbits_for_task tid db) db)) = Inr db'"
    using assms(2) by (auto simp: undo_attempt_def elim!: bind_resE)
  then show ?thesis
    by (rule inv_release_stranded [OF assms(1) _ store_inv_grows [OF inv_unpins [OF assms(3)] grows_tables(4)]])
qed

lemma inv_hold_task_pins: "store_inv db \<Longrightarrow> store_inv (hold_task_pins tid db)"
  unfolding hold_task_pins_def by (rule inv_hold_pins)

lemma recover_task_cases:
  assumes "recover_task g R now wt t rv w = (Inr rv', w')"
  obtains (unbound) "binding_error g t (rv_db rv) \<noteq> None"
      "rv' = rv\<lparr>rv_db := hold_task_pins (t_task_id t) (rv_db rv),
         rv_protected := map orbit_id (all_held_merge_tokens (rv_db rv)) @ rv_protected rv, rv_unresolved := True\<rparr>"
  | (bound) d t' verdict where "binding_error g t (rv_db rv) = None"
      "if legacy_attempt t then d = rv_db rv else take_over g t (the (snd (stranded_token g t (rv_db rv)))) (rv_db rv) = Inr d"
      "get_task (t_task_id t) d = Some t'" "git_verdict g R wt t' w = (Inr verdict, w')"
      "apply_verdict g now (t_task_id t) (snd (stranded_token g t (rv_db rv))) verdict (rv\<lparr>rv_db := d\<rparr>) = Inr rv'"
proof (cases "binding_error g t (rv_db rv)")
  case None
  let ?tok = "snd (stranded_token g t (rv_db rv))"
  define taken where "taken = (if legacy_attempt t then Inr (rv_db rv) else take_over g t (the ?tok) (rv_db rv))"
  have run: "recover_task g R now wt t rv w = (case taken of Inl e \<Rightarrow> (Inl e, w)
      | Inr db \<Rightarrow> (case get_task (t_task_id t) db of
            None \<Rightarrow> (Inl (RuntimeError ''task row is None''), w)
          | Some t \<Rightarrow> (case git_verdict g R wt t w of
                (Inl e, w) \<Rightarrow> (Inl (RaisedGit e), w)
              | (Inr verdict, w) \<Rightarrow> (apply_verdict g now (t_task_id t) ?tok verdict (rv\<lparr>rv_db := db\<rparr>), w))))"
    unfolding taken_def recover_task_def Let_def using None by (simp add: case_prod_beta)
  obtain d where d: "taken = Inr d" using assms run by (cases taken) auto
  then obtain t' verdict where
    "get_task (t_task_id t) d = Some t'" "git_verdict g R wt t' w = (Inr verdict, w')"
    "apply_verdict g now (t_task_id t') ?tok verdict (rv\<lparr>rv_db := d\<rparr>) = Inr rv'"
    using assms run by (auto split: prod.splits sum.splits option.splits)
  then show ?thesis using bound [OF None _ _ _ _, of d t' verdict] d get_task_id [of "t_task_id t" d t'] unfolding taken_def by (auto split: if_splits)
next
  case (Some why)
  then show ?thesis using assms unbound by (auto simp: recover_task_def Let_def split: prod.splits)
qed

lemma inv_recover_task:
  assumes "lawful g" and "recover_task g R now wt t rv w = (Inr rv', w')" and "store_inv (rv_db rv)"
  shows "store_inv (rv_db rv')"
  using assms(2)
proof (cases rule: recover_task_cases)
  case unbound
  then show ?thesis using inv_hold_task_pins [OF assms(3)] by simp
next
  case (bound d t' verdict)
  have "store_inv d" using bound(2) inv_take_over [OF _ assms(3)] assms(3) by (auto split: if_splits)
  then show ?thesis
    using bound(5) by (auto simp: apply_verdict_def elim!: bind_resE split: recovery_verdict.splits
        intro: inv_hold_task_pins inv_complete_merged [OF assms(1)] inv_undo_attempt [OF assms(1)])
qed

lemma inv_recover_tasks:
  "lawful g \<Longrightarrow> recover_tasks g R now wt ts rv w = (Inr rv', w') \<Longrightarrow> store_inv (rv_db rv) \<Longrightarrow> store_inv (rv_db rv')"
proof (induction ts arbitrary: rv w)
  case (Cons t ts)
  then show ?case by (auto split: prod.splits sum.splits dest: inv_recover_task)
qed simp

lemma inv_expire_tokens:
  assumes "lawful g" and "expire_tokens g now keep db = Inr db'" and "store_inv db"
  shows "store_inv db'"
  using assms(2) unfolding expire_tokens_def
  by (rule for_rows_inv) (auto simp: assms(3) expire_token_def elim!: bind_resE split: if_splits
      intro: store_inv_close [OF assms(1)])

lemma grows_break_barrier: "break_barrier g b why d = Inr d' \<Longrightarrow> grows d d'"
  by (auto simp: break_barrier_def bind_res_Inr_iff split: if_splits intro: grows_intros)

lemma grows_recover_barriers: "recover_barriers g R bs db w = (Inr db', w') \<Longrightarrow> grows db db'"
proof (induction bs arbitrary: db w)
  case (Cons b bs)
  obtain d v where d: "recover_barrier g R b db w = (Inr d, v)" and rest: "recover_barriers g R bs d v = (Inr db', w')"
    using Cons.prems by (auto split: prod.splits sum.splits)
  have "grows db d"
    using d by (auto simp: recover_barrier_def Let_def elim!: bind_resE split: prod.splits sum.splits if_splits bool.splits
        intro: grows_break_barrier grows_intros)
  then show ?case using Cons.IH [OF rest] grows_trans by blast
qed (simp add: grows_refl)

lemma grows_settle: "settle now i s db = Inr db' \<Longrightarrow> grows db db'"
  using grows_update_exact [of db]
  by (auto simp: settle_def Let_def finish_idem_exact_def mark_idem_retryable_exact_def update_exact_def grows_def
      split: settlement.splits if_splits)

lemma grows_settle_requests: "settle_requests g R now is db w = (Inr db', w') \<Longrightarrow> grows db db'"
proof (induction "is" arbitrary: db w)
  case (Cons i "is")
  then show ?case by (auto split: prod.splits sum.splits dest!: grows_settle intro: grows_trans)
qed (simp add: grows_refl)

lemma inv_repair_aborted:
  assumes "lawful g" and "repair_aborted g now db = Inr db'" and "store_inv db"
  shows "store_inv db'"
  using assms(2) unfolding repair_aborted_def
  by (rule for_rows_inv) (auto simp: assms(3) terminalize_cancelled_task_orbits_def elim!: bind_resE
      intro: inv_terminalize_orbits [OF assms(1)])

lemma inv_recover:
  assumes "lawful g" and "recover g R now db w = (Inr db', w')" and "store_inv db"
  shows "store_inv db'"
proof -
  obtain wt rv v v' where tasks: "recover_tasks g R now wt (tasks_by_state [''CONNECTING''] db)
      \<lparr>rv_db = db, rv_protected = [], rv_unresolved = False\<rparr> v = (Inr rv, v')" and rest: "recover_rest g R now rv v' = (Inr db', w')"
    using assms(2) by (auto simp: recover_def split: prod.splits sum.splits)
  have rv: "store_inv (rv_db rv)" using inv_recover_tasks [OF assms(1) tasks] assms(3) by simp
  obtain d1 d2 d3 d4 v1 v2 where
    d1: "expire_tokens g now (rv_protected rv) (rv_db rv) = Inr d1"
    and d2: "(if rv_unresolved rv then (Inr d1, v1) else recover_barriers g R (all_barriers [''TRIPPING''] d1) d1 v1) = (Inr d2, v2)"
    and d3: "repair_aborted g now d2 = Inr d3" and d4: "reconcile_admission g now d3 = Inr d4"
    and last: "settle_requests g R now (inflight_idem d4) d4 v2 = (Inr db', w')"
    using rest by (auto simp: recover_rest_def elim!: bind_resE split: prod.splits sum.splits)
  have "store_inv d1" by (rule inv_expire_tokens [OF assms(1) d1 rv])
  then have "store_inv d2" using d2 by (auto split: if_splits dest: store_inv_grows [OF _ grows_recover_barriers])
  then have "store_inv d4" by (intro inv_reconcile [OF assms(1) d4] inv_repair_aborted [OF assms(1) d3])
  then show ?thesis by (rule store_inv_grows [OF _ grows_settle_requests [OF last]])
qed

section \<open>What becomes of an interrupted task\<close>

text \<open>The operations of the recovery on orbits, flags and logs leave the task rows alone.\<close>

lemma tasks_of: "task_tables d = task_tables db \<Longrightarrow> tasks d = tasks db"
  by (simp add: task_tables_def)

lemma tables_release_stranded: "release_stranded g now tok db = Inr db' \<Longrightarrow> task_tables db' = task_tables db"
  by (auto simp: release_stranded_def split: option.splits dest: tables_release_token)

lemma tables_hold_task_pins [simp]: "task_tables (hold_task_pins tid db) = task_tables db"
  by (simp add: hold_task_pins_def)

lemmas tasks_kept = tables_rows(12) [THEN tasks_of] tables_merge_rows [THEN tasks_of] tables_pins [THEN tasks_of]
  tables_hold_task_pins [THEN tasks_of]

lemmas tasks_hold_task_pins = tables_hold_task_pins [THEN tasks_of]

lemma get_task_kept: "tasks db' = tasks db \<Longrightarrow> get_task tid db' = get_task tid db"
  by (simp add: get_task_def)

lemma get_task_set:
  assumes "\<And>t. t_task_id (f t) = t_task_id t"
  shows "get_task tid (set_task tid f db) = map_option f (get_task tid db)"
proof -
  have "fetchone (filter p (update_where p f xs)) = map_option f (fetchone (filter p xs))"
    if "\<And>x. p (f x) = p x" for p and xs :: "task list"
    using that by (induction xs) (auto simp: update_where_def)
  then show ?thesis by (simp add: get_task_def set_task_def assms)
qed

lemma completed_row:
  assumes "lawful g" and "complete_merged g now tid tok sha db = Inr db'" and "get_task tid db = Some t"
  shows "\<exists>t'. get_task tid db' = Some t' \<and> t_state t' = ''MERGED'' \<and> t_merge_sha t' = Some sha"
proof -
  define d0 where "d0 = set_task tid (\<lambda>t. t\<lparr>t_merge_sha := Some sha, t_merged_at := Some now\<rparr>) db"
  obtain gen d1 where gen: "bump_integration_gen d0 = (gen, d1)" by (cases "bump_integration_gen d0")
  obtain globs ids st d2 d3 d4 where
    d2: "mark_stale_reads now tid gen globs (append_merge_log now gen tid globs d1) = Inr (ids, d2)"
    and d3: "release_task_write_orbits g now tid d2 = Inr d3"
    and st: "step_state g ''task'' ''CONNECTING'' ''merged'' = Inr st"
    and d4: "release_stranded g now tok (set_task tid
        (\<lambda>t. t\<lparr>t_state := st, t_connect_intent_at := None, t_integration_base_sha := None\<rparr>) d3) = Inr d4"
    and db': "db' = set_flag now tid (Some ''merged'') None d4"
    using assms(2) by (auto simp: complete_merged_def Let_def gen simp flip: d0_def elim!: bind_resE)
  have "task_tables d3 = task_tables d0"
    using tables_mark_stale [OF d2] tables_release_writes [OF d3] tables_merge_rows(3) [of d0] gen by simp
  then have "get_task tid d3 = get_task tid d0" by (rule get_task_kept [OF tasks_of])
  also have "\<dots> = map_option (\<lambda>t. t\<lparr>t_merge_sha := Some sha, t_merged_at := Some now\<rparr>) (get_task tid db)"
    unfolding d0_def by (rule get_task_set) simp
  finally show ?thesis
    unfolding db' get_task_kept [OF tasks_kept(2)] get_task_kept [OF tasks_of [OF tables_release_stranded [OF d4]]]
    using st assms(1,3) by (simp add: get_task_set transition_results)
qed

lemma undone_row:
  assumes "lawful g" and "undo_attempt g now tid tok db = Inr db'" and "get_task tid db = Some t"
  shows "\<exists>t'. get_task tid db' = Some t' \<and> t_state t' = ''DONE''"
proof -
  obtain st where st: "step_state g ''task'' ''CONNECTING'' ''rollback'' = Inr st"
    and rel: "release_stranded g now tok
      (set_task tid (detached st) (fold unpin_orbit (pinned_orbits_for_task tid db) db)) = Inr db'"
    using assms(2) by (auto simp: undo_attempt_def elim!: bind_resE)
  have "get_task tid db' = map_option (detached st) (get_task tid db)"
    unfolding get_task_kept [OF tasks_of [OF tables_release_stranded [OF rel]]]
    by (simp add: get_task_set get_task_kept [OF tasks_kept(5)] detached_def)
  then show ?thesis using st assms(1,3) by (simp add: transition_results detached_def)
qed

definition taken_over :: "config \<Rightarrow> task \<Rightarrow> string \<Rightarrow> task" where
  "taken_over g t tok = t\<lparr>t_connect_owner_instance := Some (g_instance_id g),
     t_connect_owner_generation := t_connect_owner_generation t + 1, t_connect_token_id := Some tok\<rparr>"

lemma take_over_row:
  assumes "take_over g t tok db = Inr db'" and "get_task (t_task_id t) db = Some t"
  shows "get_task (t_task_id t) db' = Some (taken_over g t tok)"
proof -
  have "tasks db' = tasks (set_task (t_task_id t) (\<lambda>x. x\<lparr>t_connect_attempt_id := t_connect_attempt_id t,
            t_connect_owner_instance := Some (g_instance_id g), t_connect_owner_generation := t_connect_owner_generation t + 1,
            t_connect_token_id := Some tok\<rparr>) db)"
    using assms(1)
    by (auto simp: take_over_def Let_def tasks_kept takeover_idem_operation_exact_def update_exact_def
        split: if_splits option.splits)
  from get_task_kept [OF this] assms(2) show ?thesis by (simp add: get_task_set taken_over_def)
qed

lemma taken_over_same [simp]:
  "t_task_id (taken_over g t tok) = t_task_id t" "t_connect_attempt_id (taken_over g t tok) = t_connect_attempt_id t"
  "t_connect_repo_bound (taken_over g t tok) = t_connect_repo_bound t" "t_branch_tip_sha (taken_over g t tok) = t_branch_tip_sha t"
  "t_integration_base_sha (taken_over g t tok) = t_integration_base_sha t" "t_state (taken_over g t tok) = t_state t"
  by (simp_all add: taken_over_def)

lemma recovery_trailer_taken [simp]: "recovery_trailer (taken_over g t tok) = recovery_trailer t"
  by (simp add: recovery_trailer_def split: option.split)

lemma bound_row:
  assumes "if legacy_attempt t then d = db else take_over g t tok db = Inr d" and "get_task (t_task_id t) db = Some t"
    and "get_task (t_task_id t) d = Some t'"
  shows "t' = t \<or> t' = taken_over g t tok"
  using assms take_over_row [of g t tok db d] by (auto split: if_splits)

lemma bind_attemptE:
  assumes "io_bind (attempt m) f w = (Inr y, w')"
  obtains x v where "m w = (Inr x, v)" "f (Inr x) v = (Inr y, w')"
  | e v where "m w = (Inl e, v)" "is_git_error e" "f (Inl e) v = (Inr y, w')"
  using assms by (auto simp: attempt_def io_catch_Inr io_bind_Inr io_bind_Inl)

lemma io_bind_InrE:
  assumes "io_bind m f w = (Inr y, w')" obtains x v where "m w = (Inr x, v)" "f x v = (Inr y, w')"
  using assms by (auto simp: io_bind_Inr)

lemma confirm_merged_found:
  assumes "confirm_merged R t sha w = (Inr (FoundMerged s), w')"
  shows "s = sha \<and> (legacy_attempt t \<or> (\<exists>v. assert_ancestor (r_host R) (the (t_branch_tip_sha t)) sha w = (Inr (), v)))"
  using assms by (auto simp: confirm_merged_def elim!: bind_attemptE split: if_splits)

lemma confirm_not_unmerged: "confirm_merged R t sha w \<noteq> (Inr NotMerged, w')"
  by (auto simp: confirm_merged_def elim!: bind_attemptE split: if_splits)

lemma undo_verdict:
  assumes "undo_unmerged R t w = (Inr verdict, w')"
  shows "verdict = NotMerged \<and> (\<exists>v. abort_and_verify (r_host R) (the (t_integration_base_sha t)) w = (Inr (), v)) \<or> (\<exists>b. verdict = Undecided b)"
  using assms by (auto simp: undo_unmerged_def elim!: bind_attemptE split: if_splits)

lemma git_verdict_cases:
  assumes "git_verdict g R wt t w = (Inr verdict, w')"
  obtains "\<not> t_connect_repo_bound t" "verdict = NotMerged"
  | b where "verdict = Undecided b"
  | sha v v' where "t_connect_repo_bound t" "branch_in_integration (r_host R) (r_integration_branch R) (recovery_trailer t) True v = (Inr (Some sha), v')"
      "confirm_merged R t sha v' = (Inr verdict, w')"
  | v v' where "t_connect_repo_bound t" "branch_in_integration (r_host R) (r_integration_branch R) (recovery_trailer t) True v = (Inr None, v')"
      "undo_unmerged R t v' = (Inr verdict, w')"
  using assms by (auto simp: git_verdict_def elim!: bind_attemptE split: if_splits option.splits)

lemma verdict_merged:
  assumes "git_verdict g R wt t w = (Inr (FoundMerged sha), w')"
  shows "t_connect_repo_bound t" and "\<exists>v v'. branch_in_integration (r_host R) (r_integration_branch R) (recovery_trailer t) True v = (Inr (Some sha), v') \<and>
    (legacy_attempt t \<or> (\<exists>v''. assert_ancestor (r_host R) (the (t_branch_tip_sha t)) sha v' = (Inr (), v'')))"
  using assms by (cases rule: git_verdict_cases; use confirm_merged_found undo_verdict in fastforce)+

lemma verdict_unmerged:
  assumes "git_verdict g R wt t w = (Inr NotMerged, w')" and "t_connect_repo_bound t"
  shows "\<exists>v v' v''. branch_in_integration (r_host R) (r_integration_branch R) (recovery_trailer t) True v = (Inr None, v') \<and>
    abort_and_verify (r_host R) (the (t_integration_base_sha t)) v' = (Inr (), v'')"
  using assms(1) by (cases rule: git_verdict_cases; use assms(2) confirm_not_unmerged undo_verdict in fastforce)+

section \<open>Phase A hands its attempt over\<close>

lemma fetchone_append: "fetchone xs = Some x \<Longrightarrow> fetchone (xs @ ys) = Some x"
  by (cases xs) simp_all

lemma acquire_keeps:
  assumes "acquire_merge_token g now tick owner op gen db = (Some tok, db')"
  shows "tasks db' = tasks db" and "idempotency db' = idempotency db"
  using assms by (auto simp: acquire_merge_token_def add_orbit_def orbit_args_def fresh_uuid_def next_fence_def Let_def set_orbit_def
      split: option.splits)

lemma acquired_row:
  assumes "acquire_merge_token g now tick owner op gen db = (Some tok, db')" and "store_inv db"
  obtains k where "get_orbit tok db' = Some k" "o_state k = ''HELD''" "o_kind k = ''merge_token''"
    "o_resource_key k = Some (g_merge_resource g)" "agent_id k = owner" "o_operation_id k = Some op"
    "o_owner_instance k = Some (g_instance_id g)" "o_owner_generation k = Some gen"
    "\<forall>i o'. get_orbit i db = Some o' \<longrightarrow> get_orbit i db' = Some o'"
proof -
  have ok: "rows_ok (orbits db) (uuids db) (fence_counter db)" using assms(2) by (simp add: store_inv_def)
  obtain f d where f: "next_fence db = (f, d)" by (cases "next_fence db")
  define row where "row = (orbit_args None owner [] ''write'' ''HELD'')\<lparr>fence := Some f, o_reason := ''merge_token'',
     o_kind := ''merge_token'', o_resource_key := Some (g_merge_resource g)\<rparr>"
  obtain i d2 where d2: "add_orbit now None row d = (i, d2)" by (cases "add_orbit now None row d")
  define u where "u = no_set\<lparr>u_merge_started_mono := Some (Some tick),
                u_operation_id := Some (Some op), u_owner_instance := Some (Some (g_instance_id g)),
                u_owner_generation := Some (Some gen)\<rparr>"
  have tok: "tok = i" "db' = set_orbit i u d2"
    using assms(1) by (auto simp: acquire_merge_token_def f Let_def u_def d2 simp flip: row_def split: option.splits)
  have i: "i = row_name (uuids db)" and rows: "\<exists>r. orbits d2 = orbits db @ [r] \<and> orbit_id r = i \<and> o_state r = ''HELD'' \<and>
      o_kind r = ''merge_token'' \<and> o_resource_key r = Some (g_merge_resource g) \<and> agent_id r = owner"
    using d2 f by (auto simp: add_orbit_def fresh_uuid_def next_fence_def Let_def row_name_def row_def orbit_args_def)
  obtain r where r: "orbits d2 = orbits db @ [r]" "orbit_id r = i" "o_state r = ''HELD''" "o_kind r = ''merge_token''"
    "o_resource_key r = Some (g_merge_resource g)" "agent_id r = owner" using rows by blast
  have fresh: "orbit_id a \<noteq> i" if "a \<in> set (orbits db)" for a
    using rows_okD(2) [OF ok that] i by auto
  have "filter (\<lambda>o'. orbit_id o' = i) (orbits db) = []" using fresh by (simp add: filter_empty_conv)
  then have "get_orbit i d2 = Some r" using r by (simp add: get_orbit_def)
  then have k: "get_orbit tok db' = Some (apply_set (clear_evidence u) r)" by (simp add: tok get_orbit_set)
  have others: "\<forall>j o'. get_orbit j db = Some o' \<longrightarrow> get_orbit j db' = Some o'"
  proof (intro allI impI)
    fix j o' assume that: "get_orbit j db = Some o'"
    have "o' \<in> set (orbits db)" "orbit_id o' = j" using get_orbit_in [OF that] by auto
    then have "j \<noteq> i" using fresh by auto
    moreover have "get_orbit j d2 = Some o'" using that by (simp add: get_orbit_def r fetchone_append)
    ultimately show "get_orbit j db' = Some o'" by (simp add: tok get_orbit_set)
  qed
  show ?thesis
    by (rule that [OF k _ _ _ _ _ _ _ others]) (simp_all add: r apply_set_def u_def clear_evidence_def no_set_def)
qed

lemma pinned_fields:
  assumes "get_orbit i db = Some k"
  shows "\<exists>m l. get_orbit i (fold (pin_orbit t) ws db) = Some (k\<lparr>o_merging := m, o_merge_deadline := l\<rparr>) \<and>
    (i \<in> orbit_id ` set ws \<or> o_merging k \<longrightarrow> m)"
  using assms
proof (induction ws arbitrary: db k)
  case Nil
  then show ?case by (intro exI [of _ "o_merging k"] exI [of _ "o_merge_deadline k"]) simp
next
  case (Cons x ws)
  define k' where "k' = (if orbit_id x = i then k\<lparr>o_merging := True, o_merge_deadline := Some t\<rparr> else k)"
  have "get_orbit i (pin_orbit t x db) = Some k'"
    using Cons.prems by (auto simp: pin_orbit_def get_orbit_set k'_def apply_set_def clear_evidence_def no_set_def)
  from Cons.IH [OF this] obtain m l where
    "get_orbit i (fold (pin_orbit t) ws (pin_orbit t x db)) = Some (k'\<lparr>o_merging := m, o_merge_deadline := l\<rparr>)"
    "i \<in> orbit_id ` set ws \<or> o_merging k' \<longrightarrow> m" by blast
  then show ?case by (intro exI [of _ m] exI [of _ l]) (auto simp: k'_def)
qed

lemma pins_keep: "tasks (fold (pin_orbit t) ws db) = tasks db" "idempotency (fold (pin_orbit t) ws db) = idempotency db"
  by (induction ws arbitrary: db) (simp_all add: pin_orbit_def set_orbit_def)

lemma admitted_attempt:
  assumes "connect_admit g now tick aid request digest t writes snap globs db = Inr (Attempt it, db')"
  obtains u d1 d2 where "fresh_uuid db = (u, d1)"
    "acquire_merge_token g now tick (merge_owner aid t) (''connect-'' @ u) (t_connect_owner_generation t + 1) d1 = (Some (it_token_id it), d2)"
    "start_attempt g now t writes it d2 = Inr (Attempt it, db')"
    "it = \<lparr>it_task_id = t_task_id t, it_branch = t_branch t, it_worktree = t_worktree t,
       it_writes = map orbit_id writes, it_branch_tip_sha = fst snap, it_integration_base_sha = fst (snd snap),
       it_attempt_id = ''connect-'' @ u, it_owner_instance = g_instance_id g, it_owner_generation = t_connect_owner_generation t + 1,
       it_token_id = it_token_id it, it_token_agent = merge_owner aid t, it_request_id = request,
       it_request_agent = aid, it_request_arg_hash = digest, it_repo_bound = g_repo_bound g\<rparr>"
proof -
  have it: "x = y" if "start_attempt g now t writes x d = Inr (Attempt y, d')" for x y d d'
    using that by (auto simp: start_attempt_def Let_def elim!: bind_resE split: option.splits prod.splits if_splits)
  obtain u d1 where u: "fresh_uuid db = (u, d1)" by (cases "fresh_uuid db")
  obtain tok d2 where tok: "acquire_merge_token g now tick (merge_owner aid t) (''connect-'' @ u) (t_connect_owner_generation t + 1) d1 = (tok, d2)"
    by (cases "acquire_merge_token g now tick (merge_owner aid t) (''connect-'' @ u) (t_connect_owner_generation t + 1) d1")
  define x where "x = (\<lambda>k. \<lparr>it_task_id = t_task_id t, it_branch = t_branch t, it_worktree = t_worktree t,
       it_writes = map orbit_id writes, it_branch_tip_sha = fst snap, it_integration_base_sha = fst (snd snap),
       it_attempt_id = ''connect-'' @ u, it_owner_instance = g_instance_id g, it_owner_generation = t_connect_owner_generation t + 1,
       it_token_id = k, it_token_agent = merge_owner aid t, it_request_id = request,
       it_request_agent = aid, it_request_arg_hash = digest, it_repo_bound = g_repo_bound g\<rparr>)"
  have "\<exists>k. tok = Some k \<and> start_attempt g now t writes (x k) d2 = Inr (Attempt it, db')"
    using assms unfolding connect_admit_def Let_def x_def
    by (auto simp: u tok [simplified] split: prod.splits if_splits option.splits)
  then obtain k where k: "tok = Some k" "start_attempt g now t writes (x k) d2 = Inr (Attempt it, db')" by blast
  have "it = x k" by (rule it [OF k(2), symmetric])
  then show ?thesis using that [OF u] tok k by (simp add: x_def)
qed

lemma started:
  assumes "lawful g" and "start_attempt g now t writes it db = Inr (Attempt it', db')"
  obtains e where "db' = fold (pin_orbit (merge_deadline g now)) writes e" "orbits e = orbits db"
    "tasks e = tasks (set_task (it_task_id it) (intent_columns g now ''CONNECTING'' (max_fence writes) it) db)"
    "\<forall>r. it_request_id it = Some r \<longrightarrow> (\<exists>i\<in>set (idempotency e). i_request_id i = r \<and> i_status i = ''INFLIGHT'' \<and>
       i_agent_id i = it_request_agent it \<and> i_verb i = ''connect'' \<and> i_arg_hash i = the (it_request_arg_hash it) \<and>
       i_operation_id i = Some (it_attempt_id it) \<and> i_owner_instance i = Some (it_owner_instance it) \<and>
       i_owner_generation i = Some (it_owner_generation it))"
proof -
  obtain st where st: "connecting_state g (t_state t) = Inr (Some st)"
    using assms(2) by (auto simp: start_attempt_def elim!: bind_resE split: option.splits)
  have state: "st = ''CONNECTING''"
    using st assms(1) by (auto simp: connecting_state_def transition_results elim!: bind_resE split: if_splits)
  define e1 where "e1 = set_task (it_task_id it) (intent_columns g now ''CONNECTING'' (max_fence writes) it) db"
  have e1: "orbits e1 = orbits db" by (simp add: e1_def set_task_def)
  show ?thesis
  proof (cases "it_request_id it")
    case None
    then have "db' = fold (pin_orbit (merge_deadline g now)) writes e1"
      using assms(2) st by (auto simp: start_attempt_def Let_def state e1_def elim!: bind_resE)
    then show ?thesis using that [of e1] e1 None by (simp add: e1_def)
  next
    case (Some r)
    define p where "p = (\<lambda>i. same_envelope r (it_request_agent it) ''connect'' (the (it_request_arg_hash it)) i \<and>
        i_status i = ''INFLIGHT'' \<and> i_operation_id i = None)"
    define f :: "idem_row \<Rightarrow> idem_row" where "f = (\<lambda>i. i\<lparr>i_operation_id := Some (it_attempt_id it), i_owner_instance := Some (it_owner_instance it),
        i_owner_generation := Some (it_owner_generation it)\<rparr>)"
    define e where "e = e1\<lparr>idempotency := update_where p f (idempotency e1)\<rparr>"
    have one: "length (filter p (idempotency e1)) = 1" and db': "db' = fold (pin_orbit (merge_deadline g now)) writes e"
      using assms(2) st Some
      by (auto simp: start_attempt_def Let_def state bind_idem_operation_exact_def update_exact_def
          simp flip: e1_def p_def f_def e_def elim!: bind_resE split: if_splits)
    then have "filter p (idempotency e1) \<noteq> []" by auto
    then obtain i where "i \<in> set (idempotency e1)" "p i" by (auto simp: filter_empty_conv)
    then have fi: "f i \<in> set (idempotency e)" by (auto simp: e_def update_where_def)
    have fields: "i_request_id (f i) = r \<and> i_status (f i) = ''INFLIGHT'' \<and> i_agent_id (f i) = it_request_agent it \<and>
       i_verb (f i) = ''connect'' \<and> i_arg_hash (f i) = the (it_request_arg_hash it) \<and>
       i_operation_id (f i) = Some (it_attempt_id it) \<and> i_owner_instance (f i) = Some (it_owner_instance it) \<and>
       i_owner_generation (f i) = Some (it_owner_generation it)"
      using \<open>p i\<close> by (simp add: p_def f_def same_envelope_def)
    have kept: "orbits e = orbits db" "tasks e = tasks e1" by (simp_all add: e_def e1)
    show ?thesis
      by (rule that [OF db' kept(1) kept(2) [unfolded e1_def]], intro allI impI, rule bexI [OF _ fi]) (use fields Some in simp)
  qed
qed

lemma get_idem_mem: "idem_keys db \<Longrightarrow> i \<in> set (idempotency db) \<Longrightarrow> get_idem (i_request_id i) db = Some i"
  using get_idem_iff [of db "i_request_id i" i] by simp

lemma intent_columns_id [simp]: "t_task_id (intent_columns g now st fn it t) = t_task_id t"
  by (simp add: intent_columns_def)

text \<open>What the recovery of another process finds after Phase A.\<close>

lemma handed_over:
  assumes "lawful g" and "store_inv db" and "idem_keys db'" and "request \<noteq> None \<Longrightarrow> digest \<noteq> None"
    and "connect_phase_a g R now tick tid aid fn epoch request digest db w = (Inr (Attempt it, db'), w')"
  obtains d t f where "sweep_inline g now db = Inr d" "get_task tid d = Some t" "store_inv db'" "attempt_owned g it db'"
    "get_task tid db' = Some (intent_columns g now ''CONNECTING'' f it t)" "it_task_id it = tid"
    "it_token_agent it = merge_owner aid t" "it_owner_generation it = t_connect_owner_generation t + 1"
    "it_owner_instance it = g_instance_id g" "it_attempt_id it \<noteq> []" "it_request_id it = request"
    "it_request_arg_hash it = digest" "it_repo_bound it = g_repo_bound g"
proof -
  obtain d t writes globs snap v where d: "sweep_inline g now db = Inr d"
    and guards: "connect_guards tid aid fn epoch d = Inr (t, writes)"
    and admit: "connect_admit g now tick aid request digest t writes snap globs d = Inr (Attempt it, db')"
    using assms(5) by (auto simp: connect_phase_a_def split: sum.splits prod.splits)
  note gd = write_guards [OF guards]
  have tid: "t_task_id t = tid" by (rule get_task_id [OF gd(1)])
  have inv: "store_inv d" by (rule inv_sweep [OF assms(1) d assms(2)])
  obtain u d1 d2 where u: "fresh_uuid d = (u, d1)"
    and tok: "acquire_merge_token g now tick (merge_owner aid t) (''connect-'' @ u) (t_connect_owner_generation t + 1) d1 = (Some (it_token_id it), d2)"
    and start: "start_attempt g now t writes it d2 = Inr (Attempt it, db')"
    and it: "it = \<lparr>it_task_id = t_task_id t, it_branch = t_branch t, it_worktree = t_worktree t,
       it_writes = map orbit_id writes, it_branch_tip_sha = fst snap, it_integration_base_sha = fst (snd snap),
       it_attempt_id = ''connect-'' @ u, it_owner_instance = g_instance_id g, it_owner_generation = t_connect_owner_generation t + 1,
       it_token_id = it_token_id it, it_token_agent = merge_owner aid t, it_request_id = request,
       it_request_agent = aid, it_request_arg_hash = digest, it_repo_bound = g_repo_bound g\<rparr>"
    by (rule admitted_attempt [OF admit])
  have fields: "it_task_id it = tid" "it_writes it = map orbit_id writes" "it_attempt_id it = ''connect-'' @ u"
    "it_owner_instance it = g_instance_id g" "it_owner_generation it = t_connect_owner_generation t + 1"
    "it_token_agent it = merge_owner aid t" "it_request_id it = request" "it_request_agent it = aid"
    "it_request_arg_hash it = digest" "it_repo_bound it = g_repo_bound g"
    using tid by (subst it; simp)+
  have d1: "store_inv d1" "orbits d1 = orbits d" "tasks d1 = tasks d"
    using store_inv_grows [OF inv grows_tables(13)] u by (auto simp: fresh_uuid_def)
  obtain k where k: "get_orbit (it_token_id it) d2 = Some k" "o_state k = ''HELD''" "o_kind k = ''merge_token''"
    "o_resource_key k = Some (g_merge_resource g)" "agent_id k = merge_owner aid t" "o_operation_id k = Some (''connect-'' @ u)"
    "o_owner_instance k = Some (g_instance_id g)" "o_owner_generation k = Some (t_connect_owner_generation t + 1)"
    and old: "\<forall>i o'. get_orbit i d1 = Some o' \<longrightarrow> get_orbit i d2 = Some o'"
    by (rule acquired_row [OF tok d1(1)])
  obtain e where e: "db' = fold (pin_orbit (merge_deadline g now)) writes e" "orbits e = orbits d2"
      "tasks e = tasks (set_task (it_task_id it) (intent_columns g now ''CONNECTING'' (max_fence writes) it) d2)"
    and req: "\<forall>r. it_request_id it = Some r \<longrightarrow> (\<exists>i\<in>set (idempotency e). i_request_id i = r \<and> i_status i = ''INFLIGHT'' \<and>
       i_agent_id i = it_request_agent it \<and> i_verb i = ''connect'' \<and> i_arg_hash i = the (it_request_arg_hash it) \<and>
       i_operation_id i = Some (it_attempt_id it) \<and> i_owner_instance i = Some (it_owner_instance it) \<and>
       i_owner_generation i = Some (it_owner_generation it))"
    by (rule started [OF assms(1) start])
  have "get_task tid db' = get_task tid (set_task tid (intent_columns g now ''CONNECTING'' (max_fence writes) it) d2)"
    by (rule get_task_kept) (simp add: e pins_keep fields)
  also have "\<dots> = map_option (intent_columns g now ''CONNECTING'' (max_fence writes) it) (get_task tid d2)"
    by (rule get_task_set) simp
  also have "get_task tid d2 = Some t"
    using gd(1) get_task_kept [of d2 d tid] acquire_keeps(1) [OF tok] d1(3) by simp
  finally have task: "get_task tid db' = Some (intent_columns g now ''CONNECTING'' (max_fence writes) it t)" by simp
  have row: "\<exists>m l. get_orbit i db' = Some (x\<lparr>o_merging := m, o_merge_deadline := l\<rparr>) \<and> (i \<in> orbit_id ` set writes \<longrightarrow> m)"
    if "get_orbit i d2 = Some x" for i x
    using pinned_fields [of i e x "merge_deadline g now" writes] that e(1,2) by (auto simp: get_orbit_def)
  have bound: "task_bound it (it_token_id it) (intent_columns g now ''CONNECTING'' (max_fence writes) it t)"
    by (simp add: task_bound_def intent_columns_def)
  have token: "\<exists>k'. get_orbit (it_token_id it) db' = Some k' \<and> token_bound g it k'"
    using row [OF k(1)] k fields by (auto simp: token_bound_def)
  have pinned: "pinned_write tid (orbit_id o') db'" if "o' \<in> set writes" for o'
  proof -
    have o': "o' \<in> set (orbits d)" "o_task_id o' = Some tid" using that gd(2) by (auto simp: write_orbits_def orbits_for_task_def)
    have "get_orbit (orbit_id o') d = Some o'"
      using inv o'(1) by (intro get_orbit_mem) (auto simp: store_inv_def rows_ok_def)
    then have "get_orbit (orbit_id o') d2 = Some o'" using old d1(2) by (simp add: get_orbit_def)
    from row [OF this] that o' show ?thesis
      using no_stale_writes [OF gd(4,3)] by (auto simp: pinned_write_def)
  qed
  have idem: "idem_bound it db'"
  proof (cases request)
    case None
    then show ?thesis by (simp add: idem_bound_def fields)
  next
    case (Some r)
    then obtain i where i: "i \<in> set (idempotency db')" "i_request_id i = r" "i_status i = ''INFLIGHT''" "i_agent_id i = aid"
      "i_verb i = ''connect''" "i_arg_hash i = the digest" "i_operation_id i = Some (it_attempt_id it)"
      "i_owner_instance i = Some (it_owner_instance it)" "i_owner_generation i = Some (it_owner_generation it)"
      using req by (auto simp: fields e pins_keep)
    then have "get_idem r db' = Some i" using get_idem_mem [OF assms(3)] by blast
    then show ?thesis using i Some assms(4) by (auto simp: idem_bound_def fields)
  qed
  have owned: "attempt_owned g it db'"
    using task bound token pinned idem fields(1,2) by (auto simp: attempt_owned_def list_all_iff)
  show ?thesis
    by (rule that [OF d gd(1) inv_phase_a [OF assms(1,5,2)] owned task]) (simp_all add: fields)
qed

section \<open>Recovering an owned attempt\<close>

lemma attempt_binding:
  assumes own: "attempt_owned g it db" and task: "get_task (it_task_id it) db = Some t"
    and ids: "it_attempt_id it \<noteq> []" "it_owner_instance it \<noteq> []" "0 < it_owner_generation it" "it_token_id it \<noteq> []"
    and req: "t_connect_request_id t = it_request_id it" "t_connect_arg_hash t = it_request_arg_hash it"
      "it_request_id it = None \<longleftrightarrow> it_request_arg_hash it = None" "it_request_id it \<noteq> Some []" "it_request_arg_hash it \<noteq> Some []"
  shows "stranded_token g t db = (get_orbit (it_token_id it) db, Some (it_token_id it))"
    and "binding_error g t db = None \<longleftrightarrow> it_token_agent it \<in> set (token_agents t)"
proof -
  obtain k where k: "get_orbit (it_token_id it) db = Some k" "token_bound g it k" and tb: "task_bound it (it_token_id it) t"
    using own task by (auto simp: attempt_owned_def split: option.splits)
  show stranded: "stranded_token g t db = (get_orbit (it_token_id it) db, Some (it_token_id it))"
    using tb k(1) ids(4) by (simp add: stranded_token_def recorded_token_def present_def task_bound_def)
  have "attempt_fault t = None" using tb ids by (simp add: attempt_fault_def present_def task_bound_def)
  moreover have "request_fault t db = None"
  proof (cases "it_request_id it")
    case None
    then show ?thesis using req by (simp add: request_fault_def has_request_def)
  next
    case (Some r)
    obtain i where "get_idem r db = Some i" "i_status i = ''INFLIGHT''" "i_verb i = ''connect''"
      "Some (i_arg_hash i) = it_request_arg_hash it" "i_operation_id i = Some (it_attempt_id it)"
      "i_owner_instance i = Some (it_owner_instance it)" "i_owner_generation i = Some (it_owner_generation it)"
      using own Some by (auto simp: attempt_owned_def idem_bound_def split: option.splits)
    then show ?thesis
      using req Some tb by (auto simp: request_fault_def has_request_def present_def task_bound_def generation_of_def)
  qed
  moreover have "token_fault g t (Some k) = None \<longleftrightarrow> it_token_agent it \<in> set (token_agents t)"
    using tb k(2) by (simp add: token_fault_def token_of_task_def task_bound_def token_bound_def generation_of_def)
  ultimately show "binding_error g t db = None \<longleftrightarrow> it_token_agent it \<in> set (token_agents t)"
    by (cases "token_fault g t (Some k)") (simp_all add: binding_error_def stranded k(1))
qed

lemma take_over_ok:
  assumes "idem_keys db" and "request_fault t db = None" and "t_connect_attempt_id t = Some a"
    and "0 < t_connect_owner_generation t"
  obtains db' u where "take_over g t tok db = Inr db'" "orbits db' = orbits (set_orbit tok u db)" "u_state u = None"
    "u_merging u = None"
proof -
  define u where "u = no_set\<lparr>u_operation_id := Some (t_connect_attempt_id t),
      u_owner_instance := Some (Some (g_instance_id g)), u_owner_generation := Some (Some (t_connect_owner_generation t + 1))\<rparr>"
  define d where "d = set_orbit tok u (set_task (t_task_id t) (\<lambda>x. x\<lparr>t_connect_attempt_id := t_connect_attempt_id t,
            t_connect_owner_instance := Some (g_instance_id g), t_connect_owner_generation := t_connect_owner_generation t + 1,
            t_connect_token_id := Some tok\<rparr>) db)"
  have same: "orbits d = orbits (set_orbit tok u db)" "idempotency d = idempotency db"
    by (simp_all add: d_def set_orbit_def set_task_def)
  have u: "u_state u = None" "u_merging u = None" by (simp_all add: u_def)
  show ?thesis
  proof (cases "has_request t")
    case False
    then have "take_over g t tok db = Inr d" by (simp add: take_over_def Let_def d_def u_def)
    then show ?thesis by (rule that [OF _ same(1) u])
  next
    case True
    obtain i where i: "get_idem (the (t_connect_request_id t)) db = Some i" "i_status i = ''INFLIGHT''" "i_verb i = ''connect''"
      "Some (i_arg_hash i) = t_connect_arg_hash t" "i_operation_id i = t_connect_attempt_id t"
      "i_owner_instance i = t_connect_owner_instance t" "generation_of (i_owner_generation i) = t_connect_owner_generation t"
      using assms(2,3) True by (auto simp: request_fault_def split: if_splits option.splits)
    have gen: "i_owner_generation i = Some (t_connect_owner_generation t)"
      using i(7) assms(4) by (auto simp: generation_of_def split: option.splits)
    have hash: "i_arg_hash i = the (t_connect_arg_hash t)" using i(4) by (metis option.sel)
    have rid: "i_request_id i = the (t_connect_request_id t)" using i(1) get_idem_iff [OF assms(1)] by blast
    define op where "op = takeover_idem_operation_exact (i_request_id i) (i_agent_id i) ''connect'' (the (t_connect_arg_hash t))
                 (the (t_connect_attempt_id t)) (t_connect_owner_instance t) (Some (t_connect_owner_generation t))
                 (Some (g_instance_id g)) (Some (t_connect_owner_generation t + 1)) d"
    have "fst op"
      unfolding op_def takeover_idem_operation_exact_def
      by (rule update_exact_hit(1) [where rid = "i_request_id i" and i = i])
        (use assms(1,3) i gen hash rid get_idem_cong [OF same(2)] in \<open>auto simp: same_envelope_def\<close>)
    moreover have "orbits (snd op) = orbits d"
      by (simp add: op_def takeover_idem_operation_exact_def update_exact_def)
    moreover have "take_over g t tok db = (case op of (bound, db) \<Rightarrow> if bound then Inr db
        else Inl (RuntimeError ''connect recovery ownership CAS lost''))"
      using True i(1) get_idem_cong(1) [OF same(2)]
      by (simp add: take_over_def Let_def op_def flip: u_def d_def)
    ultimately show ?thesis using that [of "snd op" u] same(1) u by (auto simp: case_prod_beta)
  qed
qed

lemma unpinned_fields:
  assumes "get_orbit i db = Some k"
  shows "\<exists>m l. get_orbit i (fold unpin_orbit ws db) = Some (k\<lparr>o_merging := m, o_merge_deadline := l\<rparr>)"
  using assms
proof (induction ws arbitrary: db k)
  case Nil
  then show ?case by (intro exI [of _ "o_merging k"] exI [of _ "o_merge_deadline k"]) simp
next
  case (Cons x ws)
  define k' where "k' = (if orbit_id x = i then k\<lparr>o_merging := False, o_merge_deadline := None\<rparr> else k)"
  have "get_orbit i (unpin_orbit x db) = Some k'"
    using Cons.prems by (auto simp: unpin_orbit_def get_orbit_set k'_def apply_set_def clear_evidence_def no_set_def)
  from Cons.IH [OF this] obtain m l where
    "get_orbit i (fold unpin_orbit ws (unpin_orbit x db)) = Some (k'\<lparr>o_merging := m, o_merge_deadline := l\<rparr>)" by blast
  then show ?case by (intro exI [of _ m] exI [of _ l]) (cases "orbit_id x = i"; auto simp: k'_def)
qed

lemma get_orbit_cong: "orbits a = orbits b \<Longrightarrow> get_orbit i a = get_orbit i b"
  by (simp add: get_orbit_def)

lemma undo_attempt_ok:
  assumes "lawful g" and "get_orbit tok db = Some k" and "o_state k = ''HELD''"
  obtains db' where "undo_attempt g now tid (Some tok) db = Inr db'"
    "\<exists>k'. get_orbit tok db' = Some k' \<and> o_state k' = ''RELEASED''"
proof -
  define d where "d = set_task tid (detached ''DONE'') (fold unpin_orbit (pinned_orbits_for_task tid db) db)"
  have d: "get_orbit i d = get_orbit i (fold unpin_orbit (pinned_orbits_for_task tid db) db)" for i
    by (rule get_orbit_cong) (simp add: d_def set_task_def)
  define u where "u = no_set\<lparr>u_state := Some ''RELEASED'', u_released_at := Some (Some now)\<rparr>"
  have u: "apply_set (clear_evidence u) x = x\<lparr>o_state := ''RELEASED'', o_released_at := Some now\<rparr>" for x
    by (simp add: u_def apply_set_def clear_evidence_def no_set_def)
  obtain m l where k: "get_orbit tok d = Some (k\<lparr>o_merging := m, o_merge_deadline := l\<rparr>)"
    using unpinned_fields [OF assms(2)] d by metis
  then have "undo_attempt g now tid (Some tok) db = Inr (set_orbit tok u d)"
    using assms(1,3) by (simp add: undo_attempt_def transition_results release_stranded_def release_merge_token_def u_def flip: d_def)
  moreover have "\<exists>k'. get_orbit tok (set_orbit tok u d) = Some k' \<and> o_state k' = ''RELEASED''"
    using k by (simp add: get_orbit_set u)
  ultimately show ?thesis by (rule that)
qed

section \<open>An interrupted merge\<close>

text \<open>The sample attempt of a connect is left behind by a crash; the branch has no commit of it.\<close>

definition unmerged_git :: "string list \<Rightarrow> rat option \<Rightarrow> unit \<Rightarrow> process_outcome \<times> unit" where
  "unmerged_git args t w = (if hd args = ''log'' then (Exited 0 [] [], w) else merged_git args t w)"

definition unmerged_repo :: "unit repo" where
  "unmerged_repo = sample_merge_repo\<lparr>r_host := \<lparr>run_git = unmerged_git, path_exists = (\<lambda>p w. False),
     run_check = (\<lambda>argv t limit w. (CheckRan (Some 0) [] [] False, w))\<rparr>\<rparr>"

definition foreign_store :: db where
  "foreign_store = set_task ''T'' (\<lambda>t. t\<lparr>t_agent_id := Some ''b''\<rparr>) finished_store"

definition phase_a_of :: "db \<Rightarrow> (core_error, phase_a_answer \<times> db) result" where
  "phase_a_of db = fst (connect_phase_a digest_config sample_merge_repo 2 2 ''T'' (Some ''a'') (Some 1) None None None db ())"

definition crashed :: "(intent \<Rightarrow> db \<Rightarrow> task \<Rightarrow> bool) \<Rightarrow> (core_error, phase_a_answer \<times> db) result \<Rightarrow> bool" where
  "crashed P r = (case r of
     Inr (Attempt it, db) \<Rightarrow> (case get_task ''T'' db of Some t \<Rightarrow> P it db t | None \<Rightarrow> False)
   | _ \<Rightarrow> False)"

lemma crashedE:
  assumes "crashed P (phase_a_of db)"
  obtains it db' t where "connect_phase_a digest_config sample_merge_repo 2 2 ''T'' (Some ''a'') (Some 1) None None None db () =
      (Inr (Attempt it, db'), ())" "get_task ''T'' db' = Some t" "P it db' t"
  using assms that by (auto simp: crashed_def phase_a_of_def prod_eq_iff split: sum.splits prod.splits phase_a_answer.splits option.splits)

definition plain_crash :: "intent \<Rightarrow> db \<Rightarrow> task \<Rightarrow> bool" where
  "plain_crash it db t \<longleftrightarrow> idempotency db = [] \<and> 0 < it_owner_generation it \<and> it_integration_base_sha it = Some ''c0'' \<and>
     t_task_id t = ''T'' \<and> t_state t = ''CONNECTING'' \<and> it_token_agent it = ''a''"

lemma foreign_store_inv: "store_inv foreign_store"
  using finished_store_inv by (simp add: foreign_store_def store_inv_def set_task_def)

lemma sample_crashes:
  "crashed (\<lambda>it db t. plain_crash it db t \<and> t_agent_id t = Some ''a'') (phase_a_of finished_store)"
  "crashed (\<lambda>it db t. plain_crash it db t \<and> t_agent_id t = Some ''b'') (phase_a_of foreign_store)"
  by code_simp+

text \<open>A task left CONNECTING by a coordinator of the old kind: its token carries no attempt.\<close>

definition legacy_store :: db where
  "legacy_store = set_task ''T'' (\<lambda>t. t\<lparr>t_state := ''CONNECTING'', t_connect_repo_bound := True\<rparr>)
     (finished_store\<lparr>orbits := orbits finished_store @ [(sample_lease_row 1 ''a'' ''merge'')\<lparr>o_kind := ''merge_token'',
       o_resource_key := Some ''repo''\<rparr>], uuids := 2, fence_counter := 2\<rparr>)"

definition legacy_row :: task where
  "legacy_row = hd (tasks legacy_store)"

lemma legacy_row_bound: "binding_error digest_config legacy_row legacy_store = None"
  by code_simp

lemma legacy_row_token: "snd (stranded_token digest_config legacy_row legacy_store) = Some (row_name 1)"
  by code_simp

lemma legacy_row_verdict: "case git_verdict digest_config sample_merge_repo True legacy_row () of
    (Inr (FoundMerged sha), w) \<Rightarrow> sha = ''c1'' | _ \<Rightarrow> False"
  by code_simp

lemma legacy_row_completed: "case complete_merged digest_config 9 ''T'' (Some (row_name 1)) ''c1'' legacy_store of
    Inr db \<Rightarrow> map_option t_state (get_task ''T'' db) = Some ''MERGED'' | _ \<Rightarrow> False"
  by code_simp

lemma legacy_row_row: "get_task (t_task_id legacy_row) legacy_store = Some legacy_row" "t_task_id legacy_row = ''T''" "t_state legacy_row = ''CONNECTING''"
  "t_connect_repo_bound legacy_row" "legacy_attempt legacy_row"
  by (simp_all add: legacy_row_def legacy_store_def set_task_def finished_store_def get_task_def new_task_def)

lemma unmerged_rollback: "case abort_and_verify (r_host unmerged_repo) ''c0'' () of (Inr u, v) \<Rightarrow> True | _ \<Rightarrow> False"
  by code_simp

lemma unmerged_repo_answers:
  "branch_in_integration (r_host unmerged_repo) (r_integration_branch unmerged_repo) trailer True () = (Inr None, ())"
  "abort_and_verify (r_host unmerged_repo) ''c0'' () = (Inr (), ())"
  using unmerged_rollback
  by (auto simp: unmerged_repo_def sample_merge_repo_def branch_in_integration_def io_catch_def io_bind_def git_call_def
      unmerged_git_def io_return_def py_strip_def rstrip_by_def split: sum.splits prod.splits)

lemma legacy_row_merged:
  obtains rv where "recover_task digest_config sample_merge_repo 9 True legacy_row
      \<lparr>rv_db = legacy_store, rv_protected = [], rv_unresolved = False\<rparr> () = (Inr rv, ())"
    "map_option t_state (get_task ''T'' (rv_db rv)) = Some ''MERGED''"
proof -
  obtain db where db: "complete_merged digest_config 9 ''T'' (Some (row_name 1)) ''c1'' legacy_store = Inr db"
    "map_option t_state (get_task ''T'' db) = Some ''MERGED''"
    using legacy_row_completed by (auto split: sum.splits)
  have "git_verdict digest_config sample_merge_repo True legacy_row () = (Inr (FoundMerged ''c1''), ())"
    using legacy_row_verdict by (auto split: sum.splits prod.splits recovery_verdict.splits)
  with db(1) legacy_row_bound legacy_row_token legacy_row_row
  have "recover_task digest_config sample_merge_repo 9 True legacy_row
      \<lparr>rv_db = legacy_store, rv_protected = [], rv_unresolved = False\<rparr> () = (Inr \<lparr>rv_db = db, rv_protected = [], rv_unresolved = False\<rparr>, ())"
    by (simp add: recover_task_def apply_verdict_def case_prod_beta)
  then show ?thesis using that db(2) by simp
qed

text \<open>C11. A recovery says what Git says: a task it finds CONNECTING is afterwards still CONNECTING, and the
  recovery then counts as unresolved; or it is MERGED with a commit of the integration branch that carries
  the trailer of the attempt and, unless the attempt is of the old kind, descends from the audited commit;
  or it is DONE, and then, if the attempt was made in a repository, that branch has no such commit and the
  worktree was rolled back to the recorded base with proof.\<close>

theorem recovery_follows_git:
  assumes "lawful g" and "recover_task g R now wt t rv w = (Inr rv', w')" and "get_task (t_task_id t) (rv_db rv) = Some t"
    and "t_state t = ''CONNECTING''"
  shows "\<exists>t'. get_task (t_task_id t) (rv_db rv') = Some t' \<and>
    (t_state t' = ''CONNECTING'' \<and> rv_unresolved rv' \<or>
     t_state t' = ''MERGED'' \<and> t_connect_repo_bound t \<and> (\<exists>sha v v'. t_merge_sha t' = Some sha \<and>
       branch_in_integration (r_host R) (r_integration_branch R) (recovery_trailer t) True v = (Inr (Some sha), v') \<and>
       (legacy_attempt t \<or> (\<exists>v''. assert_ancestor (r_host R) (the (t_branch_tip_sha t)) sha v' = (Inr (), v'')))) \<or>
     t_state t' = ''DONE'' \<and> (t_connect_repo_bound t \<longrightarrow> (\<exists>v v' v''.
       branch_in_integration (r_host R) (r_integration_branch R) (recovery_trailer t) True v = (Inr None, v') \<and>
       abort_and_verify (r_host R) (the (t_integration_base_sha t)) v' = (Inr (), v''))))"
  using assms(2)
proof (cases rule: recover_task_cases)
  case unbound
  then show ?thesis using assms(3,4) get_task_kept [OF tasks_hold_task_pins] by simp
next
  case (bound d t' verdict)
  have same: "t' = t \<or> t' = taken_over g t (the (snd (stranded_token g t (rv_db rv))))"
    by (rule bound_row [OF bound(2) assms(3) bound(3)])
  show ?thesis
  proof (cases verdict)
    case (Undecided b)
    then show ?thesis
      using bound(3,5) same assms(4) get_task_kept [OF tasks_hold_task_pins] by (auto simp: apply_verdict_def)
  next
    case (FoundMerged sha)
    then obtain d' where "complete_merged g now (t_task_id t) (snd (stranded_token g t (rv_db rv))) sha d = Inr d'" "rv_db rv' = d'"
      using bound(5) by (auto simp: apply_verdict_def elim!: bind_resE)
    from completed_row [OF assms(1) this(1) bound(3)] this(2) obtain x where
      x: "get_task (t_task_id t) (rv_db rv') = Some x" "t_state x = ''MERGED''" "t_merge_sha x = Some sha" by auto
    have "t_connect_repo_bound t \<and> (\<exists>v v'. branch_in_integration (r_host R) (r_integration_branch R) (recovery_trailer t) True v =
        (Inr (Some sha), v') \<and> (legacy_attempt t \<or> (\<exists>v''. assert_ancestor (r_host R) (the (t_branch_tip_sha t)) sha v' = (Inr (), v''))))"
      using verdict_merged [OF bound(4) [unfolded FoundMerged]] same by (elim disjE) simp_all
    then show ?thesis using x by blast
  next
    case NotMerged
    then obtain d' where "undo_attempt g now (t_task_id t) (snd (stranded_token g t (rv_db rv))) d = Inr d'" "rv_db rv' = d'"
      using bound(5) by (auto simp: apply_verdict_def elim!: bind_resE)
    from undone_row [OF assms(1) this(1) bound(3)] this(2) obtain x where
      x: "get_task (t_task_id t) (rv_db rv') = Some x" "t_state x = ''DONE''" by auto
    have "t_connect_repo_bound t \<longrightarrow> (\<exists>v v' v''. branch_in_integration (r_host R) (r_integration_branch R) (recovery_trailer t) True v =
        (Inr None, v') \<and> abort_and_verify (r_host R) (the (t_integration_base_sha t)) v' = (Inr (), v''))"
      using verdict_unmerged [OF bound(4) [unfolded NotMerged]] same by (elim disjE) simp_all
    then show ?thesis using x by blast
  qed
qed

lemma recovery_follows_git_witness:
  "\<exists>rv t' sha v'. recover_task digest_config sample_merge_repo 9 True legacy_row
      \<lparr>rv_db = legacy_store, rv_protected = [], rv_unresolved = False\<rparr> () = (Inr rv, ()) \<and>
     get_task ''T'' (rv_db rv) = Some t' \<and> t_state t' = ''MERGED'' \<and> t_merge_sha t' = Some sha \<and>
     branch_in_integration (r_host sample_merge_repo) ''main'' (recovery_trailer legacy_row) True () = (Inr (Some sha), v')"
proof -
  obtain rv where rv: "recover_task digest_config sample_merge_repo 9 True legacy_row
      \<lparr>rv_db = legacy_store, rv_protected = [], rv_unresolved = False\<rparr> () = (Inr rv, ())"
    and m: "map_option t_state (get_task ''T'' (rv_db rv)) = Some ''MERGED''"
    by (rule legacy_row_merged)
  from recovery_follows_git [OF digest_config_lawful this(1)] legacy_row_row rv m show ?thesis
    by (fastforce simp: sample_merge_repo_def)
qed

lemma taken_token:
  assumes "orbits d = orbits (set_orbit tok u db)" and "u_state u = None" and "get_orbit tok db = Some k"
  shows "\<exists>k'. get_orbit tok d = Some k' \<and> o_state k' = o_state k"
  using get_orbit_cong [OF assms(1), of tok] assms(2,3) by (simp add: get_orbit_set apply_set_def)

lemma same_resource:
  assumes "g_merge_resource g' = g_merge_resource g"
  shows "stranded_token g' = stranded_token g" "binding_error g' = binding_error g"
proof -
  have tok: "token_of_task g' = token_of_task g" using assms by (simp add: fun_eq_iff token_of_task_def)
  then have unb: "unbound_token g' = unbound_token g" by (simp add: fun_eq_iff unbound_token_def)
  have "adopted_token g' = adopted_token g" by (intro ext) (simp only: adopted_token_def unb assms)
  then show str: "stranded_token g' = stranded_token g" by (intro ext) (simp only: stranded_token_def)
  have "token_fault g' = token_fault g" by (intro ext) (simp only: token_fault_def tok unb assms)
  then show "binding_error g' = binding_error g" by (intro ext) (simp only: binding_error_def str)
qed

lemma crash_setting:
  assumes "lawful g" and "store_inv db" and "idem_keys db'"
    and "request \<noteq> Some []" and "digest \<noteq> Some []" and "request = None \<longleftrightarrow> digest = None" and "g_instance_id g \<noteq> []"
    and "connect_phase_a g R now tick tid aid fn epoch request digest db w = (Inr (Attempt it, db'), w')"
    and "0 < it_owner_generation it"
  obtains t where "get_task tid db' = Some t" "t_task_id t = tid" "t_state t = ''CONNECTING''" "attempt_owned g it db'"
    "stranded_token g t db' = (get_orbit (it_token_id it) db', Some (it_token_id it))"
    "binding_error g t db' = None \<longleftrightarrow> it_token_agent it \<in> set (token_agents t)"
    "t_connect_attempt_id t = Some (it_attempt_id it)" "t_connect_repo_bound t = g_repo_bound g"
    "t_integration_base_sha t = it_integration_base_sha it" "0 < t_connect_owner_generation t"
    "\<exists>k. get_orbit (it_token_id it) db' = Some k \<and> o_state k = ''HELD''"
proof -
  obtain d t f where inv: "store_inv db'" and own: "attempt_owned g it db'" and
    row: "get_task tid db' = Some (intent_columns g now ''CONNECTING'' f it t)" and it: "it_task_id it = tid"
    "it_token_agent it = merge_owner aid t" "it_owner_generation it = t_connect_owner_generation t + 1"
    "it_owner_instance it = g_instance_id g" "it_attempt_id it \<noteq> []" "it_request_id it = request"
    "it_request_arg_hash it = digest" "it_repo_bound it = g_repo_bound g"
    using handed_over [OF assms(1-3) _ assms(8)] assms(6) by metis
  let ?t = "intent_columns g now ''CONNECTING'' f it t"
  obtain k where k: "get_orbit (it_token_id it) db' = Some k" "token_bound g it k"
    using own row it(1) by (auto simp: attempt_owned_def split: option.splits)
  have "\<exists>n. it_token_id it = row_name n"
    using rows_okD(2) [of "orbits db'" "uuids db'" "fence_counter db'" k] inv get_orbit_in [OF k(1)] by (auto simp: store_inv_def)
  then have tok: "it_token_id it \<noteq> []" by (auto simp: row_name_def)
  have cols: "t_connect_request_id ?t = it_request_id it" "t_connect_arg_hash ?t = it_request_arg_hash it"
    "t_connect_attempt_id ?t = Some (it_attempt_id it)" "t_connect_repo_bound ?t = it_repo_bound it"
    "t_integration_base_sha ?t = it_integration_base_sha it" "t_connect_owner_generation ?t = it_owner_generation it"
    "t_state ?t = ''CONNECTING''"
    by (simp_all add: intent_columns_def)
  note binding = attempt_binding [of g it db' ?t, unfolded it(1), OF own row it(5) _ assms(9) tok cols(1,2)]
  show ?thesis
    by (rule that [OF row _ cols(7) own binding])
      (use assms(4-9) it cols k get_task_id [OF row] in \<open>auto simp: token_bound_def\<close>)
qed



text \<open>C13. A merge by an agent other than the one that started the task cannot be recovered: the token of the
  attempt carries the caller's name, the recovery accepts only the task's agent and the two default
  names. After a crash the task stays CONNECTING, however Git answers, and the token stays protected.\<close>

theorem foreign_caller_is_stranded:
  assumes "lawful g" and "store_inv db" and "idem_keys db'"
    and "request \<noteq> Some []" and "digest \<noteq> Some []" and "request = None \<longleftrightarrow> digest = None" and "g_instance_id g \<noteq> []"
    and "connect_phase_a g R now tick tid aid fn epoch request digest db w = (Inr (Attempt it, db'), w')"
    and "0 < it_owner_generation it" and "get_task tid db' = Some t" and "it_token_agent it \<notin> set (token_agents t)"
    and "g_merge_resource g' = g_merge_resource g"
  shows "\<exists>rv t'. recover_task g' R' now' wt t \<lparr>rv_db = db', rv_protected = [], rv_unresolved = False\<rparr> v = (Inr rv, v) \<and>
    rv_unresolved rv \<and> get_task tid (rv_db rv) = Some t' \<and> t_state t' = ''CONNECTING'' \<and>
    it_token_id it \<in> set (rv_protected rv)"
proof -
  have same: "stranded_token g' x d = stranded_token g x d" "binding_error g' x d = binding_error g x d" for x d
    using same_resource [OF assms(12)] by simp_all
  obtain x where x: "get_task tid db' = Some x" "t_task_id x = tid" "t_state x = ''CONNECTING''" "attempt_owned g it db'"
    "binding_error g x db' = None \<longleftrightarrow> it_token_agent it \<in> set (token_agents x)"
    by (rule crash_setting [OF assms(1-9)])
  have t: "x = t" using x(1) assms(10) by simp
  obtain k where k: "k \<in> set (orbits db')" "orbit_id k = it_token_id it" "token_bound g it k" by (rule owned_token [OF x(4)])
  then have "k \<in> set (all_held_merge_tokens db')" by (simp add: all_held_merge_tokens_def token_bound_def)
  then have "it_token_id it \<in> orbit_id ` set (all_held_merge_tokens db')" using k(2) by force
  moreover have "binding_error g t db' \<noteq> None" using x(5) t assms(11) by simp
  ultimately show ?thesis
    using x(1-3) t get_task_kept [OF tasks_hold_task_pins, of tid tid db'] by (simp add: recover_task_def same case_prod_beta)
qed

lemma foreign_caller_is_stranded_witness:
  "\<exists>it db t rv t'. connect_phase_a digest_config sample_merge_repo 2 2 ''T'' (Some ''a'') (Some 1) None None None foreign_store () =
       (Inr (Attempt it, db), ()) \<and> get_task ''T'' db = Some t \<and> t_agent_id t = Some ''b'' \<and>
     recover_task digest_config unmerged_repo 9 True t \<lparr>rv_db = db, rv_protected = [], rv_unresolved = False\<rparr> () = (Inr rv, ()) \<and>
     get_task ''T'' (rv_db rv) = Some t' \<and> t_state t' = ''CONNECTING'' \<and> it_token_id it \<in> set (rv_protected rv)"
proof -
  obtain it db t where a: "connect_phase_a digest_config sample_merge_repo 2 2 ''T'' (Some ''a'') (Some 1) None None None foreign_store () =
      (Inr (Attempt it, db), ())" and t: "get_task ''T'' db = Some t" and r: "plain_crash it db t" "t_agent_id t = Some ''b''"
    by (rule crashedE [OF sample_crashes(2)]) (elim conjE, rule that)
  have "\<exists>rv t'. recover_task digest_config unmerged_repo 9 True t \<lparr>rv_db = db, rv_protected = [], rv_unresolved = False\<rparr> () = (Inr rv, ()) \<and>
      rv_unresolved rv \<and> get_task ''T'' (rv_db rv) = Some t' \<and> t_state t' = ''CONNECTING'' \<and> it_token_id it \<in> set (rv_protected rv)"
    by (rule foreign_caller_is_stranded [OF digest_config_lawful foreign_store_inv _ _ _ _ _ a])
      (use r t in \<open>auto simp: plain_crash_def idem_keys_def token_agents_def digest_config_def sample_config_def\<close>)
  then show ?thesis using a t r(2) by blast
qed

end
