(* ===== verification/Process.thy ===== *)
theory Process
  imports MergeSafe Recovery
begin

text \<open>
  The verbs that run over several critical sections (\<open>omd_server/core.py\<close>, \<open>omd_server/_barriers.py\<close>):
  \<open>connect\<close> with its effect lock, its reservation, its tries of Phase A, the merge outside the lock and
  the answer, and \<open>barrier_arrive\<close> with the trip that merges the tasks of a full barrier one after the
  other. What the other agents do between two sections is an argument of the process, like the readings
  of the clock. \<open>_barrier_connect_phase_a\<close> is here too; the trip never calls it without a barrier.
\<close>

section \<open>Processes\<close>

text \<open>A process runs critical sections on the store, computations on the host between them, and leaves
  time for the others. An exception ends it; what its sections have committed before stays.\<close>

type_synonym ('w, 'a) proc = "db \<Rightarrow> 'w \<Rightarrow> (core_error, 'a) result \<times> db \<times> 'w"

type_synonym others = "db \<Rightarrow> db"

definition proc_return :: "'a \<Rightarrow> ('w, 'a) proc" where
  "proc_return a = (\<lambda>db w. (Inr a, db, w))"

definition proc_bind :: "('w, 'a) proc \<Rightarrow> ('a \<Rightarrow> ('w, 'b) proc) \<Rightarrow> ('w, 'b) proc" where
  "proc_bind m k = (\<lambda>db w. case m db w of (Inl e, db, w) \<Rightarrow> (Inl e, db, w) | (Inr a, db, w) \<Rightarrow> k a db w)"

text \<open>\<open>except BaseException\<close> with a handler that raises again.\<close>

definition proc_cleanup :: "('w, 'a) proc \<Rightarrow> (core_error \<Rightarrow> ('w, unit) proc) \<Rightarrow> ('w, 'a) proc" where
  "proc_cleanup m h = (\<lambda>db w. case m db w of
     (Inl e, db, w) \<Rightarrow> (case h e db w of (Inl f, db, w) \<Rightarrow> (Inl f, db, w) | (Inr u, db, w) \<Rightarrow> (Inl e, db, w))
   | (Inr a, db, w) \<Rightarrow> (Inr a, db, w))"

text \<open>A critical section, with or without a look at the repository: an exception rolls the store back.\<close>

definition locked :: "(db \<Rightarrow> (core_error, 'a \<times> db) result) \<Rightarrow> ('w, 'a) proc" where
  "locked f = (\<lambda>db w. case f db of Inl e \<Rightarrow> (Inl e, db, w) | Inr (a, db') \<Rightarrow> (Inr a, db', w))"

definition locked_io :: "(db \<Rightarrow> 'w \<Rightarrow> (core_error, 'a \<times> db) result \<times> 'w) \<Rightarrow> ('w, 'a) proc" where
  "locked_io f = (\<lambda>db w. case f db w of (Inl e, w) \<Rightarrow> (Inl e, db, w) | (Inr (a, db'), w) \<Rightarrow> (Inr a, db', w))"

definition unlocked :: "('w, 'a) io \<Rightarrow> ('w, 'a) proc" where
  "unlocked m = (\<lambda>db w. case m w of (Inl e, w) \<Rightarrow> (Inl (RaisedGit e), db, w) | (Inr a, w) \<Rightarrow> (Inr a, db, w))"

definition meanwhile :: "others \<Rightarrow> ('w, unit) proc" where
  "meanwhile oth = (\<lambda>db w. (Inr (), oth db, w))"

section \<open>Phase A of a party of a barrier\<close>

text \<open>The trip is lost when its barrier is gone, re-armed or terminal.\<close>

definition lost_reason :: "barrier option \<Rightarrow> string" where
  "lost_reason row =
     (case row of
        None \<Rightarrow> ''barrier trip ownership lost (state=UNKNOWN)''
      | Some b \<Rightarrow> if present (b_break_reason b) then the (b_break_reason b)
          else ''barrier trip ownership lost (state='' @ b_state b @ '')'')"

definition trip_lost :: "string \<Rightarrow> int \<Rightarrow> db \<Rightarrow> json option" where
  "trip_lost bid gen db =
     (let row = get_barrier bid db in
      if (case row of None \<Rightarrow> False | Some b \<Rightarrow> b_generation b = gen \<and> b_state b = ''TRIPPING'') then None
      else Some (JDict [(''ok'', JBool False), (''barrier_stopped'', JBool True),
        (''state'', JStr (case row of None \<Rightarrow> ''UNKNOWN'' | Some b \<Rightarrow> b_state b)), (''reason'', JStr (lost_reason row))]))"

definition arrival_stale :: "orbit list \<Rightarrow> int option \<Rightarrow> string list" where
  "arrival_stale writes expected =
     (let stale = map orbit_id (filter (\<lambda>o'. o_state o' \<noteq> ''HELD'') writes) in
      if stale = [] \<and> expected \<noteq> None \<and> max_fence writes \<noteq> expected then map orbit_id writes else stale)"

definition party_guards :: "string \<Rightarrow> int \<Rightarrow> string \<Rightarrow> int option \<Rightarrow> db \<Rightarrow> json + task \<times> orbit list" where
  "party_guards bid gen tid expected db =
     (case trip_lost bid gen db of
        Some r \<Rightarrow> Inl r
      | None \<Rightarrow>
          (case get_task tid db of
             None \<Rightarrow> Inl (ok_false ''no such task'' [])
           | Some t \<Rightarrow>
               if t_state t = ''MERGED'' then
                 Inl (JDict [(''ok'', JBool True), (''noop'', JBool True), (''task_id'', JStr tid),
                   (''state'', JStr ''MERGED''), (''merge_sha'', opt_str (t_merge_sha t))])
               else if t_state t = ''CONNECTING'' then
                 Inl (ok_false ''connect_attempt_unresolved''
                   [(''task_id'', JStr tid), (''state'', JStr ''CONNECTING''), (''recovery_required'', JBool True)])
               else
                 let writes = write_orbits tid db; stale = arrival_stale writes expected in
                 if writes = [] then Inl (ok_false ''no write orbit for task'' [])
                 else if stale \<noteq> [] then
                   Inl (JDict [(''ok'', JBool False), (''fenced_out'', JBool True),
                     (''reason'', JStr ''stale fence: lease changed since arrival''), (''stale'', JList (map JStr stale))])
                 else Inr (t, writes)))"

definition party_audit_response :: "string \<Rightarrow> writeset_audit \<Rightarrow> json" where
  "party_audit_response tid a =
     ok_false (audit_reason a) ([(''offending'', JList (map JStr (wa_offending a))), (''task_id'', JStr tid)] @
       (case wa_error a of None \<Rightarrow> [] | Some e \<Rightarrow> [(''audit_error'', JStr e)]))"

definition party_owner :: "task \<Rightarrow> string" where
  "party_owner t = (if present (t_agent_id t) then the (t_agent_id t) else ''barrier:'' @ t_task_id t)"

text \<open>After the audit comes the token: the reads of the task are not looked at.\<close>

definition party_admit ::
  "config \<Rightarrow> rat \<Rightarrow> rat \<Rightarrow> task \<Rightarrow> orbit list \<Rightarrow> string option \<times> string option \<times> writeset_audit \<Rightarrow> db \<Rightarrow>
   (core_error, phase_a_answer \<times> db) result" where
  "party_admit g now tick t writes snap db =
     (let (tip, base, audit) = snap; tid = t_task_id t in
      if audit_blocks audit then Inr (Answered (party_audit_response tid audit), db)
      else
        let (u, db) = fresh_uuid db; attempt = ''connect-'' @ u; owner = party_owner t;
            gen = t_connect_owner_generation t + 1
        in case acquire_merge_token g now tick owner attempt gen db of
             (None, db) \<Rightarrow> Inr (Answered (ok_false ''merge in progress'' [(''retry'', JBool True)]), db)
           | (Some token, db) \<Rightarrow>
               start_attempt g now t writes
                 \<lparr>it_task_id = tid, it_branch = t_branch t, it_worktree = t_worktree t,
                  it_writes = map orbit_id writes, it_branch_tip_sha = tip, it_integration_base_sha = base,
                  it_attempt_id = attempt, it_owner_instance = g_instance_id g, it_owner_generation = gen,
                  it_token_id = token, it_token_agent = owner, it_request_id = None,
                  it_request_agent = None, it_request_arg_hash = None, it_repo_bound = g_repo_bound g\<rparr> db)"

definition barrier_connect_phase_a ::
  "config \<Rightarrow> 'w repo \<Rightarrow> rat \<Rightarrow> rat \<Rightarrow> string \<Rightarrow> int \<Rightarrow> string \<Rightarrow> int option \<Rightarrow> db \<Rightarrow> 'w \<Rightarrow>
   (core_error, phase_a_answer \<times> db) result \<times> 'w" where
  "barrier_connect_phase_a g R now tick bid gen tid expected db w =
     (case party_guards bid gen tid expected db of
        Inl answer \<Rightarrow> (Inr (Answered answer, db), w)
      | Inr (t, writes) \<Rightarrow>
          (case claimed_write_globs writes of
             Inl e \<Rightarrow> (Inl e, w)
           | Inr globs \<Rightarrow>
               (case snapshot_connect_candidate (g_repo_bound g) R tid (t_branch t) globs w of
                  (Inl e, w) \<Rightarrow> (Inr (Answered (ok_false ''writeset_audit_error'' [(''retryable'', JBool True),
                    (''audit_error'', JStr (error_text e)), (''task_id'', JStr tid)]), db), w)
                | (Inr snap, w) \<Rightarrow> (party_admit g now tick t writes snap db, w))))"

section \<open>An attempt from Phase A to Phase C\<close>

text \<open>The tries of Phase A before its deadline: the first, and those after a wait for the merge token. A try
  has its two clock readings, a wait what the others do in it.\<close>

definition wants_retry :: "phase_a_answer \<Rightarrow> bool" where
  "wants_retry a = (case a of Answered r \<Rightarrow> \<not> truthy (dict_get ''ok'' r) \<and> truthy (dict_get ''retry'' r) | Attempt it \<Rightarrow> False)"

fun phase_a_tries ::
  "(rat \<Rightarrow> rat \<Rightarrow> ('w, phase_a_answer) proc) \<Rightarrow> rat \<times> rat \<Rightarrow> (others \<times> rat \<times> rat) list \<Rightarrow> ('w, phase_a_answer) proc" where
  "phase_a_tries A (now, tick) [] = A now tick"
| "phase_a_tries A (now, tick) ((oth, again) # later) = proc_bind (A now tick) (\<lambda>a.
     if wants_retry a then proc_bind (meanwhile oth) (\<lambda>_. phase_a_tries A again later) else proc_return a)"

record attempt_run =
  ar_waiting :: others
  ar_first :: "rat \<times> rat"
  ar_again :: "(others \<times> rat \<times> rat) list"
  ar_merging :: others
  ar_commit :: rat

text \<open>The first refusal or no-op, or the attempt with the answer of its Phase C.\<close>

definition run_attempt ::
  "config \<Rightarrow> 'w repo \<Rightarrow> string option \<Rightarrow> (rat \<Rightarrow> rat \<Rightarrow> ('w, phase_a_answer) proc) \<Rightarrow> attempt_run \<Rightarrow>
   ('w, intent option \<times> json) proc" where
  "run_attempt g R push A ar =
     proc_bind (meanwhile (ar_waiting ar)) (\<lambda>_.
     proc_bind (phase_a_tries A (ar_first ar) (ar_again ar)) (\<lambda>a.
     case a of
       Answered r \<Rightarrow> proc_return (None, r)
     | Attempt it \<Rightarrow>
         proc_bind (unlocked (connect_phase_b g R it push)) (\<lambda>(sha, err).
         proc_bind (meanwhile (ar_merging ar)) (\<lambda>_.
         proc_bind (locked_io (connect_phase_c g R (ar_commit ar) it sha err)) (\<lambda>r.
           proc_return (Some it, r))))))"

section \<open>\<open>connect\<close>\<close>

definition connect_args :: "string \<Rightarrow> string option \<Rightarrow> int option \<Rightarrow> string option \<Rightarrow> int option \<Rightarrow> json" where
  "connect_args tid aid fn push epoch = JList [JStr tid, opt_str aid, opt_int fn, opt_str push, opt_int epoch]"

definition deferred_slot :: slot where
  "deferred_slot = \<lparr>sl_value = None, sl_deferred = True, sl_terminal = False, sl_reply = None\<rparr>"

definition connect_reserve_body :: "string \<Rightarrow> db \<Rightarrow> (core_error, slot \<times> db) result" where
  "connect_reserve_body tid db =
     Inr (case get_task tid db of
        None \<Rightarrow> (deferred_slot, db)
      | Some t \<Rightarrow>
          if t_state t = ''MERGED'' then
            (slot_set (JDict [(''ok'', JBool True), (''task_id'', JStr tid), (''state'', JStr ''MERGED''),
               (''merge_sha'', opt_str (t_merge_sha t)), (''noop'', JBool True)]), db)
          else (deferred_slot, db))"

definition operation_of :: "intent \<Rightarrow> operation" where
  "operation_of it = \<lparr>op_attempt_id = Some (it_attempt_id it), op_owner_instance = Some (it_owner_instance it),
     op_owner_generation = Some (it_owner_generation it)\<rparr>"

fun dict_pop :: "string \<Rightarrow> json \<Rightarrow> json" where
  "dict_pop k (JDict kvs) = JDict (filter (\<lambda>(k', v). k' \<noteq> k) kvs)"
| "dict_pop k r = r"

record connect_run =
  cr_reserve :: rat
  cr_attempt :: attempt_run
  cr_leaving :: others
  cr_answer :: rat

definition connect_owned ::
  "config \<Rightarrow> 'w repo \<Rightarrow> connect_run \<Rightarrow> string \<Rightarrow> string option \<Rightarrow> int option \<Rightarrow> string option \<Rightarrow> string option \<Rightarrow>
   int option \<Rightarrow> ('w, json) proc" where
  "connect_owned g R run tid aid fn push request epoch =
     (let args = connect_args tid aid fn push epoch;
          digest = (case request of None \<Rightarrow> None | Some r \<Rightarrow> Some (arg_hash (g_sha g) ''connect'' args))
      in proc_bind (locked (with_idem (g_sha g) (cr_reserve run) request aid ''connect'' args (connect_reserve_body tid))) (\<lambda>a.
         case a of
           Some r \<Rightarrow> proc_return r
         | None \<Rightarrow>
             proc_bind (run_attempt g R push
               (\<lambda>now tick. locked_io (connect_phase_a g R now tick tid aid fn epoch request digest)) (cr_attempt run)) (\<lambda>(it, r).
             if it \<noteq> None \<and> truthy (dict_get ''_preserve_idempotency'' r) then proc_return (dict_pop ''_preserve_idempotency'' r)
             else proc_bind (meanwhile (cr_leaving run)) (\<lambda>_.
               locked (complete_split_idem (g_sha g) (cr_answer run) request aid ''connect'' args
                 (map_option operation_of it) r)))))"

text \<open>The effect lock: each try that fails leaves the others some time; the last one gets the lock, or the
  deadline has passed. A request of another envelope, or one that is in flight, is answered at once.\<close>

definition effect_refused :: "json \<Rightarrow> bool" where
  "effect_refused busy \<longleftrightarrow> dict_get ''reason'' busy \<in> {Some (JStr ''request_inflight''), Some (JStr ''idempotency_conflict'')}"

fun effect_lock :: "(db \<Rightarrow> json) \<Rightarrow> others list \<Rightarrow> bool \<Rightarrow> ('w, json) proc \<Rightarrow> ('w, json) proc" where
  "effect_lock busy [] True m = m"
| "effect_lock busy [] False m = (\<lambda>db w. (Inr (busy db), db, w))"
| "effect_lock busy (oth # waits) owns m = (\<lambda>db w.
     if effect_refused (busy db) then (Inr (busy db), db, w) else effect_lock busy waits owns m (oth db) w)"

definition recover_proc :: "config \<Rightarrow> 'w repo \<Rightarrow> rat \<Rightarrow> ('w, unit) proc" where
  "recover_proc g R now = locked_io (\<lambda>db w. case recover g R now db w of
     (Inl e, w) \<Rightarrow> (Inl e, w) | (Inr db', w) \<Rightarrow> (Inr ((), db'), w))"

record effect_run =
  er_waits :: "others list"
  er_owns :: bool
  er_recover :: rat
  er_between :: others

definition connect ::
  "config \<Rightarrow> 'w repo \<Rightarrow> effect_run \<Rightarrow> connect_run \<Rightarrow> string \<Rightarrow> string option \<Rightarrow> int option \<Rightarrow> string option \<Rightarrow>
   string option \<Rightarrow> int option \<Rightarrow> ('w, json) proc" where
  "connect g R er run tid aid fn push request epoch =
     (if request = Some [] then
        proc_return (JDict [(''ok'', JBool False), (''state'', JStr ''REJECTED''), (''reason'', JStr ''invalid_request_id'')])
      else effect_lock (split_effect_busy (g_sha g) request aid ''connect'' (connect_args tid aid fn push epoch))
        (er_waits er) (er_owns er)
        (proc_bind (recover_proc g R (er_recover er)) (\<lambda>_.
         proc_bind (meanwhile (er_between er)) (\<lambda>_.
           connect_owned g R run tid aid fn push request epoch))))"

section \<open>The trip\<close>

text \<open>The loop of \<open>_barrier_trip\<close>: every task of the plan is connected by an attempt of its own. The loop
  ends with all of them merged or with an answer.\<close>

datatype trip_end = AllMerged "string list" | Stopped json

definition barrier_connect_one ::
  "config \<Rightarrow> 'w repo \<Rightarrow> string \<Rightarrow> int \<Rightarrow> attempt_run \<Rightarrow> string \<Rightarrow> int option \<Rightarrow> ('w, json) proc" where
  "barrier_connect_one g R bid gen ar tid expected =
     proc_bind (run_attempt g R None (\<lambda>now tick. locked_io (barrier_connect_phase_a g R now tick bid gen tid expected)) ar)
       (\<lambda>(it, r). proc_return r)"

fun trip_steps ::
  "config \<Rightarrow> 'w repo \<Rightarrow> string \<Rightarrow> int \<Rightarrow> string \<Rightarrow> (string \<Rightarrow> attempt_run) \<Rightarrow> trip_plan \<Rightarrow> string list \<Rightarrow> ('w, trip_end) proc" where
  "trip_steps g R bid gen nm runs [] merged = proc_return (AllMerged merged)"
| "trip_steps g R bid gen nm runs ((tid, fn) # steps) merged =
     proc_bind (barrier_connect_one g R bid gen (runs tid) tid fn) (\<lambda>res.
     if truthy (dict_get ''ok'' res) then trip_steps g R bid gen nm runs steps (merged @ [tid])
     else if truthy (dict_get ''barrier_stopped'' res) then
       proc_return (Stopped (JDict [(''ok'', JBool False),
         (''state'', case dict_get ''state'' res of None \<Rightarrow> JStr ''BROKEN'' | Some s \<Rightarrow> s),
         (''name'', JStr nm),
         (''reason'', case dict_get ''reason'' res of None \<Rightarrow> JStr ''barrier trip stopped'' | Some s \<Rightarrow> s),
         (''merged'', JList (map JStr merged)), (''generation'', JInt gen)]))
     else proc_bind (locked (\<lambda>db. bind_res (trip_failed g bid (reason_text (dict_get ''reason'' res)) db) (\<lambda>db. Inr ((), db)))) (\<lambda>_.
       proc_return (Stopped (JDict [(''ok'', JBool False), (''state'', JStr ''BROKEN''), (''name'', JStr nm),
         (''reason'', JStr (''trip failed on '' @ tid @ '': '' @ reason_text (dict_get ''reason'' res))),
         (''merged'', JList (map JStr merged))]))))"

text \<open>The handler of an exception; \<open>exc_name\<close> is the name of its class, which \<open>core_error\<close> does not tell.\<close>

definition terminalize_exception ::
  "config \<Rightarrow> (core_error \<Rightarrow> string) \<Rightarrow> string \<Rightarrow> int \<Rightarrow> string \<Rightarrow> rat \<Rightarrow> string option \<Rightarrow> string option \<Rightarrow> json \<Rightarrow> core_error \<Rightarrow>
   ('w, unit) proc" where
  "terminalize_exception g exc_name bid gen nm now request aid args e =
     proc_bind (locked (terminalize_barrier g bid gen (exc_name e))) (\<lambda>outcome.
     case terminal_response gen nm (exc_name e) outcome of
       None \<Rightarrow> proc_return ()
     | Some r \<Rightarrow> proc_bind (locked (finish_split_idem_terminal (g_sha g) now request aid ''barrier_arrive'' args r)) (\<lambda>_.
         proc_return ()))"

record trip_run =
  tr_attempts :: "string \<Rightarrow> attempt_run"
  tr_finishing :: others
  tr_leaving :: others
  tr_answer :: rat

definition barrier_trip ::
  "config \<Rightarrow> 'w repo \<Rightarrow> (core_error \<Rightarrow> string) \<Rightarrow> trip_run \<Rightarrow> string \<Rightarrow> int \<Rightarrow> string \<Rightarrow> trip_plan \<Rightarrow> string option \<Rightarrow>
   string option \<Rightarrow> json \<Rightarrow> ('w, json) proc" where
  "barrier_trip g R exc_name run bid gen nm plan request aid args =
     (let now = tr_answer run;
          handler = terminalize_exception g exc_name bid gen nm now request aid args;
          answer = (\<lambda>r. proc_bind (meanwhile (tr_leaving run)) (\<lambda>_.
            locked (complete_split_idem (g_sha g) now request aid ''barrier_arrive'' args None r)))
      in proc_bind (proc_cleanup (proc_bind (trip_steps g R bid gen nm (tr_attempts run) plan []) (\<lambda>outcome.
           case outcome of
             Stopped r \<Rightarrow> proc_bind (answer r) (\<lambda>r. proc_return (Stopped r))
           | AllMerged merged \<Rightarrow> proc_return (AllMerged merged))) handler) (\<lambda>outcome.
         case outcome of
           Stopped r \<Rightarrow> proc_return r
         | AllMerged merged \<Rightarrow>
             proc_bind (meanwhile (tr_finishing run)) (\<lambda>_.
             proc_bind (proc_cleanup (locked (finish_trip g bid gen nm merged)) handler) answer)))"

section \<open>\<open>barrier_arrive\<close>\<close>

text \<open>The critical section of an arrival under its envelope: the wrapper of the other verbs, with the plan
  beside the slot.\<close>

definition with_idem_plan ::
  "(json \<Rightarrow> string) \<Rightarrow> rat \<Rightarrow> string option \<Rightarrow> string option \<Rightarrow> string \<Rightarrow> json \<Rightarrow>
   (db \<Rightarrow> (core_error, slot \<times> trip_plan option \<times> db) result) \<Rightarrow> db \<Rightarrow>
   (core_error, (json option \<times> trip_plan option) \<times> db) result" where
  "with_idem_plan sha now request aid verb args body db =
     (case request of
        None \<Rightarrow> bind_res (body db) (\<lambda>(sl, plan, db). Inr ((slot_response sl, plan), db))
      | Some rid \<Rightarrow>
          (case idem_enter sha now rid aid verb args db of
             Hit r \<Rightarrow> Inr ((Some r, None), db)
           | Raise e \<Rightarrow> Inl e
           | Run db \<Rightarrow> bind_res (body db) (\<lambda>(sl, plan, db).
               bind_res (idem_leave sha now rid aid verb args sl db) (\<lambda>db. Inr ((slot_response sl, plan), db)))))"

definition arrive_args :: "string \<Rightarrow> string \<Rightarrow> int option \<Rightarrow> int option \<Rightarrow> json" where
  "arrive_args nm tid fn epoch = JList [JStr nm, JStr tid, opt_int fn, opt_int epoch]"

definition arrive_section ::
  "config \<Rightarrow> rat \<Rightarrow> string \<Rightarrow> string \<Rightarrow> string \<Rightarrow> int option \<Rightarrow> string option \<Rightarrow> int option \<Rightarrow> db \<Rightarrow>
   (core_error, (json option \<times> trip_plan option) \<times> db) result" where
  "arrive_section g now nm aid tid fn request epoch =
     with_idem_plan (g_sha g) now request (Some aid) ''barrier_arrive'' (arrive_args nm tid fn epoch)
       (\<lambda>db. bind_res (sweep_inline g now db) (arrive_after_sweep g now nm aid tid fn epoch))"

record arrive_run =
  br_section :: rat
  br_trip :: trip_run

text \<open>A plan belongs to the barrier of the name, whose generation the trip then watches.\<close>

definition barrier_arrive_owned ::
  "config \<Rightarrow> 'w repo \<Rightarrow> (core_error \<Rightarrow> string) \<Rightarrow> arrive_run \<Rightarrow> string \<Rightarrow> string \<Rightarrow> string \<Rightarrow> int option \<Rightarrow> string option \<Rightarrow>
   int option \<Rightarrow> ('w, json option) proc" where
  "barrier_arrive_owned g R exc_name run nm aid tid fn request epoch =
     proc_bind (locked (\<lambda>db. bind_res (arrive_section g (br_section run) nm aid tid fn request epoch db)
         (\<lambda>(answer, db'). Inr ((answer, barrier_by_name nm db'), db')))) (\<lambda>((r, plan), row).
     case (plan, row) of
       (Some steps, Some b) \<Rightarrow> proc_bind
         (barrier_trip g R exc_name (br_trip run) (b_barrier_id b) (b_generation b) nm steps request (Some aid) (arrive_args nm tid fn epoch))
         (\<lambda>r. proc_return (Some r))
     | _ \<Rightarrow> proc_return r)"

definition barrier_arrive ::
  "config \<Rightarrow> 'w repo \<Rightarrow> (core_error \<Rightarrow> string) \<Rightarrow> effect_run \<Rightarrow> arrive_run \<Rightarrow> string \<Rightarrow> string \<Rightarrow> string \<Rightarrow> int option \<Rightarrow>
   string option \<Rightarrow> int option \<Rightarrow> ('w, json option) proc" where
  "barrier_arrive g R exc_name er run nm aid tid fn request epoch =
     (if \<not> er_owns er then (\<lambda>db w. (Inr (Some (split_effect_busy (g_sha g) request (Some aid) ''barrier_arrive''
        (arrive_args nm tid fn epoch) db)), db, w))
      else proc_bind (recover_proc g R (er_recover er)) (\<lambda>_.
        proc_bind (meanwhile (er_between er)) (\<lambda>_.
          barrier_arrive_owned g R exc_name run nm aid tid fn request epoch)))"

definition barrier_status :: "config \<Rightarrow> rat \<Rightarrow> string \<Rightarrow> db \<Rightarrow> (core_error, json \<times> db) result" where
  "barrier_status g now nm db = bind_res (sweep_inline g now db) (status_after_sweep g now nm)"

section \<open>The authority invariant\<close>

lemma inv_party_admit:
  assumes "lawful g" and "party_admit g now tick t writes snap db = Inr (a, db')" and "store_inv db"
  shows "store_inv db'"
proof -
  obtain u d1 where u: "fresh_uuid db = (u, d1)" by (cases "fresh_uuid db")
  have d1: "store_inv d1" using store_inv_grows [OF assms(3) grows_tables(13)] u by simp
  show ?thesis
    using assms(2,3)
    by (auto simp: party_admit_def Let_def u split: prod.splits if_splits option.splits
        intro: inv_acquire_token [OF _ d1] inv_start_attempt [OF assms(1) _ inv_acquire_token [OF _ d1]])
qed

lemma inv_party_phase_a:
  assumes "lawful g" and "barrier_connect_phase_a g R now tick bid gen tid expected db w = (Inr (a, db'), w')" and "store_inv db"
  shows "store_inv db'"
proof -
  have "db' = db \<or> (\<exists>t writes snap. party_admit g now tick t writes snap db = Inr (a, db'))"
    using assms(2) by (auto simp: barrier_connect_phase_a_def split: sum.splits prod.splits)
  then show ?thesis using assms(3) inv_party_admit [OF assms(1)] by blast
qed

section \<open>Runs of processes\<close>

text \<open>What a process does to the store, exceptions included, is a sequence of the given steps.\<close>

definition runs_as :: "(db \<Rightarrow> db \<Rightarrow> bool) \<Rightarrow> ('w, 'a) proc \<Rightarrow> bool" where
  "runs_as S m \<longleftrightarrow> (\<forall>db w r db' w'. m db w = (r, db', w') \<longrightarrow> S\<^sup>*\<^sup>* db db')"

lemma runs_asI: "(\<And>db w r db' w'. m db w = (r, db', w') \<Longrightarrow> S\<^sup>*\<^sup>* db db') \<Longrightarrow> runs_as S m"
  by (simp add: runs_as_def)

lemma runs_asD: "runs_as S m \<Longrightarrow> m db w = (r, db', w') \<Longrightarrow> S\<^sup>*\<^sup>* db db'"
  unfolding runs_as_def by blast

named_theorems runs

lemma runs_return [runs]: "runs_as S (proc_return a)"
  by (simp add: runs_as_def proc_return_def)

lemma runs_bind [runs]:
  assumes "runs_as S m" and "\<And>a. runs_as S (k a)"
  shows "runs_as S (proc_bind m k)"
proof (rule runs_asI)
  fix db w r db' w'
  assume run: "proc_bind m k db w = (r, db', w')"
  obtain r1 d v where m: "m db w = (r1, d, v)" by (cases "m db w")
  have "S\<^sup>*\<^sup>* d db'" using run m runs_asD [OF assms(2)] by (cases r1) (auto simp: proc_bind_def)
  then show "S\<^sup>*\<^sup>* db db'" using runs_asD [OF assms(1) m] by (rule rtranclp_trans [rotated])
qed

lemma runs_cleanup [runs]:
  assumes "runs_as S m" and "\<And>e. runs_as S (h e)"
  shows "runs_as S (proc_cleanup m h)"
proof (rule runs_asI)
  fix db w r db' w'
  assume run: "proc_cleanup m h db w = (r, db', w')"
  obtain r1 d v where m: "m db w = (r1, d, v)" by (cases "m db w")
  have "S\<^sup>*\<^sup>* d db'"
    using run m runs_asD [OF assms(2)]
    by (cases r1) (auto simp: proc_cleanup_def split: prod.splits sum.splits)
  then show "S\<^sup>*\<^sup>* db db'" using runs_asD [OF assms(1) m] by (rule rtranclp_trans [rotated])
qed

lemma runs_if [runs]: "(b \<Longrightarrow> runs_as S m) \<Longrightarrow> (\<not> b \<Longrightarrow> runs_as S n) \<Longrightarrow> runs_as S (if b then m else n)"
  by simp

lemma runs_locked: "(\<And>db a db'. f db = Inr (a, db') \<Longrightarrow> S\<^sup>*\<^sup>* db db') \<Longrightarrow> runs_as S (locked f)"
  by (auto simp: runs_as_def locked_def split: prod.splits sum.splits)

lemma runs_locked_io:
  "(\<And>db w a db' w'. f db w = (Inr (a, db'), w') \<Longrightarrow> S\<^sup>*\<^sup>* db db') \<Longrightarrow> runs_as S (locked_io f)"
  by (auto simp: runs_as_def locked_io_def split: prod.splits sum.splits)

lemma runs_unlocked [runs]: "runs_as S (unlocked m)"
  by (auto simp: runs_as_def unlocked_def split: prod.splits sum.splits)

lemma runs_meanwhile [runs]: "(\<And>d. S\<^sup>*\<^sup>* d (oth d)) \<Longrightarrow> runs_as S (meanwhile oth)"
  by (simp add: runs_as_def meanwhile_def)

lemma runs_split [runs]: "(\<And>a b. runs_as S (f a b)) \<Longrightarrow> runs_as S (case p of (a, b) \<Rightarrow> f a b)"
  by (cases p) simp

lemma runs_tries:
  "(\<And>now tick. runs_as S (A now tick)) \<Longrightarrow> \<forall>x\<in>set later. \<forall>d. S\<^sup>*\<^sup>* d (fst x d) \<Longrightarrow>
     runs_as S (phase_a_tries A first later)"
proof (induction later arbitrary: first)
  case Nil
  then show ?case by (cases first) simp
next
  case (Cons x later)
  then show ?case by (cases first; cases x) (auto intro!: runs)
qed

text \<open>What the others do in a run of the process.\<close>

definition attempt_others :: "(db \<Rightarrow> db \<Rightarrow> bool) \<Rightarrow> attempt_run \<Rightarrow> bool" where
  "attempt_others S ar \<longleftrightarrow> (\<forall>d. S\<^sup>*\<^sup>* d (ar_waiting ar d) \<and> S\<^sup>*\<^sup>* d (ar_merging ar d) \<and>
     (\<forall>x\<in>set (ar_again ar). S\<^sup>*\<^sup>* d (fst x d)))"

lemma runs_attempt:
  assumes "attempt_others S ar" and "\<And>now tick. runs_as S (A now tick)"
    and "\<And>it sha err. runs_as S (locked_io (connect_phase_c g R (ar_commit ar) it sha err))"
  shows "runs_as S (run_attempt g R push A ar)"
proof -
  have "runs_as S (phase_a_tries A (ar_first ar) (ar_again ar))"
    by (rule runs_tries [OF assms(2)]) (use assms(1) in \<open>auto simp: attempt_others_def\<close>)
  then show ?thesis
    using assms unfolding run_attempt_def attempt_others_def
    by (auto intro!: runs split: phase_a_answer.split)
qed

lemma bind_Inr: "proc_bind m k db w = (Inr r, db', w') \<longleftrightarrow> (\<exists>a d v. m db w = (Inr a, d, v) \<and> k a d v = (Inr r, db', w'))"
  by (auto simp: proc_bind_def split: prod.splits sum.splits)

lemma cleanup_Inr: "proc_cleanup m h db w = (Inr r, db', w') \<longleftrightarrow> m db w = (Inr r, db', w')"
  by (auto simp: proc_cleanup_def split: prod.splits sum.splits)

lemma locked_Inr: "locked f db w = (Inr r, db', w') \<longleftrightarrow> f db = Inr (r, db') \<and> w' = w"
  by (auto simp: locked_def split: prod.splits sum.splits)

lemma return_Inr: "proc_return a db w = (Inr r, db', w') \<longleftrightarrow> r = a \<and> db' = db \<and> w' = w"
  by (auto simp: proc_return_def)

lemma meanwhile_Inr: "meanwhile oth db w = (Inr r, db', w') \<longleftrightarrow> db' = oth db \<and> w' = w"
  by (auto simp: meanwhile_def)

lemmas proc_Inr = bind_Inr cleanup_Inr locked_Inr return_Inr meanwhile_Inr

section \<open>Reads and barriers\<close>

text \<open>C15. A barrier merges a stale reader. A party whose reads another task's merge has made stale is refused by
  \<open>connect\<close> with \<open>read_stale\<close>, but the Phase A of its barrier, which is documented to be that of \<open>connect\<close>
  without the sweep, starts an attempt for it under the same guards, audit and token.\<close>

theorem barrier_merges_stale_reader:
  assumes "party_guards bid gen tid expected db = Inr (t, writes)" and "\<not> audit_blocks audit"
    and "ghost_reads t db \<noteq> [] \<or> stale_read_orbits_for_task tid db \<noteq> []"
    and "fresh_uuid db = (u, d)"
    and "acquire_merge_token g now tick (party_owner t) (''connect-'' @ u) (t_connect_owner_generation t + 1) d = (Some token, e)"
    and "connecting_state g (t_state t) = Inr (Some st)"
  shows "(\<exists>ghosts stales. connect_admit g now tick aid request digest t writes (tip, base, audit) globs db =
      Inr (Answered (ok_false ''read_stale'' [(''task_id'', JStr tid), (''ghost_globs'', ghosts), (''stale_reads'', stales)]), db)) \<and>
    (\<exists>it d'. party_admit g now tick t writes (tip, base, audit) db = Inr (Attempt it, d') \<and> it_task_id it = tid)"
proof -
  have id: "t_task_id t = tid"
    using assms(1) by (auto simp: party_guards_def Let_def get_task_def split: option.splits if_splits dest!: fetchone_filter_Some)
  then show ?thesis
    using assms(2-6) by (auto simp: connect_admit_def party_admit_def start_attempt_def Let_def)
qed

definition stale_reader_store :: db where
  "stale_reader_store = append_merge_log 1 1 ''U'' [''lib/**''] (add_barrier 1 ''bar-m-0'' ''m'' ''connect'' 1 0 ''TRIPPING'' ''break'' None
     (finished_store\<lparr>tasks := map (\<lambda>t. t\<lparr>t_reads := [''lib/**''], t_read_synced_gen := Some 0\<rparr>) (tasks finished_store)\<rparr>))"

lemma stale_reader_ready:
  "case party_guards ''bar-m-0'' 0 ''T'' (Some 1) stale_reader_store of
     Inr (t, writes) \<Rightarrow> ghost_reads t stale_reader_store \<noteq> [] \<and> connecting_state digest_config (t_state t) = Inr (Some ''CONNECTING'') \<and>
       (case fresh_uuid stale_reader_store of (u, d) \<Rightarrow>
          fst (acquire_merge_token digest_config 2 2 (party_owner t) (''connect-'' @ u) (t_connect_owner_generation t + 1) d) \<noteq> None)
   | _ \<Rightarrow> False"
  by code_simp

lemma barrier_merges_stale_reader_witness:
  "\<exists>t writes r it d'. party_guards ''bar-m-0'' 0 ''T'' (Some 1) stale_reader_store = Inr (t, writes) \<and>
     connect_admit digest_config 2 2 (Some ''a'') None None t writes (None, None, no_repo_audit) [''src/a/**''] stale_reader_store =
       Inr (Answered r, stale_reader_store) \<and>
     party_admit digest_config 2 2 t writes (None, None, no_repo_audit) stale_reader_store = Inr (Attempt it, d')"
proof -
  obtain t writes u d where g: "party_guards ''bar-m-0'' 0 ''T'' (Some 1) stale_reader_store = Inr (t, writes)"
    and u: "fresh_uuid stale_reader_store = (u, d)" and ghosts: "ghost_reads t stale_reader_store \<noteq> []"
    and st: "connecting_state digest_config (t_state t) = Inr (Some ''CONNECTING'')"
    and tok: "fst (acquire_merge_token digest_config 2 2 (party_owner t) (''connect-'' @ u) (t_connect_owner_generation t + 1) d) \<noteq> None"
    using stale_reader_ready by (auto split: sum.splits prod.splits)
  obtain token e where token: "acquire_merge_token digest_config 2 2 (party_owner t) (''connect-'' @ u) (t_connect_owner_generation t + 1) d = (Some token, e)"
    using tok by (cases "acquire_merge_token digest_config 2 2 (party_owner t) (''connect-'' @ u) (t_connect_owner_generation t + 1) d") auto
  have "\<not> audit_blocks no_repo_audit" by (simp add: audit_blocks_def no_repo_audit_def)
  from barrier_merges_stale_reader [OF g this disjI1 [OF ghosts] u token st] g show ?thesis by blast
qed

end
