(* ===== verification/Polls.thy ===== *)
theory Polls
  imports Authority
begin

text \<open>
  The verbs of flags and semaphores that sweep first (\<open>omd_server/_sems.py\<close>, \<open>omd_server/_flags.py\<close>):
  \<open>acquire\<close>, \<open>acquire_poll\<close>, \<open>sem_status\<close> and \<open>flag_wait_poll\<close>, and the authority invariant under them.
\<close>

section \<open>Verbs\<close>

definition acquire ::
  "config \<Rightarrow> rat \<Rightarrow> string \<Rightarrow> string \<Rightarrow> rat option \<Rightarrow> bool \<Rightarrow> int \<Rightarrow> string option \<Rightarrow> int option \<Rightarrow> db \<Rightarrow>
   (core_error, json option \<times> db) result" where
  "acquire g now aid sem ttl no_wait prio request epoch =
     with_idem (g_sha g) now request (Some aid) ''acquire''
       (JList [JStr aid, JStr sem, case ttl of None \<Rightarrow> JNull | Some t \<Rightarrow> JFloat (Fin t), JBool no_wait, JInt prio])
       (\<lambda>db. bind_res (sweep_inline g now db) (\<lambda>db.
          let (r, db) = acquire_after_sweep g now aid sem ttl no_wait prio epoch db in Inr (slot_set r, db)))"

text \<open>After its sweep \<open>acquire_poll\<close> reads the row of the waiter again and indexes it.\<close>

definition acquire_poll :: "config \<Rightarrow> rat \<Rightarrow> string \<Rightarrow> db \<Rightarrow> (core_error, json \<times> db) result" where
  "acquire_poll g now wid db =
     (case get_sem_waiter wid db of
        None \<Rightarrow> Inr (ok_false ''no such waiter'' [(''waiter_id'', JStr wid)], db)
      | Some w \<Rightarrow>
          if sw_state w = ''GRANTED'' then Inr (granted_response w db, db)
          else if sw_state w \<noteq> ''WAITING'' then
            Inr (JDict [(''ok'', JBool (sw_state w \<noteq> ''CANCELLED'')), (''state'', JStr (sw_state w)),
              (''sem'', JStr (sw_sem_id w))], db)
          else
            bind_res (sweep_inline g now db) (\<lambda>db.
            let db = promote_sem_waiters g now (sw_sem_id w) db in
            (case get_sem_waiter wid db of
               None \<Rightarrow> Inl (CoreTypeError ''NoneType object is not subscriptable'')
             | Some w \<Rightarrow>
                 if sw_state w = ''GRANTED'' then Inr (granted_response w db, db)
                 else if now \<ge> sw_deadline w then
                   Inr (JDict [(''ok'', JBool False), (''state'', JStr ''TIMEOUT''), (''sem'', JStr (sw_sem_id w))],
                     set_sem_waiter wid ''TIMEOUT'' None db)
                 else Inr (JDict [(''ok'', JBool True), (''state'', JStr ''WAITING''), (''waiter_id'', JStr wid),
                   (''sem'', JStr (sw_sem_id w))], db))))"

definition sem_status :: "config \<Rightarrow> rat \<Rightarrow> string \<Rightarrow> db \<Rightarrow> (core_error, json \<times> db) result" where
  "sem_status g now sem db = bind_res (sweep_inline g now db) (\<lambda>db. Inr (sem_status_after_sweep sem db, db))"

definition flag_wait_poll :: "config \<Rightarrow> rat \<Rightarrow> string \<Rightarrow> db \<Rightarrow> (core_error, json \<times> db) result" where
  "flag_wait_poll g now wid db =
     (case get_flag_waiter wid db of
        None \<Rightarrow> Inr (ok_false ''no such waiter'' [(''waiter_id'', JStr wid)], db)
      | Some w \<Rightarrow>
          if fw_state w \<noteq> ''WAITING'' then
            Inr (if fw_state w = ''BROKEN'' then
                   JDict [(''state'', JStr ''BROKEN''),
                     (''reason'', JStr (case fw_wake_reason w of None \<Rightarrow> ''producer_dead''
                        | Some x \<Rightarrow> if x = '''' then ''producer_dead'' else x)), (''key'', JStr (fw_key w))]
                 else JDict [(''state'', JStr (fw_state w)), (''key'', JStr (fw_key w))], db)
          else
            bind_res (sweep_inline g now db) (\<lambda>db.
            let frow = get_flag_row (fw_key w) db in
            if flag_broken frow then
              Inr (JDict [(''state'', JStr ''BROKEN''), (''reason'', JStr ''producer_dead''), (''key'', JStr (fw_key w))],
                set_flag_waiter wid ''BROKEN'' (Some (Some ''producer_dead'')) db)
            else if flag_satisfied frow (fw_want_value w) then
              Inr (JDict [(''state'', JStr ''SATISFIED''), (''key'', JStr (fw_key w)),
                  (''value'', opt_str (Option.bind frow f_value))],
                set_flag_waiter wid ''SATISFIED'' (Some (Some ''satisfied'')) db)
            else if now \<ge> fw_deadline w then
              Inr (JDict [(''state'', JStr ''TIMEOUT''), (''key'', JStr (fw_key w))],
                set_flag_waiter wid ''TIMEOUT'' (Some (Some ''timeout'')) db)
            else Inr (JDict [(''state'', JStr ''WAITING''), (''waiter_id'', JStr wid), (''key'', JStr (fw_key w))], db)))"

section \<open>The authority invariant\<close>

lemma inv_sweep_then:
  assumes "lawful g" and "bind_res (sweep_inline g now db) f = Inr (x, db')" and "store_inv db"
    and "\<And>d. store_inv d \<Longrightarrow> f d = Inr (x, db') \<Longrightarrow> store_inv db'"
  shows "store_inv db'"
  using assms(2) inv_sweep [OF assms(1) _ assms(3)] assms(4) by (auto elim!: bind_resE)

lemma inv_acquire_verb:
  assumes "lawful g" and "acquire g now aid sem ttl nw prio request epoch db = Inr (r, db')" and "store_inv db"
  shows "store_inv db'"
  by (rule inv_with_idem [OF assms(2) [unfolded acquire_def] assms(3)], erule inv_sweep_then [OF assms(1)])
    (auto split: prod.splits intro: inv_acquire)

lemma inv_acquire_poll:
  assumes "lawful g" and "acquire_poll g now wid db = Inr (r, db')" and "store_inv db"
  shows "store_inv db'"
proof -
  have set: "store_inv (set_sem_waiter wid st p d)" if "store_inv d" for st p d
    by (rule store_inv_grows [OF that]) (simp add: grows_def set_sem_waiter_def)
  show ?thesis
    using assms(2,3)
    by (auto simp: acquire_poll_def Let_def split: option.splits if_splits intro!: set inv_promote_sem
        elim!: inv_sweep_then [OF assms(1)])
qed

lemma inv_sem_status:
  assumes "lawful g" and "sem_status g now sem db = Inr (r, db')" and "store_inv db"
  shows "store_inv db'"
  using assms(2,3) by (auto simp: sem_status_def elim!: inv_sweep_then [OF assms(1)])

lemma inv_flag_poll:
  assumes "lawful g" and "flag_wait_poll g now wid db = Inr (r, db')" and "store_inv db"
  shows "store_inv db'"
proof -
  have "store_inv (set_flag_waiter wid st p d)" if "store_inv d" for st p d
    by (rule store_inv_grows [OF that]) (simp add: grows_def set_flag_waiter_def)
  then show ?thesis
    using assms(2,3)
    by (auto simp: flag_wait_poll_def Let_def split: option.splits if_splits elim!: inv_sweep_then [OF assms(1)])
qed

end
