(* ===== verification/RecordFrames.thy ===== *)
theory RecordFrames
  imports RecoverySafe Process Polls
begin

text \<open>
  The record of the merges: the tasks in state \<open>MERGED\<close> with their commits, in the task table or in the
  archive of the collector. Every verb that is not Phase C of an attempt or the recovery leaves it as it is.
\<close>

section \<open>The record of the merges\<close>

text \<open>The merged tasks with their commits, those in the archive included.\<close>

definition merged_rows :: "task list \<Rightarrow> (string \<times> string option) set" where
  "merged_rows ts = (\<lambda>t. (t_task_id t, t_merge_sha t)) ` {t \<in> set ts. t_state t = ''MERGED''}"

definition merge_record :: "db \<Rightarrow> (string \<times> string option) set" where
  "merge_record db = merged_rows (tasks db) \<union> merged_rows (map fst (tasks_archive db))"

text \<open>\<open>task_id\<close> is the primary key.\<close>

definition task_keys :: "db \<Rightarrow> bool" where
  "task_keys db \<longleftrightarrow> distinct (map t_task_id (tasks db))"

definition keeps_record :: "db \<Rightarrow> db \<Rightarrow> bool" where
  "keeps_record db db' \<longleftrightarrow> (task_keys db \<longrightarrow> task_keys db' \<and> merge_record db' = merge_record db)"

lemma keeps_refl [simp]: "keeps_record db db"
  by (simp add: keeps_record_def)

lemma keeps_trans: "keeps_record a b \<Longrightarrow> keeps_record b c \<Longrightarrow> keeps_record a c"
  by (simp add: keeps_record_def)

lemma keeps_tables: "task_tables db' = task_tables db \<Longrightarrow> keeps_record db db'"
  by (simp add: keeps_record_def task_tables_def task_keys_def merge_record_def)

lemma keeps_step: "keeps_record a b \<Longrightarrow> task_tables c = task_tables b \<Longrightarrow> keeps_record a c"
  by (rule keeps_trans [OF _ keeps_tables])

lemma keeps_after: "keeps_record b c \<Longrightarrow> task_tables b = task_tables a \<Longrightarrow> keeps_record a c"
  by (rule keeps_trans [OF keeps_tables])

lemma keys_update:
  assumes "\<And>t. t \<in> set ts \<Longrightarrow> t_task_id t = tid \<Longrightarrow> t_task_id (f t) = tid"
  shows "map t_task_id (update_where (\<lambda>t. t_task_id t = tid) f ts) = map t_task_id ts"
  using assms by (auto simp: update_where_def)

text \<open>An update of a task that does not touch its merge.\<close>

definition same_merge :: "task \<Rightarrow> task \<Rightarrow> bool" where
  "same_merge t t' \<longleftrightarrow> t_task_id t' = t_task_id t \<and>
     (t_state t' = t_state t \<and> t_merge_sha t' = t_merge_sha t \<or> t_state t \<noteq> ''MERGED'' \<and> t_state t' \<noteq> ''MERGED'')"

lemma merged_rows_map:
  assumes "\<And>t. t \<in> set ts \<Longrightarrow> same_merge t (f t)"
  shows "merged_rows (map f ts) = merged_rows ts"
proof -
  have "(t_task_id (f t), t_merge_sha (f t)) = (t_task_id t, t_merge_sha t) \<and> (t_state (f t) = ''MERGED'' \<longleftrightarrow> t_state t = ''MERGED'')"
    if "t \<in> set ts" "t_state t = ''MERGED'' \<or> t_state (f t) = ''MERGED''" for t
    using assms [OF that(1)] that(2) by (auto simp: same_merge_def)
  then show ?thesis unfolding merged_rows_def by (auto simp: image_iff) (metis | fastforce)+
qed

lemma keeps_set_task:
  assumes "\<And>t. t \<in> set (tasks db) \<Longrightarrow> t_task_id t = tid \<Longrightarrow> same_merge t (f t)"
  shows "keeps_record db (set_task tid f db)"
proof -
  have "merged_rows (tasks (set_task tid f db)) = merged_rows (tasks db)"
    unfolding set_task_def update_where_def using assms
    by (simp, intro merged_rows_map) (auto simp: same_merge_def)
  moreover have "task_keys (set_task tid f db) = task_keys db"
    using keys_update [of "tasks db" tid f] assms by (simp add: task_keys_def set_task_def same_merge_def)
  ultimately show ?thesis by (simp add: keeps_record_def merge_record_def set_task_def)
qed

lemma keyed_row: "task_keys db \<Longrightarrow> get_task tid db = Some t \<Longrightarrow> x \<in> set (tasks db) \<Longrightarrow> t_task_id x = tid \<Longrightarrow> x = t"
  using fetchone_filter_Some [of "\<lambda>t. t_task_id t = tid" "tasks db" t]
  by (auto simp: task_keys_def get_task_def distinct_map inj_on_def)

text \<open>A row that is not merged gets a state that is not \<open>MERGED\<close>.\<close>

lemma keeps_unmerged:
  assumes "get_task tid db = Some t" and "t_state t \<noteq> ''MERGED''" and "t_task_id (f t) = tid" and "t_state (f t) \<noteq> ''MERGED''"
  shows "keeps_record db (set_task tid f db)"
proof (cases "task_keys db")
  case True
  show ?thesis
    by (rule keeps_set_task) (use keyed_row [OF True assms(1)] assms(2-4) in \<open>auto simp: same_merge_def\<close>)
qed (simp add: keeps_record_def)

lemma task_step_row:
  assumes "lawful g" and "step_state g ''task'' st trig = Inr s"
  shows "\<exists>sources. (trig, sources, s) \<in> set task_transitions \<and> st \<in> set sources"
  using assms(2) unfolding step_state_Inr [OF assms(1)]
  by (auto simp: first_match_def fsm_spec_def find_Some_iff) (metis nth_mem)

lemma step_to_merged: "lawful g \<Longrightarrow> step_state g ''task'' st trig = Inr s \<Longrightarrow> trig \<noteq> ''merged'' \<Longrightarrow> s \<noteq> ''MERGED''"
  using task_step_row [of g st trig s] by (auto simp: task_transitions_def)

lemma step_from_merged: "lawful g \<Longrightarrow> step_state g ''task'' st trig = Inr s \<Longrightarrow> trig \<noteq> ''abort'' \<Longrightarrow> st \<noteq> ''MERGED''"
  using task_step_row [of g st trig s] by (auto simp: task_transitions_def)

lemma keeps_gc: "keeps_record db (gc_terminal now ret db)"
proof -
  let ?d = "stamp_terminal now db" and ?c = "now - ret"
  have "merged_rows (map (stamp_task now) (tasks db)) = merged_rows (tasks db)"
    by (rule merged_rows_map) (simp add: same_merge_def stamp_task_def)
  then have stamp: "keeps_record db ?d"
    by (simp add: keeps_record_def merge_record_def task_keys_def stamp_terminal_def comp_def)
  have split: "merged_rows ts = merged_rows (filter P ts) \<union> merged_rows (filter (\<lambda>t. \<not> P t) ts)" for P ts
    by (auto simp: merged_rows_def)
  have move: "keeps_record ?d (archive_tasks now ?c ?d)"
    using split [of "tasks ?d" "old_task ?c ?d"]
    by (auto simp: keeps_record_def merge_record_def task_keys_def archive_tasks_def comp_def distinct_map_filter merged_rows_def)
  have "task_tables (gc_terminal now ret db) = task_tables (archive_tasks now ?c ?d)"
    by (simp add: gc_terminal_def archive_orbits_def task_tables_def)
  then show ?thesis using keeps_step [OF keeps_trans [OF stamp move]] by simp
qed

section \<open>Reclaiming and sweeping keep the record\<close>

lemma reclaim_task_row:
  assumes "lawful g" and "reclaim_task g t db = Inr (l, db')" and "t \<in> set (tasks db)" and "task_keys db"
  shows "keeps_record db db' \<and> (\<forall>x\<in>set (tasks db). t_task_id x \<noteq> t_task_id t \<longrightarrow> x \<in> set (tasks db'))"
proof (cases "t_state t = ''CLAIMED'' \<or> t_state t = ''IN_ORBIT'' \<or> t_state t = ''CONNECTING''")
  case True
  then obtain trig st st1 n where st: "step_state g ''task'' st1 trig = Inr st" "trig \<noteq> ''merged''"
    and db': "db' = set_task (t_task_id t) (\<lambda>t. t\<lparr>t_state := st, t_agent_id := None, t_reclaims := n\<rparr>) db"
    using assms(2) by (auto simp: reclaim_task_def Let_def bind_res_Inr_iff split: if_splits)
  have "same_merge x (x\<lparr>t_state := st, t_agent_id := None, t_reclaims := n\<rparr>)"
    if "x \<in> set (tasks db)" "t_task_id x = t_task_id t" for x
  proof -
    have "x = t" using that assms(3,4) by (auto simp: task_keys_def distinct_map inj_on_def)
    then show ?thesis using True step_to_merged [OF assms(1) st] by (auto simp: same_merge_def)
  qed
  then have "keeps_record db db'" unfolding db' by (rule keeps_set_task)
  then show ?thesis by (auto simp: db' set_task_def update_where_def)
next
  case False
  then show ?thesis using assms(2) by (auto simp: reclaim_task_def)
qed

lemma keeps_reclaim_tasks:
  "lawful g \<Longrightarrow> reclaim_tasks g ts db = Inr (l, db') \<Longrightarrow> set ts \<subseteq> set (tasks db) \<Longrightarrow> distinct (map t_task_id ts) \<Longrightarrow>
     task_keys db \<Longrightarrow> keeps_record db db'"
proof (induction ts arbitrary: db l)
  case (Cons t ts)
  obtain l1 d l2 where d: "reclaim_task g t db = Inr (l1, d)" "reclaim_tasks g ts d = Inr (l2, db')"
    using Cons.prems(2) by (auto simp: bind_res_Inr_iff)
  note row = reclaim_task_row [OF Cons.prems(1) d(1) _ Cons.prems(5)]
  have "set ts \<subseteq> set (tasks d)"
  proof
    fix x
    assume "x \<in> set ts"
    then have "x \<in> set (tasks db)" "t_task_id x \<noteq> t_task_id t" using Cons.prems(3,4) by (auto simp: image_iff)
    then show "x \<in> set (tasks d)" using row Cons.prems(3) by simp
  qed
  then have "keeps_record d db'"
    by (rule Cons.IH [OF Cons.prems(1) d(2)]) (use row Cons.prems in \<open>auto simp: keeps_record_def\<close>)
  then show ?case using row Cons.prems(3) keeps_trans by auto
qed simp

lemma keeps_reclaim_core:
  assumes "lawful g" and "reclaim_agent_core g now v aid db = Inr (rep, db')"
  shows "keeps_record db db'"
proof (cases "task_keys db \<and> (\<exists>a. get_agent aid db = Some a \<and> a_state a \<noteq> ''RETIRED'')")
  case True
  then obtain a where a: "get_agent aid db = Some a" "a_state a \<noteq> ''RETIRED''" and keys: "task_keys db" by blast
  define d0 where "d0 = bump_bail_epoch aid (set_agent_state aid (if v then ''BAILING'' else ''ZOMBIE'') db)"
  obtain sems freed evs d1 log d2 d3 final n m p d4 where
    d1: "reclaim_holdings g now v aid d0 = Inr (sems, freed, evs, d1)"
    and d2: "reclaim_tasks g (tasks_for_agent aid d1) d1 = Inr (log, d2)"
    and d3: "for_rows (evaluate_barrier g now) (affected_barriers (tasks_for_agent aid d1) d1) d2 = Inr d3"
    and d4: "enqueue_agent_reclaimed g now aid final v n m p evs (set_agent_state aid ''RETIRED'' d3) = Inr d4"
    and db': "promote_sems g now sems d4 = db'"
    using reclaim_core_steps [OF assms(2) a, folded d0_def] by (elim exE conjE) (rule that)
  have t1: "task_tables d1 = task_tables db" using tables_holdings [OF d1] by (simp add: d0_def)
  then have k1: "task_keys d1" using keys by (simp add: task_tables_def task_keys_def)
  have "keeps_record d1 d2"
    by (rule keeps_reclaim_tasks [OF assms(1) d2 _ _ k1])
      (use k1 in \<open>auto simp: tasks_for_agent_def task_keys_def distinct_map_filter\<close>)
  moreover have "task_tables db' = task_tables d2"
    using tables_for_rows [OF d3 tables_evaluate_barrier] tables_reclaimed [OF d4] by (simp add: db' [symmetric])
  ultimately show ?thesis using keeps_trans [OF keeps_tables [OF t1]] keeps_step by blast
next
  case False
  have "task_keys db \<Longrightarrow> db' = db"
    using False assms(2) by (auto simp: reclaim_agent_core_def split: option.splits if_splits)
  then show ?thesis by (auto simp: keeps_record_def)
qed

lemma keeps_reclaim_agent:
  assumes "lawful g" and "reclaim_agent g now v pr aid db = Inr (rep, db')"
  shows "keeps_record db db'"
proof -
  obtain rep' d where d: "reclaim_agent_core g now v aid db = Inr (rep', d)"
    and rest: "db' = d \<or> reconcile_no_reclaim g now d = Inr db'"
    using assms(2) unfolding reclaim_agent_def bind_res_Inr_iff by (auto simp: bind_res_Inr_iff split: if_splits)
  show ?thesis using rest keeps_step [OF keeps_reclaim_core [OF assms(1) d]] tables_no_reclaim by blast
qed

lemma keeps_reclaim_stale: "lawful g \<Longrightarrow> reclaim_stale g now pr as db = Inr (out, db') \<Longrightarrow> keeps_record db db'"
proof (induction as arbitrary: db out)
  case (Cons a as)
  then show ?case by (auto simp: bind_res_Inr_iff split: if_splits dest!: keeps_reclaim_agent intro: keeps_trans)
qed simp

lemma keeps_zombies: "lawful g \<Longrightarrow> reclaim_zombies_inline g now pr db = Inr (out, db') \<Longrightarrow> keeps_record db db'"
  by (auto simp: reclaim_zombies_inline_def split: if_splits intro: keeps_reclaim_stale)

lemma keeps_reconcile:
  assumes "lawful g" and "reconcile_admission g now db = Inr db'"
  shows "keeps_record db db'"
proof -
  obtain d1 out d2 where d1: "expire_due g now db = Inr d1" and d2: "reclaim_zombies_inline g now False d1 = Inr (out, d2)"
    and db': "settle_queue g now d2 = Inr db'"
    using assms(2) by (auto simp: reconcile_admission_def bind_res_Inr_iff)
  show ?thesis
    by (rule keeps_step [OF keeps_trans [OF keeps_tables [OF tables_expire [OF d1]] keeps_zombies [OF assms(1) d2]]
          tables_settle_queue [OF db']])
qed

lemma keeps_sweep:
  assumes "lawful g" and "sweep_inline g now db = Inr db'"
  shows "keeps_record db db'"
proof -
  obtain d1 d2 d3 d4 where d1: "reconcile_admission g now db = Inr d1"
    and d2: "for_rows (reclaim_flag_lease g no_set) (due_flag_leases now d1) d1 = Inr d2"
    and d3: "expire_permits g now d2 = Inr d3"
    and d4: "for_rows (\<lambda>b. evaluate_barrier g now (b_barrier_id b)) (all_barriers [''ARMED''] d3) d3 = Inr d4"
    and db': "db' = collect_terminal g now (collect_idem g now d4)"
    using assms(2) by (auto simp: sweep_inline_def bind_res_Inr_iff)
  have "task_tables (collect_idem g now d4) = task_tables d1"
    using tables_flag_leases [OF d2] tables_expire_permits [OF d3] tables_for_rows [OF d4 tables_evaluate_barrier] by simp
  then have "keeps_record db (collect_idem g now d4)"
    by (rule keeps_step [OF keeps_reconcile [OF assms(1) d1]])
  then show ?thesis
    by (auto simp: db' collect_terminal_def split: option.split intro: keeps_trans [OF _ keeps_gc])
qed

section \<open>The verbs\<close>

lemma keeps_with_idem:
  assumes "with_idem sha now request aid verb args body db = Inr (r, db')"
    and "\<And>d sl d'. body d = Inr (sl, d') \<Longrightarrow> keeps_record d d'"
  shows "keeps_record db db'"
proof (rule with_idem_preserves [where P = "keeps_record db", OF assms(1) keeps_refl])
  show "keeps_record db (d\<lparr>idempotency := xs\<rparr>)" if "keeps_record db d" for d xs
    by (rule keeps_step [OF that]) simp
  show "keeps_record db d'" if "body d = Inr (sl, d')" "keeps_record db d" for d sl d'
    by (rule keeps_trans [OF that(2) assms(2) [OF that(1)]])
qed

lemma tables_ticket: "take_ticket seq db = Inr db' \<Longrightarrow> task_tables db' = task_tables db"
  by (auto simp: take_ticket_def split: prod.splits if_splits)

lemma keeps_same_merge: "(\<And>t. same_merge t (f t)) \<Longrightarrow> keeps_record db (set_task tid f db)"
  by (rule keeps_set_task)

lemma keeps_sync: "keeps_record db (sync_read_task c rg db)"
  by (auto simp: sync_read_task_def same_merge_def split: option.split intro!: keeps_same_merge)

lemma keeps_claim_grant: "claim_grant g now c ttl k seq db = Inr (sl, db') \<Longrightarrow> keeps_record db db'"
proof -
  define rg where "rg = (if cc_mode c = ''read'' then (\<lambda>d. Some (integration_gen d)) else (\<lambda>_. None))"
  have rg: "(if cc_mode c = ''read'' then Some (integration_gen d) else None) = rg d" for d
    by (simp add: rg_def)
  have add: "task_tables (snd (add_orbit now i row d)) = task_tables d" for i row d
    by (cases "add_orbit now i row d") auto
  assume run: "claim_grant g now c ttl k seq db = Inr (sl, db')"
  obtain d1 where d1: "take_ticket seq db = Inr d1"
    using run by (auto simp: claim_grant_def bind_res_Inr_iff)
  obtain f d2 where f: "next_fence d1 = (f, d2)" by (cases "next_fence d1")
  obtain x d3 where "db' = sync_read_task c x d3" "task_tables d3 = task_tables d2"
    using run
    by (auto simp: claim_grant_def bind_res_Inr_iff Let_def d1 f rg case_add_orbit add simp del: if_split
        dest!: tables_payload tables_projection tables_deny_cycles)
  moreover have "task_tables d2 = task_tables db" using tables_pairs(2) [OF f] tables_ticket [OF d1] by simp
  ultimately show ?thesis using keeps_trans [OF keeps_tables keeps_sync] by simp
qed

lemma tables_claim_deny: "claim_deny g now k db = Inr (sl, db') \<Longrightarrow> task_tables db' = task_tables db"
  by (auto simp: claim_deny_def bind_res_Inr_iff dest!: tables_payload tables_projection)

lemma tables_claim_queue: "claim_queue g now k seq depth db = Inr (sl, db') \<Longrightarrow> task_tables db' = task_tables db"
proof -
  have add: "task_tables (snd (add_orbit now i row d)) = task_tables d" for i row d
    by (cases "add_orbit now i row d") auto
  assume "claim_queue g now k seq depth db = Inr (sl, db')"
  then show ?thesis
    by (auto simp: claim_queue_def bind_res_Inr_iff Let_def case_add_orbit add split: if_splits
        dest!: tables_payload tables_projection tables_ticket tables_claim_deny)
qed

lemma tables_claim_overload: "claim_overload g now c k cache db = Inr (sl, db') \<Longrightarrow> task_tables db' = task_tables db"
  by (auto simp: claim_overload_def bind_res_Inr_iff Let_def split: prod.splits dest!: tables_payload tables_projection)

lemma keeps_claim_decide:
  assumes "claim_decide g now c ps ttl gen epoch cache db = Inr (sl, db')"
  shows "keeps_record db db'"
proof -
  obtain u d where u: "fresh_uuid db = (u, d)" by (cases "fresh_uuid db")
  have "keeps_record d db'"
    using assms
    by (auto simp: claim_decide_def Let_def bind_res_Inr_iff u split: if_splits
        dest!: tables_claim_overload tables_claim_queue intro: keeps_claim_grant keeps_tables)
  then show ?thesis using keeps_trans [OF keeps_tables [OF tables_pairs(1) [OF u]]] by blast
qed

lemma keeps_claim:
  assumes "lawful g" and "claim g now swept roll c db = Inr (r, db')"
  shows "keeps_record db db'"
proof -
  have body: "keeps_record d d'" if run: "claim_body g now swept roll c ps ttl d = Inr (sl, d')" for ps ttl d sl d'
  proof -
    obtain e where e: "(if swept then Inr d else sweep_inline g now d) = Inr e"
      and rest: "d' = e \<or> d' = upsert_agent (cc_agent c) None ''WORKING'' now e \<or>
        (\<exists>gen epoch. claim_decide g now c ps ttl gen epoch (roll = None) (upsert_agent (cc_agent c) None ''WORKING'' now e) =
          Inr (sl, d'))"
      by (rule claim_body_cases [OF run])
    have "keeps_record d e" using e keeps_sweep [OF assms(1)] by (auto split: if_splits)
    moreover have "keeps_record e d'"
      using rest by (auto intro: keeps_tables keeps_after [OF keeps_claim_decide])
    ultimately show ?thesis by (rule keeps_trans)
  qed
  show ?thesis using claim_run_cases [OF assms(2)] keeps_with_idem body by (metis keeps_refl)
qed

lemma keeps_rollover:
  assumes "lawful g" and "rollover_claim g now oid aid gen epoch request db = Inr (r, db')"
  shows "keeps_record db db'"
proof -
  have body: "keeps_record d d'" if run: "rollover_body g now oid aid gen epoch request d = Inr (sl, d')" for d sl d'
  proof -
    obtain e where e: "sweep_inline g now d = Inr e"
      and rest: "d' = e \<or> (\<exists>rid c r. claim g now True (Some (gen + 1)) c (clear_idem rid e) = Inr (r, d'))"
      using rollover_body_cases [OF run] by blast
    show ?thesis
      using rest keeps_sweep [OF assms(1) e] keeps_claim [OF assms(1)] keeps_step [OF _ tables_rows(10)]
      by (metis keeps_trans)
  qed
  show ?thesis using rollover_cases [OF assms(2)] keeps_with_idem body by (metis keeps_refl)
qed

lemma tables_cancel_pending: "cancel_pending g now o' db = Inr db' \<Longrightarrow> task_tables db' = task_tables db"
  by (cases "fresh_event_id db")
    (auto simp: cancel_pending_def bind_res_Inr_iff Let_def split: if_splits dest!: tables_projection)

lemma keeps_cancel_wait:
  assumes "lawful g" and "cancel_wait g now oid aid gen epoch request db = Inr (r, db')"
  shows "keeps_record db db'"
proof -
  have "keeps_record d d'" if "cancel_wait_body g now oid aid gen epoch request d = Inr (sl, d')" for d sl d'
    using cancel_body_cases [OF that]
    by (auto dest!: tables_cancel_pending keeps_reconcile [OF assms(1)] intro: keeps_tables keeps_after)
  then show ?thesis using cancel_wait_cases [OF assms(2)] keeps_with_idem by (metis keeps_refl)
qed

lemma keeps_renew: "renew g now oid aid fn ttl request epoch db = Inr (r, db') \<Longrightarrow> keeps_record db db'"
proof -
  have body: "keeps_record d d'" if "renew_body g now oid aid fn t epoch d = Inr (sl, d')" for t d sl d'
    using that
    by (auto simp: renew_body_def Let_def elim!: bind_resE split: option.splits if_splits dest!: tables_lifecycle
        intro!: keeps_tables)
  assume "renew g now oid aid fn ttl request epoch db = Inr (r, db')"
  from renew_cases [OF this] show ?thesis using keeps_with_idem body by (metis keeps_refl)
qed

lemma keeps_release:
  assumes "lawful g" and "release g now oid aid fn request epoch db = Inr (r, db')"
  shows "keeps_record db db'"
proof -
  have body: "keeps_record d d'" if "release_body g now oid aid fn epoch d = Inr (sl, d')" for d sl d'
    using that
    by (auto simp: release_body_def Let_def elim!: bind_resE split: option.splits if_splits
        dest!: tables_lifecycle keeps_reconcile [OF assms(1)] intro: keeps_tables keeps_after)
  obtain ag verb args x where "with_idem (g_sha g) now request ag verb args (release_body g now oid aid fn epoch) db = Inr (x, db')"
    using assms(2) by (auto simp: release_def bind_res_Inr_iff reply_of_def)
  then show ?thesis using keeps_with_idem body by blast
qed

lemma tables_extends [simp]: "task_tables (snd (fold (extend_lease g now) os r)) = task_tables (snd r)"
proof (induction os arbitrary: r)
  case (Cons o' os)
  have "task_tables (snd (extend_lease g now o' r)) = task_tables (snd r)"
    by (auto simp: extend_lease_def split: option.split prod.split)
  then show ?case using Cons by simp
qed simp

lemma keeps_heartbeat: "keeps_record db (snd (heartbeat g now aid ttl db))"
  by (rule keeps_tables) (auto simp: heartbeat_def Let_def split_beta split: option.split)

lemma row_by_state:
  assumes "t \<in> set (tasks_by_state states db)" and "task_keys db"
  shows "get_task (t_task_id t) db = Some t \<and> t_state t \<in> set states"
proof -
  have t: "t \<in> set (tasks db)" "t_state t \<in> set states" using assms(1) by (auto simp: tasks_by_state_def)
  then obtain x where x: "get_task (t_task_id t) db = Some x"
    by (cases "get_task (t_task_id t) db") (auto simp: get_task_def filter_empty_conv)
  show ?thesis using keyed_row [OF assms(2) x t(1)] x t(2) by simp
qed

lemma keeps_next_task:
  assumes "lawful g" and "next_task g now db = Inr (r, db')"
  shows "keeps_record db db'"
proof -
  obtain d where d: "sweep_inline g now db = Inr d"
    using assms(2) by (auto simp: next_task_def elim!: bind_resE)
  have "db' = d \<or> (\<exists>t st. t \<in> set (tasks_by_state [''PENDING'', ''READY'', ''BLOCKED''] d) \<and>
      step_state g ''task'' (t_state t) ''ready'' = Inr st \<and> db' = set_task (t_task_id t) (\<lambda>t. t\<lparr>t_state := st\<rparr>) d)"
    using assms(2) d
    by (auto simp: next_task_def elim!: bind_resE split: option.splits if_splits dest!: find_SomeD; blast)
  then have "keeps_record d db'"
  proof (elim disjE exE conjE)
    fix t st
    assume t: "t \<in> set (tasks_by_state [''PENDING'', ''READY'', ''BLOCKED''] d)"
      and st: "step_state g ''task'' (t_state t) ''ready'' = Inr st" and db': "db' = set_task (t_task_id t) (\<lambda>t. t\<lparr>t_state := st\<rparr>) d"
    show ?thesis
    proof (cases "task_keys d")
      case True
      have row: "get_task (t_task_id t) d = Some t" using row_by_state [OF t True] by simp
      show ?thesis unfolding db'
        by (rule keeps_unmerged [OF row]) (use row_by_state [OF t True] step_to_merged [OF assms(1) st] in auto)
    qed (simp add: keeps_record_def)
  qed simp
  then show ?thesis by (rule keeps_trans [OF keeps_sweep [OF assms(1) d]])
qed

lemma get_task_tables: "task_tables d = task_tables db \<Longrightarrow> get_task tid d = get_task tid db"
  by (simp add: task_tables_def get_task_def)

lemma get_task_key: "get_task tid db = Some t \<Longrightarrow> t_task_id t = tid"
  by (auto simp: get_task_def dest: fetchone_filter_Some)

lemma keeps_start:
  assumes "lawful g" and "start_task g now tid aid request epoch tree db = Inr (r, db')"
  shows "keeps_record db db'"
proof -
  have body: "keeps_record d d'" if run: "start_body g now tid aid epoch tree d = Inr (sl, d')" for d sl d'
  proof -
    let ?e = "upsert_agent aid None ''WORKING'' now d"
    let ?f = "\<lambda>st t. case tree of None \<Rightarrow> t\<lparr>t_state := st, t_agent_id := Some aid\<rparr>
      | Some (br, wt) \<Rightarrow> t\<lparr>t_state := st, t_agent_id := Some aid, t_worktree := Some wt, t_branch := Some br\<rparr>"
    have "d' = d \<or> (\<exists>t st0 st. get_task tid d = Some t \<and> (t_state t = st0 \<or> step_state g ''task'' (t_state t) ''claim'' = Inr st0) \<and>
        step_state g ''task'' st0 ''start'' = Inr st \<and> d' = set_task tid (?f st) ?e)"
      using run by (auto simp: start_body_def elim!: bind_resE split: option.splits if_splits)
    then consider "d' = d" | (started) t st0 st where "get_task tid d = Some t"
      "t_state t = st0 \<or> step_state g ''task'' (t_state t) ''claim'' = Inr st0"
      "step_state g ''task'' st0 ''start'' = Inr st" "d' = set_task tid (?f st) ?e"
      by blast
    then show ?thesis
    proof cases
      case (started t st0 st)
      have row: "get_task tid ?e = Some t" using started(1) get_task_tables [OF tables_rows(3)] by simp
      have old: "t_state t \<noteq> ''MERGED''" using started(2) step_from_merged [OF assms(1)] started(3) by force
      have "keeps_record ?e d'"
        unfolding started(4) by (rule keeps_unmerged [OF row old])
          (use get_task_key [OF row] step_to_merged [OF assms(1) started(3)] in \<open>auto split: option.splits\<close>)
      then show ?thesis by (rule keeps_after) simp
    qed simp
  qed
  obtain ag verb args x where "with_idem (g_sha g) now request ag verb args (start_body g now tid aid epoch tree) db = Inr (x, db')"
    using assms(2) by (auto simp: start_task_def bind_res_Inr_iff reply_of_def)
  then show ?thesis using keeps_with_idem body by blast
qed

lemma keeps_bail:
  assumes "lawful g" and "bail g now aid request db = Inr (r, db')"
  shows "keeps_record db db'"
  by (rule keeps_with_idem [OF assms(2) [unfolded bail_def]])
    (auto simp: bail_body_def elim!: bind_resE intro: keeps_reclaim_agent [OF assms(1)])

section \<open>Permits and flags\<close>

lemma tables_sem_declare: "task_tables (snd (sem_declare g now sem n db)) = task_tables db"
  by (auto simp: sem_declare_def)

lemma tables_acquire: "acquire_after_sweep g now aid sem ttl nw prio epoch db = (r, db') \<Longrightarrow> task_tables db' = task_tables db"
  by (auto simp: acquire_after_sweep_def Let_def split: option.splits if_splits prod.splits dest!: tables_grant_permit)

lemma keeps_acquire:
  assumes "lawful g" and "acquire g now aid sem ttl nw prio request epoch db = Inr (r, db')"
  shows "keeps_record db db'"
proof (rule keeps_with_idem [OF assms(2) [unfolded acquire_def]])
  show "keeps_record d d'"
    if "bind_res (sweep_inline g now d) (\<lambda>db. let (r, db) = acquire_after_sweep g now aid sem ttl nw prio epoch db in Inr (slot_set r, db)) = Inr (sl, d')"
    for d sl d'
    using that by (auto elim!: bind_resE split: prod.splits dest!: tables_acquire intro: keeps_step [OF keeps_sweep [OF assms(1)]])
qed

lemma keeps_acquire_poll: "lawful g \<Longrightarrow> acquire_poll g now wid db = Inr (r, db') \<Longrightarrow> keeps_record db db'"
  by (auto simp: acquire_poll_def Let_def elim!: bind_resE split: option.splits if_splits
      intro!: keeps_step [OF keeps_sweep])

lemma keeps_sem_status: "lawful g \<Longrightarrow> sem_status g now sem db = Inr (r, db') \<Longrightarrow> keeps_record db db'"
  by (auto simp: sem_status_def elim!: bind_resE intro: keeps_sweep)

lemma keeps_flag_poll: "lawful g \<Longrightarrow> flag_wait_poll g now wid db = Inr (r, db') \<Longrightarrow> keeps_record db db'"
  by (auto simp: flag_wait_poll_def Let_def elim!: bind_resE split: option.splits if_splits
      intro!: keeps_step [OF keeps_sweep])

lemma keeps_sem_release: "sem_release g now pid aid fn request epoch db = Inr (r, db') \<Longrightarrow> keeps_record db db'"
  unfolding sem_release_def
  by (erule keeps_with_idem)
    (auto simp: sem_release_body_def Let_def elim!: bind_resE split: option.splits if_splits intro!: keeps_tables)

lemma tables_ephemeral_lease: "ephemeral_lease g now key aid ttl db = (l, db') \<Longrightarrow> task_tables db' = task_tables db"
  by (auto simp: ephemeral_lease_def split: prod.splits)

lemma keeps_flag_set: "flag_set g now key val agent ftype ttl request epoch db = Inr (r, db') \<Longrightarrow> keeps_record db db'"
  unfolding flag_set_def Let_def
  by (erule keeps_with_idem)
    (auto simp: flag_set_body_def flag_set_ephemeral_def flag_set_latch_def Let_def
      split: option.splits if_splits prod.splits dest!: tables_ephemeral_lease intro!: keeps_tables)

lemma keeps_flag_clear: "flag_clear g now key agent request epoch db = Inr (r, db') \<Longrightarrow> keeps_record db db'"
  unfolding flag_clear_def
  by (erule keeps_with_idem)
    (auto simp: flag_clear_body_def flag_clear_lease_def Let_def elim!: bind_resE split: option.splits if_splits
      intro!: keeps_tables)

section \<open>Finishing, cancelling, declaring\<close>

lemma keeps_finish:
  assumes "lawful g" and "finish g now tid aid fn request epoch db = Inr (r, db')"
  shows "keeps_record db db'"
proof -
  have body: "keeps_record d d'" if run: "finish_body g now tid aid fn epoch d = Inr (sl, d')" for d sl d'
  proof -
    let ?e = "touch_agent now aid d"
    have "d' = d \<or> d' = ?e \<or> (\<exists>t st. get_task tid ?e = Some t \<and> step_state g ''task'' (t_state t) ''finish'' = Inr st \<and>
        task_tables d' = task_tables (set_task tid (\<lambda>t. t\<lparr>t_state := st\<rparr>) ?e))"
      using run by (auto simp: finish_body_def Let_def elim!: bind_resE split: option.splits if_splits)
    then have "keeps_record ?e d' \<or> d' = d"
    proof (elim disjE exE conjE)
      fix t st
      assume t: "get_task tid ?e = Some t" "step_state g ''task'' (t_state t) ''finish'' = Inr st"
        and d': "task_tables d' = task_tables (set_task tid (\<lambda>t. t\<lparr>t_state := st\<rparr>) ?e)"
      have "keeps_record ?e (set_task tid (\<lambda>t. t\<lparr>t_state := st\<rparr>) ?e)"
        by (rule keeps_unmerged [OF t(1)])
          (use get_task_key [OF t(1)] step_from_merged [OF assms(1) t(2)] step_to_merged [OF assms(1) t(2)] in auto)
      then show ?thesis using keeps_step [OF _ d'] by blast
    qed simp_all
    then show ?thesis by (auto intro: keeps_after)
  qed
  obtain ag verb args x where "with_idem (g_sha g) now request ag verb args (finish_body g now tid aid fn epoch) db = Inr (x, db')"
    using assms(2) by (auto simp: finish_def bind_res_Inr_iff reply_of_def)
  then show ?thesis using keeps_with_idem body by blast
qed

lemma keeps_cancel:
  assumes "lawful g" and "cancel g now tid reason request db = Inr (r, db')"
  shows "keeps_record db db'"
proof -
  have body: "keeps_record d d'" if run: "cancel_body g now tid reason d = Inr (sl, d')" for d sl d'
  proof (cases "get_task tid d")
    case None
    then show ?thesis using run by (simp add: cancel_body_def)
  next
    case (Some t)
    consider "d' = d"
      | (again) ids e where "terminalize_cancelled_task_orbits g now tid d = Inr (ids, e)" "reconcile_admission g now e = Inr d'"
      | (first) st ids e where "t_state t \<noteq> ''MERGED''" "step_state g ''task'' (t_state t) ''abort'' = Inr st"
          "terminalize_cancelled_task_orbits g now tid (set_task tid (\<lambda>t. t\<lparr>t_state := st\<rparr>) d) = Inr (ids, e)"
          "reconcile_admission g now e = Inr d'"
      using run Some by (auto simp: cancel_body_def elim!: bind_resE split: if_splits)
    then show ?thesis
    proof cases
      case again
      show ?thesis by (rule keeps_after [OF keeps_reconcile [OF assms(1) again(2)] tables_terminalize [OF again(1)]])
    next
      case (first st ids e)
      have "keeps_record d (set_task tid (\<lambda>t. t\<lparr>t_state := st\<rparr>) d)"
        by (rule keeps_unmerged [OF Some first(1)])
          (use get_task_key [OF Some] step_to_merged [OF assms(1) first(2)] in auto)
      then have "keeps_record d e" by (rule keeps_step [OF _ tables_terminalize [OF first(3)]])
      then show ?thesis by (rule keeps_trans [OF _ keeps_reconcile [OF assms(1) first(4)]])
    qed simp
  qed
  obtain ag verb args x where "with_idem (g_sha g) now request ag verb args (cancel_body g now tid reason) db = Inr (x, db')"
    using assms(2) by (auto simp: cancel_def bind_res_Inr_iff reply_of_def)
  then show ?thesis using keeps_with_idem body by blast
qed

lemma keeps_read_refresh: "read_refresh g now tid aid fn request epoch db = Inr (r, db') \<Longrightarrow> keeps_record db db'"
proof -
  have sync: "keeps_record d (fold (refresh_row gen) os (set_task tid (\<lambda>t. t\<lparr>t_read_synced_gen := Some gen\<rparr>) d))" for gen os d
    by (rule keeps_step [OF keeps_same_merge tables_pins(3)]) (simp add: same_merge_def)
  have body: "keeps_record d d'" if "read_refresh_body g tid aid fn epoch d = Inr (sl, d')" for d sl d'
    using that by (auto simp: read_refresh_body_def Let_def sync split: option.splits if_splits)
  assume "read_refresh g now tid aid fn request epoch db = Inr (r, db')"
  then obtain ag verb args x where "with_idem (g_sha g) now request ag verb args (read_refresh_body g tid aid fn epoch) db = Inr (x, db')"
    by (auto simp: read_refresh_def bind_res_Inr_iff reply_of_def)
  then show ?thesis using keeps_with_idem body by blast
qed

lemma keeps_add_task: "st \<noteq> ''MERGED'' \<Longrightarrow> keeps_record db (add_task now tid nm ws rs ds st p sh rf fs db)"
proof (cases "\<exists>t\<in>set (tasks db). t_task_id t = tid")
  case True
  then have "add_task now tid nm ws rs ds st p sh rf fs db = set_task tid
      (\<lambda>t. t\<lparr>t_name := nm, t_writes := ws, t_reads := rs, t_deps := ds, t_priority := p,
        t_shared := sh, t_resolve_for := rf, t_resolve_conflict_files := fs\<rparr>) db"
    by (simp add: add_task_def set_task_def upsert_def)
  then show ?thesis by (simp add: keeps_same_merge same_merge_def)
next
  case False
  assume "st \<noteq> ''MERGED''"
  with False show ?thesis
    by (auto simp: keeps_record_def merge_record_def merged_rows_def task_keys_def add_task_def upsert_def new_task_def)
qed

lemma keeps_declare: "keeps_record db (snd (declare_task now tid nm ws rs ds p sh db))"
  by (auto simp: declare_task_def Let_def split: option.split intro: keeps_add_task)

lemma keeps_depend: "keeps_record db (snd (depend tid after db))"
proof -
  have "set_task_deps tid ds db = set_task tid (\<lambda>t. t\<lparr>t_deps := ds\<rparr>) db" for ds
    by (simp add: set_task_deps_def set_task_def)
  then show ?thesis
    by (auto simp: depend_def Let_def split: option.split intro!: keeps_same_merge simp: same_merge_def)
qed

end
