(* ===== verification/Engine.thy ===== *)
theory Engine
  imports RecoverySafe Process Polls
begin

text \<open>
  Runs of the engine: a step is any verb of \<open>omd_server/core.py\<close> that writes an orbit or a task, with its
  sweep, at any time and with any arguments, and the phases of a connect that write the store. The
  authority invariant holds in every store a run reaches; what it means for leases, fences and merges is
  stated at the end.
\<close>

section \<open>Runs of the engine\<close>

text \<open>What leaves the orbits and the tasks alone: barriers, delivery of notifications, leadership, the
  envelopes of requests.\<close>

definition untouched :: "db \<Rightarrow> db \<Rightarrow> bool" where
  "untouched db db' \<longleftrightarrow> grows db db' \<and> task_tables db' = task_tables db"

text \<open>Every verb that writes an orbit or a task, at any time and with any arguments; a verb that raises is
  rolled back and is no step.\<close>

inductive engine_step :: "config \<Rightarrow> 'w repo \<Rightarrow> db \<Rightarrow> db \<Rightarrow> bool" for g R where
  claim: "claim g now swept roll c db = Inr (r, db') \<Longrightarrow> engine_step g R db db'"
| rollover: "rollover_claim g now oid aid gen epoch rid db = Inr (r, db') \<Longrightarrow> engine_step g R db db'"
| cancel_wait: "cancel_wait g now oid aid gen epoch request db = Inr (r, db') \<Longrightarrow> engine_step g R db db'"
| renew: "renew g now oid aid fn lttl request bepoch db = Inr (r, db') \<Longrightarrow> engine_step g R db db'"
| release: "release g now oid aid fn request bepoch db = Inr (r, db') \<Longrightarrow> engine_step g R db db'"
| heartbeat: "heartbeat g now aid httl db = (r, db') \<Longrightarrow> engine_step g R db db'"
| next_task: "next_task g now db = Inr (t, db') \<Longrightarrow> engine_step g R db db'"
| start: "start_task g now tid aid request bepoch tree db = Inr (r, db') \<Longrightarrow> engine_step g R db db'"
| bail: "bail g now aid request db = Inr (rep, db') \<Longrightarrow> engine_step g R db db'"
| zombies: "reclaim_zombies g now db = Inr (r, db') \<Longrightarrow> engine_step g R db db'"
| sweep: "sweep_report g now db = Inr (r, db') \<Longrightarrow> engine_step g R db db'"
| acquire: "acquire g now aid sem ttl nw prio request bepoch db = Inr (rep, db') \<Longrightarrow> engine_step g R db db'"
| acquire_poll: "acquire_poll g now wid db = Inr (r, db') \<Longrightarrow> engine_step g R db db'"
| sem_status: "sem_status g now sem db = Inr (r, db') \<Longrightarrow> engine_step g R db db'"
| sem_release: "sem_release g now pid aid fn request bepoch db = Inr (rep, db') \<Longrightarrow> engine_step g R db db'"
| sem_declare: "sem_declare g now sem n db = (r, db') \<Longrightarrow> engine_step g R db db'"
| flag_set: "flag_set g now key val agent ftype ttl request bepoch db = Inr (rep, db') \<Longrightarrow> engine_step g R db db'"
| flag_clear: "flag_clear g now key agent request bepoch db = Inr (rep, db') \<Longrightarrow> engine_step g R db db'"
| flag_poll: "flag_wait_poll g now wid db = Inr (r, db') \<Longrightarrow> engine_step g R db db'"
| finish: "finish g now tid aid fn request bepoch db = Inr (rep, db') \<Longrightarrow> engine_step g R db db'"
| cancel: "cancel g now tid reason request db = Inr (rep, db') \<Longrightarrow> engine_step g R db db'"
| read_refresh: "read_refresh g now tid aid fn request bepoch db = Inr (rep, db') \<Longrightarrow> engine_step g R db db'"
| declare_task: "declare_task now tid nm ws rs ds p sh db = (r, db') \<Longrightarrow> engine_step g R db db'"
| depend: "depend tid after db = (r, db') \<Longrightarrow> engine_step g R db db'"
| phase_a: "connect_phase_a g R now tick tid aid fn bepoch request digest db w = (Inr (a, db'), w') \<Longrightarrow> engine_step g R db db'"
| party_phase_a: "barrier_connect_phase_a g R now tick bid gen tid expected db w = (Inr (a, db'), w') \<Longrightarrow> engine_step g R db db'"
| phase_c: "connect_phase_c g R now it sha err db w = (Inr (rep, db'), w') \<Longrightarrow> engine_step g R db db'"
| recover: "recover g R now db w = (Inr db', w') \<Longrightarrow> engine_step g R db db'"
| elsewhere: "untouched db db' \<Longrightarrow> engine_step g R db db'"

lemma inv_step:
  assumes "lawful g" and "engine_step g R db db'" and "store_inv db"
  shows "store_inv db'"
  using assms(2)
proof cases
  case claim
  then show ?thesis by (rule inv_claim [OF assms(1) _ assms(3)])
next
  case rollover
  then show ?thesis by (rule inv_rollover [OF assms(1) _ assms(3)])
next
  case cancel_wait
  then show ?thesis by (rule inv_cancel_wait [OF assms(1) _ assms(3)])
next
  case renew
  then show ?thesis by (rule inv_renew [OF assms(1) _ assms(3)])
next
  case release
  then show ?thesis by (rule inv_release [OF assms(1) _ assms(3)])
next
  case (heartbeat now aid httl r)
  then show ?thesis using inv_heartbeat [OF assms(3), of g now aid httl] by simp
next
  case next_task
  then show ?thesis by (rule inv_next_task [OF assms(1) _ assms(3)])
next
  case start
  then show ?thesis by (rule inv_start [OF _ assms(3)])
next
  case bail
  then show ?thesis by (rule inv_bail [OF assms(1) _ assms(3)])
next
  case (zombies now r)
  then show ?thesis using inv_zombies [OF assms(1) _ assms(3)] by (auto simp: reclaim_zombies_def elim!: bind_resE)
next
  case (sweep now r)
  then show ?thesis using inv_sweep [OF assms(1) _ assms(3)] by (auto simp: sweep_report_def elim!: bind_resE)
next
  case acquire
  then show ?thesis by (rule inv_acquire_verb [OF assms(1) _ assms(3)])
next
  case acquire_poll
  then show ?thesis by (rule inv_acquire_poll [OF assms(1) _ assms(3)])
next
  case sem_status
  then show ?thesis by (rule inv_sem_status [OF assms(1) _ assms(3)])
next
  case sem_release
  then show ?thesis by (rule inv_sem_release [OF assms(1) _ assms(3)])
next
  case (sem_declare now sem n r)
  then show ?thesis using inv_sem_declare [OF assms(3), of g now sem n] by simp
next
  case flag_set
  then show ?thesis by (rule inv_flag_set [OF _ assms(3)])
next
  case flag_clear
  then show ?thesis by (rule inv_flag_clear [OF assms(1) _ assms(3)])
next
  case flag_poll
  then show ?thesis by (rule inv_flag_poll [OF assms(1) _ assms(3)])
next
  case finish
  then show ?thesis by (rule inv_finish [OF _ assms(3)])
next
  case cancel
  then show ?thesis by (rule inv_cancel [OF assms(1) _ assms(3)])
next
  case read_refresh
  then show ?thesis by (rule inv_read_refresh [OF _ assms(3)])
next
  case (declare_task now tid nm ws rs ds p sh r)
  have "grows db (snd (declare_task now tid nm ws rs ds p sh db))"
    by (auto simp: declare_task_def Let_def grows_def add_task_def split: option.split)
  then show ?thesis using store_inv_grows [OF assms(3)] declare_task by simp
next
  case (depend tid after r)
  have "grows db (snd (depend tid after db))"
    by (auto simp: depend_def Let_def grows_def set_task_deps_def split: option.split)
  then show ?thesis using store_inv_grows [OF assms(3)] depend by simp
next
  case phase_a
  then show ?thesis by (rule inv_phase_a [OF assms(1) _ assms(3)])
next
  case party_phase_a
  then show ?thesis by (rule inv_party_phase_a [OF assms(1) _ assms(3)])
next
  case phase_c
  then show ?thesis by (rule inv_phase_c [OF assms(1) _ assms(3)])
next
  case recover
  then show ?thesis by (rule inv_recover [OF assms(1) _ assms(3)])
next
  case elsewhere
  then show ?thesis by (intro store_inv_grows [OF assms(3)]) (simp add: untouched_def)
qed

lemma store_inv_empty: "store_inv empty_db"
  by (simp add: store_inv_def empty_db_def rows_ok_def)

lemma inv_from:
  assumes "lawful g" and "store_inv db0" and "(engine_step g R)\<^sup>*\<^sup>* db0 db"
  shows "store_inv db"
  using assms(3) by induction (auto intro: assms(2) inv_step [OF assms(1)])

section \<open>What the leases promise\<close>

text \<open>C1. Exclusive leases never overlap: after every sequence of engine verbs, by any agents, at any
  times and with any arguments, two orbits that are HELD together in incompatible modes have no path
  in common, whatever wildcards their write sets use. The run starts from any store that satisfies the
  invariant, for instance the empty one (\<open>store_inv_empty\<close>).\<close>

theorem leases_never_share_a_path:
  assumes "lawful g" and "store_inv db0" and "(engine_step g R)\<^sup>*\<^sup>* db0 db"
    and "a \<in> set (held_orbits db)" and "b \<in> set (held_orbits db)" and "orbit_id a \<noteq> orbit_id b"
    and "\<not> compatible_modes (mode a) (mode b)"
  shows "\<not> (path_in_globs p (paths_of (adm a)) \<and> path_in_globs p (paths_of (adm b)))"
proof -
  have ok: "rows_ok (orbits db) (uuids db) (fence_counter db)"
    using inv_from [OF assms(1-3)] by (simp add: store_inv_def)
  have "\<not> clash a b"
    by (rule rows_okD(4) [OF ok]) (use assms(4-6) in \<open>auto simp: held_orbits_def held_orbit_def\<close>)
  then show ?thesis using assms(7) overlap_of_shared_path by (auto simp: clash_def conflicts_def)
qed

definition sample_leases :: db where
  "sample_leases = empty_db\<lparr>orbits := [sample_lease_row 0 ''a'' ''src/a/**'', sample_lease_row 1 ''b'' ''src/b/**''],
     uuids := 2, fence_counter := 2\<rparr>"

lemma sample_leases_simps [simp]:
  "orbits sample_leases = [sample_lease_row 0 ''a'' ''src/a/**'', sample_lease_row 1 ''b'' ''src/b/**'']"
  "uuids sample_leases = 2" "fence_counter sample_leases = 2"
  by (simp_all add: sample_leases_def)

lemma sample_leases_inv: "store_inv sample_leases"
proof -
  have "\<not> sets_overlap [''src/a/**''] [''src/b/**'']" by code_simp
  then have apart: "\<not> clash (sample_lease_row 0 ''a'' ''src/a/**'') (sample_lease_row (Suc 0) ''b'' ''src/b/**'')"
    by (simp add: clash_def conflicts_def paths_of_def)
  have "sound_row (adm o')" if "o' \<in> set (orbits sample_leases)" for o'
    using that by (auto simp: sound_row_def admission_modes_def)
  then show ?thesis
    unfolding store_inv_def
    using apart clash_commute
    by (intro rows_okI) (auto simp: row_typed_def orbit_states_def held_token_def numeral_2_eq_2)
qed

definition sample_declared :: db where
  "sample_declared = snd (sem_declare sample_config 1 ''gpu'' 1 (snd (heartbeat sample_config 1 ''a'' None sample_leases)))"

definition sample_acquire :: "(core_error, json option \<times> db) result" where
  "sample_acquire = acquire sample_config 2 ''c'' ''gpu'' (Some 300) False 0 None None sample_declared"

definition sample_visit :: db where
  "sample_visit = (case sample_acquire of Inr (r, db) \<Rightarrow> db | Inl e \<Rightarrow> sample_declared)"

lemma sample_visit_run: "(engine_step sample_config sample_merge_repo)\<^sup>*\<^sup>* sample_leases sample_visit"
proof -
  have "engine_step sample_config sample_merge_repo sample_leases (snd (heartbeat sample_config 1 ''a'' None sample_leases))"
    by (rule engine_step.heartbeat) (rule prod.collapse [symmetric])
  moreover have "engine_step sample_config sample_merge_repo (snd (heartbeat sample_config 1 ''a'' None sample_leases)) sample_declared"
    unfolding sample_declared_def by (rule engine_step.sem_declare) (rule prod.collapse [symmetric])
  ultimately have declared: "(engine_step sample_config sample_merge_repo)\<^sup>*\<^sup>* sample_leases sample_declared"
    by (meson rtranclp.rtrancl_refl rtranclp.rtrancl_into_rtrancl)
  show ?thesis
  proof (cases sample_acquire)
    case (Inr x)
    obtain r d where x: "x = (r, d)" by (cases x)
    have "engine_step sample_config sample_merge_repo sample_declared d"
      by (rule engine_step.acquire [OF Inr [unfolded sample_acquire_def x]])
    moreover have "sample_visit = d" by (simp add: sample_visit_def Inr x)
    ultimately have "engine_step sample_config sample_merge_repo sample_declared sample_visit" by simp
    with declared show ?thesis by simp
  next
    case (Inl e)
    have "sample_visit = sample_declared" unfolding sample_visit_def Inl by (rule sum.case(1))
    with declared show ?thesis by simp
  qed
qed

lemma sample_visit_held:
  "map (\<lambda>o'. (orbit_id o', mode o', paths_of (adm o'), fence o')) (held_orbits sample_visit) =
     [(''orb-0'', ''write'', [''src/a/**''], Some 1), (''orb-1'', ''write'', [''src/b/**''], Some 2)]"
  by code_simp

lemma sample_visit_rows:
  obtains a b where "held_orbits sample_visit = [a, b]" "orbit_id a = ''orb-0''" "orbit_id b = ''orb-1''"
    "mode a = ''write''" "mode b = ''write''" "paths_of (adm a) = [''src/a/**'']" "paths_of (adm b) = [''src/b/**'']"
    "fence a = Some 1" "fence b = Some 2"
  using sample_visit_held by (auto simp: map_eq_Cons_conv)

lemma sample_visit_first:
  obtains a where "a \<in> set (orbits sample_visit)" "orbit_id a = ''orb-0''" "fence a = Some 1"
proof -
  obtain a b where r: "held_orbits sample_visit = [a, b]" "orbit_id a = ''orb-0''" "fence a = Some 1"
    by (rule sample_visit_rows)
  then have "a \<in> set (held_orbits sample_visit)" by simp
  then have "a \<in> set (orbits sample_visit)" by (simp add: held_orbits_def)
  then show ?thesis using that r by blast
qed

lemma leases_never_share_a_path_witness:
  "\<exists>a b. set (held_orbits sample_visit) = {a, b} \<and> orbit_id a \<noteq> orbit_id b \<and> path_in_globs ''src/a/x'' (paths_of (adm a)) \<and>
     \<not> (path_in_globs ''src/a/x'' (paths_of (adm a)) \<and> path_in_globs ''src/a/x'' (paths_of (adm b)))"
proof -
  obtain a b where r: "held_orbits sample_visit = [a, b]" "orbit_id a = ''orb-0''" "orbit_id b = ''orb-1''"
    "mode a = ''write''" "mode b = ''write''" "paths_of (adm a) = [''src/a/**'']"
    by (rule sample_visit_rows)
  have "\<not> (path_in_globs ''src/a/x'' (paths_of (adm a)) \<and> path_in_globs ''src/a/x'' (paths_of (adm b)))"
    by (rule leases_never_share_a_path [OF sample_config_lawful sample_leases_inv sample_visit_run])
      (simp_all add: r compatible_modes_def)
  moreover have "path_in_globs ''src/a/x'' [''src/a/**'']" by code_simp
  ultimately show ?thesis using r by (intro exI [of _ a] exI [of _ b]) simp
qed

text \<open>C2. A fence is never handed out twice: in every reachable store two rows with the same fence are
  one row, whatever the kind of the lease (orbit, permit, flag lease), and the next fence is greater
  than all of them.\<close>

theorem fences_never_reused:
  assumes "lawful g" and "store_inv db0" and "(engine_step g R)\<^sup>*\<^sup>* db0 db"
    and "a \<in> set (orbits db)" and "fence a = Some f"
  shows "(\<forall>b\<in>set (orbits db). fence b = Some f \<longrightarrow> b = a) \<and> f < fst (next_fence db)"
proof -
  have ok: "rows_ok (orbits db) (uuids db) (fence_counter db)"
    using inv_from [OF assms(1-3)] by (simp add: store_inv_def)
  have "b = a" if "b \<in> set (orbits db)" "fence b = Some f" for b
    by (rule rows_ok_same [OF ok that(1) assms(4)]) (rule rows_okD(6) [OF ok that(1) assms(4) that(2) assms(5)])
  then show ?thesis using rows_okD(5) [OF ok assms(4,5)] by (simp add: next_fence_def)
qed

lemma fences_never_reused_witness: "\<exists>a\<in>set (orbits sample_visit). fence a = Some 1 \<and> 1 < fst (next_fence sample_visit)"
proof -
  obtain a where "a \<in> set (orbits sample_visit)" "fence a = Some 1" by (rule sample_visit_first)
  with fences_never_reused [OF sample_config_lawful sample_leases_inv sample_visit_run] show ?thesis by blast
qed

text \<open>C3. The rows are typed: in every reachable store a row is in one of the states of the orbit
  machine, and one that is HELD carries a fence.\<close>

theorem rows_stay_typed:
  assumes "lawful g" and "store_inv db0" and "(engine_step g R)\<^sup>*\<^sup>* db0 db" and "a \<in> set (orbits db)"
  shows "o_state a \<in> set (fst (fsm_spec ''orbit'')) \<and> (o_state a = ''HELD'' \<longrightarrow> (\<exists>f. fence a = Some f))"
proof -
  have "row_typed a"
    using inv_from [OF assms(1-3)] rows_okD(7) assms(4) unfolding store_inv_def by blast
  then show ?thesis by (auto simp: row_typed_def fsm_spec_def)
qed

lemma rows_stay_typed_witness:
  "\<exists>a\<in>set (orbits sample_visit). o_state a \<in> set (fst (fsm_spec ''orbit'')) \<and> orbit_id a = ''orb-0''"
proof -
  obtain a where "a \<in> set (orbits sample_visit)" "orbit_id a = ''orb-0''" by (rule sample_visit_first)
  with rows_stay_typed [OF sample_config_lawful sample_leases_inv sample_visit_run] show ?thesis by blast
qed

text \<open>C4. Merges never overlap: in every reachable store at most one connect attempt owns the merge token of
  the resource. Two intents that both pass the ownership test of Phase C are intents of the same attempt,
  by the same instance of the coordinator.\<close>

theorem one_attempt_merges:
  assumes "lawful g" and "store_inv db0" and "(engine_step g R)\<^sup>*\<^sup>* db0 db"
    and "attempt_owned g i db" and "attempt_owned g j db"
  shows "it_attempt_id i = it_attempt_id j \<and> it_token_id i = it_token_id j \<and> it_owner_instance i = it_owner_instance j"
proof -
  have ok: "rows_ok (orbits db) (uuids db) (fence_counter db)"
    using inv_from [OF assms(1-3)] by (simp add: store_inv_def)
  obtain k where k: "k \<in> set (orbits db)" "orbit_id k = it_token_id i" "token_bound g i k"
    by (rule owned_token [OF assms(4)])
  obtain l where l: "l \<in> set (orbits db)" "orbit_id l = it_token_id j" "token_bound g j l"
    by (rule owned_token [OF assms(5)])
  have "k = l"
    by (rule rows_ok_same [OF ok k(1) l(1)], rule rows_okD(8) [OF ok k(1) l(1)])
      (use k(3) l(3) in \<open>simp_all add: token_bound_def held_token_def\<close>)
  then show ?thesis using k l by (simp add: token_bound_def)
qed

lemma sample_attempt_owned:
  obtains it db where "sample_phase_a = Inr (Attempt it, db)" "attempt_owned digest_config it db" "it_attempt_id it \<noteq> ''connect-other''"
proof -
  have "case sample_phase_a of Inr (Attempt it, db) \<Rightarrow> attempt_owned digest_config it db \<and> it_attempt_id it \<noteq> ''connect-other'' | _ \<Rightarrow> False"
    by code_simp
  then show ?thesis using that by (auto split: sum.splits prod.splits phase_a_answer.splits)
qed

lemma one_attempt_merges_witness:
  "\<exists>it db. sample_phase_a = Inr (Attempt it, db) \<and> attempt_owned digest_config it db \<and>
     \<not> attempt_owned digest_config (it\<lparr>it_attempt_id := ''connect-other''\<rparr>) db"
proof -
  obtain it db where a: "sample_phase_a = Inr (Attempt it, db)" and own: "attempt_owned digest_config it db"
    and id: "it_attempt_id it \<noteq> ''connect-other''"
    by (rule sample_attempt_owned)
  then have "connect_phase_a digest_config sample_merge_repo 2 2 ''T'' (Some ''a'') (Some 1) None None None finished_store () =
      (Inr (Attempt it, db), ())"
    by (simp add: sample_phase_a_def prod_eq_iff)
  then have run: "(engine_step digest_config sample_merge_repo)\<^sup>*\<^sup>* finished_store db"
    by (intro r_into_rtranclp engine_step.phase_a)
  from one_attempt_merges [OF digest_config_lawful finished_store_inv run own, of "it\<lparr>it_attempt_id := ''connect-other''\<rparr>"] a own id
  show ?thesis by auto
qed

end
