(* ===== verification/MergeRecord.thy ===== *)
theory MergeRecord
  imports RecordFrames Engine
begin

text \<open>
  What may change the record of the merges: Phase C of the attempt that owns its task and the recovery of a
  connecting task, each with a proof from Git. Over all runs of the engine a merge is final, and it is
  recorded only with that proof.
\<close>

section \<open>The merges themselves\<close>

definition adds_record :: "(string \<times> string option) set \<Rightarrow> db \<Rightarrow> db \<Rightarrow> bool" where
  "adds_record A db db' \<longleftrightarrow> (task_keys db \<longrightarrow> task_keys db' \<and> merge_record db' = A \<union> merge_record db)"

lemma adds_nothing: "adds_record {} = keeps_record"
  by (simp add: fun_eq_iff adds_record_def keeps_record_def)

lemma adds_trans: "adds_record A a b \<Longrightarrow> adds_record B b c \<Longrightarrow> adds_record (A \<union> B) a c"
  by (auto simp: adds_record_def)

lemma adds_keeps: "adds_record A a b \<Longrightarrow> keeps_record b c \<Longrightarrow> adds_record A a c"
  by (simp add: adds_record_def keeps_record_def)

lemma keeps_adds: "keeps_record a b \<Longrightarrow> adds_record A b c \<Longrightarrow> adds_record A a c"
  by (simp add: adds_record_def keeps_record_def)

lemma adds_merge:
  assumes "get_task tid db = Some t" and "t_state t \<noteq> ''MERGED''"
    and "t_task_id (f t) = tid" and "t_state (f t) = ''MERGED''" and "t_merge_sha (f t) = sha"
  shows "adds_record {(tid, sha)} db (set_task tid f db)"
proof (cases "task_keys db")
  case True
  have only: "x = t" if "x \<in> set (tasks db)" "t_task_id x = tid" for x
    using keyed_row [OF True assms(1) that] .
  have mem: "t \<in> set (tasks db)" "t_task_id t = tid"
    using assms(1) by (auto simp: get_task_def dest!: fetchone_filter_Some)
  have "merged_rows (tasks (set_task tid f db)) = insert (tid, sha) (merged_rows (tasks db))" (is "?new = _")
  proof (intro set_eqI iffI)
    fix x
    assume "x \<in> ?new"
    then obtain u where u: "u \<in> set (tasks db)" "x = (\<lambda>t. (t_task_id t, t_merge_sha t)) (if t_task_id u = tid then f u else u)"
      "t_state (if t_task_id u = tid then f u else u) = ''MERGED''"
      by (auto simp: merged_rows_def set_task_def update_where_def)
    then show "x \<in> insert (tid, sha) (merged_rows (tasks db))"
      using only [of u] assms(3-5) by (cases "t_task_id u = tid") (auto simp: merged_rows_def)
  next
    fix x
    assume "x \<in> insert (tid, sha) (merged_rows (tasks db))"
    then show "x \<in> ?new"
    proof
      assume "x = (tid, sha)"
      moreover have "f t \<in> set (tasks (set_task tid f db))" using mem by (auto simp: set_task_def update_where_def image_iff)
      ultimately show ?thesis using assms(3-5) by (force simp: merged_rows_def)
    next
      assume "x \<in> merged_rows (tasks db)"
      then obtain u where u: "u \<in> set (tasks db)" "t_state u = ''MERGED''" "x = (t_task_id u, t_merge_sha u)"
        by (auto simp: merged_rows_def)
      then have "t_task_id u \<noteq> tid" using only [OF u(1)] assms(2) by auto
      then have "u \<in> set (tasks (set_task tid f db))" using u(1) by (auto simp: set_task_def update_where_def image_iff)
      then show ?thesis using u by (auto simp: merged_rows_def)
    qed
  qed
  moreover have "map t_task_id (tasks (set_task tid f db)) = map t_task_id (tasks db)"
    unfolding set_task_def by (simp, rule keys_update) (use only assms(3) in blast)
  moreover have "task_keys (set_task tid f db)" if "map t_task_id (tasks (set_task tid f db)) = map t_task_id (tasks db)"
    using that True by (simp add: task_keys_def)
  ultimately show ?thesis by (simp add: adds_record_def merge_record_def set_task_def)
qed (simp add: adds_record_def)

lemma keeps_start_attempt:
  assumes "lawful g" and "start_attempt g now t writes it db = Inr (a, db')" and "get_task tid db = Some t"
    and "t_state t \<noteq> ''MERGED''" and "it_task_id it = tid"
  shows "keeps_record db db'"
proof -
  consider "task_tables db' = task_tables db" | (go) st where "connecting_state g (t_state t) = Inr (Some st)"
      "task_tables db' = task_tables (set_task tid (intent_columns g now st (max_fence writes) it) db)"
    using assms(2,5)
    by (auto simp: start_attempt_def bind_idem_operation_exact_def update_exact_def Let_def elim!: bind_resE
        split: option.splits if_splits prod.splits dest!: tables_release_token)
  then show ?thesis
  proof cases
    case (go st)
    obtain st0 where "step_state g ''task'' st0 ''connect'' = Inr st"
      using go(1) by (auto simp: connecting_state_def elim!: bind_resE split: if_splits)
    from step_to_merged [OF assms(1) this] have "st \<noteq> ''MERGED''" by simp
    then have "keeps_record db (set_task tid (intent_columns g now st (max_fence writes) it) db)"
      using get_task_key [OF assms(3)] by (intro keeps_unmerged [OF assms(3,4)]) (simp_all add: intent_columns_def)
    then show ?thesis by (rule keeps_step [OF _ go(2)])
  qed (rule keeps_tables)
qed

lemma keeps_started:
  assumes "lawful g" and "get_task tid db = Some t" and "t_state t \<noteq> ''MERGED''"
    and "start_attempt g now t writes it e = Inr (a, db')" and "task_tables e = task_tables db" and "it_task_id it = tid"
  shows "keeps_record db db'"
  using keeps_after [OF keeps_start_attempt [OF assms(1,4) _ assms(3,6)] assms(5)] get_task_tables [OF assms(5)] assms(2) by simp

lemma keeps_phase_a:
  assumes "lawful g" and "connect_phase_a g R now tick tid aid fn epoch request digest db w = (Inr (a, db'), w')"
  shows "keeps_record db db'"
proof -
  obtain d where d: "sweep_inline g now db = Inr d"
    using assms(2) by (auto simp: connect_phase_a_def split: sum.splits)
  consider "db' = d" | (admit) t writes globs snap where "connect_guards tid aid fn epoch d = Inr (t, writes)"
      "connect_admit g now tick aid request digest t writes snap globs d = Inr (a, db')"
    using assms(2) d by (auto simp: connect_phase_a_def split: sum.splits prod.splits)
  then have "keeps_record d db'"
  proof cases
    case admit
    have row: "get_task tid d = Some t" and old: "t_state t \<noteq> ''MERGED''"
      using write_guards [OF admit(1)] admit(1) by (auto simp: connect_guards_def split: option.splits if_splits)
    show ?thesis
      using admit(2) get_task_key [OF row]
      by (auto simp: connect_admit_def Let_def split: if_splits prod.splits option.splits
          dest!: tables_acquire_token intro: keeps_tables keeps_started [OF assms(1) row old])
  qed simp
  then show ?thesis by (rule keeps_trans [OF keeps_sweep [OF assms(1) d]])
qed

lemma party_guards_row:
  assumes "party_guards bid gen tid expected db = Inr (t, writes)"
  shows "get_task tid db = Some t \<and> t_state t \<noteq> ''MERGED''"
  using assms by (auto simp: party_guards_def Let_def split: option.splits if_splits)

lemma keeps_party_phase_a:
  assumes "lawful g" and "barrier_connect_phase_a g R now tick bid gen tid expected db w = (Inr (a, db'), w')"
  shows "keeps_record db db'"
proof -
  consider "db' = db" | (admit) t writes snap where "party_guards bid gen tid expected db = Inr (t, writes)"
      "party_admit g now tick t writes snap db = Inr (a, db')"
    using assms(2) by (auto simp: barrier_connect_phase_a_def split: sum.splits prod.splits)
  then show ?thesis
  proof cases
    case admit
    note row = party_guards_row [OF admit(1)]
    show ?thesis
      using admit(2) get_task_key [OF conjunct1 [OF row]]
      by (auto simp: party_admit_def Let_def split: if_splits prod.splits option.splits
          dest!: tables_acquire_token intro: keeps_tables keeps_started [OF assms(1) conjunct1 [OF row] conjunct2 [OF row]])
  qed simp
qed

lemma owned_connecting:
  assumes "attempt_owned g it db"
  obtains t where "get_task (it_task_id it) db = Some t" "t_state t = ''CONNECTING''"
  using assms by (auto simp: attempt_owned_def task_bound_def split: option.splits)

lemma keeps_promote_resolve: "keeps_record db (snd (promote_resolve_task now tid files db))"
  by (auto simp: promote_resolve_task_def Let_def intro: keeps_add_task)

lemma keeps_roll_back:
  assumes "lawful g" and "attempt_owned g it db" and "connect_roll_back g now it e culprits db = Inr (r, db')"
  shows "keeps_record db db'"
proof -
  let ?tid = "it_task_id it"
  define u where "u = fold unpin_orbit (pinned_orbits_for_task (it_task_id it) db) db"
  obtain t where t: "get_task ?tid db = Some t" "t_state t = ''CONNECTING''" by (rule owned_connecting [OF assms(2)])
  have row: "get_task ?tid u = Some t" using t get_task_tables [OF tables_pins(1)] by (simp add: u_def)
  have chain: "keeps_record db d2"
    if "step_state g ''task'' ''CONNECTING'' ''rollback'' = Inr st"
      and "release_merge_token g now (it_token_id it) (set_task ?tid (detached st) u) = Inr d1" and "reconcile_admission g now d1 = Inr d2"
    for st d1 d2
  proof -
    have "keeps_record u (set_task ?tid (detached st) u)"
      by (rule keeps_unmerged [OF row])
        (use t get_task_key [OF row] step_to_merged [OF assms(1) that(1)] in \<open>simp_all add: detached_def\<close>)
    then have "keeps_record db (set_task ?tid (detached st) u)" by (rule keeps_after) (simp add: u_def)
    then have "keeps_record db d1" by (rule keeps_step [OF _ tables_release_token [OF that(2)]])
    then show ?thesis by (rule keeps_trans [OF _ keeps_reconcile [OF assms(1) that(3)]])
  qed
  have resolve: "keeps_record db d'" if "promote_resolve_task now ?tid fs d = (x, d')" and "keeps_record db d" for fs d x d'
    using keeps_trans [OF that(2) keeps_promote_resolve [of d now ?tid fs]] that(1) by simp
  show ?thesis
    using assms(3)
    by (auto simp: connect_roll_back_def Let_def simp flip: u_def elim!: bind_resE split: prod.splits option.splits
        intro: chain resolve [OF _ chain])
qed

lemma commit_adds:
  assumes "lawful g" and "attempt_owned g it db" and "connect_commit g now it sha db = Inr (r, db')"
  shows "adds_record {(it_task_id it, sha)} db db'"
proof -
  let ?tid = "it_task_id it"
  obtain t where t: "get_task ?tid db = Some t" "t_state t = ''CONNECTING''" by (rule owned_connecting [OF assms(2)])
  define d0 where "d0 = set_task ?tid (\<lambda>t. t\<lparr>t_merge_sha := sha, t_merged_at := Some now\<rparr>) db"
  obtain st where st: "step_state g ''task'' ''CONNECTING'' ''merged'' = Inr st" and M: "st = ''MERGED''"
    using transition_results [OF assms(1)] by auto
  define d1 where "d1 = set_task ?tid (\<lambda>t. t\<lparr>t_state := st, t_connect_intent_at := None, t_integration_base_sha := None\<rparr>) d0"
  obtain gen d2 where gen: "bump_integration_gen d1 = (gen, d2)" by (cases "bump_integration_gen d1")
  obtain globs stale d3 d4 d5 where d3: "mark_stale_reads now ?tid gen globs (append_merge_log now gen ?tid globs d2) = Inr (stale, d3)"
    and d4: "release_task_write_orbits g now ?tid d3 = Inr d4"
    and d5: "release_merge_token g now (it_token_id it) d4 = Inr d5"
    and db': "reconcile_admission g now (set_flag now ?tid (Some ''merged'') None d5) = Inr db'"
    using assms(3) by (auto simp: connect_commit_def Let_def st gen simp flip: d0_def d1_def elim!: bind_resE)
  have "keeps_record db d0"
    unfolding d0_def by (rule keeps_unmerged [OF t(1)]) (use t(2) get_task_key [OF t(1)] in simp_all)
  moreover have row: "get_task ?tid d0 = Some (t\<lparr>t_merge_sha := sha, t_merged_at := Some now\<rparr>)"
    using t(1) by (simp add: d0_def get_task_set)
  then have "adds_record {(?tid, sha)} d0 d1"
    unfolding d1_def by (rule adds_merge) (use t(2) get_task_key [OF row] M in simp_all)
  ultimately have "adds_record {(?tid, sha)} db d1" by (rule keeps_adds)
  moreover have "task_tables (set_flag now ?tid (Some ''merged'') None d5) = task_tables d1"
    using tables_mark_stale [OF d3] tables_release_writes [OF d4] tables_release_token [OF d5] tables_merge_rows(3) [of d1] gen by simp
  then have "keeps_record d1 db'" by (rule keeps_after [OF keeps_reconcile [OF assms(1) db']])
  ultimately show ?thesis by (rule adds_keeps)
qed

lemma tables_stop: "connect_stop it p db = Some (r, db') \<Longrightarrow> task_tables db' = task_tables db"
  by (auto simp: connect_stop_def split: option.splits if_splits)

text \<open>What Phase C has proved of the commit it records: with a repository, it is a commit of the integration
  branch that carries the trailer of the attempt and descends from the commit that was audited.\<close>

definition proved_merge :: "'w repo \<Rightarrow> intent \<Rightarrow> string option \<Rightarrow> bool" where
  "proved_merge R it sha \<longleftrightarrow> (it_repo_bound it \<longrightarrow> (\<exists>proven v v' v''. sha = Some proven \<and>
     branch_in_integration (r_host R) (r_integration_branch R) (attempt_trailer (it_attempt_id it)) True v = (Inr (Some proven), v') \<and>
     assert_ancestor (r_host R) (the (it_branch_tip_sha it)) proven v' = (Inr (), v'')))"

lemma success_record:
  assumes "lawful g" and "connect_phase_c g R now it sha err db w = (Inr (r, db'), w')" and "is_success r"
  shows "attempt_owned g it db \<and> (\<exists>merged. proved_merge R it merged \<and> adds_record {(it_task_id it, merged)} db db')"
proof -
  obtain p v where p: "connect_proof g R it sha err w = (Inr p, v)"
    using assms(2) by (auto simp: connect_phase_c_def split: prod.splits sum.splits)
  have owned: "attempt_owned g it db" and go: "connect_stop it p db = None" and ok: "mp_error p = None"
    and commit: "connect_commit g now it (mp_sha p) db = Inr (r, db')"
    using assms(2,3) p by (auto simp: connect_phase_c_def split: prod.splits sum.splits if_splits option.splits
        dest: stop_fails roll_back_fails)
  have "proved_merge R it (mp_sha p)" using proof_of_merge [OF p _ go ok] by (auto simp: proved_merge_def)
  then show ?thesis using owned commit_adds [OF assms(1) owned commit] by blast
qed

lemma phase_c_record:
  assumes "lawful g" and "connect_phase_c g R now it sha err db w = (Inr (r, db'), w')"
  shows "keeps_record db db' \<or> attempt_owned g it db \<and>
    (\<exists>merged. proved_merge R it merged \<and> adds_record {(it_task_id it, merged)} db db')"
proof -
  obtain p v where p: "connect_proof g R it sha err w = (Inr p, v)"
    using assms(2) by (auto simp: connect_phase_c_def split: prod.splits sum.splits)
  consider "db' = db" | (stop) "connect_stop it p db = Some (r, db')"
    | (commit) "connect_commit g now it (mp_sha p) db = Inr (r, db')"
    | (undo) e culprits where "attempt_owned g it db" "connect_roll_back g now it e culprits db = Inr (r, db')"
    using assms(2) p by (auto simp: connect_phase_c_def split: prod.splits sum.splits if_splits option.splits)
  then show ?thesis
  proof cases
    case stop
    then show ?thesis using keeps_tables [OF tables_stop] by blast
  next
    case commit
    then have "is_success r" by (auto simp: connect_commit_def Let_def elim!: bind_resE split: prod.splits)
    then show ?thesis using success_record [OF assms] by blast
  next
    case undo
    then show ?thesis using keeps_roll_back [OF assms(1) undo] by blast
  qed simp
qed

section \<open>The recovery\<close>

text \<open>Only the row of one task changes.\<close>

definition spares :: "string \<Rightarrow> db \<Rightarrow> db \<Rightarrow> bool" where
  "spares tid db db' \<longleftrightarrow> (\<forall>x. x \<noteq> tid \<longrightarrow> get_task x db' = get_task x db)"

lemma spares_trans: "spares tid a b \<Longrightarrow> spares tid b c \<Longrightarrow> spares tid a c"
  by (simp add: spares_def)

lemma spares_tables: "task_tables db' = task_tables db \<Longrightarrow> spares tid db db'"
  unfolding spares_def using get_task_tables [of db' db] by blast

lemma spares_set_task:
  assumes "\<And>t. t_task_id (f t) = t_task_id t"
  shows "spares tid db (set_task tid f db)"
proof -
  have "filter (\<lambda>t. t_task_id t = x) (update_where (\<lambda>t. t_task_id t = tid) f ts) = filter (\<lambda>t. t_task_id t = x) ts"
    if "x \<noteq> tid" for x ts
    using that assms by (induction ts) (auto simp: update_where_def)
  then show ?thesis by (simp add: spares_def get_task_def set_task_def)
qed

lemma take_over_record:
  assumes "take_over g t tok db = Inr db'"
  shows "keeps_record db db' \<and> spares (t_task_id t) db db'"
proof -
  let ?f = "\<lambda>x. x\<lparr>t_connect_attempt_id := t_connect_attempt_id t, t_connect_owner_instance := Some (g_instance_id g),
    t_connect_owner_generation := t_connect_owner_generation t + 1, t_connect_token_id := Some tok\<rparr>"
  have tables: "task_tables db' = task_tables (set_task (t_task_id t) ?f db)"
    using assms
    by (auto simp: take_over_def Let_def takeover_idem_operation_exact_def update_exact_def split: if_splits option.splits)
  have "keeps_record db (set_task (t_task_id t) ?f db)" by (rule keeps_same_merge) (simp add: same_merge_def)
  moreover have "spares (t_task_id t) db (set_task (t_task_id t) ?f db)" by (rule spares_set_task) simp
  ultimately show ?thesis using keeps_step [OF _ tables] spares_trans [OF _ spares_tables [OF tables]] by blast
qed

lemma complete_merged_record:
  assumes "lawful g" and "complete_merged g now tid tok sha db = Inr db'" and "get_task tid db = Some t" and "t_state t \<noteq> ''MERGED''"
  shows "adds_record {(tid, Some sha)} db db' \<and> spares tid db db'"
proof -
  let ?f = "\<lambda>t. t\<lparr>t_merge_sha := Some sha, t_merged_at := Some now\<rparr>"
  define d0 where "d0 = set_task tid ?f db"
  obtain gen d1 where gen: "bump_integration_gen d0 = (gen, d1)" by (cases "bump_integration_gen d0")
  obtain globs ids st d2 d3 d4 where
    d2: "mark_stale_reads now tid gen globs (append_merge_log now gen tid globs d1) = Inr (ids, d2)"
    and d3: "release_task_write_orbits g now tid d2 = Inr d3"
    and st: "step_state g ''task'' ''CONNECTING'' ''merged'' = Inr st"
    and d4: "release_stranded g now tok (set_task tid
        (\<lambda>t. t\<lparr>t_state := st, t_connect_intent_at := None, t_integration_base_sha := None\<rparr>) d3) = Inr d4"
    and db': "db' = set_flag now tid (Some ''merged'') None d4"
    using assms(2) by (auto simp: complete_merged_def Let_def gen simp flip: d0_def elim!: bind_resE)
  let ?s = "\<lambda>t. t\<lparr>t_state := st, t_connect_intent_at := None, t_integration_base_sha := None\<rparr>"
  have M: "st = ''MERGED''" using st transition_results [OF assms(1)] by simp
  have tables: "task_tables d3 = task_tables d0"
    using tables_mark_stale [OF d2] tables_release_writes [OF d3] tables_merge_rows(3) [of d0] gen by simp
  have row: "get_task tid d3 = Some (?f t)" using get_task_tables [OF tables] assms(3) by (simp add: d0_def get_task_set)
  have "keeps_record db d0"
    unfolding d0_def by (rule keeps_unmerged [OF assms(3,4)]) (use assms(4) get_task_key [OF assms(3)] in simp_all)
  then have "keeps_record db d3" by (rule keeps_step [OF _ tables])
  moreover have "adds_record {(tid, Some sha)} d3 (set_task tid ?s d3)"
    by (rule adds_merge [OF row]) (use assms(4) get_task_key [OF row] M in simp_all)
  ultimately have "adds_record {(tid, Some sha)} db (set_task tid ?s d3)" by (rule keeps_adds)
  moreover have last: "task_tables db' = task_tables (set_task tid ?s d3)"
    by (simp add: db' tables_release_stranded [OF d4])
  ultimately have "adds_record {(tid, Some sha)} db db'" using adds_keeps keeps_tables by blast
  moreover have "spares tid db d0" unfolding d0_def by (rule spares_set_task) simp
  then have "spares tid db d3" by (rule spares_trans [OF _ spares_tables [OF tables]])
  then have "spares tid db (set_task tid ?s d3)" by (rule spares_trans [OF _ spares_set_task]) simp
  then have "spares tid db db'" by (rule spares_trans [OF _ spares_tables [OF last]])
  ultimately show ?thesis ..
qed

lemma undo_attempt_record:
  assumes "lawful g" and "undo_attempt g now tid tok db = Inr db'" and "get_task tid db = Some t" and "t_state t \<noteq> ''MERGED''"
  shows "keeps_record db db' \<and> spares tid db db'"
proof -
  define u where "u = fold unpin_orbit (pinned_orbits_for_task tid db) db"
  have tu: "task_tables u = task_tables db" by (simp add: u_def)
  obtain st where st: "step_state g ''task'' ''CONNECTING'' ''rollback'' = Inr st"
    and d: "release_stranded g now tok (set_task tid (detached st) u) = Inr db'"
    using assms(2) by (auto simp: undo_attempt_def u_def elim!: bind_resE)
  have row: "get_task tid u = Some t" using assms(3) get_task_tables [OF tu] by simp
  have "keeps_record u (set_task tid (detached st) u)"
    by (rule keeps_unmerged [OF row assms(4)])
      (use get_task_key [OF row] step_to_merged [OF assms(1) st] in \<open>simp_all add: detached_def\<close>)
  then have "keeps_record db db'" by (rule keeps_step [OF keeps_after [OF _ tu] tables_release_stranded [OF d]])
  moreover have "spares tid u (set_task tid (detached st) u)" by (rule spares_set_task) (simp add: detached_def)
  then have "spares tid db db'"
    using spares_trans [OF spares_tables [OF tu]] spares_trans [OF _ spares_tables [OF tables_release_stranded [OF d]]] by blast
  ultimately show ?thesis ..
qed

text \<open>What the recovery has found in the integration branch for a task it marks as merged.\<close>

definition recovered_merge :: "'w repo \<Rightarrow> task \<Rightarrow> string \<times> string option \<Rightarrow> bool" where
  "recovered_merge R t x \<longleftrightarrow> fst x = t_task_id t \<and> t_connect_repo_bound t \<and> (\<exists>sha v v'. snd x = Some sha \<and>
     branch_in_integration (r_host R) (r_integration_branch R) (recovery_trailer t) True v = (Inr (Some sha), v') \<and>
     (legacy_attempt t \<or> (\<exists>v''. assert_ancestor (r_host R) (the (t_branch_tip_sha t)) sha v' = (Inr (), v''))))"

lemma recover_task_record:
  assumes "lawful g" and "recover_task g R now wt t rv w = (Inr rv', w')" and "get_task (t_task_id t) (rv_db rv) = Some t"
    and "t_state t = ''CONNECTING''"
  obtains A where "adds_record A (rv_db rv) (rv_db rv')" "spares (t_task_id t) (rv_db rv) (rv_db rv')" "\<And>x. x \<in> A \<Longrightarrow> recovered_merge R t x"
  using assms(2)
proof (cases rule: recover_task_cases)
  case unbound
  then have "task_tables (rv_db rv') = task_tables (rv_db rv)" by simp
  then show ?thesis using that [of "{}"] keeps_tables spares_tables by (simp add: adds_nothing)
next
  case (bound d t' verdict)
  let ?tok = "snd (stranded_token g t (rv_db rv))"
  have early: "keeps_record (rv_db rv) d" "spares (t_task_id t) (rv_db rv) d"
    using bound(2) take_over_record [of g t "the ?tok" "rv_db rv" d] spares_tables [of "rv_db rv" "rv_db rv"] by (auto split: if_splits)
  have same: "t' = t \<or> t' = taken_over g t (the ?tok)" by (rule bound_row [OF bound(2) assms(3) bound(3)])
  then have old: "t_state t' \<noteq> ''MERGED''" using assms(4) by auto
  show ?thesis
  proof (cases verdict)
    case (Undecided hold)
    then have "task_tables (rv_db rv') = task_tables d" using bound(5) by (auto simp: apply_verdict_def)
    then show ?thesis
      using that [of "{}"] early keeps_step spares_trans [OF early(2) spares_tables] by (simp add: adds_nothing)
  next
    case (FoundMerged sha)
    then obtain d' where "complete_merged g now (t_task_id t) ?tok sha d = Inr d'" "rv_db rv' = d'"
      using bound(5) by (auto simp: apply_verdict_def elim!: bind_resE)
    with complete_merged_record [OF assms(1) _ bound(3) old]
    have "adds_record {(t_task_id t, Some sha)} d (rv_db rv')" "spares (t_task_id t) d (rv_db rv')" by auto
    moreover have "recovered_merge R t (t_task_id t, Some sha)"
      using verdict_merged [OF bound(4) [unfolded FoundMerged]] same unfolding recovered_merge_def by (elim disjE) simp_all
    ultimately show ?thesis using that [of "{(t_task_id t, Some sha)}"] keeps_adds [OF early(1)] spares_trans [OF early(2)] by blast
  next
    case NotMerged
    then obtain d' where "undo_attempt g now (t_task_id t) ?tok d = Inr d'" "rv_db rv' = d'"
      using bound(5) by (auto simp: apply_verdict_def elim!: bind_resE)
    with undo_attempt_record [OF assms(1) _ bound(3) old]
    have "keeps_record d (rv_db rv')" "spares (t_task_id t) d (rv_db rv')" by auto
    then show ?thesis using that [of "{}"] keeps_trans [OF early(1)] spares_trans [OF early(2)] by (simp add: adds_nothing)
  qed
qed

lemma recover_tasks_record:
  assumes "lawful g" and "recover_tasks g R now wt ts rv w = (Inr rv', w')" and "distinct (map t_task_id ts)"
    and "\<And>t. t \<in> set ts \<Longrightarrow> get_task (t_task_id t) (rv_db rv) = Some t \<and> t_state t = ''CONNECTING''"
  shows "\<exists>A. adds_record A (rv_db rv) (rv_db rv') \<and> (\<forall>x\<in>A. \<exists>t\<in>set ts. recovered_merge R t x)"
  using assms(2-4)
proof (induction ts arbitrary: rv w)
  case Nil
  then have "adds_record {} (rv_db rv) (rv_db rv')" by (simp add: adds_nothing)
  then show ?case by blast
next
  case (Cons t ts)
  obtain rv1 w1 where one: "recover_task g R now wt t rv w = (Inr rv1, w1)" and rest: "recover_tasks g R now wt ts rv1 w1 = (Inr rv', w')"
    using Cons.prems(1) by (auto split: prod.splits sum.splits)
  have row: "get_task (t_task_id t) (rv_db rv) = Some t" "t_state t = ''CONNECTING''" using Cons.prems(3) [of t] by simp_all
  obtain A where A: "adds_record A (rv_db rv) (rv_db rv1)" "spares (t_task_id t) (rv_db rv) (rv_db rv1)" "\<And>x. x \<in> A \<Longrightarrow> recovered_merge R t x"
    by (rule recover_task_record [OF assms(1) one row]) (rule that)
  have "get_task (t_task_id u) (rv_db rv1) = Some u \<and> t_state u = ''CONNECTING''" if "u \<in> set ts" for u
    using Cons.prems(2) Cons.prems(3) [of u] A(2) that by (auto simp: spares_def image_iff)
  then obtain B where "adds_record B (rv_db rv1) (rv_db rv')" "\<forall>x\<in>B. \<exists>t\<in>set ts. recovered_merge R t x"
    using Cons.IH [OF rest] Cons.prems(2) by auto
  then show ?case using adds_trans [OF A(1)] A(3) by (intro exI [of _ "A \<union> B"]) auto
qed

lemma keeps_recover_rest:
  assumes "lawful g" and "recover_rest g R now rv w = (Inr db', w')"
  shows "keeps_record (rv_db rv) db'"
proof -
  have expire: "expire_tokens g now ps d = Inr d' \<Longrightarrow> task_tables d' = task_tables d" for ps d d'
    unfolding expire_tokens_def
    by (erule tables_for_rows) (auto simp: expire_token_def elim!: bind_resE split: if_splits)
  have barrier: "recover_barrier g R b d v = (Inr d', v') \<Longrightarrow> task_tables d' = task_tables d" for b d v d' v'
    by (auto simp: recover_barrier_def Let_def elim!: bind_resE dest!: tables_break split: if_splits prod.splits sum.splits bool.splits)
  have barriers: "recover_barriers g R bs d v = (Inr d', v') \<Longrightarrow> task_tables d' = task_tables d" for bs d v d' v'
    by (induction bs arbitrary: d v) (auto dest!: barrier split: prod.splits sum.splits)
  have repair: "repair_aborted g now d = Inr d' \<Longrightarrow> task_tables d' = task_tables d" for d d'
    unfolding repair_aborted_def by (erule tables_for_rows) (auto elim!: bind_resE dest: tables_terminalize)
  have settled: "settle now i s d = Inr d' \<Longrightarrow> task_tables d' = task_tables d" for i s d d'
    by (auto simp: settle_def finish_idem_exact_def mark_idem_retryable_exact_def update_exact_def Let_def
        split: settlement.splits if_splits)
  have requests: "settle_requests g R now is d v = (Inr d', v') \<Longrightarrow> task_tables d' = task_tables d" for "is" d v d' v'
    by (induction "is" arbitrary: d v) (auto dest!: settled split: prod.splits sum.splits)
  obtain d1 d2 d3 d4 v' where "expire_tokens g now (rv_protected rv) (rv_db rv) = Inr d1"
    and "d2 = d1 \<or> (\<exists>u v. recover_barriers g R (all_barriers [''TRIPPING''] d1) d1 u = (Inr d2, v))"
    and "repair_aborted g now d2 = Inr d3" and rec: "reconcile_admission g now d3 = Inr d4"
    and last: "settle_requests g R now (inflight_idem d4) d4 v' = (Inr db', w')"
    using assms(2) by (auto simp: recover_rest_def elim!: bind_resE split: prod.splits sum.splits if_splits) blast+
  then have "task_tables d3 = task_tables (rv_db rv)" using expire barriers repair by auto
  then have "keeps_record (rv_db rv) d4" by (rule keeps_after [OF keeps_reconcile [OF assms(1) rec]])
  then show ?thesis by (rule keeps_step [OF _ requests [OF last]])
qed

lemma recover_record:
  assumes "lawful g" and "recover g R now db w = (Inr db', w')" and "task_keys db"
  shows "\<exists>A. adds_record A db db' \<and>
    (\<forall>x\<in>A. \<exists>t. get_task (t_task_id t) db = Some t \<and> t_state t = ''CONNECTING'' \<and> recovered_merge R t x)"
proof -
  let ?ts = "tasks_by_state [''CONNECTING''] db"
  obtain wt rv v v' where run: "recover_tasks g R now wt ?ts \<lparr>rv_db = db, rv_protected = [], rv_unresolved = False\<rparr> v = (Inr rv, v')"
    and rest: "recover_rest g R now rv v' = (Inr db', w')"
    using assms(2) by (auto simp: recover_def split: prod.splits sum.splits)
  have rows: "get_task (t_task_id t) db = Some t \<and> t_state t = ''CONNECTING''" if "t \<in> set ?ts" for t
    using row_by_state [OF that assms(3)] by simp
  have "distinct (map t_task_id ?ts)"
    using assms(3) by (auto simp: tasks_by_state_def task_keys_def distinct_map intro: inj_on_subset)
  then obtain A where A: "adds_record A db (rv_db rv)" "\<forall>x\<in>A. \<exists>t\<in>set ?ts. recovered_merge R t x"
    using recover_tasks_record [OF assms(1) run] rows by auto
  have "adds_record A db db'" by (rule adds_keeps [OF A(1) keeps_recover_rest [OF assms(1) rest]])
  then show ?thesis using A(2) rows by blast
qed

section \<open>What every verb does to the record\<close>

text \<open>Where a merge that a step records comes from.\<close>

definition proved_source :: "config \<Rightarrow> 'w repo \<Rightarrow> db \<Rightarrow> string \<times> string option \<Rightarrow> bool" where
  "proved_source g R db x \<longleftrightarrow>
     (\<exists>it. it_task_id it = fst x \<and> attempt_owned g it db \<and> proved_merge R it (snd x)) \<or>
     (\<exists>t. get_task (fst x) db = Some t \<and> t_state t = ''CONNECTING'' \<and> recovered_merge R t x)"

lemma step_record:
  assumes "lawful g" and "engine_step g R db db'" and "task_keys db"
  shows "\<exists>A. adds_record A db db' \<and> (\<forall>x\<in>A. proved_source g R db x)"
proof -
  have kept: ?thesis if "keeps_record db db'"
    using that by (intro exI [of _ "{}"]) (simp add: adds_nothing)
  from assms(2) show ?thesis
  proof cases
    case claim
    then show ?thesis by (intro kept keeps_claim [OF assms(1)])
  next
    case rollover
    then show ?thesis by (intro kept keeps_rollover [OF assms(1)])
  next
    case cancel_wait
    then show ?thesis by (intro kept keeps_cancel_wait [OF assms(1)])
  next
    case renew
    then show ?thesis by (intro kept keeps_renew)
  next
    case release
    then show ?thesis by (intro kept keeps_release [OF assms(1)])
  next
    case (heartbeat now aid httl r)
    then show ?thesis using keeps_heartbeat [of db g now aid httl] by (intro kept) simp
  next
    case next_task
    then show ?thesis by (intro kept keeps_next_task [OF assms(1)])
  next
    case start
    then show ?thesis by (intro kept keeps_start [OF assms(1)])
  next
    case bail
    then show ?thesis by (intro kept keeps_bail [OF assms(1)])
  next
    case (zombies now r)
    then show ?thesis
      by (intro kept) (auto simp: reclaim_zombies_def elim!: bind_resE intro: keeps_zombies [OF assms(1)])
  next
    case (sweep now r)
    then show ?thesis by (intro kept) (auto simp: sweep_report_def elim!: bind_resE intro: keeps_sweep [OF assms(1)])
  next
    case acquire
    then show ?thesis by (intro kept keeps_acquire [OF assms(1)])
  next
    case acquire_poll
    then show ?thesis by (intro kept keeps_acquire_poll [OF assms(1)])
  next
    case sem_status
    then show ?thesis by (intro kept keeps_sem_status [OF assms(1)])
  next
    case sem_release
    then show ?thesis by (intro kept keeps_sem_release)
  next
    case (sem_declare now sem n r)
    then show ?thesis using tables_sem_declare [of g now sem n db] by (intro kept keeps_tables) simp
  next
    case flag_set
    then show ?thesis by (intro kept keeps_flag_set)
  next
    case flag_clear
    then show ?thesis by (intro kept keeps_flag_clear)
  next
    case flag_poll
    then show ?thesis by (intro kept keeps_flag_poll [OF assms(1)])
  next
    case finish
    then show ?thesis by (intro kept keeps_finish [OF assms(1)])
  next
    case cancel
    then show ?thesis by (intro kept keeps_cancel [OF assms(1)])
  next
    case read_refresh
    then show ?thesis by (intro kept keeps_read_refresh)
  next
    case (declare_task now tid nm ws rs ds p sh r)
    then show ?thesis using keeps_declare [of db now tid nm ws rs ds p sh] by (intro kept) simp
  next
    case (depend tid after r)
    then show ?thesis using keeps_depend [of db tid after] by (intro kept) simp
  next
    case phase_a
    then show ?thesis by (intro kept keeps_phase_a [OF assms(1)])
  next
    case party_phase_a
    then show ?thesis by (intro kept keeps_party_phase_a [OF assms(1)])
  next
    case (phase_c now it sha err w r w')
    from phase_c_record [OF assms(1) this] show ?thesis
    proof (elim disjE conjE exE)
      fix merged
      assume "attempt_owned g it db" "proved_merge R it merged" "adds_record {(it_task_id it, merged)} db db'"
      then show ?thesis by (intro exI [of _ "{(it_task_id it, merged)}"]) (auto simp: proved_source_def)
    qed (rule kept)
  next
    case (recover now w w')
    obtain A where "adds_record A db db'"
      "\<forall>x\<in>A. \<exists>t. get_task (t_task_id t) db = Some t \<and> t_state t = ''CONNECTING'' \<and> recovered_merge R t x"
      using recover_record [OF assms(1) recover assms(3)] by blast
    then show ?thesis by (intro exI [of _ A]) (fastforce simp: proved_source_def recovered_merge_def)
  next
    case elsewhere
    then show ?thesis by (intro kept keeps_tables) (simp add: untouched_def)
  qed
qed

lemma merges_kept:
  assumes "lawful g" and "task_keys db0" and "(engine_step g R)\<^sup>*\<^sup>* db0 db"
  shows "task_keys db \<and> merge_record db0 \<subseteq> merge_record db"
  using assms(3)
proof induction
  case (step d e)
  then show ?case using step_record [OF assms(1) step(2)] by (auto simp: adds_record_def)
qed (simp add: assms(2))


section \<open>A run that merges\<close>

lemma finished_store_keys: "task_keys finished_store"
  by (simp add: task_keys_def finished_store_def)

lemma sample_merge:
  obtains it db r db' sha where "sample_phase_a = Inr (Attempt it, db)" "(engine_step digest_config sample_merge_repo)\<^sup>*\<^sup>* finished_store db"
    "task_keys db" "engine_step digest_config sample_merge_repo db db'" "task_keys db'" "(it_task_id it, sha) \<in> merge_record db'"
    "merge_record db = {}"
proof -
  obtain it db where a: "sample_phase_a = Inr (Attempt it, db)" by (rule sample_attempt)
  obtain r db' where "sample_phase_c db it = Inr (r, db')" and r: "is_success r"
    using sample_phase_c_merges [unfolded a] by (cases "sample_phase_c db it") auto
  then have c: "connect_phase_c digest_config sample_merge_repo 3 it (Some ''c1'') None db () = (Inr (r, db'), ())"
    by (simp add: sample_phase_c_def prod_eq_iff)
  have a': "connect_phase_a digest_config sample_merge_repo 2 2 ''T'' (Some ''a'') (Some 1) None None None finished_store () =
      (Inr (Attempt it, db), ())"
    using a by (simp add: sample_phase_a_def prod_eq_iff)
  have "merge_record finished_store = {}"
    by (simp add: merge_record_def merged_rows_def finished_store_def new_task_def empty_db_def)
  then have none: "task_keys db" "merge_record db = {}"
    using keeps_phase_a [OF digest_config_lawful a'] finished_store_keys by (simp_all add: keeps_record_def)
  obtain sha where "adds_record {(it_task_id it, sha)} db db'" using success_record [OF digest_config_lawful c r] by blast
  then have "task_keys db'" "(it_task_id it, sha) \<in> merge_record db'" using none by (simp_all add: adds_record_def)
  then show ?thesis
    using that [OF a r_into_rtranclp [where r = "engine_step digest_config sample_merge_repo", OF engine_step.phase_a [OF a']] none(1) engine_step.phase_c [OF c]] none(2) by blast
qed





end
