(* ===== verification/Runs.thy ===== *)
theory Runs
  imports MergeRecord
begin

text \<open>
  The verbs of several critical sections as runs of the engine, by rely and guarantee: each of their
  sections is a step of the engine or leaves orbits and tasks alone, and what the others do in between
  is assumed to be runs of the engine too. The facts of all runs so hold across \<open>connect\<close> and
  \<open>barrier_arrive\<close>, and a success of either is a merge that has been recorded.
\<close>

section \<open>Sections that leave orbits and tasks alone\<close>

lemma untouched_refl [simp]: "untouched db db"
  by (simp add: untouched_def grows_refl)

lemma untouched_trans: "untouched a b \<Longrightarrow> untouched b c \<Longrightarrow> untouched a c"
  by (auto simp: untouched_def intro: grows_trans)

lemma untouched_idem [simp]: "untouched db (db\<lparr>idempotency := xs\<rparr>)"
  by (simp add: untouched_def grows_tables)

lemma untouched_run: "untouched db db' \<Longrightarrow> (engine_step g R)\<^sup>*\<^sup>* db db'"
  by (rule r_into_rtranclp) (rule engine_step.elsewhere)

lemma untouched_enter: "idem_enter sha now rid aid verb args db = Run d \<Longrightarrow> untouched db d"
  using idem_enter_db [of sha now rid aid verb args db d] untouched_idem [of db "idempotency d"] by simp

lemma untouched_leave: "idem_leave sha now rid aid verb args sl db = Inr d \<Longrightarrow> untouched db d"
  using idem_leave_db [of sha now rid aid verb args sl db d] untouched_idem [of db "idempotency d"] by simp

lemma untouched_split: "complete_split_idem sha now request aid verb args op response db = Inr (r, d) \<Longrightarrow> untouched db d"
  by (auto simp: complete_split_idem_def finish_idem_exact_def clear_idem_exact_def update_exact_def Let_def split: option.splits if_splits)

lemma untouched_terminal: "finish_split_idem_terminal sha now request aid verb args response db = Inr (r, d) \<Longrightarrow> untouched db d"
  by (auto simp: finish_split_idem_terminal_def finish_idem_exact_def update_exact_def Let_def split: option.splits if_splits)

lemma untouched_reserve:
  assumes "with_idem sha now request aid verb args (connect_reserve_body tid) db = Inr (r, d)"
  shows "untouched db d"
proof (rule with_idem_preserves [where P = "untouched db", OF assms untouched_refl])
  show "untouched db d'" if "connect_reserve_body tid e = Inr (sl, d')" "untouched db e" for e sl d'
    using that by (auto simp: connect_reserve_body_def split: option.splits if_splits)
qed (auto intro: untouched_trans)

lemma untouched_barrier: "untouched db (set_barrier bid f db)"
  by (simp add: untouched_def grows_tables)

lemma untouched_eval: "barrier_eval g now bid can_trip db = Inr (plan, d) \<Longrightarrow> untouched db d"
  by (simp add: untouched_def grows_barrier tables_evaluate)

lemma untouched_break: "break_barrier g b why db = Inr d \<Longrightarrow> untouched db d"
  by (simp add: untouched_def grows_break_barrier tables_break)

lemma untouched_party: "untouched db (set_barrier_party bid gen tid f db)"
  by (simp add: untouched_def grows_def set_barrier_party_def task_tables_def)

lemma untouched_arrive:
  assumes "arrive_after_sweep g now nm aid tid fn epoch db = Inr (sl, plan, d)"
  shows "untouched db d"
  using assms
  by (auto simp: arrive_after_sweep_def arrive_at_def Let_def elim!: bind_resE split: option.splits if_splits
      dest!: untouched_eval intro: untouched_trans [OF untouched_party])

lemma untouched_failed: "trip_failed g bid why db = Inr d \<Longrightarrow> untouched db d"
  by (auto simp: trip_failed_def split: option.splits if_splits dest: untouched_break)

lemma untouched_finish: "finish_trip g bid gen nm merged db = Inr (r, d) \<Longrightarrow> untouched db d"
  by (auto simp: finish_trip_def Let_def untouched_barrier elim!: bind_resE split: option.splits if_splits)

lemma untouched_terminalize: "terminalize_barrier g bid gen exc db = Inr (r, d) \<Longrightarrow> untouched db d"
  by (auto simp: terminalize_barrier_def Let_def untouched_barrier elim!: bind_resE split: option.splits if_splits dest: untouched_break)

lemma sweep_run: "sweep_inline g now db = Inr d \<Longrightarrow> (engine_step g R)\<^sup>*\<^sup>* db d"
  by (rule r_into_rtranclp, rule engine_step.sweep [where now = now]) (simp add: sweep_report_def)

lemma arrive_section_run:
  assumes "arrive_section g now nm aid tid fn request epoch db = Inr (r, db')"
  shows "(engine_step g R)\<^sup>*\<^sup>* db db'"
proof -
  have body: "(engine_step g R)\<^sup>*\<^sup>* d d'"
    if "bind_res (sweep_inline g now d) (arrive_after_sweep g now nm aid tid fn epoch) = Inr (sl, plan, d')" for d sl plan d'
    using that by (auto elim!: bind_resE dest!: untouched_arrive intro: rtranclp_trans [OF sweep_run untouched_run])
  show ?thesis
    using assms unfolding arrive_section_def with_idem_plan_def
    by (auto elim!: bind_resE split: option.splits idem_entry.splits dest!: body untouched_enter untouched_leave)
      (meson rtranclp_trans untouched_run)+
qed

section \<open>Processes are runs of the engine\<close>

lemma runs_sections [runs]:
  "runs_as (engine_step g R) (locked_io (connect_phase_a g R now tick tid aid fn epoch request digest))"
  "runs_as (engine_step g R) (locked_io (barrier_connect_phase_a g R now tick bid gen tid expected))"
  "runs_as (engine_step g R) (locked_io (connect_phase_c g R now it sha err))"
  "runs_as (engine_step g R) (locked (with_idem sha' now request aid verb args (connect_reserve_body tid)))"
  "runs_as (engine_step g R) (locked (complete_split_idem sha' now request aid verb args op response))"
  "runs_as (engine_step g R) (locked (finish_split_idem_terminal sha' now request aid verb args response))"
  "runs_as (engine_step g R) (locked (terminalize_barrier g bid gen exc))"
  "runs_as (engine_step g R) (locked (finish_trip g bid gen nm merged))"
  "runs_as (engine_step g R) (locked (\<lambda>db. bind_res (trip_failed g bid why db) (\<lambda>db. Inr ((), db))))"
  by (rule runs_locked runs_locked_io,
      auto elim!: bind_resE
        intro: r_into_rtranclp engine_step.phase_a engine_step.party_phase_a engine_step.phase_c untouched_run
          untouched_reserve untouched_split untouched_terminal untouched_terminalize untouched_finish untouched_failed)+

lemma runs_recover [runs]: "runs_as (engine_step g R) (recover_proc g R now)"
  unfolding recover_proc_def
  by (rule runs_locked_io) (auto split: prod.splits sum.splits intro: r_into_rtranclp engine_step.recover)

lemma runs_connect_owned:
  assumes "attempt_others (engine_step g R) (cr_attempt run)" and "\<And>d. (engine_step g R)\<^sup>*\<^sup>* d (cr_leaving run d)"
  shows "runs_as (engine_step g R) (connect_owned g R run tid aid fn push request epoch)"
  unfolding connect_owned_def Let_def
  by (auto intro!: runs runs_attempt [OF assms(1)] assms(2) split: option.split)

lemma runs_effect_lock:
  assumes "runs_as S m" and "\<And>oth d. oth \<in> set waits \<Longrightarrow> S\<^sup>*\<^sup>* d (oth d)"
  shows "runs_as S (effect_lock busy waits owns m)"
  using assms(2)
proof (induction waits)
  case Nil
  then show ?case using assms(1) by (cases owns) (auto simp: runs_as_def)
next
  case (Cons oth waits)
  then have IH: "runs_as S (effect_lock busy waits owns m)" by simp
  show ?case
  proof (rule runs_asI)
    fix db w r db' w'
    assume "effect_lock busy (oth # waits) owns m db w = (r, db', w')"
    then consider "db' = db" | "effect_lock busy waits owns m (oth db) w = (r, db', w')" by (auto split: if_splits)
    then show "S\<^sup>*\<^sup>* db db'"
    proof cases
      case 2
      then show ?thesis using runs_asD [OF IH] Cons.prems [of oth db] by (auto intro: rtranclp_trans)
    qed simp
  qed
qed

lemma runs_steps:
  "(\<And>tid. attempt_others (engine_step g R) (attempts tid)) \<Longrightarrow>
     runs_as (engine_step g R) (trip_steps g R bid gen nm attempts plan merged)"
proof (induction plan arbitrary: merged)
  case (Cons x plan)
  show ?case
    by (cases x) (auto simp: barrier_connect_one_def intro!: runs runs_attempt Cons)
qed (simp add: runs)

lemma runs_terminalize [runs]: "runs_as (engine_step g R) (terminalize_exception g exc_name bid gen nm now request aid args e)"
  unfolding terminalize_exception_def by (auto intro!: runs split: option.split)

lemma runs_trip:
  assumes "\<And>tid. attempt_others (engine_step g R) (tr_attempts run tid)" and "\<And>d. (engine_step g R)\<^sup>*\<^sup>* d (tr_finishing run d)"
    and "\<And>d. (engine_step g R)\<^sup>*\<^sup>* d (tr_leaving run d)"
  shows "runs_as (engine_step g R) (barrier_trip g R exc_name run bid gen nm plan request aid args)"
  unfolding barrier_trip_def Let_def
  by (auto intro!: runs runs_steps assms split: trip_end.split)

lemma runs_arrive_owned:
  assumes "\<And>tid. attempt_others (engine_step g R) (tr_attempts (br_trip run) tid)"
    and "\<And>d. (engine_step g R)\<^sup>*\<^sup>* d (tr_finishing (br_trip run) d)" and "\<And>d. (engine_step g R)\<^sup>*\<^sup>* d (tr_leaving (br_trip run) d)"
  shows "runs_as (engine_step g R) (barrier_arrive_owned g R exc_name run nm aid tid fn request epoch)"
  unfolding barrier_arrive_owned_def
  by (auto intro!: runs runs_trip assms runs_locked elim!: bind_resE dest!: arrive_section_run split: option.split)

section \<open>What a success tells\<close>

definition refused :: "json \<Rightarrow> bool" where
  "refused r \<longleftrightarrow> dict_get ''ok'' r = Some (JBool False)"

lemma refused_simps [simp]: "refused (JDict ((''ok'', JBool b) # kvs)) \<longleftrightarrow> \<not> b" "refused (ok_false why kvs)"
  by (simp_all add: refused_def ok_false_def)

lemma success_not_refused: "is_success r \<Longrightarrow> \<not> refused r"
  by (cases r) (auto simp: refused_def)

lemma truthy_not_refused: "truthy (dict_get ''ok'' r) \<Longrightarrow> \<not> refused r"
  by (auto simp: refused_def)

lemma check_alive_refused: "check_alive aid epoch db = Some r \<Longrightarrow> refused r"
  by (auto simp: check_alive_def split: option.splits if_splits)

definition recorded :: "string \<Rightarrow> db \<Rightarrow> bool" where
  "recorded tid db \<longleftrightarrow> (\<exists>sha. (tid, sha) \<in> merge_record db)"

lemma merged_row_recorded: "get_task tid db = Some t \<Longrightarrow> t_state t = ''MERGED'' \<Longrightarrow> recorded tid db"
  by (force simp: recorded_def merge_record_def merged_rows_def get_task_def dest!: fetchone_filter_Some)

lemma merged_task_recorded: "merged_task db tid \<Longrightarrow> recorded tid db"
  by (auto simp: merged_task_def split: option.splits intro: merged_row_recorded)

lemma recorded_run:
  "lawful g \<Longrightarrow> task_keys db \<Longrightarrow> (engine_step g R)\<^sup>*\<^sup>* db db' \<Longrightarrow> recorded tid db \<Longrightarrow> recorded tid db'"
  using merges_kept [of g db R db'] by (auto simp: recorded_def)

lemma phase_c_recorded:
  assumes "lawful g" and "connect_phase_c g R now it sha err db w = (Inr (r, db'), w')" and "\<not> refused r" and "task_keys db"
  shows "recorded (it_task_id it) db'"
proof -
  have stop: "connect_stop it p d = Some (r, d') \<Longrightarrow> refused r" for p d d'
    by (auto simp: connect_stop_def stopped_def preserved_def split: option.splits if_splits)
  have undo: "connect_roll_back g now it e culprits d = Inr (r, d') \<Longrightarrow> refused r" for e culprits d d'
    by (auto simp: connect_roll_back_def Let_def elim!: bind_resE split: prod.splits)
  have commit: "connect_commit g now it s d = Inr (r, d') \<Longrightarrow> is_success r" for s d d'
    by (auto simp: connect_commit_def Let_def elim!: bind_resE split: prod.splits)
  have "is_success r"
    using assms(2,3) by (auto simp: connect_phase_c_def fence_response_def preserved_def split: prod.splits sum.splits if_splits option.splits
        dest: stop undo commit)
  from success_record [OF assms(1,2) this] show ?thesis using assms(4) by (auto simp: adds_record_def recorded_def)
qed

text \<open>A Phase A answers with a success only for a task that is merged, and attempts the task it is asked for.\<close>

definition sound_phase_a :: "string \<Rightarrow> (rat \<Rightarrow> rat \<Rightarrow> ('w, phase_a_answer) proc) \<Rightarrow> bool" where
  "sound_phase_a tid A \<longleftrightarrow> (\<forall>now tick db w a db' w'. A now tick db w = (Inr a, db', w') \<longrightarrow>
     (case a of Answered r \<Rightarrow> refused r \<or> recorded tid db' | Attempt it \<Rightarrow> it_task_id it = tid))"

lemma start_attempt_answer:
  "start_attempt g now t writes it db = Inr (a, db') \<Longrightarrow> (case a of Answered r \<Rightarrow> refused r | Attempt i \<Rightarrow> i = it)"
  by (auto simp: start_attempt_def Let_def elim!: bind_resE split: option.splits if_splits prod.splits)

lemma sound_connect: "sound_phase_a tid (\<lambda>now tick. locked_io (connect_phase_a g R now tick tid aid fn epoch request digest))"
proof -
  have guards: "refused r \<or> recorded tid d" if "connect_guards tid aid fn epoch d = Inl r" for r d
    using that by (auto simp: connect_guards_def Let_def stale_response_def split: option.splits if_splits
        dest: check_alive_refused merged_row_recorded)
  have admit: "case a of Answered r \<Rightarrow> refused r | Attempt it \<Rightarrow> it_task_id it = t_task_id t"
    if "connect_admit g now tick aid request digest t writes snap globs d = Inr (a, d')" for now tick t writes snap globs d a d'
    using that by (auto simp: connect_admit_def Let_def audit_response_def split: if_splits prod.splits option.splits
        dest!: start_attempt_answer split: phase_a_answer.splits)
  have row: "t_task_id t = tid" if "connect_guards tid aid fn epoch d = Inr (t, writes)" for d t writes
    using that by (auto simp: connect_guards_def Let_def split: option.splits if_splits dest: get_task_key)
  show ?thesis
    unfolding sound_phase_a_def locked_io_def connect_phase_a_def
    by (auto split: prod.splits sum.splits phase_a_answer.splits dest!: guards admit row)
qed

lemma sound_party: "sound_phase_a tid (\<lambda>now tick. locked_io (barrier_connect_phase_a g R now tick bid gen tid expected))"
proof -
  have lost: "refused r" if "trip_lost bid gen d = Some r" for r d
    using that by (auto simp: trip_lost_def Let_def split: if_splits)
  have guards: "refused r \<or> recorded tid d" if "party_guards bid gen tid expected d = Inl r" for r d
    using that by (auto simp: party_guards_def Let_def split: option.splits if_splits dest: lost merged_row_recorded)
  have admit: "case a of Answered r \<Rightarrow> refused r | Attempt it \<Rightarrow> it_task_id it = t_task_id t"
    if "party_admit g now tick t writes snap d = Inr (a, d')" for now tick t writes snap d a d'
    using that by (auto simp: party_admit_def Let_def party_audit_response_def split: if_splits prod.splits option.splits
        dest!: start_attempt_answer split: phase_a_answer.splits)
  have row: "t_task_id t = tid" if "party_guards bid gen tid expected d = Inr (t, writes)" for d t writes
    using party_guards_row [OF that] get_task_key by blast
  show ?thesis
    unfolding sound_phase_a_def locked_io_def barrier_connect_phase_a_def
    by (auto split: prod.splits sum.splits phase_a_answer.splits dest!: guards admit row)
qed

lemma sound_tries: "sound_phase_a tid A \<Longrightarrow> phase_a_tries A first later db w = (Inr a, db', w') \<Longrightarrow>
    (case a of Answered r \<Rightarrow> refused r \<or> recorded tid db' | Attempt it \<Rightarrow> it_task_id it = tid)"
proof (induction later arbitrary: first db w)
  case Nil
  obtain now tick where "first = (now, tick)" by (cases first)
  then have "A now tick db w = (Inr a, db', w')" using Nil by simp
  then show ?case using Nil(1) unfolding sound_phase_a_def by blast
next
  case (Cons x later)
  obtain now tick where first: "first = (now, tick)" by (cases first)
  obtain oth again where x: "x = (oth, again)" by (cases x)
  obtain a1 d v where a1: "A now tick db w = (Inr a1, d, v)"
    using Cons.prems(2) by (auto simp: first x proc_bind_def split: prod.splits sum.splits)
  show ?case
  proof (cases "wants_retry a1")
    case True
    then have "phase_a_tries A again later (oth d) v = (Inr a, db', w')"
      using Cons.prems(2) a1 by (simp add: first x proc_bind_def meanwhile_def)
    then show ?thesis by (rule Cons.IH [OF Cons.prems(1)])
  next
    case False
    then have "a1 = a" "d = db'" using Cons.prems(2) a1 by (simp_all add: first x proc_bind_def proc_return_def)
    then show ?thesis using Cons.prems(1) a1 unfolding sound_phase_a_def by blast
  qed
qed

lemma attempt_records:
  assumes "lawful g" and "run_attempt g R push A ar db w = (Inr (it, r), db', w')" and "\<not> refused r" and "task_keys db"
    and "sound_phase_a tid A" and "attempt_others (engine_step g R) ar" and "\<And>now tick. runs_as (engine_step g R) (A now tick)"
  shows "recorded tid db'"
proof -
  let ?d = "ar_waiting ar db"
  have wait: "(engine_step g R)\<^sup>*\<^sup>* db ?d" using assms(6) by (simp add: attempt_others_def)
  obtain a d v where a: "phase_a_tries A (ar_first ar) (ar_again ar) ?d w = (Inr a, d, v)"
    using assms(2) by (auto simp: run_attempt_def proc_bind_def meanwhile_def split: prod.splits sum.splits)
  note sound = sound_tries [OF assms(5) a]
  show ?thesis
  proof (cases a)
    case (Answered r')
    then have "r' = r" "d = db'"
      using assms(2) a by (simp_all add: run_attempt_def proc_bind_def meanwhile_def proc_return_def)
    then show ?thesis using sound Answered assms(3) by simp
  next
    case (Attempt i)
    obtain sha err v1 v2 where c: "locked_io (connect_phase_c g R (ar_commit ar) i sha err) (ar_merging ar d) v1 = (Inr r, db', v2)"
      using assms(2) a Attempt
      by (auto simp: run_attempt_def proc_bind_def meanwhile_def proc_return_def unlocked_def split: prod.splits sum.splits)
    then have c': "connect_phase_c g R (ar_commit ar) i sha err (ar_merging ar d) v1 = (Inr (r, db'), v2)"
      by (auto simp: locked_io_def split: prod.splits sum.splits)
    have "runs_as (engine_step g R) (phase_a_tries A (ar_first ar) (ar_again ar))"
      by (rule runs_tries [OF assms(7)]) (use assms(6) in \<open>auto simp: attempt_others_def\<close>)
    then have "(engine_step g R)\<^sup>*\<^sup>* ?d d" using a by (rule runs_asD)
    moreover have "(engine_step g R)\<^sup>*\<^sup>* d (ar_merging ar d)" using assms(6) by (simp add: attempt_others_def)
    ultimately have "task_keys (ar_merging ar d)"
      using merges_kept [OF assms(1,4), of R "ar_merging ar d"] wait by (meson rtranclp_trans)
    then show ?thesis using phase_c_recorded [OF assms(1) c' assms(3)] sound Attempt by simp
  qed
qed

lemma split_answer:
  "complete_split_idem sha now request aid verb args op r db = Inr (r', d) \<Longrightarrow> \<not> refused r' \<Longrightarrow> r' = r"
  by (auto simp: complete_split_idem_def Let_def split: option.splits if_splits prod.splits)

lemma step_records:
  assumes "lawful g" and "\<And>tid. attempt_others (engine_step g R) (attempts tid)"
  shows "trip_steps g R bid gen nm attempts plan merged db w = (Inr (AllMerged out), db', w') \<Longrightarrow> task_keys db \<Longrightarrow>
    x \<in> set plan \<Longrightarrow> recorded (fst x) db'"
proof (induction plan arbitrary: merged db w)
  case (Cons y plan)
  obtain tid fn where y: "y = (tid, fn)" by (cases y)
  obtain it r d v where one: "run_attempt g R None (\<lambda>now tick. locked_io (barrier_connect_phase_a g R now tick bid gen tid fn)) (attempts tid) db w =
      (Inr (it, r), d, v)"
    using Cons.prems(1) by (auto simp: y proc_bind_def barrier_connect_one_def split: prod.splits sum.splits)
  have ok: "truthy (dict_get ''ok'' r)"
    and rest: "trip_steps g R bid gen nm attempts plan (merged @ [tid]) d v = (Inr (AllMerged out), db', w')"
    using Cons.prems(1) one
    by (auto simp: y proc_bind_def barrier_connect_one_def proc_return_def split: prod.splits sum.splits if_splits)
  have done1: "recorded tid d"
    by (rule attempt_records [OF assms(1) one truthy_not_refused [OF ok] Cons.prems(2) sound_party assms(2)]) (rule runs_sections)
  have "(engine_step g R)\<^sup>*\<^sup>* db d"
    by (rule runs_asD [where m = "run_attempt g R None (\<lambda>now tick. locked_io (barrier_connect_phase_a g R now tick bid gen tid fn)) (attempts tid)"])
      (intro runs_attempt assms(2) runs_sections, rule one)
  then have keys: "task_keys d" using merges_kept [OF assms(1) Cons.prems(2)] by blast
  show ?case
  proof (cases "x = y")
    case True
    have "runs_as (engine_step g R) (trip_steps g R bid gen nm attempts plan (merged @ [tid]))" by (rule runs_steps [OF assms(2)])
    then have "(engine_step g R)\<^sup>*\<^sup>* d db'" using rest by (rule runs_asD)
    then show ?thesis using recorded_run [OF assms(1) keys _ done1] True y by simp
  next
    case False
    then show ?thesis using Cons.IH [OF rest keys] Cons.prems(3) by simp
  qed
qed simp

lemma stopped_steps:
  "trip_steps g R bid gen nm attempts plan merged db w = (Inr (Stopped r), db', w') \<Longrightarrow> refused r"
proof (induction plan arbitrary: merged db w)
  case (Cons y plan)
  then show ?case
    by (cases y) (auto simp: proc_bind_def proc_return_def split: prod.splits sum.splits if_splits)
qed (simp add: proc_return_def)

definition trip_others :: "(db \<Rightarrow> db \<Rightarrow> bool) \<Rightarrow> trip_run \<Rightarrow> bool" where
  "trip_others S run \<longleftrightarrow> (\<forall>tid. attempt_others S (tr_attempts run tid)) \<and>
     (\<forall>d. S\<^sup>*\<^sup>* d (tr_finishing run d) \<and> S\<^sup>*\<^sup>* d (tr_leaving run d))"

lemma trip_records:
  assumes "lawful g" and "barrier_trip g R exc_name run bid gen nm plan request aid args db w = (Inr r, db', w')"
    and "\<not> refused r" and "task_keys db" and "trip_others (engine_step g R) run" and "x \<in> set plan"
  shows "recorded (fst x) db'"
proof -
  let ?now = "tr_answer run"
  let ?handler = "terminalize_exception g exc_name bid gen nm ?now request aid args"
  let ?answer = "\<lambda>r. proc_bind (meanwhile (tr_leaving run)) (\<lambda>_.
            locked (complete_split_idem (g_sha g) ?now request aid ''barrier_arrive'' args None r))"
  have oth: "\<And>tid. attempt_others (engine_step g R) (tr_attempts run tid)" "\<And>d. (engine_step g R)\<^sup>*\<^sup>* d (tr_finishing run d)"
    "\<And>d. (engine_step g R)\<^sup>*\<^sup>* d (tr_leaving run d)"
    using assms(5) by (simp_all add: trip_others_def)
  let ?last = "\<lambda>merged. proc_bind (meanwhile (tr_finishing run)) (\<lambda>_.
          proc_bind (proc_cleanup (locked (finish_trip g bid gen nm merged)) ?handler) ?answer)"
  obtain o1 d1 v1 where c: "proc_cleanup (proc_bind (trip_steps g R bid gen nm (tr_attempts run) plan []) (\<lambda>outcome. case outcome of
           Stopped r \<Rightarrow> proc_bind (?answer r) (\<lambda>r. proc_return (Stopped r))
         | AllMerged merged \<Rightarrow> proc_return (AllMerged merged))) ?handler db w = (Inr o1, d1, v1)"
    and k: "(case o1 of Stopped r \<Rightarrow> proc_return r | AllMerged merged \<Rightarrow> ?last merged) d1 v1 = (Inr r, db', w')"
    using assms(2) unfolding barrier_trip_def Let_def by (subst (asm) bind_Inr) blast
  obtain outcome d v where steps: "trip_steps g R bid gen nm (tr_attempts run) plan [] db w = (Inr outcome, d, v)"
    and k1: "(case outcome of Stopped r \<Rightarrow> proc_bind (?answer r) (\<lambda>r. proc_return (Stopped r))
         | AllMerged merged \<Rightarrow> proc_return (AllMerged merged)) d v = (Inr o1, d1, v1)"
    using c unfolding cleanup_Inr by (subst (asm) bind_Inr) blast
  show ?thesis
  proof (cases outcome)
    case (Stopped s)
    then have "refused s" using steps by (simp add: stopped_steps)
    moreover have "r = s" using k k1 Stopped assms(3) by (auto simp: proc_Inr dest: split_answer)
    ultimately show ?thesis using assms(3) by simp
  next
    case (AllMerged merged)
    have rec: "recorded (fst x) d" by (rule step_records [OF assms(1) oth(1) steps [unfolded AllMerged] assms(4,6)])
    have "runs_as (engine_step g R) (trip_steps g R bid gen nm (tr_attempts run) plan [])" by (rule runs_steps [OF oth(1)])
    then have "(engine_step g R)\<^sup>*\<^sup>* db d" using steps by (rule runs_asD)
    then have keys: "task_keys d" using merges_kept [OF assms(1,4)] by blast
    have "runs_as (engine_step g R) (?last merged)" by (auto intro!: runs oth)
    moreover have "?last merged d v = (Inr r, db', w')" using k k1 AllMerged by (simp add: return_Inr)
    ultimately have "(engine_step g R)\<^sup>*\<^sup>* d db'" by (rule runs_asD)
    then show ?thesis by (rule recorded_run [OF assms(1) keys _ rec])
  qed
qed

text \<open>A plan, with what is merged already, covers the parties of the barrier.\<close>

lemma plan_of_covers:
  assumes "p \<in> set live"
  shows "merged_task d (p_task_id p) \<or> p_task_id p \<in> fst ` set (plan_of live d)"
proof -
  have "(p_task_id p, p_arrive_fence p) \<in> set (plan_of live d)" if "\<not> merged_task d (p_task_id p)"
    using that assms by (auto simp: plan_of_set)
  then show ?thesis by force
qed

lemma plan_covers:
  assumes "lawful g" and "barrier_eval g now bid True db = Inr (Some plan, db')"
  shows "\<exists>b. get_barrier bid db = Some b \<and> (\<forall>p\<in>set (parties_of bid (b_generation b) db').
    merged_task db' (p_task_id p) \<or> p_task_id p \<in> fst ` set plan)"
  using assms(2)
proof (cases rule: barrier_eval_cases)
  case (settled b live)
  have id: "b_barrier_id b = bid" using get_barrier_id [OF settled(1)] by simp
  have plan: "db' = set_barrier (b_barrier_id b) (\<lambda>b. b\<lparr>b_state := ''TRIPPING''\<rparr>) db" "plan = plan_of live db'"
    using settle_plan [OF settled(4) assms(1)] by auto
  have "{p\<in>set (parties_of bid (b_generation b) db). \<not> party_alive db p} = {}"
    using live_partiesE(2) [OF settled(3)] id by simp
  then have "set live = set (parties_of bid (b_generation b) db)"
    using live_partiesE(1) [OF settled(3)] id by blast
  then have "set (parties_of bid (b_generation b) db') = set live" by (simp add: plan(1))
  then show ?thesis using settled(1) plan(2) plan_of_covers [where live = live and d = db'] by blast
next
  case (shrunk b live dead b' live')
  let ?d = "shrink_barrier b dead (length live) db"
  have id: "b_barrier_id b = bid" using get_barrier_id [OF shrunk(1)] by simp
  have sub: "set (parties_of bid (b_generation b) ?d) \<subseteq> set live"
    using parties_shrink_live [OF shrunk(4), of b "b_parties b"] id by simp
  have plan: "db' = set_barrier (b_barrier_id b') (\<lambda>b. b\<lparr>b_state := ''TRIPPING''\<rparr>) ?d" "plan = plan_of live' db'"
    using settle_plan [OF shrunk(9) assms(1)] by auto
  have "set live' = {p \<in> set (parties_of bid (b_generation b) ?d). party_alive ?d p}"
    using shrunk(7,8) id by (simp add: live_parties_def)
  also have "\<dots> = set (parties_of bid (b_generation b) ?d)"
    using sub live_partiesE(1) [OF shrunk(4)] by auto
  finally have "set (parties_of bid (b_generation b) db') = set live'" by (simp add: plan(1))
  then show ?thesis using shrunk(1) plan(2) plan_of_covers [where live = live' and d = db'] by blast
qed simp_all

definition connect_others :: "(db \<Rightarrow> db \<Rightarrow> bool) \<Rightarrow> effect_run \<Rightarrow> connect_run \<Rightarrow> bool" where
  "connect_others S er run \<longleftrightarrow> (\<forall>oth\<in>set (er_waits er). \<forall>d. S\<^sup>*\<^sup>* d (oth d)) \<and> (\<forall>d. S\<^sup>*\<^sup>* d (er_between er d)) \<and>
     attempt_others S (cr_attempt run) \<and> (\<forall>d. S\<^sup>*\<^sup>* d (cr_leaving run d))"

definition arrive_others :: "(db \<Rightarrow> db \<Rightarrow> bool) \<Rightarrow> effect_run \<Rightarrow> arrive_run \<Rightarrow> bool" where
  "arrive_others S er run \<longleftrightarrow> (\<forall>d. S\<^sup>*\<^sup>* d (er_between er d)) \<and> trip_others S (br_trip run)"

lemma effect_lock_Inr:
  "effect_lock busy waits owns m db w = (Inr r, db', w') \<Longrightarrow> (\<And>oth d. oth \<in> set waits \<Longrightarrow> S\<^sup>*\<^sup>* d (oth d)) \<Longrightarrow>
     (\<exists>d. r = busy d) \<or> (\<exists>d. S\<^sup>*\<^sup>* db d \<and> m d w = (Inr r, db', w'))"
proof (induction waits arbitrary: db)
  case Nil
  then show ?case by (cases owns) auto
next
  case (Cons oth waits)
  show ?case
  proof (cases "effect_refused (busy db)")
    case True
    then show ?thesis using Cons.prems(1) by auto
  next
    case False
    then have "effect_lock busy waits owns m (oth db) w = (Inr r, db', w')" using Cons.prems(1) by simp
    then have "(\<exists>d. r = busy d) \<or> (\<exists>d. S\<^sup>*\<^sup>* (oth db) d \<and> m d w = (Inr r, db', w'))" using Cons.IH Cons.prems(2) by simp
    moreover have "S\<^sup>*\<^sup>* db (oth db)" using Cons.prems(2) by simp
    ultimately show ?thesis by (meson rtranclp_trans)
  qed
qed

lemma owned_records:
  assumes "lawful g" and "connect_owned g R run tid aid fn push None epoch db w = (Inr r, db', w')" and "\<not> refused r"
    and "task_keys db" and "attempt_others (engine_step g R) (cr_attempt run)" and "\<And>d. (engine_step g R)\<^sup>*\<^sup>* d (cr_leaving run d)"
  shows "recorded tid db'"
proof -
  let ?A = "\<lambda>now tick. locked_io (connect_phase_a g R now tick tid aid fn epoch None None)"
  consider (noop) t where "get_task tid db = Some t" "t_state t = ''MERGED''" "db' = db"
    | (run) "proc_bind (run_attempt g R push ?A (cr_attempt run)) (\<lambda>(it, r).
        if it \<noteq> None \<and> truthy (dict_get ''_preserve_idempotency'' r) then proc_return (dict_pop ''_preserve_idempotency'' r)
        else proc_bind (meanwhile (cr_leaving run)) (\<lambda>_.
          locked (complete_split_idem (g_sha g) (cr_answer run) None aid ''connect'' (connect_args tid aid fn push epoch)
            (map_option operation_of it) r))) db w = (Inr r, db', w')"
    using assms(2)
    by (auto simp: connect_owned_def Let_def bind_Inr [of "locked _"] locked_Inr with_idem_def connect_reserve_body_def return_Inr
        deferred_slot_def slot_response_def slot_set_def split: option.splits if_splits)
  then show ?thesis
  proof cases
    case noop
    then show ?thesis by (simp add: merged_row_recorded)
  next
    case run
    obtain it r1 d v where one: "run_attempt g R push ?A (cr_attempt run) db w = (Inr (it, r1), d, v)"
      and rest: "(if it \<noteq> None \<and> truthy (dict_get ''_preserve_idempotency'' r1) then proc_return (dict_pop ''_preserve_idempotency'' r1)
        else proc_bind (meanwhile (cr_leaving run)) (\<lambda>_.
          locked (complete_split_idem (g_sha g) (cr_answer run) None aid ''connect'' (connect_args tid aid fn push epoch)
            (map_option operation_of it) r1))) d v = (Inr r, db', w')"
      using run by (subst (asm) bind_Inr) force
    have pop: "dict_get ''ok'' (dict_pop k s) = dict_get ''ok'' s" if "k \<noteq> ''ok''" for k s
    proof (cases s)
      case (JDict kvs)
      show ?thesis unfolding JDict using that by (induction kvs) auto
    qed simp_all
    have ok: "\<not> refused r1" and after: "db' = d \<or> db' = cr_leaving run d"
      using rest assms(3) by (auto simp: refused_def pop complete_split_idem_def proc_Inr split: if_splits)
    have rec: "recorded tid d"
      by (rule attempt_records [OF assms(1) one ok assms(4) sound_connect assms(5)]) (rule runs_sections)
    have "(engine_step g R)\<^sup>*\<^sup>* db d"
      by (rule runs_asD [where m = "run_attempt g R push ?A (cr_attempt run)"]) (intro runs_attempt assms(5) runs_sections, rule one)
    then have keys: "task_keys d" using merges_kept [OF assms(1,4)] by blast
    have "(engine_step g R)\<^sup>*\<^sup>* d db'" using after assms(6) by auto
    then show ?thesis by (rule recorded_run [OF assms(1) keys _ rec])
  qed
qed

lemma recover_Inr:
  "recover_proc g R now db w = (Inr u, d, v) \<Longrightarrow> (engine_step g R)\<^sup>*\<^sup>* db d"
  by (erule runs_asD [OF runs_recover])

lemma runs_connect:
  assumes "connect_others (engine_step g R) er run"
  shows "runs_as (engine_step g R) (connect g R er run tid aid fn push request epoch)"
proof -
  have oth: "attempt_others (engine_step g R) (cr_attempt run)" "\<And>d. (engine_step g R)\<^sup>*\<^sup>* d (cr_leaving run d)"
    "\<And>d. (engine_step g R)\<^sup>*\<^sup>* d (er_between er d)" "\<And>oth d. oth \<in> set (er_waits er) \<Longrightarrow> (engine_step g R)\<^sup>*\<^sup>* d (oth d)"
    using assms by (simp_all add: connect_others_def)
  show ?thesis
    unfolding connect_def by (intro runs runs_effect_lock runs_connect_owned oth)
qed

lemma runs_arrive:
  assumes "arrive_others (engine_step g R) er run"
  shows "runs_as (engine_step g R) (barrier_arrive g R exc_name er run nm aid tid fn request epoch)"
proof -
  have oth: "\<And>tid. attempt_others (engine_step g R) (tr_attempts (br_trip run) tid)"
    "\<And>d. (engine_step g R)\<^sup>*\<^sup>* d (tr_finishing (br_trip run) d)" "\<And>d. (engine_step g R)\<^sup>*\<^sup>* d (tr_leaving (br_trip run) d)"
    "\<And>d. (engine_step g R)\<^sup>*\<^sup>* d (er_between er d)"
    using assms by (simp_all add: arrive_others_def trip_others_def)
  have busy: "runs_as (engine_step g R) (\<lambda>db w. (Inr (f db), db, w))" for f :: "db \<Rightarrow> json option"
    by (simp add: runs_as_def)
  show ?thesis
    unfolding barrier_arrive_def by (intro runs busy runs_arrive_owned oth)
qed


text \<open>C8. A success of \<open>connect\<close> is a merge: when a connect without a request id answers anything but a refusal,
  the task is recorded as merged in the store it leaves, whatever the others did between its sections.\<close>

theorem connect_success_is_merge:
  assumes "lawful g" and "task_keys db" and "connect_others (engine_step g R) er run"
    and "connect g R er run tid aid fn push None epoch db w = (Inr r, db', w')" and "\<not> refused r"
  shows "\<exists>sha. (tid, sha) \<in> merge_record db'"
proof -
  have oth: "attempt_others (engine_step g R) (cr_attempt run)" "\<And>d. (engine_step g R)\<^sup>*\<^sup>* d (cr_leaving run d)"
    "\<And>d. (engine_step g R)\<^sup>*\<^sup>* d (er_between er d)" "\<And>oth d. oth \<in> set (er_waits er) \<Longrightarrow> (engine_step g R)\<^sup>*\<^sup>* d (oth d)"
    using assms(3) by (simp_all add: connect_others_def)
  have "refused (split_effect_busy sha None aid verb args d)" for sha verb args d
    by (simp add: split_effect_busy_def)
  moreover have "(\<exists>d. r = split_effect_busy (g_sha g) None aid ''connect'' (connect_args tid aid fn push epoch) d) \<or>
      (\<exists>d. (engine_step g R)\<^sup>*\<^sup>* db d \<and> proc_bind (recover_proc g R (er_recover er)) (\<lambda>_.
         proc_bind (meanwhile (er_between er)) (\<lambda>_. connect_owned g R run tid aid fn push None epoch)) d w = (Inr r, db', w'))"
    by (rule effect_lock_Inr [where waits = "er_waits er" and owns = "er_owns er"])
      (use assms(4) oth(4) in \<open>simp_all add: connect_def\<close>)
  ultimately obtain d where d: "(engine_step g R)\<^sup>*\<^sup>* db d" and m: "proc_bind (recover_proc g R (er_recover er)) (\<lambda>_.
         proc_bind (meanwhile (er_between er)) (\<lambda>_. connect_owned g R run tid aid fn push None epoch)) d w = (Inr r, db', w')"
    using assms(5) by blast
  obtain u e v where rec: "recover_proc g R (er_recover er) d w = (Inr u, e, v)"
    and own: "connect_owned g R run tid aid fn push None epoch (er_between er e) v = (Inr r, db', w')"
    using m by (auto simp: bind_Inr [of "recover_proc g R (er_recover er)"] bind_Inr [of "meanwhile _"] meanwhile_Inr)
  have "(engine_step g R)\<^sup>*\<^sup>* db (er_between er e)" using d recover_Inr [OF rec] oth(3) by (meson rtranclp_trans)
  then have "task_keys (er_between er e)" using merges_kept [OF assms(1,2)] by blast
  then have "recorded tid db'" by (rule owned_records [OF assms(1) own assms(5) _ oth(1,2)])
  then show ?thesis by (simp add: recorded_def)
qed

lemma arrive_at_answer:
  assumes "arrive_at g now b nm aid tid cap db = Inr (sl, plan, d)"
  shows "case plan of
      None \<Rightarrow> \<forall>r. slot_response sl = Some r \<longrightarrow> dict_get ''merged'' r = None
    | Some steps \<Rightarrow> slot_response sl = None \<and> (\<exists>e. barriers e = barriers db \<and> barrier_eval g now (b_barrier_id b) True e = Inr (Some steps, d))"
proof -
  define e where "e = set_barrier_party (b_barrier_id b) (b_generation b) tid
            (\<lambda>p. p\<lparr>p_arrived := True, p_arrive_fence := Some cap, p_agent_id := Some aid\<rparr>) db"
  have "barriers e = barriers db" by (simp add: e_def set_barrier_party_def)
  then show ?thesis
    using assms
    by (auto simp: arrive_at_def Let_def slot_response_def slot_set_def slot_return_def broken_response_def simp flip: e_def
        elim!: bind_resE split: option.splits if_splits)
qed

lemma arrive_after_answer:
  assumes "arrive_after_sweep g now nm aid tid fn epoch db = Inr (sl, plan, d)"
  shows "(plan = None \<and> (\<forall>r. slot_response sl = Some r \<longrightarrow> dict_get ''merged'' r = None)) \<or>
    (\<exists>b cap. barrier_by_name nm db = Some b \<and> arrive_at g now b nm aid tid cap db = Inr (sl, plan, d))"
proof -
  have dead: "dict_get ''merged'' r = None" if "check_alive (Some aid) epoch db = Some r" for r
    using that by (auto simp: check_alive_def ok_false_def split: option.splits if_splits)
  show ?thesis
    using assms dead
    by (auto simp: arrive_after_sweep_def slot_response_def slot_set_def slot_return_def ok_false_def broken_response_def
        split: option.splits if_splits)
qed


section \<open>A connect and a trip, step by step\<close>

definition alone_attempt :: attempt_run where
  "alone_attempt = \<lparr>ar_waiting = id, ar_first = (2, 2), ar_again = [], ar_merging = id, ar_commit = 3\<rparr>"

definition alone_effect :: effect_run where
  "alone_effect = \<lparr>er_waits = [], er_owns = True, er_recover = 1, er_between = id\<rparr>"

definition alone_connect :: connect_run where
  "alone_connect = \<lparr>cr_reserve = 2, cr_attempt = alone_attempt, cr_leaving = id, cr_answer = 3\<rparr>"

definition alone_arrive :: arrive_run where
  "alone_arrive = \<lparr>br_section = 2, br_trip = \<lparr>tr_attempts = (\<lambda>_. alone_attempt), tr_finishing = id, tr_leaving = id, tr_answer = 4\<rparr>\<rparr>"

lemma alone_others: "connect_others S alone_effect alone_connect" "arrive_others S alone_effect alone_arrive"
  by (simp_all add: connect_others_def arrive_others_def trip_others_def attempt_others_def alone_attempt_def alone_effect_def
      alone_connect_def alone_arrive_def)

lemma sample_connect:
  "case connect digest_config sample_merge_repo alone_effect alone_connect ''T'' (Some ''a'') (Some 1) None None None finished_store () of
     (Inr r, db', w) \<Rightarrow> \<not> refused r | _ \<Rightarrow> False"
  by code_simp

definition barrier_store :: db where
  "barrier_store = snd (barrier_declare 1 ''m'' [''T''] ''connect'' ''break'' None finished_store)"

lemma sample_arrive:
  "case barrier_arrive digest_config sample_merge_repo (\<lambda>_. []) alone_effect alone_arrive ''m'' ''a'' ''T'' (Some 1) None None barrier_store () of
     (Inr (Some r), db', w) \<Rightarrow> \<not> refused r \<and> dict_get ''merged'' r \<noteq> None | _ \<Rightarrow> False"
  by code_simp

lemma finished_store_alone:
  obtains r db' w' where "connect digest_config sample_merge_repo alone_effect alone_connect ''T'' (Some ''a'') (Some 1) None None None
      finished_store () = (Inr r, db', w')" "\<not> refused r"
proof -
  obtain x db' w' where run: "connect digest_config sample_merge_repo alone_effect alone_connect ''T'' (Some ''a'') (Some 1) None None None
      finished_store () = (x, db', w')"
    by (metis prod.exhaust)
  then show ?thesis using that sample_connect by (cases x) auto
qed


lemma connect_success_is_merge_witness:
  "\<exists>r db' w' sha. connect digest_config sample_merge_repo alone_effect alone_connect ''T'' (Some ''a'') (Some 1) None None None finished_store () =
     (Inr r, db', w') \<and> (''T'', sha) \<in> merge_record db'"
proof -
  obtain r db' w' where run: "connect digest_config sample_merge_repo alone_effect alone_connect ''T'' (Some ''a'') (Some 1) None None None
      finished_store () = (Inr r, db', w')" and ok: "\<not> refused r"
    by (rule finished_store_alone)
  from connect_success_is_merge [OF digest_config_lawful finished_store_keys alone_others(1) run ok] run show ?thesis by blast
qed

lemma barrier_store_keys: "task_keys barrier_store"
  by (simp add: barrier_store_def barrier_declare_def Let_def active_barrier_def barrier_by_name_def add_parties_def add_barrier_def
      add_barrier_party_def finished_store_def empty_db_def task_keys_def)

lemma barrier_store_trip:
  obtains r db' w' where "barrier_arrive digest_config sample_merge_repo (\<lambda>_. []) alone_effect alone_arrive ''m'' ''a'' ''T'' (Some 1) None None
      barrier_store () = (Inr (Some r), db', w')" "\<not> refused r" "dict_get ''merged'' r \<noteq> None"
proof -
  obtain x db' w' where run: "barrier_arrive digest_config sample_merge_repo (\<lambda>_. []) alone_effect alone_arrive ''m'' ''a'' ''T'' (Some 1) None None
      barrier_store () = (x, db', w')"
    by (metis prod.exhaust)
  show ?thesis using that run sample_arrive by (cases x; cases "case x of Inr y \<Rightarrow> y | Inl e \<Rightarrow> None") (auto split: option.splits)
qed


end
