(* ===== verification/Waiting.thy ===== *)
theory Waiting
  imports Polls TaskFrames
begin

text \<open>
  What the polls of \<open>omd_server/_sems.py\<close> and \<open>omd_server/_flags.py\<close> answer. The sweep deletes no waiter and
  moves no deadline; a poll that answers WAITING has a reason; and an answer WAITING of \<open>acquire\<close> is kept
  for its request.
\<close>

section \<open>The sweep keeps the waiters\<close>

interpretation waiters: onlooker seats
  by unfold_locales

lemma seats_reclaim_tasks: "reclaim_tasks g ts db = Inr (l, db') \<Longrightarrow> seats db' = seats db"
proof (induction ts arbitrary: db l)
  case (Cons t ts)
  have "reclaim_task g t d = Inr (l1, d') \<Longrightarrow> seats d' = seats d" for d l1 d'
    by (auto simp: reclaim_task_def Let_def bind_res_Inr_iff set_task_def seats_def split: if_splits)
  then show ?case using Cons by (auto simp: bind_res_Inr_iff)
qed simp

lemma seats_reclaim_core:
  assumes "reclaim_agent_core g now v aid db = Inr (rep, db')"
  shows "seats db' = seats db"
proof (cases "\<exists>a. get_agent aid db = Some a \<and> a_state a \<noteq> ''RETIRED''")
  case True
  then obtain a where a: "get_agent aid db = Some a" "a_state a \<noteq> ''RETIRED''" by blast
  define d0 where "d0 = bump_bail_epoch aid (set_agent_state aid (if v then ''BAILING'' else ''ZOMBIE'') db)"
  obtain sems freed evs d1 log d2 d3 final n m p d4 where
    d1: "reclaim_holdings g now v aid d0 = Inr (sems, freed, evs, d1)"
    and d2: "reclaim_tasks g (tasks_for_agent aid d1) d1 = Inr (log, d2)"
    and d3: "for_rows (evaluate_barrier g now) (affected_barriers (tasks_for_agent aid d1) d1) d2 = Inr d3"
    and d4: "enqueue_agent_reclaimed g now aid final v n m p evs (set_agent_state aid ''RETIRED'' d3) = Inr d4"
    and db': "promote_sems g now sems d4 = db'"
    using reclaim_core_steps [OF assms(1) a, folded d0_def] by (elim exE conjE) (rule that)
  show ?thesis
    using waiters.tables_holdings [OF d1] seats_reclaim_tasks [OF d2]
      waiters.tables_for_rows [OF d3 waiters.tables_evaluate_barrier] waiters.tables_reclaimed [OF d4]
    by (simp add: db' [symmetric] d0_def)
next
  case False
  then show ?thesis using assms by (auto simp: reclaim_agent_core_def split: option.splits if_splits)
qed

lemma seats_reclaim_agent: "reclaim_agent g now v pr aid db = Inr (rep, db') \<Longrightarrow> seats db' = seats db"
  by (auto simp: reclaim_agent_def bind_res_Inr_iff split: if_splits
      dest!: seats_reclaim_core waiters.tables_no_reclaim)

lemma seats_reclaim_stale: "reclaim_stale g now pr as db = Inr (out, db') \<Longrightarrow> seats db' = seats db"
proof (induction as arbitrary: db out)
  case (Cons a as)
  then show ?case by (auto simp: bind_res_Inr_iff split: if_splits dest!: seats_reclaim_agent)
qed simp

lemma seats_sweep:
  assumes "sweep_inline g now db = Inr db'"
  shows "seats db' = seats db"
proof -
  obtain d1 d2 d3 d4 where d1: "reconcile_admission g now db = Inr d1"
    and d2: "for_rows (reclaim_flag_lease g no_set) (due_flag_leases now d1) d1 = Inr d2"
    and d3: "expire_permits g now d2 = Inr d3"
    and d4: "for_rows (\<lambda>b. evaluate_barrier g now (b_barrier_id b)) (all_barriers [''ARMED''] d3) d3 = Inr d4"
    and db': "db' = collect_terminal g now (collect_idem g now d4)"
    using assms by (auto simp: sweep_inline_def bind_res_Inr_iff)
  obtain e1 out e2 where e: "expire_due g now db = Inr e1" "reclaim_zombies_inline g now False e1 = Inr (out, e2)"
    "settle_queue g now e2 = Inr d1"
    using d1 by (auto simp: reconcile_admission_def bind_res_Inr_iff)
  have "seats d1 = seats db"
    using waiters.tables_settle_queue [OF e(3)] waiters.tables_expire [OF e(1)] e(2) seats_reclaim_stale
    by (auto simp: reclaim_zombies_inline_def split: if_splits)
  moreover have "seats (gc_terminal now ret d) = seats d" for ret d
    by (simp add: gc_terminal_def archive_orbits_def archive_tasks_def stamp_terminal_def seats_def)
  ultimately show ?thesis
    using waiters.tables_flag_leases [OF d2] waiters.tables_expire_permits [OF d3]
      waiters.tables_for_rows [OF d4 waiters.tables_evaluate_barrier]
    by (simp add: db' collect_terminal_def split: option.split)
qed

lemma seats_row:
  assumes "seats db' = seats db" and "get_sem_waiter wid db = Some w"
  obtains w' where "get_sem_waiter wid db' = Some w'" "sw_sem_id w' = sw_sem_id w" "sw_deadline w' = sw_deadline w"
proof -
  let ?k = "\<lambda>w. (sw_waiter_id w, sw_sem_id w, sw_deadline w)"
  have pick: "fetchone (filter (\<lambda>w. sw_waiter_id w = wid) ws) = Some a \<Longrightarrow> map ?k us = map ?k ws \<Longrightarrow>
      \<exists>b. fetchone (filter (\<lambda>w. sw_waiter_id w = wid) us) = Some b \<and> ?k b = ?k a" for ws us a
    by (induction ws arbitrary: us) (auto simp: Cons_eq_map_conv map_eq_Cons_conv split: if_splits)
  show thesis
    using pick [of "sem_waiters db" w "sem_waiters db'"] assms that by (auto simp: get_sem_waiter_def seats_def)
qed

section \<open>What a poll answers\<close>

lemma granted_state: "dict_get ''state'' (granted_response w db) = Some (JStr ''ACQUIRED'')"
  by (simp add: granted_response_def Let_def)

text \<open>The poll cannot meet the missing row: the sweep deletes no waiter.\<close>

lemma acquire_poll_total: "sweep_inline g now db = Inr d \<Longrightarrow> \<exists>r db'. acquire_poll g now wid db = Inr (r, db')"
proof (cases "get_sem_waiter wid db")
  case (Some w)
  assume sweep: "sweep_inline g now db = Inr d"
  have "seats (promote_sem_waiters g now (sw_sem_id w) d) = seats db"
    using seats_sweep [OF sweep] by simp
  then obtain w' where "get_sem_waiter wid (promote_sem_waiters g now (sw_sem_id w) d) = Some w'"
    by (rule seats_row [OF _ Some])
  then show ?thesis using sweep by (auto simp: acquire_poll_def Some Let_def)
qed (simp add: acquire_poll_def)

lemma set_sem_waiter_rows:
  "x \<in> set (sem_waiters (set_sem_waiter wid st p db)) \<Longrightarrow> sw_state x = st \<and> sw_waiter_id x = wid \<or>
     x \<in> set (sem_waiters db) \<and> sw_waiter_id x \<noteq> wid"
  by (auto simp: set_sem_waiter_def set_update_where split: if_splits)

text \<open>A promotion stops because the permits are used up, or has granted every waiter it looked at.\<close>

lemma promote_loop_serves:
  "limit \<le> int (count_active_permits sem (promote_loop g now sem limit ws db)) \<or>
     (\<forall>x\<in>set (sem_waiters (promote_loop g now sem limit ws db)).
        sw_state x = ''GRANTED'' \<or> sw_waiter_id x \<notin> sw_waiter_id ` set ws \<and> x \<in> set (sem_waiters db))"
proof (induction ws arbitrary: db)
  case (Cons w ws)
  show ?case
  proof (cases "limit \<le> int (count_active_permits sem db)")
    case False
    obtain p d where step: "promote_loop g now sem limit (w # ws) db =
        promote_loop g now sem limit ws (set_sem_waiter (sw_waiter_id w) ''GRANTED'' p d)"
      and d: "sem_waiters d = sem_waiters db"
    proof (cases "active_permit_for sem (sw_agent_id w) db")
      case None
      obtain r pid d where grant: "grant_permit g now (sw_agent_id w) sem (sw_ttl w) db = (r, pid, d)"
        by (metis prod.exhaust)
      show thesis by (rule that [of "Some (Some pid)" d]) (use False None grant in \<open>simp_all add: sem_waiters_grant\<close>)
    next
      case (Some q)
      show thesis by (rule that [of "Some (Some (orbit_id q))" db]) (use False Some in simp_all)
    qed
    show ?thesis
      using Cons.IH [of "set_sem_waiter (sw_waiter_id w) ''GRANTED'' p d"]
      unfolding step by (fastforce dest: set_sem_waiter_rows simp: d)
  qed simp
qed simp

lemma waiting_after_promotion:
  assumes "get_semaphore sem (promote_sem_waiters g now sem db) = Some s"
    and "x \<in> set (sem_waiters (promote_sem_waiters g now sem db))" and "sw_state x = ''WAITING''" and "sw_sem_id x = sem"
  shows "s_max_permits s \<le> int (count_active_permits sem (promote_sem_waiters g now sem db))"
proof (cases "get_semaphore sem db")
  case None
  then show ?thesis using assms(1) by (simp add: promote_sem_waiters_def)
next
  case (Some s')
  let ?ws = "waiting_sem_waiters sem db"
  have run: "promote_sem_waiters g now sem db = promote_loop g now sem (s_max_permits s') ?ws db"
    by (simp add: promote_sem_waiters_def Some)
  have "s' = s" using assms(1) Some semaphores_promote by (simp add: run get_semaphore_def)
  moreover have False
    if "sw_waiter_id x \<notin> sw_waiter_id ` set ?ws" "x \<in> set (sem_waiters db)"
    using that assms(3,4) by (auto simp: waiting_sem_waiters_def)
  ultimately show ?thesis
    using promote_loop_serves [of "s_max_permits s'" sem g now ?ws db] assms(2,3) unfolding run by auto
qed

text \<open>C1. A poll answers WAITING only with reason: the deadline of the registration is in the future, and
  either every permit of the semaphore is in use or the sweep of this very poll has cancelled the waiter.
  So a client that polls ends: it is granted as soon as a permit is free for it, and after its deadline
  it is told something else.\<close>

theorem waiting_poll_has_reason:
  assumes "acquire_poll g now wid db = Inr (r, db')" and "dict_get ''state'' r = Some (JStr ''WAITING'')"
  shows "\<exists>w w'. get_sem_waiter wid db = Some w \<and> get_sem_waiter wid db' = Some w' \<and> now < sw_deadline w \<and>
    (sw_state w' = ''WAITING'' \<and> (\<forall>s. get_semaphore (sw_sem_id w) db' = Some s \<longrightarrow>
        s_max_permits s \<le> int (count_active_permits (sw_sem_id w) db')) \<or>
     sw_state w' \<notin> {''WAITING'', ''GRANTED''})"
proof -
  obtain w where w: "get_sem_waiter wid db = Some w" "sw_state w = ''WAITING''"
    using assms by (auto simp: acquire_poll_def granted_state ok_false_def split: option.splits if_splits)
  obtain d where d: "sweep_inline g now db = Inr d"
    using assms(1) w by (auto simp: acquire_poll_def bind_res_Inr_iff)
  let ?e = "promote_sem_waiters g now (sw_sem_id w) d"
  have "seats ?e = seats db" using seats_sweep [OF d] by simp
  then obtain w' where w': "get_sem_waiter wid ?e = Some w'" "sw_sem_id w' = sw_sem_id w" "sw_deadline w' = sw_deadline w"
    by (rule seats_row [OF _ w(1)])
  have "db' = ?e" "now < sw_deadline w" "sw_state w' \<noteq> ''GRANTED''"
    using assms w d w' by (auto simp: acquire_poll_def Let_def granted_state split: if_splits)
  moreover have "w' \<in> set (sem_waiters ?e)"
    using w'(1) by (auto simp: get_sem_waiter_def dest: fetchone_filter_Some)
  ultimately show ?thesis
    using w(1) w'(1,2) waiting_after_promotion [of "sw_sem_id w" g now d _ w'] by auto
qed

lemma flag_poll_reason:
  assumes "flag_wait_poll g now wid db = Inr (r, db')" and "dict_get ''state'' r = Some (JStr ''WAITING'')"
  shows "\<exists>w. get_flag_waiter wid db = Some w \<and> now < fw_deadline w \<and> \<not> flag_broken (get_flag_row (fw_key w) db') \<and>
    \<not> flag_satisfied (get_flag_row (fw_key w) db') (fw_want_value w)"
  using assms
  by (auto simp: flag_wait_poll_def Let_def bind_res_Inr_iff ok_false_def split: option.splits if_splits)

section \<open>A queued request\<close>

lemma finished_row:
  assumes "finish_idem_exact now rid aid verb h v db = (True, db')"
  shows "\<exists>i\<in>set (idempotency db'). same_envelope rid aid verb h i \<and> i_status i = ''DONE'' \<and> i_response i = Some v"
proof -
  let ?p = "\<lambda>i. same_envelope rid aid verb h i \<and> i_status i = ''INFLIGHT''"
  obtain i where "filter ?p (idempotency db) = [i]"
    using assms by (auto simp: finish_idem_exact_def update_exact_def length_Suc_conv)
  then have i: "i \<in> set (idempotency db)" "same_envelope rid aid verb h i" "i_status i = ''INFLIGHT''"
    by (auto simp: filter_eq_Cons_iff)
  have "i\<lparr>i_status := ''DONE'', i_response := Some v, i_completed_at := Some now\<rparr> \<in> set (idempotency db')"
    using assms i by (auto simp: finish_idem_exact_def update_exact_def set_update_where)
  then show ?thesis using i by (intro bexI) (auto simp: same_envelope_def)
qed

text \<open>A success of a body that fills the slot is cached under the envelope of its request.\<close>

lemma success_cached:
  assumes "with_idem sha now (Some rid) aid verb args body db = Inr (Some r, db')" and "is_success r" and "idem_keys db'"
    and slot: "\<And>d sl d'. body d = Inr (sl, d') \<Longrightarrow> \<exists>v. sl = slot_set v"
  shows "\<exists>i r0. get_idem rid db' = Some i \<and> same_envelope rid aid verb (arg_hash sha verb args) i \<and>
    i_status i = ''DONE'' \<and> i_response i = Some r0 \<and> replayed r0 = replayed r"
proof (cases "idem_enter sha now rid aid verb args db")
  case (Hit v)
  then have "v = r" "db' = db" using assms(1) by (simp_all add: with_idem_def)
  then obtain i r0 where i: "get_idem rid db' = Some i" "same_envelope rid aid verb (arg_hash sha verb args) i"
    "i_status i = ''DONE''" "i_response i = Some r0" "r = replayed r0"
    using hit_success [OF Hit] assms(2) by blast
  then show ?thesis using i by simp
next
  case (Run d1)
  then obtain sl d2 where body: "body d1 = Inr (sl, d2)" and leave: "idem_leave sha now rid aid verb args sl d2 = Inr db'"
    and resp: "slot_response sl = Some r"
    using assms(1) by (auto simp: with_idem_def bind_res_Inr_iff)
  obtain v where "sl = slot_set v" using slot [OF body] by blast
  then have sl: "sl = slot_set r" using resp by (simp add: slot_response_def slot_set_def)
  have "finish_idem_exact now rid aid verb (arg_hash sha verb args) r d2 = (True, db')"
    using leave assms(2) by (auto simp: sl slot_set_def idem_leave_def Let_def split: prod.splits if_splits)
  from finished_row [OF this] obtain i where "i \<in> set (idempotency db')" "same_envelope rid aid verb (arg_hash sha verb args) i"
    "i_status i = ''DONE''" "i_response i = Some r" by blast
  then show ?thesis using assms(3) by (auto simp: get_idem_iff dest: same_envelope_request)
next
  case (Raise e)
  then show ?thesis using assms(1) by (simp add: with_idem_def)
qed

lemma replayed_state: "is_success r \<Longrightarrow> dict_get ''state'' r = Some s \<Longrightarrow> dict_get ''state'' (replayed r) = Some s"
  by (cases r) (auto simp: replayed_def)

lemma acquire_slot:
  "bind_res (sweep_inline g now d) (\<lambda>db. let (r, db) = acquire_after_sweep g now aid sem ttl nw prio epoch db in Inr (slot_set r, db)) =
     Inr (sl, d') \<Longrightarrow> \<exists>v. sl = slot_set v"
  by (auto elim!: bind_resE split: prod.splits)

text \<open>C1. A queued acquire stays queued for its request: once \<open>acquire\<close> has answered WAITING, the same
  request is answered WAITING from the cache, whatever has become of the waiter in between. The answer
  carries \<open>ok\<close> and counts as a success, although the comment in the code says that it is filtered out and
  never cached.\<close>

theorem queued_acquire_is_replayed:
  assumes "acquire g now aid sem ttl nw prio (Some rid) epoch db = Inr (Some r, db')" and "idem_keys db'"
    and "is_success r" and "dict_get ''state'' r = Some (JStr ''WAITING'')"
    and "get_idem rid later = get_idem rid db'" and "namespace_free rid (Some aid) ''acquire'' later"
  shows "acquire g now' aid sem ttl nw prio (Some rid) epoch' later = Inr (Some (replayed r), later) \<and>
    dict_get ''state'' (replayed r) = Some (JStr ''WAITING'')"
proof -
  obtain i r0 where "get_idem rid db' = Some i"
    "same_envelope rid (Some aid) ''acquire'' (arg_hash (g_sha g) ''acquire''
      (JList [JStr aid, JStr sem, case ttl of None \<Rightarrow> JNull | Some t \<Rightarrow> JFloat (Fin t), JBool nw, JInt prio])) i"
    "i_status i = ''DONE''" "i_response i = Some r0" "replayed r0 = replayed r"
    using success_cached [OF assms(1) [unfolded acquire_def] assms(3,2)] acquire_slot by blast
  then have "acquire g now' aid sem ttl nw prio (Some rid) epoch' later = Inr (Some (replayed r), later)"
    using replay_entry [OF _ _ _ _ assms(6)] assms(5) by (simp add: acquire_def with_idem_def)
  then show ?thesis using replayed_state [OF assms(3,4)] by simp
qed

section \<open>Examples\<close>

text \<open>One permit: \<open>a\<close> holds it, \<open>b\<close> is queued under the request \<open>r1\<close>, and \<open>a\<close> gives it back.\<close>

definition queued :: "json \<times> db" where
  "queued = (case acquire sample_config 2 ''b'' ''gpu'' (Some 300) False 0 (Some ''r1'') None (fst (snd sem_demo)) of
     Inr (Some r, db) \<Rightarrow> (r, db) | _ \<Rightarrow> (JNull, empty_db))"

definition handed_over :: db where
  "handed_over = (case sem_release sample_config 5 ''orb-0'' ''a'' (Some 1) None None (snd queued) of
     Inr (r, db) \<Rightarrow> db | _ \<Rightarrow> empty_db)"

lemma queued_run: "acquire sample_config 2 ''b'' ''gpu'' (Some 300) False 0 (Some ''r1'') None (fst (snd sem_demo)) =
  Inr (Some (fst queued), snd queued)"
  by code_simp

lemma queued_acquire_is_replayed_witness:
  "acquire sample_config 9 ''b'' ''gpu'' (Some 300) False 0 (Some ''r1'') None handed_over =
     Inr (Some (replayed (fst queued)), handed_over) \<and>
   dict_get ''state'' (replayed (fst queued)) = Some (JStr ''WAITING'') \<and>
   map_option agent_id (active_permit_for ''gpu'' ''b'' handed_over) = Some ''b''"
proof -
  have "acquire sample_config 9 ''b'' ''gpu'' (Some 300) False 0 (Some ''r1'') None handed_over =
      Inr (Some (replayed (fst queued)), handed_over) \<and> dict_get ''state'' (replayed (fst queued)) = Some (JStr ''WAITING'')"
  proof (rule queued_acquire_is_replayed [OF queued_run])
    show "idem_keys (snd queued)" by code_simp
    show "is_success (fst queued)" by code_simp
    show "dict_get ''state'' (fst queued) = Some (JStr ''WAITING'')" by code_simp
    show "get_idem ''r1'' handed_over = get_idem ''r1'' (snd queued)" by code_simp
    show "namespace_free ''r1'' (Some ''b'') ''acquire'' handed_over" by code_simp
  qed
  moreover have "map_option agent_id (active_permit_for ''gpu'' ''b'' handed_over) = Some ''b''" by code_simp
  ultimately show ?thesis by blast
qed

lemma queued_poll: "\<exists>r db'. acquire_poll sample_config 3 ''sw-1'' (snd queued) = Inr (r, db') \<and>
    dict_get ''state'' r = Some (JStr ''WAITING'')"
proof -
  have "(case acquire_poll sample_config 3 ''sw-1'' (snd queued) of Inr (r, db') \<Rightarrow> dict_get ''state'' r = Some (JStr ''WAITING'') | _ \<Rightarrow> False)"
    by code_simp
  then show ?thesis by (auto split: sum.splits)
qed

lemma waiting_poll_has_reason_witness:
  "\<exists>r db' w. acquire_poll sample_config 3 ''sw-1'' (snd queued) = Inr (r, db') \<and>
     get_sem_waiter ''sw-1'' (snd queued) = Some w \<and> 3 < sw_deadline w"
proof -
  obtain r db' where poll: "acquire_poll sample_config 3 ''sw-1'' (snd queued) = Inr (r, db')"
    "dict_get ''state'' r = Some (JStr ''WAITING'')"
    using queued_poll by blast
  show ?thesis using waiting_poll_has_reason [OF poll] poll(1) by blast
qed

text \<open>The row of a waiter whose agent the sweep of the poll reclaims is CANCELLED, and the poll answers
  WAITING with \<open>ok\<close>: after its sweep it looks for GRANTED only.\<close>

lemma cancelled_waiter_is_told_to_wait:
  "(case acquire_poll sample_config 93 ''sw-1'' (snd (heartbeat sample_config 50 ''a'' None (snd queued))) of
      Inr (r, db') \<Rightarrow> dict_get ''ok'' r = Some (JBool True) \<and> dict_get ''state'' r = Some (JStr ''WAITING'') \<and>
        map_option sw_state (get_sem_waiter ''sw-1'' db') = Some ''CANCELLED''
    | Inl e \<Rightarrow> False)"
  by code_simp

end
