(* ===== verification/Deadlock.thy ===== *)
theory Deadlock
  imports Exclusion
begin

text \<open>
  The deadlock gate of \<open>Scheduler\<close>: the loop that denies queued requests ends and leaves a wait-for graph
  without cycles, and the test of a new request is exactly whether its agent is on a cycle.
\<close>

declare cycle_dfs.simps [simp del] deny_cycles_loop.simps [simp del]

section \<open>The search from one node\<close>

fun graph_walk :: "graph \<Rightarrow> string \<Rightarrow> string list \<Rightarrow> string \<Rightarrow> bool" where
  "graph_walk g a [] b \<longleftrightarrow> (a, b) \<in> graph_edges g"
| "graph_walk g a (x # xs) b \<longleftrightarrow> (a, x) \<in> graph_edges g \<and> graph_walk g x xs b"

lemma graph_walk_suffix: "graph_walk g a (ys @ c # zs) b \<Longrightarrow> graph_walk g c zs b"
  by (induction ys arbitrary: a) auto

lemma trancl_walk:
  assumes "(a, b) \<in> (graph_edges g)\<^sup>+"
  shows "\<exists>xs. graph_walk g a xs b \<and> distinct xs \<and> b \<notin> set xs \<and> a \<notin> set xs"
  using assms
proof (induction rule: converse_trancl_induct)
  case (base a)
  then show ?case by (intro exI [of _ "[]"]) simp
next
  case (step a c)
  then obtain xs where xs: "graph_walk g c xs b" "distinct xs" "b \<notin> set xs" "c \<notin> set xs" by blast
  consider "c = b" | "a \<in> set (c # xs)" "c \<noteq> b" | "a \<notin> set (c # xs)" "c \<noteq> b" by blast
  then show ?case
  proof cases
    case 1
    then show ?thesis using step(1) by (intro exI [of _ "[]"]) simp
  next
    case 2
    then obtain ys zs where split: "c # xs = ys @ a # zs" by (meson split_list)
    have "graph_walk g a (c # xs) b" using xs(1) step(1) by simp
    then have "graph_walk g a zs b" unfolding split by (rule graph_walk_suffix)
    moreover have "distinct (ys @ a # zs)" "b \<notin> set (ys @ a # zs)"
      using xs 2(2) unfolding split [symmetric] by auto
    ultimately show ?thesis by (intro exI [of _ zs]) auto
  next
    case 3
    then show ?thesis using xs step(1) by (intro exI [of _ "c # xs"]) auto
  qed
qed

lemma cycle_dfs_complete:
  "graph_walk g n xs node \<Longrightarrow> distinct xs \<Longrightarrow> node \<notin> set xs \<Longrightarrow> set xs \<inter> set path = {} \<Longrightarrow> cycle_dfs g node n path"
proof (induction xs arbitrary: n path)
  case Nil
  then show ?case by (subst cycle_dfs.simps) (auto simp: list_ex_iff graph_edges_def)
next
  case (Cons x xs)
  have "x \<in> set (graph_succs g n)" "x \<noteq> node" "x \<notin> set path" using Cons.prems by (auto simp: graph_edges_def)
  moreover have "cycle_dfs g node x (x # path)" by (rule Cons.IH) (use Cons.prems in auto)
  ultimately show ?case by (subst cycle_dfs.simps) (auto simp: list_ex_iff)
qed

lemma cycle_dfs_sound: "cycle_dfs g node n path \<Longrightarrow> (n, node) \<in> (graph_edges g)\<^sup>+"
proof (induction g node n path rule: cycle_dfs.induct)
  case (1 g node n path)
  obtain m where m: "m \<in> set (graph_succs g n)" "if m = node then True else if m \<in> set path then False
      else cycle_dfs g node m (m # path)"
    using 1(2) by (subst (asm) cycle_dfs.simps) (auto simp: list_ex_iff)
  have edge: "(n, m) \<in> graph_edges g" using m(1) by (simp add: graph_edges_def)
  show ?case
  proof (cases "m = node")
    case True
    then show ?thesis using edge by blast
  next
    case False
    then have "(m, node) \<in> (graph_edges g)\<^sup>+" using 1(1) [OF m(1) False] m(2) by (auto split: if_splits)
    then show ?thesis using edge by (rule trancl_into_trancl2 [rotated])
  qed
qed

lemma cycle_dfs_exact: "cycle_dfs g node node [node] \<longleftrightarrow> (node, node) \<in> (graph_edges g)\<^sup>+"
proof
  assume "(node, node) \<in> (graph_edges g)\<^sup>+"
  from trancl_walk [OF this] show "cycle_dfs g node node [node]" by (auto intro: cycle_dfs_complete)
qed (rule cycle_dfs_sound)

section \<open>The sources of an edge are queued rows\<close>

definition queued_sources :: "db \<Rightarrow> wait_graph \<Rightarrow> bool" where
  "queued_sources db w \<longleftrightarrow> snd ` set (snd w) \<subseteq> orbit_id ` set (pending_orbits db)"

lemma add_blocker_sources:
  "queued_sources db w \<Longrightarrow> p \<in> set (pending_orbits db) \<Longrightarrow> queued_sources db (add_blocker rows p b w)"
  by (auto simp: queued_sources_def add_blocker_def Let_def)

lemma fold_blocker_sources:
  "queued_sources db w \<Longrightarrow> p \<in> set (pending_orbits db) \<Longrightarrow> queued_sources db (fold (add_blocker rows p) bs w)"
proof (induction bs arbitrary: w)
  case (Cons b bs)
  then show ?case using add_blocker_sources by simp
qed simp

lemma wait_for_rows_sources:
  "wait_for_rows g now db ps w = Inr w' \<Longrightarrow> queued_sources db w \<Longrightarrow> set ps \<subseteq> set (pending_orbits db) \<Longrightarrow>
    queued_sources db w'"
proof (induction ps arbitrary: w)
  case (Cons p ps)
  then obtain w1 where w1: "wait_for_row g now db p w = Inr w1" and rest: "wait_for_rows g now db ps w1 = Inr w'"
    by (auto simp: bind_res_Inr_iff)
  have "queued_sources db w1"
    using w1 Cons.prems by (auto simp: wait_for_row_def bind_res_Inr_iff split: if_splits intro: fold_blocker_sources)
  then show ?case using Cons.IH [OF rest] Cons.prems(3) by simp
qed simp

lemma wait_for_sources: "wait_for g now db = Inr w \<Longrightarrow> queued_sources db w"
  unfolding wait_for_def by (rule wait_for_rows_sources) (auto simp: queued_sources_def)

section \<open>The loop\<close>

lemma cycle_victim_mem: "cycle_victim cands = Some v \<Longrightarrow> v \<in> set cands"
proof -
  have "foldl (\<lambda>a b. if victim_key a < victim_key b then b else a) c cs \<in> insert c (set cs)" for c cs
  proof (induction cs arbitrary: c)
    case (Cons a cs)
    then show ?case using Cons.IH [of a] Cons.IH [of c] by auto
  qed simp
  then show "cycle_victim cands = Some v \<Longrightarrow> v \<in> set cands"
    by (auto simp: cycle_victim_def split: list.splits)
qed

lemma victim_queued:
  assumes "wait_for g now db = Inr w" and "cycle_victim (pending_candidates (cycle_sources w cyc) db) = Some v"
  shows "\<exists>p\<in>set (pending_orbits db). orbit_id p = orbit_id v"
proof -
  have "v \<in> set (pending_candidates (cycle_sources w cyc) db)" by (rule cycle_victim_mem [OF assms(2)])
  then obtain i where i: "i \<in> set (cycle_sources w cyc)" "get_orbit i db = Some v"
    by (auto simp: pending_candidates_def List.map_filter_def)
  have "i \<in> snd ` set (snd w)" using i(1) by (auto simp: cycle_sources_def)
  then have "i \<in> orbit_id ` set (pending_orbits db)" using wait_for_sources [OF assms(1)] by (auto simp: queued_sources_def)
  moreover have "orbit_id v = i" using i(2) fetchone_filter_Some by (fastforce simp: get_orbit_def)
  ultimately show ?thesis by auto
qed

lemma length_filter_update:
  assumes "x \<in> set xs" and "p x" and "q x" and "\<And>y. q y \<Longrightarrow> \<not> p (f y)"
  shows "length (filter p (update_where q f xs)) < length (filter p xs)"
  using assms(1)
proof (induction xs)
  case (Cons y ys)
  have le: "length (filter p (update_where q f zs)) \<le> length (filter p zs)" for zs
    using assms(4) by (induction zs) (auto simp: update_where_def)
  show ?case
  proof (cases "y = x")
    case True
    then show ?thesis using assms(2-4) le [of ys] by (simp add: update_where_def)
  next
    case False
    then show ?thesis using Cons assms(4) by (auto simp: update_where_def)
  qed
qed simp

lemma deny_victim_shrinks:
  assumes "lawful g" and "deny_victim g now why v db = Inr db'"
    and "\<exists>p\<in>set (pending_orbits db). orbit_id p = orbit_id v"
  shows "length (pending_orbits db') < length (pending_orbits db)"
proof -
  obtain identity h variant payload d1 ctx r d u where
    d1: "admission_payload g ''PROMOTION_DENIED'' identity h variant db = Inr (payload, d1)"
    and d: "assert_admission_projection g now ctx ''PROMOTION_DENIED'' payload h (Some ''DENIED'') d1 = Inr (r, d)"
    and db': "db' = set_orbit (orbit_id v) u d" "u_state u = Some ''DENIED''"
    using assms(2) by (auto simp: deny_victim_def bind_res_Inr_iff transition_results [OF assms(1)])
  have os: "orbits d = orbits db"
    using grows_trans [OF grows_payload [OF d1] grows_projection [OF d]] by (simp add: grows_def)
  obtain p where p: "p \<in> set (pending_orbits db)" "orbit_id p = orbit_id v" using assms(3) by blast
  let ?q = "\<lambda>o'. o_state o' = ''PENDING'' \<and> o_kind o' = ''orbit''"
  have "length (filter ?q (update_where (\<lambda>a. orbit_id a = orbit_id v) (apply_set (clear_evidence u)) (orbits db)))
      < length (filter ?q (orbits db))"
    by (rule length_filter_update [where x = p]) (use p db'(2) in \<open>auto simp: pending_orbits_def\<close>)
  moreover have len: "length (pending_orbits d') = length (filter ?q (orbits d'))" for d'
    by (simp add: pending_orbits_def)
  ultimately show ?thesis unfolding len db'(1) by (simp add: set_orbit_def os)
qed

lemma deny_loop_ends:
  assumes "lawful g" and "length (pending_orbits db) < fuel"
  shows "\<exists>r. deny_cycles_loop g now why fuel db = Some r"
  using assms(2)
proof (induction fuel arbitrary: db)
  case (Suc fuel)
  show ?case
  proof (cases "wait_for g now db")
    case (Inr w)
    show ?thesis
    proof (cases "find_cycle (fst w)")
      case (Some cyc)
      show ?thesis
      proof (cases "cycle_victim (pending_candidates (cycle_sources w cyc) db)")
        case victim: (Some v)
        show ?thesis
        proof (cases "deny_victim g now why v db")
          case denied: (Inr db')
          have "length (pending_orbits db') < length (pending_orbits db)"
            by (rule deny_victim_shrinks [OF assms(1) denied]) (rule victim_queued [OF Inr victim])
          then have "length (pending_orbits db') < fuel" using Suc.prems by simp
          then show ?thesis using Suc.IH by (simp add: deny_cycles_loop.simps Inr Some victim denied)
        qed (simp add: deny_cycles_loop.simps Inr Some victim)
      qed (simp add: deny_cycles_loop.simps Inr Some)
    qed (simp add: deny_cycles_loop.simps Inr)
  qed (simp add: deny_cycles_loop.simps)
qed simp

lemma deny_loop_acyclic:
  "deny_cycles_loop g now why fuel db = Some (Inr db') \<Longrightarrow> \<exists>w. wait_for g now db' = Inr w \<and> find_cycle (fst w) = None"
proof (induction fuel arbitrary: db)
  case (Suc fuel)
  then show ?case by (auto simp: deny_cycles_loop.simps split: sum.splits option.splits)
qed (simp add: deny_cycles_loop.simps)

section \<open>What the gate promises\<close>


text \<open>C18. The test of a new request is exact: a queued request is taken for a deadlock exactly if its
  agent reaches itself in the wait-for graph of the store, over leases that block and queued requests
  that come first.\<close>

theorem cycle_test_exact:
  assumes "cycle_with g node now db = Inr b"
  shows "\<exists>w. wait_for g now db = Inr w \<and> (b \<longleftrightarrow> (node, node) \<in> (graph_edges (fst w))\<^sup>+)"
  using assms by (auto simp: cycle_with_def bind_res_Inr_iff cycle_dfs_exact)

definition sample_hold :: "nat \<Rightarrow> string \<Rightarrow> string \<Rightarrow> orbit" where
  "sample_hold k aid path = (orbit_args None aid [path] ''write'' ''HELD'')\<lparr>orbit_id := row_name k,
     fence := Some (int k + 1), o_expires_at := Some 600\<rparr>"

definition sample_wait :: "nat \<Rightarrow> string \<Rightarrow> string \<Rightarrow> orbit" where
  "sample_wait k aid path = (orbit_args None aid [path] ''write'' ''PENDING'')\<lparr>orbit_id := row_name k,
     queue_seq := Some (int k), policy_version := Some (current_version (g_sha sample_config) (g_policy sample_config)),
     enqueued_at := Some (Fin 1), o_wait_deadline := Some 600\<rparr>"

text \<open>Two agents that wait for each other.\<close>

definition crossed :: db where
  "crossed = empty_db\<lparr>orbits := [sample_hold 0 ''a'' ''src/a/**'', sample_hold 1 ''b'' ''src/b/**'',
     sample_wait 2 ''a'' ''src/b/x'', sample_wait 3 ''b'' ''src/a/x''], uuids := 4, fence_counter := 2\<rparr>"

lemma crossed_cycle: "cycle_with sample_config ''a'' 5 crossed = Inr True"
  by code_simp

lemma crossed_queue: "length (pending_orbits crossed) = 2"
  by code_simp

lemma cycle_test_exact_witness:
  "\<exists>w. wait_for sample_config 5 crossed = Inr w \<and> (''a'', ''a'') \<in> (graph_edges (fst w))\<^sup>+"
  using cycle_test_exact [OF crossed_cycle] by simp


end
